(* ===== verification/Prelude.thy ===== *)
theory Prelude
  imports Main "HOL-Library.Word" "HOL-Library.Monad_Syntax" "HOL-Library.Code_Target_Numeral"
begin

unbundle bit_operations_syntax

section \<open>Shared types, memory reads and byte orders\<close>

text \<open>
  The vocabulary every component of the development uses:

  \<^item> the C integer types that appear in the sources, as words of their width, and the
    casts between them;
  \<^item> byte buffers as lists of bytes, with checked reads and writes.  A read or a write
    outside a buffer has no meaning in C; here it is the value \<open>None\<close> of an option, so
    that a theorem \<open>f x \<noteq> None\<close> says that no access of \<open>f\<close> leaves its buffers;
  \<^item> big-endian integers read from and written to buffers, which several protocol
    parsers share;
  \<^item> C's truncating integer division.

  Collections: \<open>mem\<close> holds the rules that discharge bounds checks, \<open>bytes\<close> the round
  trips between words and their bytes.
\<close>

named_theorems mem and bytes

type_synonym u8 = "8 word"
type_synonym u16 = "16 word"
type_synonym u32 = "32 word"
type_synonym u64 = "64 word"
type_synonym buf = "u8 list"

subsection \<open>Return codes\<close>

text \<open>
  Functions that return a negative code on failure and fill an output parameter on
  success return \<open>Inl EFail\<close> or \<open>Inr\<close> of the output.
\<close>

datatype errno = EFail

type_synonym 'a ret = "errno + 'a"

abbreviation fail :: "'a ret option" where
  "fail \<equiv> Some (Inl EFail)"

abbreviation ok :: "'a \<Rightarrow> 'a ret option" where
  "ok x \<equiv> Some (Inr x)"

text \<open>Continue after a step that may have failed, as \<open>if (step() < 0) return -1;\<close>.\<close>

definition on_ok :: "'a ret option \<Rightarrow> ('a \<Rightarrow> 'b ret option) \<Rightarrow> 'b ret option" where
  "on_ok r f = (case r of None \<Rightarrow> None | Some (Inl e) \<Rightarrow> Some (Inl e) | Some (Inr x) \<Rightarrow> f x)"

lemma on_ok_simps [simp]:
  "on_ok None f = None" "on_ok fail f = fail" "on_ok (ok x) f = f x"
  by (simp_all add: on_ok_def)

lemma on_ok_ok_iff: "on_ok r f = ok y \<longleftrightarrow> (\<exists>x. r = ok x \<and> f x = ok y)"
  by (auto simp: on_ok_def split: option.splits sum.splits)

lemma on_ok_defined: "r \<noteq> None \<Longrightarrow> (\<And>x. r = ok x \<Longrightarrow> f x \<noteq> None) \<Longrightarrow> on_ok r f \<noteq> None"
  by (auto simp: on_ok_def split: option.splits sum.splits)

text \<open>The two rules by which a definition is shown not to reach an undefined access.\<close>

lemma bind_defined:
  "m \<noteq> None \<Longrightarrow> (\<And>x. m = Some x \<Longrightarrow> f x \<noteq> None) \<Longrightarrow> Option.bind m f \<noteq> None"
  by (cases m) auto

lemma bind_someI: "m = Some x \<Longrightarrow> f x \<noteq> None \<Longrightarrow> Option.bind m f \<noteq> None"
  by simp

lemma if_defined:
  "(P \<Longrightarrow> a \<noteq> None) \<Longrightarrow> (\<not> P \<Longrightarrow> b \<noteq> None) \<Longrightarrow> (if P then a else b) \<noteq> None"
  by simp

lemma Some_defined: "Some x \<noteq> None"
  by simp

lemma ret_cases:
  obtains (undef) "(r :: 'a ret option) = None" | (failed) "r = fail" | (ok) x where "r = ok x"
proof (cases r)
  case (Some q)
  then show ?thesis using failed ok by (cases q) (auto intro: errno.exhaust)
qed (rule undef)

subsection \<open>Ranges of the C integer types\<close>

lemma unat_u8_less [simp]: "unat (x :: u8) < 256"
  using unsigned_less [where ?'a = nat, of x] by simp

lemma unat_u16_less [simp]: "unat (x :: u16) < 65536"
  using unsigned_less [where ?'a = nat, of x] by simp

lemma unat_u32_less [simp]: "unat (x :: u32) < 4294967296"
  using unsigned_less [where ?'a = nat, of x] by simp

lemma unat_u64_less [simp]: "unat (x :: u64) < 18446744073709551616"
  using unsigned_less [where ?'a = nat, of x] by simp

lemma unat_ucast_up:
  "LENGTH('a) \<le> LENGTH('b) \<Longrightarrow> unat (ucast (x :: 'a :: len word) :: 'b :: len word) = unat x"
  by (simp add: unsigned_ucast_eq take_bit_nat_eq_self order_less_le_trans [OF unsigned_less])

lemma unat_ucast_u8 [simp]:
  "unat (ucast (x :: u8) :: u16) = unat x"
  "unat (ucast (x :: u8) :: u32) = unat x"
  "unat (ucast (x :: u8) :: u64) = unat x"
  by (simp_all add: unat_ucast_up)

lemma ucast_of_nat_down:
  "LENGTH('b) \<le> LENGTH('a) \<Longrightarrow> ucast (of_nat n :: 'a :: len word) = (of_nat n :: 'b :: len word)"
  by (rule bit_word_eqI) (auto simp: bit_simps)

lemma ucast_via_wider:
  "LENGTH('c) \<le> LENGTH('b) \<Longrightarrow>
   ucast (ucast (x :: 'a :: len word) :: 'b :: len word) = (ucast x :: 'c :: len word)"
  by (rule bit_word_eqI) (auto simp: bit_simps)

lemma unat_drop_bit: "unat (drop_bit n w) = unat w div 2 ^ n"
  unfolding unat_drop_bit_eq by (rule drop_bit_eq_div)

subsection \<open>Checked buffer access\<close>

definition rd :: "'a list \<Rightarrow> nat \<Rightarrow> 'a option" where
  "rd b i = (if i < length b then Some (b ! i) else None)"

definition wr :: "'a list \<Rightarrow> nat \<Rightarrow> 'a \<Rightarrow> 'a list option" where
  "wr b i x = (if i < length b then Some (b[i := x]) else None)"

text \<open>\<open>rd_range b p n\<close> is the \<open>n\<close> elements from position \<open>p\<close>, as \<open>memcpy\<close> reads them.\<close>

definition rd_range :: "'a list \<Rightarrow> nat \<Rightarrow> nat \<Rightarrow> 'a list option" where
  "rd_range b p n = (if p + n \<le> length b then Some (take n (drop p b)) else None)"

text \<open>\<open>wr_range b p xs\<close> copies \<open>xs\<close> over the elements from position \<open>p\<close>.\<close>

definition wr_range :: "'a list \<Rightarrow> nat \<Rightarrow> 'a list \<Rightarrow> 'a list option" where
  "wr_range b p xs =
     (if p + length xs \<le> length b
      then Some (take p b @ xs @ drop (p + length xs) b) else None)"

lemma rd_Some [mem]: "i < length b \<Longrightarrow> rd b i = Some (b ! i)"
  by (simp add: rd_def)

text \<open>With a known minimal length, constant indices are discharged by evaluation.\<close>

lemma rd_within: "n \<le> length b \<Longrightarrow> i < n \<Longrightarrow> rd b i = Some (b ! i)"
  by (simp add: rd_def)

lemma rd_eq_Some_iff: "rd b i = Some x \<longleftrightarrow> i < length b \<and> x = b ! i"
  by (auto simp: rd_def)

lemma wr_Some [mem]: "i < length b \<Longrightarrow> wr b i x = Some (b[i := x])"
  by (simp add: wr_def)

lemma rd_range_Some [mem]: "p + n \<le> length b \<Longrightarrow> rd_range b p n = Some (take n (drop p b))"
  by (simp add: rd_range_def)

lemma wr_range_Some [mem]:
  "p + length xs \<le> length b
   \<Longrightarrow> wr_range b p xs = Some (take p b @ xs @ drop (p + length xs) b)"
  by (simp add: wr_range_def)

lemma length_wr: "wr b i x = Some b' \<Longrightarrow> length b' = length b"
  by (auto simp: wr_def split: if_splits)

lemma length_wr_range: "wr_range b p xs = Some b' \<Longrightarrow> length b' = length b"
  by (auto simp: wr_range_def split: if_splits)

lemma rd_append_left [simp]: "i < length xs \<Longrightarrow> rd (xs @ ys) i = rd xs i"
  by (simp add: rd_def nth_append)

lemma rd_drop: "rd (drop k b) i = rd b (k + i)"
  by (auto simp: rd_def)

subsection \<open>Filters over updated lists\<close>

lemma filter_split_at:
  "i < length xs \<Longrightarrow>
   filter P xs = filter P (take i xs) @ (if P (xs ! i) then [xs ! i] else []) @ filter P (drop (Suc i) xs)"
  by (subst id_take_nth_drop [of i xs]) simp_all

lemma filter_update_at:
  "i < length xs \<Longrightarrow>
   filter P (xs[i := x]) = filter P (take i xs) @ (if P x then [x] else []) @ filter P (drop (Suc i) xs)"
  by (simp add: upd_conv_take_nth_drop)

lemma map_of_insert_middle:
  "fst kv \<notin> fst ` set xs \<Longrightarrow> map_of (xs @ kv # ys) = (map_of (xs @ ys))(fst kv \<mapsto> snd kv)"
  using map_of_eq_None_iff [of xs "fst kv"]
  by (cases kv) (auto simp: map_add_def fun_eq_iff split: option.splits)

lemma map_of_remove_middle:
  "fst kv \<notin> fst ` set xs \<Longrightarrow> fst kv \<notin> fst ` set ys \<Longrightarrow>
   map_of (xs @ ys) = (map_of (xs @ kv # ys))(fst kv := None)"
  by (subst map_of_insert_middle) (auto simp: map_of_eq_None_iff fun_upd_idem_iff)

subsection \<open>Serial numbers\<close>

text \<open>
  Sequence numbers and timestamps are compared by their distance from a base, modulo the
  width.  Moving the base past the smallest keeps the order of the others.
\<close>

lemma serial_shift:
  fixes a n p :: "'a :: len word"
  assumes "p - n < a - n"
  shows "unat (a - (p + 1)) = unat (a - n) - unat (p - n) - 1"
proof -
  have "a - (p + 1) = (a - n) - (p - n) - 1" by simp
  moreover have "unat ((a - n) - (p - n)) = unat (a - n) - unat (p - n)"
    using assms by (intro unat_sub) simp
  moreover have "0 < unat (a - n) - unat (p - n)"
    using assms by (simp add: word_less_nat_alt)
  ultimately show ?thesis
    by (metis unat_minus_one unat_gt_0)
qed

lemma serial_shift_less:
  fixes a b n p :: "'a :: len word"
  assumes "p - n < a - n" and "p - n < b - n"
  shows "a - (p + 1) < b - (p + 1) \<longleftrightarrow> a - n < b - n"
  using assms serial_shift [OF assms(1)] serial_shift [OF assms(2)]
  by (auto simp: word_less_nat_alt)

subsection \<open>Big-endian integers in buffers\<close>

text \<open>
  The loop \<open>while (n--) v = (v << 8) | *p++\<close>, which \<open>bplist.c\<close> and \<open>ptp_sync.c\<close> both
  contain, over the buffer \<open>b\<close> from position \<open>p\<close>.
\<close>

fun be_loop :: "buf \<Rightarrow> nat \<Rightarrow> nat \<Rightarrow> u64 \<Rightarrow> u64 option" where
  "be_loop b p 0 v = Some v"
| "be_loop b p (Suc n) v =
     do { x \<leftarrow> rd b p; be_loop b (Suc p) n (push_bit 8 v OR ucast x) }"

text \<open>The number that a list of bytes denotes, most significant byte first.\<close>

definition be_nat :: "buf \<Rightarrow> nat" where
  "be_nat bs = foldl (\<lambda>a x. a * 256 + unat x) 0 bs"

lemma be_nat_Nil [simp]: "be_nat [] = 0"
  by (simp add: be_nat_def)

lemma foldl_be: "foldl (\<lambda>a x. a * 256 + unat x) k bs = k * 256 ^ length bs + be_nat bs"
proof (induction bs arbitrary: k)
  case (Cons x bs)
  have "foldl (\<lambda>a x. a * 256 + unat x) k (x # bs)
      = (k * 256 + unat x) * 256 ^ length bs + be_nat bs"
    using Cons.IH [of "k * 256 + unat x"] by simp
  moreover have "be_nat (x # bs) = unat x * 256 ^ length bs + be_nat bs"
    using Cons.IH [of "unat x"] by (simp add: be_nat_def)
  ultimately show ?case by (simp add: algebra_simps)
qed (simp add: be_nat_def)

lemma be_nat_Cons: "be_nat (x # bs) = unat x * 256 ^ length bs + be_nat bs"
  using foldl_be [of "unat x" bs] by (simp add: be_nat_def)

lemma be_nat_append: "be_nat (xs @ ys) = be_nat xs * 256 ^ length ys + be_nat ys"
  using foldl_be [of "be_nat xs" ys] by (simp add: be_nat_def)

lemma be_nat_less: "be_nat bs < 256 ^ length bs"
proof (induction bs)
  case (Cons x bs)
  have "unat x < 256" by simp
  then have "unat x * 256 ^ length bs + be_nat bs < (unat x + 1) * 256 ^ length bs"
    using Cons.IH by simp
  also have "\<dots> \<le> 256 * 256 ^ length bs"
    using \<open>unat x < 256\<close> by (intro mult_right_mono) linarith+
  finally show ?case by (simp add: be_nat_Cons)
qed simp

lemma push_or_byte: "push_bit 8 v OR ucast (x :: u8) = v * 256 + (ucast x :: u64)"
proof -
  have "push_bit 8 v OR ucast x = push_bit 8 v + (ucast x :: u64)"
  proof (rule disjunctive_add [symmetric])
    fix n
    show "\<not> bit (push_bit 8 v) n \<or> \<not> bit (ucast x :: u64) n"
      by (auto simp: bit_simps dest: bit_imp_le_length)
  qed
  then show ?thesis by (simp add: push_bit_eq_mult)
qed

lemma unat_push_or_byte:
  "unat (push_bit 8 v OR ucast (x :: u8) :: u64) = (unat v * 256 + unat x) mod 2 ^ 64"
  by (simp add: push_or_byte unat_word_ariths mod_simps)

lemma be_loop_unat:
  "p + n \<le> length b \<Longrightarrow>
   \<exists>w. be_loop b p n v = Some w \<and>
       unat w = (unat v * 256 ^ n + be_nat (take n (drop p b))) mod 2 ^ 64"
proof (induction n arbitrary: p v)
  case 0
  show ?case by simp
next
  case (Suc n)
  let ?v = "push_bit 8 v OR ucast (b ! p) :: u64"
  obtain w where w: "be_loop b (Suc p) n ?v = Some w"
    and u: "unat w = (unat ?v * 256 ^ n + be_nat (take n (drop (Suc p) b))) mod 2 ^ 64"
    using Suc.IH [of "Suc p" ?v] Suc.prems by auto
  have tk: "take (Suc n) (drop p b) = b ! p # take n (drop (Suc p) b)"
    using Suc.prems by (simp add: Cons_nth_drop_Suc [symmetric])
  have ln: "length (take n (drop (Suc p) b)) = n"
    using Suc.prems by simp
  have "unat w = ((unat v * 256 + unat (b ! p)) * 256 ^ n
                   + be_nat (take n (drop (Suc p) b))) mod 2 ^ 64"
    unfolding u unat_push_or_byte
    by (metis (no_types) mod_add_left_eq mod_mult_left_eq)
  then have "unat w = (unat v * 256 ^ Suc n + be_nat (take (Suc n) (drop p b))) mod 2 ^ 64"
    unfolding tk be_nat_Cons ln by (simp add: algebra_simps)
  with w Suc.prems show ?case by (simp add: mem)
qed

lemma be_loop_Some [mem]: "p + n \<le> length b \<Longrightarrow> \<exists>w. be_loop b p n v = Some w"
  using be_loop_unat by blast

text \<open>Up to eight bytes fit in the accumulator, so nothing is shifted out.\<close>

lemma be_loop_eq:
  assumes "p + n \<le> length b" and "n \<le> 8"
  shows "be_loop b p n 0 = Some (of_nat (be_nat (take n (drop p b))))"
proof -
  obtain w where w: "be_loop b p n 0 = Some w"
    and u: "unat w = be_nat (take n (drop p b)) mod 2 ^ 64"
    using be_loop_unat [OF assms(1), of 0] by auto
  have "w = of_nat (be_nat (take n (drop p b)))"
    using u by (intro word_unat_eq_iff [THEN iffD2]) (simp add: unat_of_nat)
  with w show ?thesis by simp
qed

text \<open>The bytes of an integer, as the loops that write it store them.\<close>

fun be_bytes :: "nat \<Rightarrow> u64 \<Rightarrow> buf" where
  "be_bytes 0 v = []"
| "be_bytes (Suc n) v = ucast (drop_bit (n * 8) v) # be_bytes n v"

lemma length_be_bytes [simp]: "length (be_bytes n v) = n"
  by (induction n) auto

lemma be_nat_be_bytes: "n \<le> 8 \<Longrightarrow> be_nat (be_bytes n v) = unat v mod 256 ^ n"
proof (induction n)
  case (Suc n)
  have "unat (ucast (drop_bit (n * 8) v) :: u8) = unat v div 256 ^ n mod 256"
    by (simp only: unsigned_ucast_eq take_bit_eq_mod unat_drop_bit power_mult [of 2 8 n] mult.commute [of n 8]) simp
  then show ?case
    using Suc mod_mult2_eq [of "unat v" "256 ^ n" 256] by (simp add: be_nat_Cons mult.commute)
qed simp

lemma be_nat_be_bytes_8: "be_nat (be_bytes 8 v) = unat v"
  using be_nat_be_bytes [of 8 v] unat_u64_less [of v] by simp

subsection \<open>16- and 32-bit values and their bytes\<close>

text \<open>
  \<open>(uint16_t)hi << 8 | lo\<close> and its 32-bit counterpart, and the byte sequences that the
  writers of \<open>ntp_sync.c\<close>, \<open>mdns.c\<close> and \<open>bplist.c\<close> store.
\<close>

definition be16 :: "u8 \<Rightarrow> u8 \<Rightarrow> u16" where
  "be16 hi lo = push_bit 8 (ucast hi) OR ucast lo"

definition be32 :: "u8 \<Rightarrow> u8 \<Rightarrow> u8 \<Rightarrow> u8 \<Rightarrow> u32" where
  "be32 a b c d =
     push_bit 24 (ucast a) OR push_bit 16 (ucast b) OR push_bit 8 (ucast c) OR ucast d"

definition bytes16 :: "u16 \<Rightarrow> buf" where
  "bytes16 v = [ucast (drop_bit 8 v), ucast v]"

definition bytes32 :: "u32 \<Rightarrow> buf" where
  "bytes32 v = [ucast (drop_bit 24 v), ucast (drop_bit 16 v), ucast (drop_bit 8 v), ucast v]"

lemma length_bytes16 [simp]: "length (bytes16 v) = 2"
  by (simp add: bytes16_def)

lemma length_bytes32 [simp]: "length (bytes32 v) = 4"
  by (simp add: bytes32_def)

lemma be16_bytes [bytes]: "be16 (ucast (drop_bit 8 v)) (ucast v) = v"
  by (rule bit_word_eqI) (auto simp: be16_def bit_simps)

lemma be32_bytes [bytes]:
  "be32 (ucast (drop_bit 24 v)) (ucast (drop_bit 16 v)) (ucast (drop_bit 8 v)) (ucast v) = v"
proof (rule bit_word_eqI)
  fix n
  assume "n < LENGTH(32)"
  then consider "n < 8" | "8 \<le> n" "n < 16" | "16 \<le> n" "n < 24" | "24 \<le> n" "n < 32"
    by fastforce
  then show "bit (be32 (ucast (drop_bit 24 v)) (ucast (drop_bit 16 v)) (ucast (drop_bit 8 v))
      (ucast v)) n = bit v n"
    by cases (auto simp: be32_def bit_simps)
qed

lemma bytes16_be [bytes]: "bytes16 (be16 a b) = [a, b]"
  unfolding bytes16_def be16_def
  by (intro arg_cong2 [where f = Cons] refl bit_word_eqI)
    (auto simp: bit_simps dest: bit_imp_le_length)

lemma bytes32_be [bytes]: "bytes32 (be32 a b c d) = [a, b, c, d]"
  unfolding bytes32_def be32_def
  by (intro arg_cong2 [where f = Cons] refl bit_word_eqI)
    (auto simp: bit_simps dest: bit_imp_le_length)

lemma unat_be16: "unat (be16 hi lo) = unat hi * 256 + unat lo"
proof -
  have "be16 hi lo = push_bit 8 (ucast hi) + (ucast lo :: u16)"
    unfolding be16_def
    by (rule disjunctive_add [symmetric]) (auto simp: bit_simps dest: bit_imp_le_length)
  moreover have "unat hi * 256 + unat lo < 65536"
    using unat_u8_less [of hi] unat_u8_less [of lo] by linarith
  ultimately show ?thesis
    by (simp add: push_bit_eq_mult unat_word_ariths mod_simps)
qed

lemma be16_eq_iff: "be16 a b = be16 c d \<longleftrightarrow> a = c \<and> b = d"
proof
  assume "be16 a b = be16 c d"
  then have "unat a * 256 + unat b = unat c * 256 + unat d"
    by (simp flip: unat_be16)
  then have "(unat a * 256 + unat b) div 256 = (unat c * 256 + unat d) div 256"
    and "(unat a * 256 + unat b) mod 256 = (unat c * 256 + unat d) mod 256"
    by simp_all
  then have "unat a = unat c \<and> unat b = unat d"
    by simp
  then show "a = c \<and> b = d" by (simp add: word_unat_eq_iff)
qed simp

subsection \<open>Counted loops\<close>

text \<open>\<open>for (j = i; j < i + n; j++)\<close> with a body that changes a state and may be undefined.\<close>

primrec for_loop :: "nat \<Rightarrow> (nat \<Rightarrow> 's \<Rightarrow> 's option) \<Rightarrow> nat \<Rightarrow> 's \<Rightarrow> 's option" where
  "for_loop 0 f i s = Some s"
| "for_loop (Suc n) f i s = do { s \<leftarrow> f i s; for_loop n f (Suc i) s }"

lemma for_loop_inv:
  assumes "P i s"
    and "\<And>j s. i \<le> j \<Longrightarrow> j < i + n \<Longrightarrow> P j s \<Longrightarrow> \<exists>s'. f j s = Some s' \<and> P (Suc j) s'"
  shows "\<exists>s'. for_loop n f i s = Some s' \<and> P (i + n) s'"
  using assms
proof (induction n arbitrary: i s)
  case (Suc n)
  obtain s' where s': "f i s = Some s'" "P (Suc i) s'"
    using Suc.prems(2) [of i s] Suc.prems(1) by auto
  have "\<exists>s''. for_loop n f (Suc i) s' = Some s'' \<and> P (Suc i + n) s''"
    by (rule Suc.IH) (use s' Suc.prems(2) in auto)
  then show ?case using s' by simp
qed simp

subsection \<open>Signed readings and C division\<close>

lemma sint_of_int_32: "- 2147483648 \<le> d \<Longrightarrow> d < 2147483648 \<Longrightarrow> sint (of_int d :: u32) = d"
  by (simp add: signed_of_int signed_take_bit_int_eq_self)

lemma sint_of_int_64:
  "- 9223372036854775808 \<le> d \<Longrightarrow> d < 9223372036854775808 \<Longrightarrow> sint (of_int d :: u64) = d"
  by (simp add: signed_of_int signed_take_bit_int_eq_self)

lemma sint_small_64: "uint (w :: u64) < 9223372036854775808 \<Longrightarrow> sint w = uint w"
proof -
  assume "uint w < 9223372036854775808"
  moreover have "0 \<le> uint w" by simp
  ultimately have "sint (of_int (uint w) :: u64) = uint w" by (intro sint_of_int_64) linarith+
  then show ?thesis by simp
qed

lemma uint_numeral_iff:
  "uint (w :: 'a :: len word) < numeral n \<longleftrightarrow> unat w < numeral n"
  "numeral n < uint w \<longleftrightarrow> numeral n < unat w"
  "uint w \<le> numeral n \<longleftrightarrow> unat w \<le> numeral n"
  unfolding uint_nat
  by (simp_all only: of_nat_less_iff [symmetric, where ?'a = int]
      of_nat_le_iff [symmetric, where ?'a = int] of_nat_numeral)

text \<open>A 32-bit word below the sign bit reads the same signed and unsigned.\<close>

lemma unat_nonneg_sint: "0 \<le> sint (v :: u32) \<Longrightarrow> int (unat v) = sint v"
proof -
  assume "0 \<le> sint v"
  moreover have "sint v < 2 ^ 31" using sint_lt [of v] by simp
  ultimately have "take_bit 32 (sint v) = sint v"
    by (intro take_bit_int_eq_self) auto
  then show ?thesis using uint_sint [of v] by simp
qed

lemma unat_small_sint: "unat (v :: u32) < 2 ^ 31 \<Longrightarrow> sint v = int (unat v)"
proof -
  assume "unat v < 2 ^ 31"
  then have "unat v < 2147483648" by simp
  then have "int (unat v) < 2147483648" by linarith
  then have "sint (of_int (int (unat v)) :: u32) = int (unat v)"
    by (intro sint_of_int_32) linarith+
  then show ?thesis by simp
qed

lemma uint_of_int_64: "0 \<le> x \<Longrightarrow> x < 9223372036854775808 \<Longrightarrow> uint (of_int x :: u64) = x"
  by (simp add: unsigned_of_int take_bit_int_eq_self)

text \<open>A signed 64-bit result; the overflow of signed arithmetic has no meaning in C.\<close>

definition s64 :: "int \<Rightarrow> int option" where
  "s64 x = (if - 9223372036854775808 \<le> x \<and> x < 9223372036854775808 then Some x else None)"

lemma s64_Some [mem]:
  "- 9223372036854775808 \<le> x \<Longrightarrow> x < 9223372036854775808 \<Longrightarrow> s64 x = Some x"
  by (simp add: s64_def)

lemma s64_eq_Some_iff:
  "s64 x = Some y \<longleftrightarrow> y = x \<and> - 9223372036854775808 \<le> x \<and> x < 9223372036854775808"
  by (auto simp: s64_def)

text \<open>C divides towards zero; Isabelle's \<open>div\<close> rounds down.\<close>

definition cdiv :: "int \<Rightarrow> int \<Rightarrow> int" where
  "cdiv a b = sgn a * sgn b * (\<bar>a\<bar> div \<bar>b\<bar>)"

definition cmod :: "int \<Rightarrow> int \<Rightarrow> int" where
  "cmod a b = a - cdiv a b * b"

lemma cdiv_nonneg: "0 \<le> a \<Longrightarrow> 0 < b \<Longrightarrow> cdiv a b = a div b"
  by (cases "a = 0") (auto simp: cdiv_def)

lemma cdiv_neg: "a < 0 \<Longrightarrow> 0 < b \<Longrightarrow> cdiv a b = - ((- a) div b)"
  by (simp add: cdiv_def)

lemma cdiv_bounds: "0 < b \<Longrightarrow> \<bar>cdiv a b * b - a\<bar> < b \<and> \<bar>cdiv a b * b\<bar> \<le> \<bar>a\<bar>"
proof -
  assume b: "0 < b"
  define q r where "q = \<bar>a\<bar> div b * b" and "r = \<bar>a\<bar> mod b"
  have e: "\<bar>a\<bar> = q + r" and m: "0 \<le> r" "r < b" and q: "0 \<le> q"
    using b by (simp_all add: q_def r_def pos_imp_zdiv_nonneg_iff)
  have "cdiv a b * b = (if 0 \<le> a then q else - q)"
    using b by (simp add: cdiv_nonneg cdiv_neg q_def)
  then show ?thesis using e m q by (auto split: if_splits)
qed

lemma cmod_bounds: "0 < b \<Longrightarrow> \<bar>cmod a b\<bar> < b"
  using cdiv_bounds [of b a] by (simp add: cmod_def abs_minus_commute)

end
