(* ===== verification/Rtp.thy ===== *)
theory Rtp
  imports Prelude
begin

section \<open>RTP packets and the UDP receiver (shared/protocol/rtp.c)\<close>

text \<open>
  The parser for RTP datagrams with its header record and the receiver that polls the
  audio, control and timing sockets.  A reference description of the wire format,
  written from the field layout alone, is the specification of the parser.
\<close>

subsection \<open>Data\<close>

record rtp_header =
  version :: u8
  padding :: u8
  extension :: u8
  csrc_count :: u8
  marker :: u8
  payload_type :: u8
  sequence :: u16
  timestamp :: u32
  ssrc :: u32

text \<open>\<open>payload\<close> is the borrowed view: the bytes that \<open>payload\<close> and \<open>payload_len\<close> delimit.\<close>

record rtp_packet =
  header :: rtp_header
  payload :: buf

subsection \<open>The parser\<close>

text \<open>
  Every \<open>data[i]\<close> is a checked read.  The three parts of \<open>rtp_parse_packet\<close> that have
  their own early returns are separate definitions.
\<close>

definition rtp_read_header :: "buf \<Rightarrow> rtp_header option" where
  "rtp_read_header data = do {
     d0 \<leftarrow> rd data 0; d1 \<leftarrow> rd data 1; d2 \<leftarrow> rd data 2; d3 \<leftarrow> rd data 3;
     d4 \<leftarrow> rd data 4; d5 \<leftarrow> rd data 5; d6 \<leftarrow> rd data 6; d7 \<leftarrow> rd data 7;
     d8 \<leftarrow> rd data 8; d9 \<leftarrow> rd data 9; d10 \<leftarrow> rd data 10; d11 \<leftarrow> rd data 11;
     Some \<lparr>version = drop_bit 6 d0 AND 3,
           padding = drop_bit 5 d0 AND 1,
           extension = drop_bit 4 d0 AND 1,
           csrc_count = d0 AND 0x0F,
           marker = drop_bit 7 d1 AND 1,
           payload_type = d1 AND 0x7F,
           sequence = be16 d2 d3,
           timestamp = be32 d4 d5 d6 d7,
           ssrc = be32 d8 d9 d10 d11\<rparr> }"

definition rtp_skip_extension :: "buf \<Rightarrow> nat \<Rightarrow> nat ret option" where
  "rtp_skip_extension data header_size =
     (if header_size + 4 > length data then fail
      else do {
        hi \<leftarrow> rd data (header_size + 2);
        lo \<leftarrow> rd data (header_size + 3);
        let header_size' = header_size + (4 + unat (be16 hi lo) * 4);
        if header_size' > length data then fail else ok header_size' })"

definition rtp_strip_padding :: "buf \<Rightarrow> buf ret option" where
  "rtp_strip_padding p =
     (if length p = 0 then fail
      else do {
        pad \<leftarrow> rd p (length p - 1);
        if pad = 0 \<or> unat pad > length p then fail
        else ok (take (length p - unat pad) p) })"

definition rtp_parse_body :: "buf \<Rightarrow> rtp_packet ret option" where
  "rtp_parse_body data = do {
     h \<leftarrow> rtp_read_header data;
     if version h \<noteq> 2 then fail
     else let header_size = 12 + unat (csrc_count h) * 4 in
       if header_size > length data then fail
       else
         on_ok (if extension h \<noteq> 0 then rtp_skip_extension data header_size else ok header_size)
           (\<lambda>header_size. do {
             p \<leftarrow> rd_range data header_size (length data - header_size);
             on_ok (if padding h \<noteq> 0 then rtp_strip_padding p else ok p)
               (\<lambda>p. ok \<lparr>header = h, payload = p\<rparr>) }) }"

definition rtp_parse_packet :: "buf \<Rightarrow> rtp_packet ret option" where
  "rtp_parse_packet data =
     (if length data < 12 then fail
      else do {
        d1 \<leftarrow> rd data 1;
        if d1 AND 0x7f = 0x56
        then (if length data < 16 then fail else rtp_parse_body (drop 4 data))
        else rtp_parse_body data })"

subsection \<open>The wire format\<close>

text \<open>
  A packet is its twelve fixed bytes, the CSRC list, an optional extension (a profile, the
  number of 32-bit words, the words), the payload and, if the padding bit is set, padding
  whose last byte is its own length.
\<close>

definition header_wf :: "rtp_header \<Rightarrow> bool" where
  "header_wf h \<longleftrightarrow>
     version h = 2 \<and> padding h AND 1 = padding h \<and> extension h AND 1 = extension h \<and>
     csrc_count h AND 0x0F = csrc_count h \<and> marker h AND 1 = marker h \<and>
     payload_type h AND 0x7F = payload_type h"

definition header_bytes :: "rtp_header \<Rightarrow> buf" where
  "header_bytes h =
     [push_bit 6 (version h) OR push_bit 5 (padding h) OR push_bit 4 (extension h)
        OR csrc_count h,
      push_bit 7 (marker h) OR payload_type h]
     @ bytes16 (sequence h) @ bytes32 (timestamp h) @ bytes32 (ssrc h)"

definition ext_wf :: "rtp_header \<Rightarrow> buf \<Rightarrow> bool" where
  "ext_wf h ext \<longleftrightarrow>
     (if extension h = 0 then ext = []
      else 4 \<le> length ext \<and> length ext = 4 + 4 * unat (be16 (ext ! 2) (ext ! 3)))"

definition pad_wf :: "rtp_header \<Rightarrow> buf \<Rightarrow> bool" where
  "pad_wf h pad \<longleftrightarrow>
     (if padding h = 0 then pad = [] else pad \<noteq> [] \<and> unat (last pad) = length pad)"

definition rtp_wire :: "rtp_packet \<Rightarrow> buf \<Rightarrow> buf \<Rightarrow> buf \<Rightarrow> buf" where
  "rtp_wire p csrcs ext pad = header_bytes (header p) @ csrcs @ ext @ payload p @ pad"

definition rtp_wire_wf :: "rtp_packet \<Rightarrow> buf \<Rightarrow> buf \<Rightarrow> buf \<Rightarrow> bool" where
  "rtp_wire_wf p csrcs ext pad \<longleftrightarrow>
     header_wf (header p) \<and> length csrcs = 4 * unat (csrc_count (header p)) \<and>
     ext_wf (header p) ext \<and> pad_wf (header p) pad"

lemma length_header_bytes [simp]: "length (header_bytes h) = 12"
  by (simp add: header_bytes_def)

lemma rtp_read_header_eq:
  assumes "12 \<le> length d"
  shows "rtp_read_header d = Some
    \<lparr>version = drop_bit 6 (d ! 0) AND 3, padding = drop_bit 5 (d ! 0) AND 1,
     extension = drop_bit 4 (d ! 0) AND 1, csrc_count = d ! 0 AND 0x0F,
     marker = drop_bit 7 (d ! 1) AND 1, payload_type = d ! 1 AND 0x7F,
     sequence = be16 (d ! 2) (d ! 3), timestamp = be32 (d ! 4) (d ! 5) (d ! 6) (d ! 7),
     ssrc = be32 (d ! 8) (d ! 9) (d ! 10) (d ! 11)\<rparr>"
  by (simp add: rtp_read_header_def rd_within [OF assms])

lemma byte_masks:
  "(3 :: u8) = mask 2" "(1 :: u8) = mask 1" "(0x0F :: u8) = mask 4" "(0x7F :: u8) = mask 7"
  by (simp_all add: mask_eq_exp_minus_1)

lemma u8_and_mask: "(x :: u8) AND mask k = take_bit k x"
  by (simp add: take_bit_eq_mask)

lemma first_byte_join:
  "push_bit 6 (take_bit 2 (drop_bit 6 b)) OR push_bit 5 (take_bit 1 (drop_bit 5 b))
     OR push_bit 4 (take_bit 1 (drop_bit 4 b)) OR take_bit 4 b = (b :: u8)"
proof (rule bit_word_eqI)
  fix n
  assume "n < LENGTH(8)"
  then have "n \<in> {0, 1, 2, 3, 4, 5, 6, 7}" by auto
  then show "bit (push_bit 6 (take_bit 2 (drop_bit 6 b)) OR push_bit 5 (take_bit 1 (drop_bit 5 b))
     OR push_bit 4 (take_bit 1 (drop_bit 4 b)) OR take_bit 4 b) n = bit b n"
    by (auto simp: bit_simps simp flip: bit_iff_odd_drop_bit)
qed

lemma second_byte_join: "push_bit 7 (take_bit 1 (drop_bit 7 b)) OR take_bit 7 b = (b :: u8)"
proof (rule bit_word_eqI)
  fix n
  assume "n < LENGTH(8)"
  then have "n \<in> {0, 1, 2, 3, 4, 5, 6, 7}" by auto
  then show "bit (push_bit 7 (take_bit 1 (drop_bit 7 b)) OR take_bit 7 b) n = bit b n"
    by (auto simp: bit_simps simp flip: bit_iff_odd_drop_bit)
qed

lemma first_byte_split:
  fixes v p x cc :: u8
  defines "b \<equiv> push_bit 6 (take_bit 2 v) OR push_bit 5 (take_bit 1 p)
    OR push_bit 4 (take_bit 1 x) OR take_bit 4 cc"
  shows "take_bit 2 (drop_bit 6 b) = take_bit 2 v" "take_bit 1 (drop_bit 5 b) = take_bit 1 p"
    "take_bit 1 (drop_bit 4 b) = take_bit 1 x" "take_bit 4 b = take_bit 4 cc"
  unfolding b_def
  by (rule bit_word_eqI,
      simp only: bit_take_bit_iff bit_or_iff bit_push_bit_iff bit_drop_bit_eq comp_def, (auto)[1])+

lemma second_byte_split:
  fixes m pt :: u8
  defines "b \<equiv> push_bit 7 (take_bit 1 m) OR take_bit 7 pt"
  shows "take_bit 1 (drop_bit 7 b) = take_bit 1 m" "take_bit 7 b = take_bit 7 pt"
  unfolding b_def
  by (rule bit_word_eqI,
      simp only: bit_take_bit_iff bit_or_iff bit_push_bit_iff bit_drop_bit_eq comp_def, (auto)[1])+

lemma version_2_bits: "take_bit 2 (2 :: u8) = 2"
  by simp

lemma read_header_of_bytes:
  assumes "header_wf h"
  shows "rtp_read_header (header_bytes h @ rest) = Some h"
proof -
  note wf = assms [unfolded header_wf_def byte_masks u8_and_mask]
  have len: "12 \<le> length (header_bytes h @ rest)" by simp
  define b0 where "b0 = push_bit 6 (take_bit 2 2) OR push_bit 5 (take_bit 1 (padding h))
    OR push_bit 4 (take_bit 1 (extension h)) OR take_bit 4 (csrc_count h)"
  define b1 where "b1 = push_bit 7 (take_bit 1 (marker h)) OR take_bit 7 (payload_type h)"
  have hb: "header_bytes h = [b0, b1] @ bytes16 (sequence h) @ bytes32 (timestamp h)
      @ bytes32 (ssrc h)"
    using wf by (simp only: header_bytes_def b0_def b1_def version_2_bits)
  note split = first_byte_split [of 2 "padding h" "extension h" "csrc_count h", folded b0_def]
    second_byte_split [of "marker h" "payload_type h", folded b1_def]
  have "take_bit 2 (drop_bit 6 b0) = 2" "take_bit 1 (drop_bit 5 b0) = padding h"
    "take_bit 1 (drop_bit 4 b0) = extension h" "take_bit 4 b0 = csrc_count h"
    "take_bit 1 (drop_bit 7 b1) = marker h" "take_bit 7 b1 = payload_type h"
    using wf by (simp_all only: split version_2_bits)
  then show ?thesis
    using wf len unfolding hb
    by (subst rtp_read_header_eq)
      (simp_all only: byte_masks u8_and_mask, simp add: bytes16_def bytes32_def bytes)
qed

lemma take_12:
  assumes "12 \<le> length (d :: buf)"
  shows "take 12 d = [d!0, d!1, d!2, d!3, d!4, d!5, d!6, d!7, d!8, d!9, d!10, d!11]"
  using assms
  by (simp add: take_Cons' numeral_eq_Suc neq_Nil_conv Suc_le_length_iff)
    (auto simp: Suc_le_length_iff)

lemma bytes_of_read_header:
  assumes "12 \<le> length d" and "rtp_read_header d = Some h" and "version h = 2"
  shows "header_wf h \<and> header_bytes h = take 12 d"
proof -
  have h: "h = \<lparr>version = take_bit 2 (drop_bit 6 (d ! 0)), padding = take_bit 1 (drop_bit 5 (d ! 0)),
     extension = take_bit 1 (drop_bit 4 (d ! 0)), csrc_count = take_bit 4 (d ! 0),
     marker = take_bit 1 (drop_bit 7 (d ! 1)), payload_type = take_bit 7 (d ! 1),
     sequence = be16 (d ! 2) (d ! 3), timestamp = be32 (d ! 4) (d ! 5) (d ! 6) (d ! 7),
     ssrc = be32 (d ! 8) (d ! 9) (d ! 10) (d ! 11)\<rparr>"
    using assms(2) unfolding rtp_read_header_eq [OF assms(1)] byte_masks u8_and_mask
    by (simp only: option.inject)
  have "header_wf h"
    using assms(3) unfolding header_wf_def byte_masks u8_and_mask
    unfolding h rtp_header.select_convs by (simp only: take_bit_take_bit min.idem simp_thms)
  moreover have "header_bytes h = take 12 d"
    unfolding take_12 [OF assms(1)] header_bytes_def
    unfolding h rtp_header.select_convs first_byte_join second_byte_join bytes
    by (simp only: append.simps)
  ultimately show ?thesis ..
qed

subsection \<open>The parser implements the wire format\<close>

lemma rtp_skip_extension_eq:
  "rtp_skip_extension d n =
     (if n + 4 \<le> length d \<and> n + 4 + 4 * unat (be16 (d ! (n + 2)) (d ! (n + 3))) \<le> length d
      then ok (n + 4 + 4 * unat (be16 (d ! (n + 2)) (d ! (n + 3)))) else fail)"
  by (auto simp: rtp_skip_extension_def mem Let_def)

lemma rtp_strip_padding_eq:
  "rtp_strip_padding p =
     (if p \<noteq> [] \<and> last p \<noteq> 0 \<and> unat (last p) \<le> length p
      then ok (take (length p - unat (last p)) p) else fail)"
  by (auto simp: rtp_strip_padding_def mem last_conv_nth)

lemma rtp_parse_body_defined: "12 \<le> length d \<Longrightarrow> rtp_parse_body d \<noteq> None"
  by (auto simp: rtp_parse_body_def rtp_read_header_eq rtp_skip_extension_eq rtp_strip_padding_eq
      Let_def mem)

lemma append_eq_take_drop: "k \<le> length d \<Longrightarrow> d = take k d @ drop k d"
  by simp

text \<open>What an accepted packet looks like, one fact per part of the parser.\<close>

lemma strip_padding_split:
  assumes "rtp_strip_padding q = ok pl"
  shows "q = pl @ drop (length pl) q \<and> drop (length pl) q \<noteq> [] \<and>
    unat (last (drop (length pl) q)) = length (drop (length pl) q)"
proof -
  define k where "k = unat (last q)"
  have k: "0 < k" "k \<le> length q" and pl: "pl = take (length q - k) q"
    using assms by (auto simp: rtp_strip_padding_eq k_def unat_gt_0 split: if_splits)
  have "length pl = length q - k" using k pl by simp
  then show ?thesis using k pl by (simp add: last_drop k_def)
qed

lemma strip_padding_append:
  assumes "pad \<noteq> []" and "unat (last pad) = length pad"
  shows "rtp_strip_padding (pl @ pad) = ok pl"
proof -
  have "last pad \<noteq> 0" using assms by (metis length_0_conv unat_0)
  then show ?thesis using assms by (simp add: rtp_strip_padding_eq)
qed

lemma rtp_parse_body_ok:
  assumes "12 \<le> length d" and "rtp_parse_body d = ok p"
  shows "\<exists>csrcs ext pad. rtp_wire_wf p csrcs ext pad \<and> d = rtp_wire p csrcs ext pad"
proof -
  obtain h where h: "rtp_read_header d = Some h"
    using rtp_read_header_eq [OF assms(1)] by blast
  define n where "n = 12 + unat (csrc_count h) * 4"
  have v: "version h = 2" and n: "n \<le> length d"
    using assms(2) h by (auto simp: rtp_parse_body_def n_def Let_def split: if_splits)
  obtain m where m: "(if extension h \<noteq> 0 then rtp_skip_extension d n else ok n) = ok m"
    and p: "(do { q \<leftarrow> rd_range d m (length d - m);
                  on_ok (if padding h \<noteq> 0 then rtp_strip_padding q else ok q)
                    (\<lambda>q. ok \<lparr>header = h, payload = q\<rparr>) }) = ok p"
    using assms(2) h v n unfolding n_def
    by (auto simp: rtp_parse_body_def Let_def on_ok_ok_iff)
  define ext where "ext = take (m - n) (drop n d)"
  have mle: "m \<le> length d" and nm: "n \<le> m" and ext: "ext_wf h ext"
    using m n by (auto simp: rtp_skip_extension_eq ext_wf_def ext_def split: if_splits)
  define q where "q = drop m d"
  obtain pl where pl: "(if padding h \<noteq> 0 then rtp_strip_padding q else ok q) = ok pl"
    and peq: "p = \<lparr>header = h, payload = pl\<rparr>"
    using p mle unfolding q_def by (auto simp: mem on_ok_ok_iff)
  define pad where "pad = drop (length pl) q"
  have q: "q = pl @ pad" and pad: "pad_wf h pad"
    using pl strip_padding_split by (auto simp: pad_wf_def pad_def split: if_splits)
  have hb: "header_wf h" "header_bytes h = take 12 d"
    using bytes_of_read_header [OF assms(1) h v] by auto
  define csrcs where "csrcs = take (n - 12) (drop 12 d)"
  have n12: "12 \<le> n" by (simp add: n_def)
  have "drop n d = ext @ q"
    using nm append_take_drop_id [of "m - n" "drop n d"] by (simp add: ext_def q_def)
  moreover have "drop 12 d = csrcs @ drop n d"
    using n12 append_take_drop_id [of "n - 12" "drop 12 d"] by (simp add: csrcs_def)
  ultimately have "d = take 12 d @ csrcs @ ext @ q"
    by (metis append_take_drop_id)
  then have "d = rtp_wire p csrcs ext pad"
    by (simp add: rtp_wire_def peq hb q)
  moreover have "rtp_wire_wf p csrcs ext pad"
    using hb ext pad n by (simp add: rtp_wire_wf_def peq csrcs_def n_def)
  ultimately show ?thesis by blast
qed

lemma rtp_parse_body_wire:
  assumes "rtp_wire_wf p csrcs ext pad"
  shows "rtp_parse_body (rtp_wire p csrcs ext pad) = ok p"
proof -
  define h where "h = header p"
  define d where "d = rtp_wire p csrcs ext pad"
  define n where "n = 12 + unat (csrc_count h) * 4"
  have wf: "header_wf h" "length csrcs = 4 * unat (csrc_count h)" "ext_wf h ext" "pad_wf h pad"
    using assms by (simp_all add: rtp_wire_wf_def h_def)
  have rh: "rtp_read_header d = Some h"
    using read_header_of_bytes [OF wf(1)] by (simp add: d_def rtp_wire_def h_def)
  have d: "d = (header_bytes h @ csrcs) @ ext @ payload p @ pad"
    and ln: "length (header_bytes h @ csrcs) = n"
    using wf(2) by (simp_all add: d_def rtp_wire_def h_def n_def)
  have dr: "drop (n + length ext) d = payload p @ pad" and ld: "n + length ext \<le> length d"
    using ln unfolding d by simp_all
  have e: "(if extension h \<noteq> 0 then rtp_skip_extension d n else ok n) = ok (n + length ext)"
  proof (cases "extension h = 0")
    case False
    then have el: "4 \<le> length ext" "length ext = 4 + 4 * unat (be16 (ext ! 2) (ext ! 3))"
      using wf(3) by (simp_all add: ext_wf_def)
    have nth: "d ! (n + i) = ext ! i" if "i < length ext" for i
      unfolding d ln [symmetric] nth_append_length_plus using that by (simp add: nth_append_left)
    have "d ! (n + 2) = ext ! 2" "d ! (n + 3) = ext ! 3"
      using el(1) by (intro nth; simp)+
    then have "rtp_skip_extension d n = ok (n + 4 + 4 * unat (be16 (ext ! 2) (ext ! 3)))"
      using el ld by (simp add: rtp_skip_extension_eq)
    then show ?thesis using False el(2) by simp
  qed (use wf(3) in \<open>simp add: ext_wf_def\<close>)
  have s: "(if padding h \<noteq> 0 then rtp_strip_padding (payload p @ pad) else ok (payload p @ pad))
      = ok (payload p)"
    using wf(4) by (auto simp: pad_wf_def strip_padding_append split: if_splits)
  have rr: "rd_range d (n + length ext) (length d - (n + length ext)) = Some (payload p @ pad)"
    using ld by (simp add: rd_range_def flip: dr)
  have "version h = 2" using wf(1) by (simp add: header_wf_def)
  moreover have "\<not> length d < n" using ld by simp
  ultimately have "rtp_parse_body d = ok \<lparr>header = h, payload = payload p\<rparr>"
    unfolding rtp_parse_body_def rh bind.bind_lunit n_def [symmetric] Let_def e on_ok_simps rr s
    by simp
  then show ?thesis by (simp add: d_def h_def)
qed

text \<open>
  A retransmit response wraps a packet in four bytes; the wrapper is told by the type in
  its second byte.
\<close>

definition rtp_unwrap :: "buf \<Rightarrow> buf" where
  "rtp_unwrap d = (if d ! 1 AND 0x7f = 0x56 then drop 4 d else d)"

lemma rtp_parse_packet_unwrap:
  "rtp_parse_packet d =
     (if 12 \<le> length d \<and> 12 \<le> length (rtp_unwrap d) then rtp_parse_body (rtp_unwrap d) else fail)"
  by (auto simp: rtp_parse_packet_def rtp_unwrap_def rd_within [of 12])

lemma rtp_wire_length: "12 \<le> length (rtp_wire p csrcs ext pad)"
  by (simp add: rtp_wire_def)

text \<open>
  Parsing a datagram never reads outside it, whatever bytes arrive and however many.
\<close>

theorem rtp_parse_safe: "rtp_parse_packet data \<noteq> None"
  using rtp_parse_body_defined by (auto simp: rtp_parse_packet_unwrap)

text \<open>
  C21: the parser accepts exactly the datagrams that, after removal of a retransmit wrapper,
  are laid out as the wire format says, and returns the header and the payload of that
  layout (padding, extension and CSRC list removed).
\<close>

theorem rtp_parse_iff_wire:
  "rtp_parse_packet data = ok p \<longleftrightarrow>
     12 \<le> length data \<and>
     (\<exists>csrcs ext pad. rtp_wire_wf p csrcs ext pad \<and>
        rtp_unwrap data = rtp_wire p csrcs ext pad)"
  (is "?l \<longleftrightarrow> ?r")
proof
  assume ?l
  then show ?r
    using rtp_parse_body_ok by (auto simp: rtp_parse_packet_unwrap split: if_splits)
next
  assume ?r
  then show ?l
    using rtp_parse_body_wire rtp_wire_length
    by (auto simp: rtp_parse_packet_unwrap)
qed

subsection \<open>The receiver\<close>

text \<open>
  The platform's sockets are outside the repository's portable core: opening a socket and
  what a receive call returns are inputs of the model.  A receive returns a datagram with
  its source, a timeout or an error (the contract of \<open>net.h\<close>).
\<close>

record net_addr =
  ip :: string
  port :: u16

datatype udp_recv = RecvTimeout | RecvError | Datagram buf net_addr

datatype sock = SockAudio | SockControl | SockTiming

record rtp_receiver =
  open_sockets :: "sock list"
  audio_packet_count :: u32
  peer_ip :: string

record rtp_receiver_config =
  audio_port :: u16
  control_port :: u16
  timing_port :: u16

text \<open>
  \<open>bind_ok s p\<close> is the platform's answer to binding the socket of role \<open>s\<close> to port \<open>p\<close>.  A
  port of 0 leaves the socket unopened.  On a failure every socket opened so far is closed.
\<close>

definition rtp_receiver_close :: "rtp_receiver \<Rightarrow> rtp_receiver" where
  "rtp_receiver_close r = r\<lparr>open_sockets := []\<rparr>"

fun rtp_bind_all ::
  "(sock \<Rightarrow> u16 \<Rightarrow> bool) \<Rightarrow> (sock \<times> u16) list \<Rightarrow> rtp_receiver \<Rightarrow> bool \<times> rtp_receiver" where
  "rtp_bind_all bind_ok [] r = (True, r)"
| "rtp_bind_all bind_ok ((s, p) # rest) r =
     (if p = 0 then rtp_bind_all bind_ok rest r
      else if bind_ok s p
        then rtp_bind_all bind_ok rest (r\<lparr>open_sockets := s # open_sockets r\<rparr>)
      else (False, r))"

definition rtp_receiver_create ::
  "(sock \<Rightarrow> u16 \<Rightarrow> bool) \<Rightarrow> rtp_receiver_config \<Rightarrow> errno option \<times> rtp_receiver" where
  "rtp_receiver_create bind_ok c =
     (let r = \<lparr>open_sockets = [], audio_packet_count = 0, peer_ip = []\<rparr> in
      case rtp_bind_all bind_ok
             [(SockAudio, audio_port c), (SockControl, control_port c), (SockTiming, timing_port c)] r
      of (True, r) \<Rightarrow> (None, r)
       | (False, r) \<Rightarrow> (Some EFail, rtp_receiver_close r))"

text \<open>
  What the receiver hands to the audio pipeline.  The callbacks are a parameter: a function
  that takes an event and the pipeline's state.
\<close>

datatype rtp_event =
  AudioPacket rtp_packet
| ControlData buf
| TimingData buf net_addr

text \<open>The body of the batch loop after a datagram has been received.\<close>

definition rtp_dispatch ::
  "(rtp_event \<Rightarrow> 's \<Rightarrow> 's) \<Rightarrow> sock \<Rightarrow> buf \<Rightarrow> net_addr \<Rightarrow> rtp_receiver \<times> 's
     \<Rightarrow> (rtp_receiver \<times> 's) option" where
  "rtp_dispatch cb i data peer rs =
     (case rs of (r, s) \<Rightarrow>
       if length data = 0 then Some (r, s)
       else if peer_ip r \<noteq> [] \<and> ip peer \<noteq> peer_ip r then Some (r, s)
       else do {
         wrapped \<leftarrow> (if i = SockControl \<and> length data \<ge> 2
                    then do { b \<leftarrow> rd data 1; Some (b AND 0x7f = 0x56) } else Some False);
         if i = SockAudio \<or> wrapped then do {
           let r = r\<lparr>audio_packet_count := audio_packet_count r + 1\<rparr>;
           res \<leftarrow> rtp_parse_packet data;
           (case res of Inr p \<Rightarrow> Some (r, cb (AudioPacket p) s) | Inl _ \<Rightarrow> Some (r, s)) }
         else if i = SockControl then Some (r, cb (ControlData data) s)
         else Some (r, cb (TimingData data peer) s) })"

text \<open>
  One socket's batch: at most 32 receives.  The list holds what the receives on that
  socket return; when it is used up the socket has nothing more (a timeout).  The result
  carries the state also when a receive fails: the callbacks made before it have happened.
\<close>

fun rtp_poll_socket ::
  "(rtp_event \<Rightarrow> 's \<Rightarrow> 's) \<Rightarrow> sock \<Rightarrow> nat \<Rightarrow> udp_recv list \<Rightarrow> rtp_receiver \<times> 's
     \<Rightarrow> (errno option \<times> rtp_receiver \<times> 's) option" where
  "rtp_poll_socket cb i 0 rx rs = Some (None, rs)"
| "rtp_poll_socket cb i (Suc batch) [] rs = Some (None, rs)"
| "rtp_poll_socket cb i (Suc batch) (RecvTimeout # rx) rs = Some (None, rs)"
| "rtp_poll_socket cb i (Suc batch) (RecvError # rx) rs = Some (Some EFail, rs)"
| "rtp_poll_socket cb i (Suc batch) (Datagram data peer # rx) rs =
     do { rs' \<leftarrow> rtp_dispatch cb i data peer rs; rtp_poll_socket cb i batch rx rs' }"

text \<open>The loop over the sockets, which stops at the first error.\<close>

fun rtp_poll_sockets ::
  "(rtp_event \<Rightarrow> 's \<Rightarrow> 's) \<Rightarrow> (sock \<Rightarrow> bool) \<Rightarrow> (sock \<Rightarrow> udp_recv list) \<Rightarrow> sock list
     \<Rightarrow> rtp_receiver \<times> 's \<Rightarrow> (errno option \<times> rtp_receiver \<times> 's) option" where
  "rtp_poll_sockets cb ready rx [] rs = Some (None, rs)"
| "rtp_poll_sockets cb ready rx (i # order) rs =
     (if \<not> ready i then rtp_poll_sockets cb ready rx order rs
      else do {
        (e, rs') \<leftarrow> rtp_poll_socket cb i 32 (rx i) rs;
        (case e of Some e \<Rightarrow> Some (Some e, rs')
         | None \<Rightarrow> rtp_poll_sockets cb ready rx order rs') })"

text \<open>
  Poll the sockets that \<open>net_wait\<close> reports ready, timing first, then control, then audio.
  \<open>ready\<close> and \<open>rx\<close> give, for each socket, the ready flag and the results of its receives;
  \<open>waited\<close> is the result of \<open>net_wait\<close>.
\<close>

definition rtp_receiver_poll ::
  "(rtp_event \<Rightarrow> 's \<Rightarrow> 's) \<Rightarrow> int \<Rightarrow> (sock \<Rightarrow> bool) \<Rightarrow> (sock \<Rightarrow> udp_recv list)
     \<Rightarrow> rtp_receiver \<times> 's \<Rightarrow> (errno option \<times> rtp_receiver \<times> 's) option" where
  "rtp_receiver_poll cb waited ready rx rs =
     (if waited < 0 then Some (Some EFail, rs)
      else if waited = 0 then Some (None, rs)
      else rtp_poll_sockets cb ready rx [SockTiming, SockControl, SockAudio] rs)"

text \<open>
  The receiver's contract, as a trace: with callbacks that record their events, a poll
  appends to the trace.  \<open>event_class\<close> orders the sockets.
\<close>

definition record_cb :: "rtp_event \<Rightarrow> rtp_event list \<Rightarrow> rtp_event list" where
  "record_cb e es = es @ [e]"

text \<open>The events that one socket may produce.\<close>

fun allowed_from :: "sock \<Rightarrow> rtp_event \<Rightarrow> bool" where
  "allowed_from SockAudio (AudioPacket p) = True"
| "allowed_from SockControl (AudioPacket p) = True"
| "allowed_from SockControl (ControlData d) = (d \<noteq> [] \<and> \<not> (2 \<le> length d \<and> d ! 1 AND 0x7f = 0x56))"
| "allowed_from SockTiming (TimingData d peer) = True"
| "allowed_from _ _ = False"

text \<open>At most one event per datagram, from a datagram the peer filter lets through.\<close>

lemma rtp_dispatch_trace:
  "\<exists>r' es. rtp_dispatch record_cb i data peer (r, tr) = Some (r', tr @ es) \<and> length es \<le> 1 \<and>
     list_all (allowed_from i) es \<and> peer_ip r' = peer_ip r \<and>
     (es \<noteq> [] \<longrightarrow> peer_ip r \<noteq> [] \<longrightarrow> ip peer = peer_ip r)"
proof -
  obtain res where res: "rtp_parse_packet data = Some res"
    using rtp_parse_safe by blast
  have "rtp_dispatch record_cb i data peer (r, tr) = Some (r', tr @ es) \<Longrightarrow> ?thesis"
    if "length es \<le> 1" "list_all (allowed_from i) es" "peer_ip r' = peer_ip r"
      "es \<noteq> [] \<Longrightarrow> peer_ip r \<noteq> [] \<Longrightarrow> ip peer = peer_ip r" for r' es
    using that by blast
  note intro = this [where es = "[]"] this [where es = "[e]" for e]
  let ?cnt = "r\<lparr>audio_packet_count := audio_packet_count r + 1\<rparr>"
  show ?thesis
    using res
    by (cases i; cases res)
      (auto simp: rtp_dispatch_def record_cb_def Let_def rd_def intro!: intro(1) [of r]
        intro(1) [of ?cnt] intro(2) [of _ r] intro(2) [of _ ?cnt])
qed

lemma rtp_poll_socket_trace:
  "\<exists>e r' es. rtp_poll_socket record_cb i n rx (r, tr) = Some (e, r', tr @ es) \<and> length es \<le> n \<and>
     list_all (allowed_from i) es \<and> peer_ip r' = peer_ip r"
proof (induction n arbitrary: rx r tr)
  case (Suc n)
  show ?case
  proof (cases rx)
    case (Cons x rx')
    show ?thesis
    proof (cases x)
      case (Datagram data peer)
      obtain r1 es1 where d: "rtp_dispatch record_cb i data peer (r, tr) = Some (r1, tr @ es1)"
        "length es1 \<le> 1" "list_all (allowed_from i) es1" "peer_ip r1 = peer_ip r"
        using rtp_dispatch_trace [of i data peer r tr] by blast
      obtain e r2 es2 where p: "rtp_poll_socket record_cb i n rx' (r1, tr @ es1) = Some (e, r2, (tr @ es1) @ es2)"
        "length es2 \<le> n" "list_all (allowed_from i) es2" "peer_ip r2 = peer_ip r1"
        using Suc.IH [of rx' r1 "tr @ es1"] by blast
      show ?thesis
        using d p Cons Datagram by (intro exI [of _ e] exI [of _ r2] exI [of _ "es1 @ es2"]) simp
    qed (use Cons in \<open>auto intro: exI [of _ "[]"]\<close>)
  qed (auto intro: exI [of _ "[]"])
qed (auto intro: exI [of _ "[]"])

definition batch_ok :: "sock \<Rightarrow> rtp_event list \<Rightarrow> bool" where
  "batch_ok i es \<longleftrightarrow> length es \<le> 32 \<and> list_all (allowed_from i) es"

lemma batch_ok_Nil [simp]: "batch_ok i []"
  by (simp add: batch_ok_def)

lemma rtp_poll_sockets_trace:
  "\<exists>e r' ess. rtp_poll_sockets record_cb ready rx order (r, tr) = Some (e, r', tr @ concat ess) \<and>
     list_all2 batch_ok order ess \<and> peer_ip r' = peer_ip r"
proof (induction order arbitrary: r tr)
  case (Cons i order)
  show ?case
  proof (cases "ready i")
    case False
    obtain e r' ess where "rtp_poll_sockets record_cb ready rx order (r, tr) = Some (e, r', tr @ concat ess)"
      "list_all2 batch_ok order ess" "peer_ip r' = peer_ip r"
      using Cons.IH by blast
    then show ?thesis using False
      by (intro exI [of _ e] exI [of _ r'] exI [of _ "[] # ess"]) simp
  next
    case True
    obtain e r1 es where s: "rtp_poll_socket record_cb i 32 (rx i) (r, tr) = Some (e, r1, tr @ es)"
      "batch_ok i es" "peer_ip r1 = peer_ip r"
      using rtp_poll_socket_trace [of i 32 "rx i" r tr] by (auto simp: batch_ok_def)
    show ?thesis
    proof (cases e)
      case (Some x)
      have "list_all2 batch_ok order (replicate (length order) [])"
        by (simp add: list_all2_conv_all_nth)
      then show ?thesis using True s Some
        by (intro exI [of _ e] exI [of _ r1] exI [of _ "es # replicate (length order) []"]) simp
    next
      case None
      obtain e' r' ess where "rtp_poll_sockets record_cb ready rx order (r1, tr @ es)
          = Some (e', r', (tr @ es) @ concat ess)"
        "list_all2 batch_ok order ess" "peer_ip r' = peer_ip r1"
        using Cons.IH by blast
      then show ?thesis using None True s
        by (intro exI [of _ e'] exI [of _ r'] exI [of _ "es # ess"]) simp
    qed
  qed
qed simp

text \<open>
  One poll always finishes, makes at most 32 callbacks per socket, and makes them in
  the order timing, control, audio: what the timing socket delivers never follows a control
  event or an audio packet of the same poll, and control data precede the packets of the
  audio socket.
\<close>

theorem rtp_poll_bounded_ordered:
  "\<exists>e r' ts cs as. rtp_receiver_poll record_cb waited ready rx (r, tr)
       = Some (e, r', tr @ ts @ cs @ as) \<and>
     length ts \<le> 32 \<and> length cs \<le> 32 \<and> length as \<le> 32 \<and>
     list_all (allowed_from SockTiming) ts \<and> list_all (allowed_from SockControl) cs \<and>
     list_all (allowed_from SockAudio) as"
proof (cases "waited > 0")
  case True
  obtain e r' ess where p: "rtp_poll_sockets record_cb ready rx [SockTiming, SockControl, SockAudio] (r, tr)
      = Some (e, r', tr @ concat ess)"
    and b: "list_all2 batch_ok [SockTiming, SockControl, SockAudio] ess"
    using rtp_poll_sockets_trace by blast
  from b obtain ts cs as where "ess = [ts, cs, as]"
    and "batch_ok SockTiming ts" "batch_ok SockControl cs" "batch_ok SockAudio as"
    by (auto simp: list_all2_Cons1)
  with p True show ?thesis
    by (auto simp: rtp_receiver_poll_def batch_ok_def)
next
  case False
  have "\<exists>e. rtp_receiver_poll record_cb waited ready rx (r, tr) = Some (e, r, tr @ [] @ [] @ [])"
    using False by (cases "waited = 0") (simp_all add: rtp_receiver_poll_def)
  then obtain e where "rtp_receiver_poll record_cb waited ready rx (r, tr) = Some (e, r, tr @ [] @ [] @ [])"
    by blast
  then show ?thesis
    by (intro exI [of _ e] exI [of _ r] exI [of _ "[]"] conjI) simp_all
qed

end
