(* ===== verification/Playout.thy ===== *)
theory Playout
  imports Rtp
begin

section \<open>The playout queue (shared/audio/playout.c)\<close>

text \<open>
  A table of 512 slots that holds compressed packets until they are played.  Packets enter
  in any order, leave in sequence-number order, and are filtered by a timestamp floor and
  by what has already been played.  The specification is a finite map from sequence
  numbers to packets.
\<close>

subsection \<open>Data\<close>

record playout_packet =
  slot_header :: rtp_header
  slot_payload :: buf
  valid :: bool

record playout =
  packets :: "playout_packet list"
  next_sequence :: u16
  count :: u32
  started :: bool
  have_sequence :: bool
  have_floor :: bool
  floor_exclusive :: bool
  timestamp_floor :: u32

definition playout_packets_max :: nat where
  "playout_packets_max = 512"

definition playout_payload_bytes :: nat where
  "playout_payload_bytes = 352 * 4 + 64"

subsection \<open>Operations\<close>

definition playout_reset :: "playout \<Rightarrow> playout" where
  "playout_reset q = q\<lparr>
     packets := map (\<lambda>s. s\<lparr>valid := False\<rparr>) (packets q),
     count := 0, next_sequence := 0,
     started := False, have_sequence := False, have_floor := False\<rparr>"

definition playout_set_floor :: "playout \<Rightarrow> u32 \<Rightarrow> bool \<Rightarrow> playout" where
  "playout_set_floor q ts exclusive =
     (playout_reset q)\<lparr>timestamp_floor := ts, floor_exclusive := exclusive, have_floor := True\<rparr>"

text \<open>
  The loop over the slots: \<open>Inl\<close> if a valid slot has the sequence number, otherwise the
  index of the first invalid slot, if there is one.
\<close>

fun playout_scan :: "u16 \<Rightarrow> playout_packet list \<Rightarrow> nat \<Rightarrow> nat option \<Rightarrow> unit + nat option" where
  "playout_scan sq [] i slot = Inr slot"
| "playout_scan sq (p # ps) i slot =
     (if valid p
      then (if sequence (slot_header p) = sq then Inl () else playout_scan sq ps (Suc i) slot)
      else playout_scan sq ps (Suc i) (if slot = None then Some i else slot))"

text \<open>Below the floor: the signed 32-bit distance from the floor is negative, or zero and excluded.\<close>

definition playout_below_floor :: "playout \<Rightarrow> rtp_packet \<Rightarrow> bool" where
  "playout_below_floor q p \<longleftrightarrow>
     have_floor q \<and>
     (let delta = sint (timestamp (header p) - timestamp_floor q)
      in delta < 0 \<or> delta = 0 \<and> floor_exclusive q)"

definition playout_push :: "playout \<Rightarrow> rtp_packet \<Rightarrow> (int \<times> playout) option" where
  "playout_push q p =
     (if length (payload p) = 0 \<or> length (payload p) > playout_payload_bytes then Some (-1, q)
      else if playout_below_floor q p then Some (0, q)
      else
        let distance = sint (sequence (header p) - next_sequence q) in
        if have_sequence q \<and> started q \<and> distance < 0 then Some (0, q)
        else case playout_scan (sequence (header p)) (packets q) 0 None of
          Inl _ \<Rightarrow> Some (0, q)
        | Inr None \<Rightarrow> Some (-1, q)
        | Inr (Some i) \<Rightarrow> do {
            let q = (if \<not> have_sequence q \<or> \<not> started q \<and> distance < 0
                     then q\<lparr>next_sequence := sequence (header p)\<rparr> else q);
            slots \<leftarrow> wr (packets q) i
              \<lparr>slot_header = header p, slot_payload = payload p, valid = True\<rparr>;
            Some (1, q\<lparr>have_sequence := True, packets := slots, count := count q + 1\<rparr>) })"

text \<open>
  Peek returns the index of the valid slot whose sequence number is next, counted modulo
  \<open>2\<^sup>16\<close> from \<open>next_sequence\<close>.
\<close>

fun playout_peek_loop :: "u16 \<Rightarrow> playout_packet list \<Rightarrow> nat \<Rightarrow> (nat \<times> u16) option
    \<Rightarrow> (nat \<times> u16) option" where
  "playout_peek_loop nxt [] i best = best"
| "playout_peek_loop nxt (p # ps) i best =
     playout_peek_loop nxt ps (Suc i)
       (if valid p \<and>
           (case best of None \<Rightarrow> True
            | Some (_, sq) \<Rightarrow> sequence (slot_header p) - nxt < sq - nxt)
        then Some (i, sequence (slot_header p)) else best)"

definition playout_peek :: "playout \<Rightarrow> nat option" where
  "playout_peek q = map_option fst (playout_peek_loop (next_sequence q) (packets q) 0 None)"

definition playout_pop :: "playout \<Rightarrow> nat \<Rightarrow> playout option" where
  "playout_pop q i = do {
     p \<leftarrow> rd (packets q) i;
     slots \<leftarrow> wr (packets q) i (p\<lparr>valid := False\<rparr>);
     Some (q\<lparr>next_sequence := sequence (slot_header p) + 1, started := True,
             have_floor := False, packets := slots, count := count q - 1\<rparr>) }"

subsection \<open>Invariant and abstraction\<close>

definition queued :: "playout \<Rightarrow> playout_packet list" where
  "queued q = filter valid (packets q)"

abbreviation slot_seq :: "playout_packet \<Rightarrow> u16" where
  "slot_seq s \<equiv> sequence (slot_header s)"

definition slot_packet :: "playout_packet \<Rightarrow> rtp_packet" where
  "slot_packet s = \<lparr>header = slot_header s, payload = slot_payload s\<rparr>"

definition contents :: "playout \<Rightarrow> u16 \<rightharpoonup> rtp_packet" where
  "contents q = map_of (map (\<lambda>s. (slot_seq s, slot_packet s)) (queued q))"

definition playout_inv :: "playout \<Rightarrow> bool" where
  "playout_inv q \<longleftrightarrow>
     length (packets q) = playout_packets_max \<and>
     distinct (map slot_seq (queued q)) \<and>
     unat (count q) = length (queued q) \<and>
     (\<forall>s \<in> set (queued q). slot_payload s \<noteq> [] \<and> length (slot_payload s) \<le> playout_payload_bytes) \<and>
     (\<not> have_sequence q \<longrightarrow> queued q = [] \<and> \<not> started q)"

subsection \<open>The slot scan and the peek loop\<close>

fun first_free :: "playout_packet list \<Rightarrow> nat option" where
  "first_free [] = None"
| "first_free (p # ps) = (if valid p then map_option Suc (first_free ps) else Some 0)"

lemma first_free_Some: "first_free ps = Some i \<Longrightarrow> i < length ps \<and> \<not> valid (ps ! i)"
  by (induction ps arbitrary: i) (auto split: if_splits)

lemma first_free_None: "first_free ps = None \<longleftrightarrow> (\<forall>s \<in> set ps. valid s)"
  by (induction ps) auto

lemma playout_scan_eq:
  "playout_scan sq ps i slot =
     (if sq \<in> slot_seq ` set (filter valid ps) then Inl ()
      else Inr (case slot of Some j \<Rightarrow> Some j | None \<Rightarrow> map_option ((+) i) (first_free ps)))"
proof (induction ps arbitrary: i slot)
  case (Cons p ps)
  show ?case
    using Cons.IH [of "Suc i"]
    by (cases slot; cases "first_free ps") (auto simp: image_iff)
qed (simp split: option.splits)

definition peek_spec :: "u16 \<Rightarrow> playout_packet list \<Rightarrow> nat \<Rightarrow> (nat \<times> u16) option
    \<Rightarrow> (nat \<times> u16) option \<Rightarrow> bool" where
  "peek_spec nxt ps i best r \<longleftrightarrow>
     (r = None \<longleftrightarrow> best = None \<and> filter valid ps = []) \<and>
     (\<forall>k sq. r = Some (k, sq) \<longrightarrow>
        (best = Some (k, sq) \<or>
         (\<exists>j < length ps. k = i + j \<and> valid (ps ! j) \<and> slot_seq (ps ! j) = sq)) \<and>
        (\<forall>s \<in> set (filter valid ps). sq - nxt \<le> slot_seq s - nxt) \<and>
        (\<forall>b. best = Some b \<longrightarrow> sq - nxt \<le> snd b - nxt))"

lemma playout_peek_loop_spec: "peek_spec nxt ps i best (playout_peek_loop nxt ps i best)"
proof (induction ps arbitrary: i best)
  case Nil
  show ?case by (simp add: peek_spec_def)
next
  case (Cons p ps)
  define best' where "best' = (if valid p \<and> (case best of None \<Rightarrow> True
      | Some (_, sq) \<Rightarrow> slot_seq p - nxt < sq - nxt) then Some (i, slot_seq p) else best)"
  have IH: "peek_spec nxt ps (Suc i) best' (playout_peek_loop nxt ps (Suc i) best')"
    by (rule Cons.IH)
  have eq: "playout_peek_loop nxt (p # ps) i best = playout_peek_loop nxt ps (Suc i) best'"
    by (simp add: best'_def)
  have none: "best' = None \<longleftrightarrow> best = None \<and> \<not> valid p"
    and from_p: "best' = best \<or> best' = Some (i, slot_seq p) \<and> valid p"
    by (auto simp: best'_def split: option.splits)
  have le_p: "valid p \<Longrightarrow> best' = Some b \<Longrightarrow> snd b - nxt \<le> slot_seq p - nxt"
    and le_best: "best = Some c \<Longrightarrow> best' = Some b \<Longrightarrow> snd b - nxt \<le> snd c - nxt" for b c
    by (auto simp: best'_def split: option.splits if_splits)
  define r where "r = playout_peek_loop nxt ps (Suc i) best'"
  have rN: "r = None \<longleftrightarrow> best' = None \<and> filter valid ps = []"
    using IH by (simp add: peek_spec_def flip: r_def)
  have rS: "best' = Some (k, sq) \<or> (\<exists>j < length ps. k = Suc i + j \<and> valid (ps ! j) \<and> slot_seq (ps ! j) = sq)"
    "\<forall>s \<in> set (filter valid ps). sq - nxt \<le> slot_seq s - nxt"
    "\<forall>b. best' = Some b \<longrightarrow> sq - nxt \<le> snd b - nxt" if "r = Some (k, sq)" for k sq
    using IH that by (simp_all add: peek_spec_def flip: r_def)
  have "peek_spec nxt (p # ps) i best r"
    unfolding peek_spec_def
  proof (intro conjI allI impI)
    show "r = None \<longleftrightarrow> best = None \<and> filter valid (p # ps) = []"
      using rN none by auto
  next
    fix k sq
    assume r: "r = Some (k, sq)"
    show "best = Some (k, sq) \<or> (\<exists>j < length (p # ps). k = i + j \<and> valid ((p # ps) ! j) \<and>
        slot_seq ((p # ps) ! j) = sq)"
      using rS(1) [OF r] from_p by (fastforce simp: less_Suc_eq_0_disj)
    show "\<forall>s \<in> set (filter valid (p # ps)). sq - nxt \<le> slot_seq s - nxt"
      using rS(2,3) [OF r] none le_p by (cases best') (auto intro: order_trans)
    show "\<And>b. best = Some b \<Longrightarrow> sq - nxt \<le> snd b - nxt"
      using rS(3) [OF r] none le_best by (cases best') (auto intro: order_trans)
  qed
  then show ?case by (simp only: eq r_def)
qed

lemma playout_peek_None: "playout_peek q = None \<longleftrightarrow> queued q = []"
  using playout_peek_loop_spec [of "next_sequence q" "packets q" 0 None]
  by (auto simp: playout_peek_def peek_spec_def queued_def)

lemma playout_peek_Some:
  assumes "playout_peek q = Some i"
  shows "i < length (packets q) \<and> valid (packets q ! i) \<and>
    (\<forall>s \<in> set (queued q). slot_seq (packets q ! i) - next_sequence q \<le> slot_seq s - next_sequence q)"
  using assms playout_peek_loop_spec [of "next_sequence q" "packets q" 0 None]
  by (auto simp: playout_peek_def peek_spec_def queued_def)

subsection \<open>Every operation keeps the invariant and updates the map\<close>

lemma playout_inv_reset: "playout_inv q \<Longrightarrow> playout_inv (playout_reset q)"
  by (simp add: playout_inv_def playout_reset_def queued_def filter_map comp_def)

lemma contents_reset: "contents (playout_reset q) = Map.empty"
  by (simp add: contents_def playout_reset_def queued_def filter_map comp_def)

lemma playout_inv_set_floor: "playout_inv q \<Longrightarrow> playout_inv (playout_set_floor q ts e)"
  using playout_inv_reset [of q]
  by (simp add: playout_inv_def playout_set_floor_def queued_def)

lemma dom_contents: "dom (contents q) = slot_seq ` set (queued q)"
  by (simp add: contents_def dom_map_of_conv_image_fst image_image)

lemma finite_dom_contents: "finite (dom (contents q))"
  by (simp add: dom_contents)

lemma card_dom_contents: "playout_inv q \<Longrightarrow> card (dom (contents q)) = length (queued q)"
  unfolding dom_contents by (metis distinct_card length_map playout_inv_def set_map)

lemma contents_slot:
  assumes "playout_inv q" and "s \<in> set (queued q)"
  shows "contents q (slot_seq s) = Some (slot_packet s)"
proof -
  have "distinct (map fst (map (\<lambda>s. (slot_seq s, slot_packet s)) (queued q)))"
    using assms(1) by (simp add: playout_inv_def comp_def)
  then show ?thesis
    unfolding contents_def using assms(2) by (intro map_of_is_SomeI) auto
qed

text \<open>The two list updates of the code, on the filtered list and on the map.\<close>

lemma store_slot:
  assumes "i < length (packets q)" and "\<not> valid (packets q ! i)" and "valid s"
    and "packets q' = (packets q)[i := s]" and "slot_seq s \<notin> dom (contents q)"
  shows "\<exists>xs ys. queued q = xs @ ys \<and> queued q' = xs @ s # ys \<and>
    contents q' = (contents q)(slot_seq s \<mapsto> slot_packet s)"
proof -
  let ?xs = "filter valid (take i (packets q))" and ?ys = "filter valid (drop (Suc i) (packets q))"
  have qs: "queued q = ?xs @ ?ys" "queued q' = ?xs @ s # ?ys"
    using assms by (simp_all add: queued_def filter_split_at [of i "packets q"] filter_update_at)
  have "slot_seq s \<notin> fst ` set (map (\<lambda>s. (slot_seq s, slot_packet s)) ?xs)"
    using assms(5) by (auto simp: dom_contents qs image_image)
  then have "contents q' = (contents q)(slot_seq s \<mapsto> slot_packet s)"
    unfolding contents_def qs
    using map_of_insert_middle [of "(slot_seq s, slot_packet s)"] by simp
  with qs show ?thesis by blast
qed

lemma clear_slot:
  assumes "playout_inv q" and "i < length (packets q)" and "valid (packets q ! i)"
    and "packets q' = (packets q)[i := (packets q ! i)\<lparr>valid := False\<rparr>]"
  shows "\<exists>xs ys. queued q = xs @ packets q ! i # ys \<and> queued q' = xs @ ys \<and>
    contents q' = (contents q)(slot_seq (packets q ! i) := None)"
proof -
  let ?s = "packets q ! i"
  let ?xs = "filter valid (take i (packets q))" and ?ys = "filter valid (drop (Suc i) (packets q))"
  have qs: "queued q = ?xs @ ?s # ?ys" "queued q' = ?xs @ ?ys"
    using assms by (simp_all add: queued_def filter_split_at [of i "packets q"] filter_update_at)
  have "distinct (map slot_seq (queued q))"
    using assms(1) by (simp add: playout_inv_def)
  then have "slot_seq ?s \<notin> fst ` set (map (\<lambda>s. (slot_seq s, slot_packet s)) ?xs)"
    "slot_seq ?s \<notin> fst ` set (map (\<lambda>s. (slot_seq s, slot_packet s)) ?ys)"
    unfolding qs by (auto simp: image_image)
  then have "contents q' = (contents q)(slot_seq ?s := None)"
    unfolding contents_def qs
    using map_of_remove_middle [of "(slot_seq ?s, slot_packet ?s)"] by simp
  with qs show ?thesis by blast
qed

lemma queued_full:
  assumes "playout_inv q"
  shows "first_free (packets q) = None \<longleftrightarrow> card (dom (contents q)) = playout_packets_max"
proof -
  have "length (queued q) = length (packets q) \<longleftrightarrow> (\<forall>s \<in> set (packets q). valid s)"
    unfolding queued_def by (metis filter_True length_filter_less not_less_iff_gr_or_eq)
  then show ?thesis
    using assms by (simp add: first_free_None card_dom_contents) (simp add: playout_inv_def)
qed

text \<open>The reasons for which a packet is not stored.\<close>

definition push_verdict :: "playout \<Rightarrow> rtp_packet \<Rightarrow> int" where
  "push_verdict q p =
     (if payload p = [] \<or> length (payload p) > playout_payload_bytes then -1
      else if playout_below_floor q p then 0
      else if have_sequence q \<and> started q \<and> sint (sequence (header p) - next_sequence q) < 0 then 0
      else if sequence (header p) \<in> dom (contents q) then 0
      else if card (dom (contents q)) = playout_packets_max then -1
      else 1)"

lemma playout_push_not_stored:
  assumes "playout_inv q" and "push_verdict q p \<noteq> 1"
  shows "playout_push q p = Some (push_verdict q p, q)"
  using assms queued_full [of q]
  by (auto simp: playout_push_def push_verdict_def playout_scan_eq Let_def dom_contents queued_def
      split: option.splits)

lemma playout_push_stored:
  assumes inv: "playout_inv q" and v: "push_verdict q p = 1"
  obtains i q' where "playout_push q p = Some (1, q')"
    and "i < length (packets q)" and "\<not> valid (packets q ! i)"
    and "q' = q\<lparr>next_sequence := (if \<not> have_sequence q \<or>
            \<not> started q \<and> sint (sequence (header p) - next_sequence q) < 0
          then sequence (header p) else next_sequence q),
        have_sequence := True,
        packets := (packets q)[i := \<lparr>slot_header = header p, slot_payload = payload p, valid = True\<rparr>],
        count := count q + 1\<rparr>"
proof -
  have free: "first_free (packets q) \<noteq> None"
    and new: "sequence (header p) \<notin> slot_seq ` set (filter valid (packets q))"
    using v inv queued_full [of q]
    by (auto simp: push_verdict_def dom_contents queued_def split: if_splits)
  then obtain i where i: "first_free (packets q) = Some i" by blast
  then have ib: "i < length (packets q)" "\<not> valid (packets q ! i)"
    using first_free_Some by auto
  have "playout_scan (sequence (header p)) (packets q) 0 None = Inr (Some i)"
    using new i by (simp add: playout_scan_eq)
  then show ?thesis
    using v ib by (intro that [of _ i]) (auto simp: push_verdict_def playout_push_def Let_def mem split: if_splits)
qed

lemma playout_push_ok:
  assumes inv: "playout_inv q" and v: "push_verdict q p = 1"
  obtains q' where "playout_push q p = Some (1, q')" and "playout_inv q'"
    and "contents q' = (contents q)(sequence (header p) \<mapsto> p)"
    and "count q' = count q + 1"
proof -
  obtain i q' where push: "playout_push q p = Some (1, q')"
    and ib: "i < length (packets q)" "\<not> valid (packets q ! i)"
    and q': "q' = q\<lparr>next_sequence := (if \<not> have_sequence q \<or>
            \<not> started q \<and> sint (sequence (header p) - next_sequence q) < 0
          then sequence (header p) else next_sequence q),
        have_sequence := True,
        packets := (packets q)[i := \<lparr>slot_header = header p, slot_payload = payload p, valid = True\<rparr>],
        count := count q + 1\<rparr>"
    by (rule playout_push_stored [OF inv v])
  let ?s = "\<lparr>slot_header = header p, slot_payload = payload p, valid = True\<rparr>"
  have new: "slot_seq ?s \<notin> dom (contents q)"
    and pl: "payload p \<noteq> []" "length (payload p) \<le> playout_payload_bytes"
    and notfull: "card (dom (contents q)) \<noteq> playout_packets_max"
    using v by (auto simp: push_verdict_def split: if_splits)
  obtain xs ys where st: "queued q = xs @ ys" "queued q' = xs @ ?s # ys"
    "contents q' = (contents q)(slot_seq ?s \<mapsto> slot_packet ?s)"
    using store_slot [OF ib, of ?s q'] new q' by auto
  have le: "length (queued q) \<le> playout_packets_max"
    using inv by (metis length_filter_le playout_inv_def queued_def)
  then have "length (queued q) < 512"
    using notfull inv by (simp add: card_dom_contents playout_packets_max_def)
  then have "unat (count q + 1) = length (queued q')"
    using inv st by (simp add: playout_inv_def unat_word_ariths)
  moreover have "distinct (map slot_seq (queued q'))"
    using inv new st by (auto simp: playout_inv_def dom_contents)
  ultimately have "playout_inv q'"
    using inv st pl by (auto simp: playout_inv_def q')
  moreover have "slot_packet ?s = p" by (simp add: slot_packet_def)
  ultimately show ?thesis
    using push st(3) q' by (intro that [of q']) auto
qed

lemma playout_pop_ok:
  assumes inv: "playout_inv q" and i: "i < length (packets q)" "valid (packets q ! i)"
    and hs: "have_sequence q"
  obtains q' where "playout_pop q i = Some q'" and "playout_inv q'"
    and "contents q' = (contents q)(slot_seq (packets q ! i) := None)"
    and "next_sequence q' = slot_seq (packets q ! i) + 1"
    and "started q'" and "\<not> have_floor q'" and "count q' = count q - 1" and "have_sequence q'"
proof -
  let ?s = "packets q ! i"
  define q' where "q' = q\<lparr>next_sequence := slot_seq ?s + 1, started := True, have_floor := False,
    packets := (packets q)[i := ?s\<lparr>valid := False\<rparr>], count := count q - 1\<rparr>"
  have pop: "playout_pop q i = Some q'"
    using i by (simp add: playout_pop_def mem q'_def)
  obtain xs ys where st: "queued q = xs @ ?s # ys" "queued q' = xs @ ys"
    "contents q' = (contents q)(slot_seq ?s := None)"
    using clear_slot [OF inv i, of q'] by (auto simp: q'_def)
  have "unat (count q) = Suc (length (queued q'))"
    using inv st by (simp add: playout_inv_def)
  then have "unat (count q - 1) = length (queued q')"
    by (metis diff_Suc_1 unat_gt_0 unat_minus_one zero_less_Suc)
  then have "playout_inv q'"
    using inv st hs by (auto simp: playout_inv_def q'_def)
  with pop st(3) hs show ?thesis
    by (intro that [of q']) (auto simp: q'_def)
qed

text \<open>The empty queue of a zeroed pipeline.\<close>

definition playout_zero :: playout where
  "playout_zero = \<lparr>
     packets = replicate playout_packets_max
       \<lparr>slot_header = \<lparr>version = 0, padding = 0, extension = 0, csrc_count = 0, marker = 0,
          payload_type = 0, sequence = 0, timestamp = 0, ssrc = 0\<rparr>,
        slot_payload = [], valid = False\<rparr>,
     next_sequence = 0, count = 0, started = False, have_sequence = False,
     have_floor = False, floor_exclusive = False, timestamp_floor = 0\<rparr>"

lemma playout_inv_zero: "playout_inv playout_zero"
  by (simp add: playout_inv_def playout_zero_def queued_def)

subsection \<open>The interface of a reorder queue\<close>

text \<open>
  What the audio pipeline relies on: a map from sequence numbers to packets, a base, and
  three operations.  \<open>slot q i\<close> is the packet that the pointer \<open>i\<close> returned by peek
  designates.
\<close>

locale packet_queue =
  fixes inv :: "'q \<Rightarrow> bool"
    and cont :: "'q \<Rightarrow> u16 \<rightharpoonup> rtp_packet"
    and base :: "'q \<Rightarrow> u16"
    and peek :: "'q \<Rightarrow> nat option"
    and slot :: "'q \<Rightarrow> nat \<Rightarrow> rtp_packet option"
    and pop :: "'q \<Rightarrow> nat \<Rightarrow> 'q option"
  assumes finite_cont: "inv q \<Longrightarrow> finite (dom (cont q))"
    and peek_None: "inv q \<Longrightarrow> peek q = None \<longleftrightarrow> cont q = Map.empty"
    and peek_Some: "inv q \<Longrightarrow> peek q = Some i \<Longrightarrow>
      \<exists>p. slot q i = Some p \<and> cont q (sequence (header p)) = Some p \<and>
        (\<forall>s \<in> dom (cont q). sequence (header p) - base q \<le> s - base q)"
    and pop_Some: "inv q \<Longrightarrow> peek q = Some i \<Longrightarrow> slot q i = Some p \<Longrightarrow>
      \<exists>q'. pop q i = Some q' \<and> inv q' \<and> cont q' = (cont q)(sequence (header p) := None) \<and>
        base q' = sequence (header p) + 1"
    and key_packet: "inv q \<Longrightarrow> cont q s = Some p \<Longrightarrow> sequence (header p) = s"

fun drain :: "('q \<Rightarrow> nat option) \<Rightarrow> ('q \<Rightarrow> nat \<Rightarrow> rtp_packet option) \<Rightarrow> ('q \<Rightarrow> nat \<Rightarrow> 'q option)
    \<Rightarrow> nat \<Rightarrow> 'q \<Rightarrow> (rtp_packet list \<times> 'q) option" where
  "drain peek slot pop 0 q = Some ([], q)"
| "drain peek slot pop (Suc n) q =
     (case peek q of None \<Rightarrow> Some ([], q)
      | Some i \<Rightarrow> do {
          p \<leftarrow> slot q i;
          q' \<leftarrow> pop q i;
          (ps, q'') \<leftarrow> drain peek slot pop n q';
          Some (p # ps, q'') })"

context packet_queue
begin

lemma in_ran_dom:
  assumes "inv q" and "a \<in> ran (cont q)"
  shows "sequence (header a) \<in> dom (cont q)"
  using assms key_packet by (auto simp: ran_def)

lemma ran_remove:
  assumes "inv q" and "cont q s = Some p"
  shows "ran (cont q) = insert p (ran ((cont q)(s := None)))"
    and "\<And>a. a \<in> ran ((cont q)(s := None)) \<Longrightarrow> sequence (header a) \<noteq> s"
proof -
  show "ran (cont q) = insert p (ran ((cont q)(s := None)))"
    using assms(2) by (auto simp: ran_def) (metis option.inject)+
  show "\<And>a. a \<in> ran ((cont q)(s := None)) \<Longrightarrow> sequence (header a) \<noteq> s"
    using assms(1) key_packet by (auto simp: ran_def split: if_splits)
qed

text \<open>Draining the queue empties it and yields its packets by distance from the base.\<close>

lemma drain_in_order:
  "inv q \<Longrightarrow> card (dom (cont q)) = n \<Longrightarrow>
   \<exists>ps q'. drain peek slot pop n q = Some (ps, q') \<and> inv q' \<and> cont q' = Map.empty \<and>
     set ps = ran (cont q) \<and> length ps = n \<and>
     sorted_wrt (\<lambda>a b. sequence (header a) - base q < sequence (header b) - base q) ps"
proof (induction n arbitrary: q)
  case 0
  then have "cont q = Map.empty" using finite_cont by simp
  then show ?case using 0 by simp
next
  case (Suc n)
  then have "cont q \<noteq> Map.empty" by auto
  then obtain i where i: "peek q = Some i"
    using peek_None Suc.prems(1) by fastforce
  obtain p where p: "slot q i = Some p" "cont q (sequence (header p)) = Some p"
    and min: "\<forall>s \<in> dom (cont q). sequence (header p) - base q \<le> s - base q"
    using peek_Some [OF Suc.prems(1) i] by blast
  obtain q' where q': "pop q i = Some q'" "inv q'"
    "cont q' = (cont q)(sequence (header p) := None)" "base q' = sequence (header p) + 1"
    using pop_Some [OF Suc.prems(1) i p(1)] by blast
  have "card (dom (cont q')) = n"
    using Suc.prems p(2) finite_cont by (simp add: q'(3) domI)
  then obtain ps q'' where d: "drain peek slot pop n q' = Some (ps, q'')" "inv q''"
    "cont q'' = Map.empty" "set ps = ran (cont q')" "length ps = n"
    and srt: "sorted_wrt (\<lambda>a b. sequence (header a) - base q' < sequence (header b) - base q') ps"
    using Suc.IH [OF q'(2)] by blast
  note ran = ran_remove [OF Suc.prems(1) p(2), folded q'(3)]
  have later: "sequence (header p) - base q < sequence (header a) - base q" if "a \<in> set ps" for a
  proof -
    have "a \<in> ran (cont q)" "sequence (header a) \<noteq> sequence (header p)"
      using that ran d(4) by auto
    then show ?thesis
      using min in_ran_dom [OF Suc.prems(1)] by (simp add: order_less_le)
  qed
  have "sorted_wrt (\<lambda>a b. sequence (header a) - base q < sequence (header b) - base q) ps"
    using srt unfolding q'(4)
    by (rule sorted_wrt_mono_rel [rotated]) (use later serial_shift_less in blast)
  then show ?case
    using i p(1) q'(1) d ran(1) later by auto
qed

end

definition playout_slot :: "playout \<Rightarrow> nat \<Rightarrow> rtp_packet option" where
  "playout_slot q i = map_option slot_packet (rd (packets q) i)"

lemma contents_key: "contents q s = Some p \<Longrightarrow> sequence (header p) = s"
  unfolding contents_def by (auto dest!: map_of_SomeD simp: slot_packet_def)

lemma slot_packet_seq [simp]: "sequence (header (slot_packet s)) = slot_seq s"
  by (simp add: slot_packet_def)

interpretation pq: packet_queue playout_inv contents next_sequence playout_peek playout_slot playout_pop
proof unfold_locales
  fix q
  show "finite (dom (contents q))" by (rule finite_dom_contents)
  show "playout_peek q = None \<longleftrightarrow> contents q = Map.empty"
    unfolding playout_peek_None by (auto simp: contents_def)
next
  fix q i
  assume inv: "playout_inv q" and pk: "playout_peek q = Some i"
  note pk' = playout_peek_Some [OF pk]
  then have "packets q ! i \<in> set (queued q)" by (simp add: queued_def)
  with inv pk' show "\<exists>p. playout_slot q i = Some p \<and> contents q (sequence (header p)) = Some p \<and>
      (\<forall>s \<in> dom (contents q). sequence (header p) - next_sequence q \<le> s - next_sequence q)"
    by (intro exI [of _ "slot_packet (packets q ! i)"])
      (simp add: playout_slot_def mem contents_slot dom_contents)
next
  fix q i p
  assume inv: "playout_inv q" and pk: "playout_peek q = Some i" and sl: "playout_slot q i = Some p"
  note pk' = playout_peek_Some [OF pk]
  then have "queued q \<noteq> []" by (metis option.distinct(1) pk playout_peek_None)
  then have "have_sequence q" using inv by (auto simp: playout_inv_def)
  moreover have "p = slot_packet (packets q ! i)"
    using sl pk' by (simp add: playout_slot_def mem)
  ultimately show "\<exists>q'. playout_pop q i = Some q' \<and> playout_inv q' \<and>
      contents q' = (contents q)(sequence (header p) := None) \<and>
      next_sequence q' = sequence (header p) + 1"
    using playout_pop_ok [OF inv, of i] pk' by (metis slot_packet_seq)
qed (rule contents_key)

subsection \<open>Properties\<close>

text \<open>
  C22: pushing a packet into a well-formed queue has exactly these outcomes.  An empty or
  oversized payload, or a full queue, is refused with -1; a packet below the floor, one
  older than what was already played, or a duplicate is dropped with 0; in those cases
  nothing changes.  Otherwise the packet is stored under its sequence number, nothing else
  in the queue is lost, and the queue stays well formed.
\<close>

theorem playout_push_spec:
  assumes "playout_inv q"
  shows "\<exists>q'. playout_push q p = Some (push_verdict q p, q') \<and> playout_inv q' \<and>
    (if push_verdict q p = 1 then contents q' = (contents q)(sequence (header p) \<mapsto> p)
     else q' = q)"
proof (cases "push_verdict q p = 1")
  case True
  then show ?thesis using playout_push_ok [OF assms True] by metis
next
  case False
  then show ?thesis using playout_push_not_stored [OF assms False] assms by simp
qed

text \<open>
  C23: taking packets from the queue until it is empty yields every stored packet exactly
  once, in the order of the sequence numbers counted from \<open>next_sequence\<close> modulo
  \<open>2\<^sup>16\<close>, whatever the order of arrival and across a wrap of the sequence number.
\<close>

theorem playout_drain_order:
  assumes "playout_inv q"
  shows "\<exists>ps q'. drain playout_peek playout_slot playout_pop (unat (count q)) q = Some (ps, q') \<and>
    contents q' = Map.empty \<and> set ps = ran (contents q) \<and> length ps = unat (count q) \<and>
    sorted_wrt (\<lambda>a b. sequence (header a) - next_sequence q < sequence (header b) - next_sequence q) ps"
proof -
  have "card (dom (contents q)) = unat (count q)"
    using assms by (simp add: card_dom_contents playout_inv_def)
  from pq.drain_in_order [OF assms this] show ?thesis by blast
qed

text \<open>Pushing several packets, as the receive callbacks do between two plays.\<close>

fun playout_push_all :: "playout \<Rightarrow> rtp_packet list \<Rightarrow> playout option" where
  "playout_push_all q [] = Some q"
| "playout_push_all q (p # ps) = do { (c, q') \<leftarrow> playout_push q p; playout_push_all q' ps }"

definition above_floor :: "u32 \<Rightarrow> bool \<Rightarrow> rtp_packet \<Rightarrow> bool" where
  "above_floor ts exclusive p \<longleftrightarrow>
     (let delta = sint (timestamp (header p) - ts) in if exclusive then 0 < delta else 0 \<le> delta)"

definition floor_set :: "u32 \<Rightarrow> bool \<Rightarrow> playout \<Rightarrow> bool" where
  "floor_set ts e q \<longleftrightarrow> have_floor q \<and> timestamp_floor q = ts \<and> floor_exclusive q = e \<and>
     (\<forall>p \<in> ran (contents q). above_floor ts e p)"

lemma playout_push_frame:
  assumes "playout_inv q" and "push_verdict q p = 1" and "playout_push q p = Some (1, q')"
  shows "have_floor q' = have_floor q" "timestamp_floor q' = timestamp_floor q"
    "floor_exclusive q' = floor_exclusive q" "started q' = started q"
  using assms(3) by (rule_tac [!] playout_push_stored [OF assms(1,2)]) auto

lemma playout_push_floor:
  assumes inv: "playout_inv q" and fl: "floor_set ts e q"
  shows "\<exists>c q'. playout_push q p = Some (c, q') \<and> playout_inv q' \<and> floor_set ts e q'"
proof (cases "push_verdict q p = 1")
  case False
  then show ?thesis using playout_push_not_stored [OF inv] inv fl by blast
next
  case True
  obtain q' where push: "playout_push q p = Some (1, q')" and i': "playout_inv q'"
    and c: "contents q' = (contents q)(sequence (header p) \<mapsto> p)"
    by (rule playout_push_ok [OF inv True])
  note q' = playout_push_frame [OF inv True push]
  have "above_floor ts e p"
    using True fl by (auto simp: push_verdict_def playout_below_floor_def above_floor_def
        floor_set_def Let_def split: if_splits)
  then have "floor_set ts e q'"
    using q' fl by (auto simp: floor_set_def ran_def c)
  with push i' show ?thesis by blast
qed

lemma playout_push_all_floor:
  "playout_inv q \<Longrightarrow> floor_set ts e q \<Longrightarrow>
   \<exists>q'. playout_push_all q ps = Some q' \<and> playout_inv q' \<and> floor_set ts e q'"
proof (induction ps arbitrary: q)
  case (Cons p ps)
  then show ?case using playout_push_floor [OF Cons.prems, of p] by fastforce
qed simp

text \<open>
  After a RECORD or FLUSH boundary has been set, only packets at or after it (strictly
  after it, for an exclusive boundary) are queued, by the signed 32-bit distance of their
  timestamps, whatever packets arrive before the next one is played.
\<close>

theorem playout_floor_respected:
  assumes "playout_inv q"
  shows "\<exists>q'. playout_push_all (playout_set_floor q ts exclusive) ps = Some q' \<and> playout_inv q' \<and>
    (\<forall>s p. contents q' s = Some p \<longrightarrow> above_floor ts exclusive p)"
proof -
  have "contents (playout_set_floor q ts exclusive) = Map.empty"
    using contents_reset [of q] by (simp add: playout_set_floor_def contents_def queued_def)
  then have "floor_set ts exclusive (playout_set_floor q ts exclusive)"
    by (simp add: floor_set_def playout_set_floor_def)
  from playout_push_all_floor [OF playout_inv_set_floor [OF assms] this, of ps]
  show ?thesis by (auto simp: floor_set_def ran_def)
qed

subsection \<open>Witnesses\<close>

definition sample_packet :: "u16 \<Rightarrow> u32 \<Rightarrow> rtp_packet" where
  "sample_packet sq ts = \<lparr>header = \<lparr>version = 2, padding = 0, extension = 0, csrc_count = 0,
     marker = 0, payload_type = 96, sequence = sq, timestamp = ts, ssrc = 1\<rparr>, payload = [1, 2, 3]\<rparr>"

theorem playout_push_spec_witness:
  "playout_inv playout_zero \<and>
   (\<exists>q'. playout_push playout_zero (sample_packet 65535 7) = Some (1, q') \<and>
      contents q' 65535 = Some (sample_packet 65535 7))"
proof -
  have "push_verdict playout_zero (sample_packet 65535 7) = 1"
    by (simp add: push_verdict_def playout_below_floor_def playout_zero_def sample_packet_def
        playout_payload_bytes_def contents_def queued_def playout_packets_max_def)
  with playout_push_spec [OF playout_inv_zero, of "sample_packet 65535 7"] playout_inv_zero
  show ?thesis by (auto simp: sample_packet_def)
qed

theorem playout_drain_order_witness:
  "\<exists>q. playout_push_all playout_zero [sample_packet 0 8, sample_packet 65535 7] = Some q \<and>
     (\<exists>ps q'. drain playout_peek playout_slot playout_pop (unat (count q)) q = Some (ps, q') \<and>
        contents q' = Map.empty)"
proof -
  obtain q1 where q1: "playout_push playout_zero (sample_packet 0 8)
      = Some (push_verdict playout_zero (sample_packet 0 8), q1)" "playout_inv q1"
    using playout_push_not_stored playout_push_ok playout_inv_zero by metis
  obtain q2 where q2: "playout_push q1 (sample_packet 65535 7)
      = Some (push_verdict q1 (sample_packet 65535 7), q2)" "playout_inv q2"
    using playout_push_not_stored playout_push_ok q1(2) by metis
  show ?thesis
    using q1 q2 playout_drain_order [OF q2(2)] by auto
qed

theorem playout_floor_respected_witness:
  "\<exists>q'. playout_push_all (playout_set_floor playout_zero 100 True)
       [sample_packet 5 99, sample_packet 6 101] = Some q' \<and> playout_inv q'"
  using playout_floor_respected [OF playout_inv_zero, of 100 True
      "[sample_packet 5 99, sample_packet 6 101]"] by blast

end
