(* ===== verification/Bplist.thy ===== *)
theory Bplist
  imports Prelude
begin

section \<open>Binary property lists (shared/protocol/bplist.c)\<close>

text \<open>
  The bounded reader and writer for Apple's binary property lists, which carry the AirPlay 2
  control messages.  A reader is a validated view of a byte buffer; a writer fills a buffer
  of fixed capacity and remembers a failure.  Sizes and positions (\<open>size_t\<close>) are natural
  numbers; values read from the buffer keep their 64 bits until they are compared.
\<close>

subsection \<open>The reader\<close>

record bplist =
  bp_data :: buf
  table :: nat
  bp_count :: u32
  root :: u32
  offset_size :: nat
  ref_size :: nat

definition BPLIST_NONE :: u32 where
  "BPLIST_NONE = 0xFFFFFFFF"

definition bplist_magic :: buf where
  "bplist_magic = [0x62, 0x70, 0x6c, 0x69, 0x73, 0x74, 0x30, 0x30]"

definition read_be :: "buf \<Rightarrow> nat \<Rightarrow> nat \<Rightarrow> u64 option" where
  "read_be b p n = be_loop b p n 0"

definition bplist_open :: "buf \<Rightarrow> bplist ret option" where
  "bplist_open data =
     (if length data < 40 \<or> take 8 data \<noteq> bplist_magic then fail
      else do {
        let size = length data;
        let tail = size - 32;
        count \<leftarrow> read_be data (tail + 8) 8;
        root \<leftarrow> read_be data (tail + 16) 8;
        table \<leftarrow> read_be data (tail + 24) 8;
        t6 \<leftarrow> rd data (tail + 6);
        t7 \<leftarrow> rd data (tail + 7);
        if t6 = 0 \<or> t6 > 8 \<or> t7 = 0 \<or> t7 > 8 \<or> count = 0 \<or> count > 0xFFFFFFFF \<or>
           root \<ge> count \<or> table < 8 \<or> unat table > size - 32 \<or>
           unat count > (size - 32 - unat table) div unat t6
        then fail
        else ok \<lparr>bp_data = data, table = unat table, bp_count = ucast count, root = ucast root,
                 offset_size = unat t6, ref_size = unat t7\<rparr> })"

text \<open>
  \<open>object\<close>: the type nibble, the position of the contents and the number of elements of the
  object that \<open>ref\<close> designates.  \<open>bplist_object_size\<close> is the part that decodes the size.
\<close>

definition bplist_object_size :: "bplist \<Rightarrow> nat \<Rightarrow> nat \<Rightarrow> nat \<Rightarrow> (nat \<times> nat) ret option" where
  "bplist_object_size p type pos n =
     (if type = 1 \<or> type = 2 then (if n > 3 then fail else ok (pos, 2 ^ n))
      else if n = 15 then
        (if pos \<ge> table p then fail
         else do {
           m \<leftarrow> rd (bp_data p) pos;
           if unat (drop_bit 4 m) \<noteq> 1 \<or> unat (m AND 15) > 3 then fail
           else let bytes = 2 ^ unat (m AND 15); pos = pos + 1 in
             if bytes > table p - pos then fail
             else do { n \<leftarrow> read_be (bp_data p) pos bytes; ok (pos + bytes, unat n) } })
      else ok (pos, n))"

definition bplist_width :: "bplist \<Rightarrow> nat \<Rightarrow> nat" where
  "bplist_width p type =
     (if type = 6 then 2 else if type = 10 then ref_size p
      else if type = 13 then 2 * ref_size p else 1)"

definition bplist_object :: "bplist \<Rightarrow> u32 \<Rightarrow> (nat \<times> nat \<times> nat) ret option" where
  "bplist_object p ref =
     (if ref \<ge> bp_count p then fail
      else do {
        pos \<leftarrow> read_be (bp_data p) (table p + unat ref * offset_size p) (offset_size p);
        if pos < 8 \<or> unat pos \<ge> table p then fail
        else do {
          marker \<leftarrow> rd (bp_data p) (unat pos);
          let type = unat (drop_bit 4 marker);
          on_ok (bplist_object_size p type (unat pos + 1) (unat (marker AND 15))) (\<lambda>(pos, n).
            if n > (table p - pos) div bplist_width p type then fail
            else ok (type, pos, n)) } })"

definition bplist_reference :: "bplist \<Rightarrow> nat \<Rightarrow> u32 option" where
  "bplist_reference p pos = do {
     ref \<leftarrow> read_be (bp_data p) pos (ref_size p);
     Some (if unat ref < unat (bp_count p) then ucast ref else BPLIST_NONE) }"

text \<open>The loop over the keys \<open>i, ..., n - 1\<close> of a dictionary whose references start at \<open>pos\<close>.\<close>

fun bplist_get_loop :: "bplist \<Rightarrow> buf \<Rightarrow> nat \<Rightarrow> nat \<Rightarrow> nat list \<Rightarrow> u32 option" where
  "bplist_get_loop p key pos n [] = Some BPLIST_NONE"
| "bplist_get_loop p key pos n (i # is) = do {
     k \<leftarrow> bplist_reference p (pos + i * ref_size p);
     ob \<leftarrow> bplist_object p k;
     (case ob of
        Inl _ \<Rightarrow> bplist_get_loop p key pos n is
      | Inr (kt, kpos, kn) \<Rightarrow>
          if kt \<noteq> 5 then bplist_get_loop p key pos n is
          else if kn \<noteq> length key then bplist_get_loop p key pos n is
          else do {
            bs \<leftarrow> rd_range (bp_data p) kpos kn;
            if bs = key then bplist_reference p (pos + (n + i) * ref_size p)
            else bplist_get_loop p key pos n is }) }"

definition bplist_get :: "bplist \<Rightarrow> u32 \<Rightarrow> buf \<Rightarrow> u32 option" where
  "bplist_get p dict key = do {
     ob \<leftarrow> bplist_object p dict;
     (case ob of
        Inl _ \<Rightarrow> Some BPLIST_NONE
      | Inr (type, pos, n) \<Rightarrow>
          if type \<noteq> 13 then Some BPLIST_NONE else bplist_get_loop p key pos n [0..<n]) }"

definition bplist_at :: "bplist \<Rightarrow> u32 \<Rightarrow> nat \<Rightarrow> u32 option" where
  "bplist_at p array index = do {
     ob \<leftarrow> bplist_object p array;
     (case ob of
        Inl _ \<Rightarrow> Some BPLIST_NONE
      | Inr (type, pos, n) \<Rightarrow>
          if type \<noteq> 10 \<or> index \<ge> n then Some BPLIST_NONE
          else bplist_reference p (pos + index * ref_size p)) }"

definition bplist_children :: "bplist \<Rightarrow> u32 \<Rightarrow> nat option" where
  "bplist_children p ref = do {
     ob \<leftarrow> bplist_object p ref;
     (case ob of
        Inl _ \<Rightarrow> Some 0
      | Inr (type, pos, n) \<Rightarrow> Some (if type \<noteq> 10 \<and> type \<noteq> 13 then 0 else n)) }"

definition bplist_uint :: "bplist \<Rightarrow> u32 \<Rightarrow> u64 ret option" where
  "bplist_uint p ref =
     on_ok (bplist_object p ref) (\<lambda>(type, pos, n).
       if type \<noteq> 1 then fail
       else do { v \<leftarrow> read_be (bp_data p) pos (n mod 2 ^ 32); ok v })"

text \<open>
  A real is returned as the bits it was read from: an integer to convert, the pattern of a
  double or the pattern of a float.
\<close>

datatype real_bits = FromUint u64 | FromDouble u64 | FromFloat u32

definition bplist_real :: "bplist \<Rightarrow> u32 \<Rightarrow> real_bits ret option" where
  "bplist_real p ref =
     on_ok (bplist_object p ref) (\<lambda>(type, pos, n). do {
       bits \<leftarrow> read_be (bp_data p) pos (n mod 2 ^ 32);
       if type = 1 then ok (FromUint bits)
       else if type \<noteq> 2 then fail
       else if n = 8 then ok (FromDouble bits)
       else if n = 4 then ok (FromFloat (ucast bits))
       else fail })"

definition bplist_bytes :: "bplist \<Rightarrow> u32 \<Rightarrow> buf ret option" where
  "bplist_bytes p ref =
     on_ok (bplist_object p ref) (\<lambda>(type, pos, n).
       if type \<noteq> 4 \<and> type \<noteq> 5 then fail
       else do { bs \<leftarrow> rd_range (bp_data p) pos n; ok bs })"

subsection \<open>The writer\<close>

record bplist_writer =
  w_data :: buf
  used :: nat
  offsets :: "u32 list"
  w_count :: nat
  failed :: bool

text \<open>The stores of \<open>append\<close>, most significant byte first; \<open>i\<close> bytes are still to be written.\<close>

fun append_loop :: "buf \<Rightarrow> nat \<Rightarrow> u64 \<Rightarrow> nat \<Rightarrow> (buf \<times> nat) option" where
  "append_loop d u v 0 = Some (d, u)"
| "append_loop d u v (Suc i) =
     do { d \<leftarrow> wr d u (ucast (drop_bit (i * 8) v)); append_loop d (Suc u) v i }"

definition bplist_append :: "bplist_writer \<Rightarrow> u64 \<Rightarrow> nat \<Rightarrow> bplist_writer option" where
  "bplist_append w v bytes =
     (if failed w \<or> bytes > length (w_data w) - used w then Some (w\<lparr>failed := True\<rparr>)
      else do {
        (d, u) \<leftarrow> append_loop (w_data w) (used w) v bytes;
        Some (w\<lparr>w_data := d, used := u\<rparr>) })"

definition bplist_writer_init :: "buf \<Rightarrow> bplist_writer option" where
  "bplist_writer_init data =
     (let w = \<lparr>w_data = data, used = 0, offsets = replicate 128 0, w_count = 0, failed = False\<rparr> in
      if length data < 40 then Some (w\<lparr>failed := True\<rparr>)
      else do { d \<leftarrow> wr_range data 0 bplist_magic; Some (w\<lparr>w_data := d, used := 8\<rparr>) })"

definition bplist_start :: "bplist_writer \<Rightarrow> nat \<Rightarrow> nat \<Rightarrow> (u32 \<times> bplist_writer) option" where
  "bplist_start w type n =
     (if failed w \<or> w_count w = 128 \<or> used w > 0xFFFFFFFF
      then Some (BPLIST_NONE, w\<lparr>failed := True\<rparr>)
      else do {
        let ref = w_count w;
        offs \<leftarrow> wr (offsets w) ref (of_nat (used w));
        let w = w\<lparr>w_count := ref + 1, offsets := offs\<rparr>;
        w \<leftarrow> bplist_append w (of_nat (type * 16 + (if n < 15 then n else 15))) 1;
        w \<leftarrow> (if n \<ge> 15
             then do { w \<leftarrow> bplist_append w 0x13 1; bplist_append w (of_nat n) 8 }
             else Some w);
        Some (of_nat ref, w) })"

definition bplist_add_bytes :: "bplist_writer \<Rightarrow> nat \<Rightarrow> buf \<Rightarrow> (u32 \<times> bplist_writer) option" where
  "bplist_add_bytes w type data = do {
     (ref, w) \<leftarrow> bplist_start w type (length data);
     if failed w \<or> length data > length (w_data w) - used w
     then Some (BPLIST_NONE, w\<lparr>failed := True\<rparr>)
     else do {
       d \<leftarrow> wr_range (w_data w) (used w) data;
       Some (ref, w\<lparr>w_data := d, used := used w + length data\<rparr>) } }"

definition bplist_add_string :: "bplist_writer \<Rightarrow> buf \<Rightarrow> (u32 \<times> bplist_writer) option" where
  "bplist_add_string w text = bplist_add_bytes w 5 text"

definition bplist_add_data :: "bplist_writer \<Rightarrow> buf \<Rightarrow> (u32 \<times> bplist_writer) option" where
  "bplist_add_data w data = bplist_add_bytes w 4 data"

definition bplist_add_uint :: "bplist_writer \<Rightarrow> u64 \<Rightarrow> (u32 \<times> bplist_writer) option" where
  "bplist_add_uint w value = do {
     (ref, w) \<leftarrow> bplist_start w 1 3;
     w \<leftarrow> bplist_append w value 8;
     Some (ref, w) }"

text \<open>The common body of the reference loops: a reference that is not older than \<open>ref\<close> fails.\<close>

fun append_refs :: "bplist_writer \<Rightarrow> u32 \<Rightarrow> u32 list \<Rightarrow> bplist_writer option" where
  "append_refs w ref [] = Some w"
| "append_refs w ref (r # rs) = do {
     let w = (if r \<ge> ref then w\<lparr>failed := True\<rparr> else w);
     w \<leftarrow> bplist_append w (ucast r) 1;
     append_refs w ref rs }"

definition bplist_add_array :: "bplist_writer \<Rightarrow> u32 list \<Rightarrow> (u32 \<times> bplist_writer) option" where
  "bplist_add_array w refs = do {
     (ref, w) \<leftarrow> bplist_start w 10 (length refs);
     w \<leftarrow> append_refs w ref refs;
     Some (ref, w) }"

text \<open>The pairs are key and value references; all keys are written before all values.\<close>

definition bplist_add_dict ::
  "bplist_writer \<Rightarrow> (u32 \<times> u32) list \<Rightarrow> (u32 \<times> bplist_writer) option" where
  "bplist_add_dict w pairs = do {
     (ref, w) \<leftarrow> bplist_start w 13 (length pairs);
     w \<leftarrow> append_refs w ref (map fst pairs);
     w \<leftarrow> append_refs w ref (map snd pairs);
     Some (ref, w) }"

fun append_offsets :: "bplist_writer \<Rightarrow> nat list \<Rightarrow> bplist_writer option" where
  "append_offsets w [] = Some w"
| "append_offsets w (i # is) = do {
     off \<leftarrow> rd (offsets w) i;
     w \<leftarrow> bplist_append w (ucast off) 4;
     append_offsets w is }"

definition bplist_finish :: "bplist_writer \<Rightarrow> u32 \<Rightarrow> (nat \<times> bplist_writer) option" where
  "bplist_finish w rt =
     (if unat rt \<ge> w_count w \<or> failed w then Some (0, w)
      else do {
        let table = used w;
        w \<leftarrow> append_offsets w [0..<w_count w];
        w \<leftarrow> bplist_append w 0 6;
        w \<leftarrow> bplist_append w 4 1;
        w \<leftarrow> bplist_append w 1 1;
        w \<leftarrow> bplist_append w (of_nat (w_count w)) 8;
        w \<leftarrow> bplist_append w (ucast rt) 8;
        w \<leftarrow> bplist_append w (of_nat table) 8;
        Some (if failed w then 0 else used w, w) })"

subsection \<open>The reader stays inside its buffer\<close>

definition bplist_wf :: "bplist \<Rightarrow> bool" where
  "bplist_wf p \<longleftrightarrow>
     8 \<le> table p \<and> 32 \<le> length (bp_data p) \<and>
     table p + unat (bp_count p) * offset_size p \<le> length (bp_data p) - 32 \<and>
     0 < offset_size p \<and> offset_size p \<le> 8 \<and> 0 < ref_size p \<and> ref_size p \<le> 8 \<and>
     root p < bp_count p"

lemma read_be_Some: "p + n \<le> length b \<Longrightarrow> \<exists>v. read_be b p n = Some v"
  unfolding read_be_def by (rule be_loop_Some)

lemma unat_ucast_32: "unat (x :: u64) < 2 ^ 32 \<Longrightarrow> unat (ucast x :: u32) = unat x"
  by (simp add: unsigned_ucast_eq take_bit_nat_eq_self)

lemma bplist_open_wf:
  assumes "bplist_open data = ok p"
  shows "bplist_wf p \<and> bp_data p = data"
proof -
  define t where "t = length data - 32"
  have len: "40 \<le> length data" and tl: "t + 32 = length data"
    using assms by (auto simp: bplist_open_def t_def split: if_splits)
  obtain count rt tb where r: "read_be data (t + 8) 8 = Some count"
    "read_be data (t + 16) 8 = Some rt" "read_be data (t + 24) 8 = Some tb"
    using read_be_Some [of "t + 8" 8 data] read_be_Some [of "t + 16" 8 data]
      read_be_Some [of "t + 24" 8 data] tl by auto
  define t6 t7 where "t6 = data ! (t + 6)" and "t7 = data ! (t + 7)"
  have rds: "rd data (t + 6) = Some t6" "rd data (t + 7) = Some t7"
    using tl by (simp_all add: rd_def t6_def t7_def)
  have ck: "\<not> (t6 = 0 \<or> t6 > 8 \<or> t7 = 0 \<or> t7 > 8 \<or> count = 0 \<or> count > 0xFFFFFFFF \<or>
      rt \<ge> count \<or> tb < 8 \<or> unat tb > t \<or> unat count > (t - unat tb) div unat t6)"
    and p: "p = \<lparr>bp_data = data, table = unat tb, bp_count = ucast count, root = ucast rt,
      offset_size = unat t6, ref_size = unat t7\<rparr>"
    using assms len unfolding bplist_open_def Let_def t_def [symmetric]
    by (simp_all add: r rds split: if_splits)
  have cnt: "unat count < 2 ^ 32" "unat rt < unat count"
    using ck by (auto simp: word_le_nat_alt word_less_nat_alt not_less not_le)
  have "unat count * unat t6 \<le> t - unat tb"
    using ck by (metis le_trans linorder_not_less mult_le_mono1 div_times_less_eq_dividend)
  then have "unat tb + unat count * unat t6 \<le> t"
    using ck by linarith
  then show ?thesis
    using ck cnt tl unat_ucast_32 [of count] unat_ucast_32 [of rt]
    by (auto simp: p bplist_wf_def word_le_nat_alt word_less_nat_alt not_less not_le unat_gt_0)
qed

lemma table_le_length: "bplist_wf p \<Longrightarrow> table p \<le> length (bp_data p)"
  by (auto simp: bplist_wf_def)

lemma bplist_object_size_ok:
  assumes "bplist_wf p" and "pos \<le> table p"
  shows "bplist_object_size p type pos n \<noteq> None"
    and "bplist_object_size p type pos n = ok (pos', n') \<Longrightarrow> pos' \<le> table p"
proof -
  have tl: "table p \<le> length (bp_data p)"
    using assms(1) by (auto simp: bplist_wf_def)
  have rb: "read_be (bp_data p) (pos + 1) (2 ^ k) \<noteq> None"
    if "2 ^ k \<le> table p - (pos + 1)" "pos < table p" for k
    using read_be_Some [of "pos + 1" "2 ^ k" "bp_data p"] that tl by auto
  show "bplist_object_size p type pos n \<noteq> None"
    unfolding bplist_object_size_def Let_def
    by (intro if_defined bind_defined Some_defined rb) (use assms(2) tl in \<open>simp_all add: mem\<close>)
  show "bplist_object_size p type pos n = ok (pos', n') \<Longrightarrow> pos' \<le> table p"
    using assms(2)
    by (auto simp: bplist_object_size_def Let_def bind_eq_Some_conv split: if_splits)
qed

lemma bplist_width_pos: "bplist_wf p \<Longrightarrow> 0 < bplist_width p type"
  by (auto simp: bplist_width_def bplist_wf_def)

lemma bplist_object_defined:
  assumes wf: "bplist_wf p"
  shows "bplist_object p ref \<noteq> None"
proof (cases "ref < bp_count p")
  case True
  have "unat ref * offset_size p + offset_size p \<le> unat (bp_count p) * offset_size p"
    using True by (metis Suc_leI add.commute mult_Suc mult_le_mono1 word_less_nat_alt)
  then have "table p + unat ref * offset_size p + offset_size p \<le> length (bp_data p)"
    using wf unfolding bplist_wf_def by linarith
  then obtain pos where pos: "read_be (bp_data p) (table p + unat ref * offset_size p) (offset_size p) = Some pos"
    using read_be_Some by blast
  have tl: "table p \<le> length (bp_data p)"
    using wf by (auto simp: bplist_wf_def)
  show ?thesis
    unfolding bplist_object_def Let_def pos
    using tl
    by (intro if_defined bind_defined on_ok_defined Some_defined bplist_object_size_ok(1) [OF wf])
      (auto simp: mem)
qed (simp add: bplist_object_def not_less)

lemma bplist_object_bounds:
  assumes wf: "bplist_wf p" and ob: "bplist_object p ref = ok (type, pos, n)"
  shows "pos + n * bplist_width p type \<le> table p" and "ref < bp_count p"
proof -
  show lt: "ref < bp_count p"
    using ob by (auto simp: bplist_object_def not_le split: if_splits)
  obtain ps m where "ps < table p"
    and sz: "bplist_object_size p type (ps + 1) m = ok (pos, n)"
    and nb: "\<not> n > (table p - pos) div bplist_width p type"
    using ob lt unfolding bplist_object_def Let_def
    by (fastforce simp: bind_eq_Some_conv on_ok_ok_iff not_le split: if_splits)
  then have "pos \<le> table p"
    using bplist_object_size_ok(2) [OF wf _ sz] by simp
  moreover have "n * bplist_width p type \<le> table p - pos"
    using nb by (metis le_trans linorder_not_less mult_le_mono1 div_times_less_eq_dividend)
  ultimately show "pos + n * bplist_width p type \<le> table p" by linarith
qed

lemma bplist_reference_defined:
  "bplist_wf p \<Longrightarrow> pos + ref_size p \<le> table p \<Longrightarrow> bplist_reference p pos \<noteq> None"
  unfolding bplist_reference_def
  using read_be_Some [of pos "ref_size p" "bp_data p"]
  by (intro bind_defined Some_defined) (auto simp: bplist_wf_def)

lemma ref_bounds:
  assumes "pos + n * (c * r) \<le> t" and "i < n * c"
  shows "pos + i * r + r \<le> (t :: nat)"
proof -
  have "i * r + r \<le> n * c * r"
    using assms(2) by (metis Suc_leI add.commute mult_Suc mult_le_mono1)
  then show ?thesis using assms(1) by (simp add: mult.assoc)
qed

lemma bplist_get_loop_defined:
  assumes wf: "bplist_wf p" and b: "pos + n * (2 * ref_size p) \<le> table p"
  shows "set is \<subseteq> {..<n} \<Longrightarrow> bplist_get_loop p key pos n is \<noteq> None"
proof (induction "is")
  case (Cons i "is")
  then have i: "i < n" and IH: "bplist_get_loop p key pos n is \<noteq> None" by auto
  have k: "bplist_reference p (pos + i * ref_size p) \<noteq> None"
    and v: "bplist_reference p (pos + (n + i) * ref_size p) \<noteq> None"
    using i by (intro bplist_reference_defined [OF wf] ref_bounds [OF b]; simp)+
  have bs: "rd_range (bp_data p) kpos kn \<noteq> None" if "bplist_object p k = ok (kt, kpos, kn)" "kt = 5" for k kt kpos kn
    using bplist_object_bounds(1) [OF wf that(1)] that(2) table_le_length [OF wf]
    by (simp add: rd_range_def bplist_width_def)
  show ?case
    unfolding bplist_get_loop.simps
  proof (intro bind_defined k bplist_object_defined [OF wf], goal_cases)
    case (1 r ob)
    show ?case
    proof (cases ob)
      case (Inr x)
      obtain kt kpos kn where x: "x = (kt, kpos, kn)" by (cases x)
      show ?thesis
        unfolding Inr x sum.case prod.case
        by (intro if_defined bind_defined v IH bs [of r kt]) (use 1 Inr x in simp_all)
    qed (simp only: sum.case, rule IH)
  qed
qed simp

lemma bplist_reader_total:
  "bplist_open data \<noteq> None \<and>
   (\<forall>p. bplist_open data = ok p \<longrightarrow>
      bplist_get p ref key \<noteq> None \<and> bplist_at p ref i \<noteq> None \<and> bplist_children p ref \<noteq> None \<and>
      bplist_uint p ref \<noteq> None \<and> bplist_real p ref \<noteq> None \<and> bplist_bytes p ref \<noteq> None)"
proof (intro conjI allI impI)
  define t where "t = length data - 32"
  show "bplist_open data \<noteq> None"
    unfolding bplist_open_def Let_def t_def [symmetric]
    using read_be_Some [of _ 8 data]
    by (intro if_defined bind_defined Some_defined; auto simp: t_def rd_def)
next
  fix p
  assume "bplist_open data = ok p"
  then have wf: "bplist_wf p" using bplist_open_wf by blast
  note ob = bplist_object_defined [OF wf] and bd = bplist_object_bounds(1) [OF wf]
  have tl: "table p \<le> length (bp_data p)" using wf by (auto simp: bplist_wf_def)
  have w: "0 < bplist_width p type" for type by (rule bplist_width_pos [OF wf])
  have rb: "read_be (bp_data p) pos (n mod 2 ^ 32) \<noteq> None" and rr: "rd_range (bp_data p) pos n \<noteq> None"
    if "bplist_object p ref = ok (type, pos, n)" for type pos n
  proof -
    have "n \<le> n * bplist_width p type" using w [of type] by simp
    then have "pos + n \<le> length (bp_data p)" using bd [OF that] tl by linarith
    then show "read_be (bp_data p) pos (n mod 2 ^ 32) \<noteq> None" "rd_range (bp_data p) pos n \<noteq> None"
      using read_be_Some [of pos "n mod 2 ^ 32" "bp_data p"] mod_less_eq_dividend [of n "2 ^ 32"]
      by (auto simp: mem)
  qed
  show "bplist_uint p ref \<noteq> None"
    unfolding bplist_uint_def
    by (rule on_ok_defined [OF ob], simp only: split_paired_all case_prod_conv)
      (intro if_defined bind_defined Some_defined rb, assumption)
  show "bplist_real p ref \<noteq> None"
    unfolding bplist_real_def
    by (rule on_ok_defined [OF ob], simp only: split_paired_all case_prod_conv)
      (intro if_defined bind_defined Some_defined rb, assumption)
  show "bplist_bytes p ref \<noteq> None"
    unfolding bplist_bytes_def
    by (rule on_ok_defined [OF ob], simp only: split_paired_all case_prod_conv)
      (intro if_defined bind_defined Some_defined rr, assumption)
  show "bplist_children p ref \<noteq> None"
    unfolding bplist_children_def
    by (intro bind_defined ob) (auto split: sum.split)
  show "bplist_at p ref i \<noteq> None"
    unfolding bplist_at_def
  proof (rule bind_defined [OF ob])
    fix x
    assume x: "bplist_object p ref = Some x"
    show "(case x of Inl _ \<Rightarrow> Some BPLIST_NONE
       | Inr (type, pos, n) \<Rightarrow> if type \<noteq> 10 \<or> i \<ge> n then Some BPLIST_NONE
           else bplist_reference p (pos + i * ref_size p)) \<noteq> None"
    proof (cases x)
      case (Inr y)
      obtain ty ps n where y: "y = (ty, ps, n)" by (cases y)
      have "bplist_reference p (ps + i * ref_size p) \<noteq> None" if "ty = 10" "i < n"
        using bd [of ref ty ps n] x that Inr y
        by (intro bplist_reference_defined [OF wf] ref_bounds [of _ n 1]) (simp_all add: bplist_width_def)
      then show ?thesis
        unfolding Inr y sum.case prod.case by (intro if_defined Some_defined) (auto simp only: not_le de_Morgan_disj not_not)
    qed (simp only: sum.case, rule Some_defined)
  qed
  show "bplist_get p ref key \<noteq> None"
    unfolding bplist_get_def
  proof (rule bind_defined [OF ob])
    fix x
    assume x: "bplist_object p ref = Some x"
    show "(case x of Inl _ \<Rightarrow> Some BPLIST_NONE
       | Inr (type, pos, n) \<Rightarrow> if type \<noteq> 13 then Some BPLIST_NONE
           else bplist_get_loop p key pos n [0..<n]) \<noteq> None"
    proof (cases x)
      case (Inr y)
      obtain ty ps n where y: "y = (ty, ps, n)" by (cases y)
      have "bplist_get_loop p key ps n [0..<n] \<noteq> None" if "ty = 13"
        using bd [of ref ty ps n] x that Inr y
        by (intro bplist_get_loop_defined [OF wf]) (auto simp: bplist_width_def)
      then show ?thesis
        unfolding Inr y sum.case prod.case by (intro if_defined Some_defined) (auto simp only: not_not)
    qed (simp only: sum.case, rule Some_defined)
  qed
qed

text \<open>
  C24: whatever bytes a message holds, once \<open>bplist_open\<close> has accepted it no accessor
  reads outside it, for any reference, key or index; and opening it does not either.
\<close>

theorem bplist_reader_safe:
  "bplist_open data \<noteq> None \<and>
   (\<forall>p. bplist_open data = ok p \<longrightarrow>
      bplist_get p ref key \<noteq> None \<and> bplist_at p ref i \<noteq> None \<and> bplist_children p ref \<noteq> None \<and>
      bplist_uint p ref \<noteq> None \<and> bplist_real p ref \<noteq> None \<and> bplist_bytes p ref \<noteq> None)"
  by (rule bplist_reader_total)

text \<open>A document with the single object 42.\<close>

definition sample_document :: buf where
  "sample_document = bplist_magic @ [0x10, 42, 8] @
     [0, 0, 0, 0, 0, 0, 1, 1] @ [0, 0, 0, 0, 0, 0, 0, 1] @ [0, 0, 0, 0, 0, 0, 0, 0] @ [0, 0, 0, 0, 0, 0, 0, 10]"

definition sample_view :: bplist where
  "sample_view = \<lparr>bp_data = sample_document, table = 10, bp_count = 1, root = 0,
                   offset_size = 1, ref_size = 1\<rparr>"

lemma sample_document_opens: "bplist_open sample_document = ok sample_view"
  by (simp add: bplist_open_def sample_view_def sample_document_def bplist_magic_def read_be_def
      be_loop_eq be_nat_def rd_def)

lemma sample_document_value: "bplist_uint sample_view (root sample_view) = ok 42"
  by (simp add: bplist_uint_def bplist_object_def bplist_object_size_def bplist_width_def
      sample_view_def sample_document_def bplist_magic_def read_be_def be_loop_eq be_nat_def rd_def)

theorem bplist_reader_safe_witness:
  "bplist_open sample_document = ok sample_view \<and>
   bplist_uint sample_view (root sample_view) = ok 42 \<and> bplist_uint sample_view 7 \<noteq> None"
proof (intro conjI)
  show "bplist_uint sample_view 7 \<noteq> None"
    using bplist_reader_safe [of sample_document 7] sample_document_opens by blast
qed (rule sample_document_opens sample_document_value)+

end
