(* ===== verification/Bplist_Writer.thy ===== *)
theory Bplist_Writer
  imports Bplist
begin

section \<open>What the property list writer produces\<close>

text \<open>
  The writer of \<open>Bplist\<close> against an abstract document: a list of items, each encoded as a
  head (type, number of elements) and a payload.  The first part shows that no sequence of
  additions leaves the buffer and that an unfailed writer holds exactly the encoding; the
  second that \<open>bplist_finish\<close> makes a document that the reader opens and from which every
  item comes back.
\<close>

subsection \<open>The abstract document\<close>

datatype item =
    UintItem u64
  | DataItem buf
  | TextItem buf
  | ArrayItem "u32 list"
  | DictItem "(u32 \<times> u32) list"

fun item_type :: "item \<Rightarrow> nat" where
  "item_type (UintItem v) = 1"
| "item_type (DataItem bs) = 4"
| "item_type (TextItem bs) = 5"
| "item_type (ArrayItem rs) = 10"
| "item_type (DictItem ps) = 13"

text \<open>The number in the head: for an integer the binary logarithm of its width.\<close>

fun item_nibble :: "item \<Rightarrow> nat" where
  "item_nibble (UintItem v) = 3"
| "item_nibble (DataItem bs) = length bs"
| "item_nibble (TextItem bs) = length bs"
| "item_nibble (ArrayItem rs) = length rs"
| "item_nibble (DictItem ps) = length ps"

fun item_payload :: "item \<Rightarrow> buf" where
  "item_payload (UintItem v) = be_bytes 8 v"
| "item_payload (DataItem bs) = bs"
| "item_payload (TextItem bs) = bs"
| "item_payload (ArrayItem rs) = map ucast rs"
| "item_payload (DictItem ps) = map (ucast \<circ> fst) ps @ map (ucast \<circ> snd) ps"

fun item_refs :: "item \<Rightarrow> u32 list" where
  "item_refs (ArrayItem rs) = rs"
| "item_refs (DictItem ps) = map fst ps @ map snd ps"
| "item_refs _ = []"

definition head_bytes :: "nat \<Rightarrow> nat \<Rightarrow> buf" where
  "head_bytes type n =
     (if n < 15 then [of_nat (type * 16 + n)]
      else [of_nat (type * 16 + 15), 0x13] @ be_bytes 8 (of_nat n))"

definition item_bytes :: "item \<Rightarrow> buf" where
  "item_bytes it = head_bytes (item_type it) (item_nibble it) @ item_payload it"

definition body :: "item list \<Rightarrow> buf" where
  "body items = bplist_magic @ concat (map item_bytes items)"

definition item_offsets :: "item list \<Rightarrow> u32 list" where
  "item_offsets items = map (\<lambda>i. of_nat (length (body (take i items)))) [0..<length items]"

fun bplist_add :: "bplist_writer \<Rightarrow> item \<Rightarrow> (u32 \<times> bplist_writer) option" where
  "bplist_add w (UintItem v) = bplist_add_uint w v"
| "bplist_add w (DataItem bs) = bplist_add_data w bs"
| "bplist_add w (TextItem bs) = bplist_add_string w bs"
| "bplist_add w (ArrayItem rs) = bplist_add_array w rs"
| "bplist_add w (DictItem ps) = bplist_add_dict w ps"

fun bplist_add_all :: "bplist_writer \<Rightarrow> item list \<Rightarrow> bplist_writer option" where
  "bplist_add_all w [] = Some w"
| "bplist_add_all w (it # its) = do { (ref, w) \<leftarrow> bplist_add w it; bplist_add_all w its }"

subsection \<open>The writer's state\<close>

text \<open>
  \<open>holds w bs os\<close>: the writer is inside its buffer and, unless it has failed, contains the
  bytes \<open>bs\<close> and the offsets \<open>os\<close>.
\<close>

definition holds :: "bplist_writer \<Rightarrow> buf \<Rightarrow> u32 list \<Rightarrow> bool" where
  "holds w bs os \<longleftrightarrow>
     used w \<le> length (w_data w) \<and> length (offsets w) = 128 \<and> w_count w \<le> 128 \<and>
     (\<not> failed w \<longrightarrow> take (used w) (w_data w) = bs \<and> take (w_count w) (offsets w) = os)"

text \<open>What every operation keeps of the writer.\<close>

definition follows :: "bplist_writer \<Rightarrow> bplist_writer \<Rightarrow> bool" where
  "follows w w' \<longleftrightarrow> length (w_data w') = length (w_data w) \<and> (failed w \<longrightarrow> failed w')"

lemma follows_refl [simp]: "follows w w"
  by (simp add: follows_def)

lemma follows_trans: "follows a b \<Longrightarrow> follows b c \<Longrightarrow> follows a c"
  by (simp add: follows_def)

lemma append_loop_eq:
  "u + n \<le> length d \<Longrightarrow>
   append_loop d u v n = Some (take u d @ be_bytes n v @ drop (u + n) d, u + n)"
proof (induction n arbitrary: d u)
  case (Suc n)
  have "take (Suc u) (d[u := x]) = take u d @ [x]" for x
    using Suc.prems by (simp add: take_Suc_conv_app_nth)
  then show ?case
    using Suc by (simp add: mem)
qed simp

lemma append_holds:
  assumes "holds w bs os"
  shows "\<exists>w'. bplist_append w v n = Some w' \<and> holds w' (bs @ be_bytes n v) os \<and> follows w w' \<and>
              w_count w' = w_count w"
proof (cases "failed w \<or> n > length (w_data w) - used w")
  case False
  then have "used w + n \<le> length (w_data w)" "\<not> failed w"
    using assms by (auto simp: holds_def)
  then show ?thesis
    using assms by (auto simp: bplist_append_def append_loop_eq holds_def follows_def)
qed (use assms in \<open>auto simp: bplist_append_def holds_def follows_def\<close>)

lemma be_bytes_1: "be_bytes 1 v = [ucast v]"
  by simp

lemma start_holds:
  assumes "holds w bs os"
  shows "\<exists>ref w'. bplist_start w type n = Some (ref, w') \<and>
           holds w' (bs @ head_bytes type n) (os @ [of_nat (length bs)]) \<and> follows w w' \<and>
           (\<not> failed w' \<longrightarrow> ref = of_nat (length os) \<and> length os < 128 \<and> length bs < 2 ^ 32)"
proof (cases "failed w \<or> w_count w = 128 \<or> used w > 0xFFFFFFFF")
  case True
  then show ?thesis
    using assms by (auto simp: bplist_start_def holds_def follows_def)
next
  case False
  define w1 where "w1 = w\<lparr>w_count := w_count w + 1,
    offsets := (offsets w)[w_count w := of_nat (used w)]\<rparr>"
  have c: "w_count w < 128" "w_count w < length (offsets w)" and nf: "\<not> failed w"
    and b: "bs = take (used w) (w_data w)" "os = take (w_count w) (offsets w)"
    and len: "length bs = used w" "length os = w_count w"
    using False assms by (auto simp: holds_def)
  have h1: "holds w1 bs (os @ [of_nat (length bs)])" and f1: "follows w w1"
    using assms c nf by (auto simp: w1_def holds_def follows_def len take_Suc_conv_app_nth)
  define mk :: u64 where "mk = of_nat (type * 16 + (if n < 15 then n else 15))"
  obtain w2 where w2: "bplist_append w1 mk 1 = Some w2" "follows w1 w2"
    and h2: "holds w2 (bs @ be_bytes 1 mk) (os @ [of_nat (length bs)])"
    using append_holds [OF h1] by blast
  have mk8: "ucast mk = (of_nat (type * 16 + (if n < 15 then n else 15)) :: u8)"
    by (simp only: mk_def) (rule ucast_of_nat_down, simp)
  have st: "bplist_start w type n = (do {
      w' \<leftarrow> (if n \<ge> 15 then do { w \<leftarrow> bplist_append w2 0x13 1; bplist_append w (of_nat n) 8 } else Some w2);
      Some (of_nat (w_count w), w') })"
    using False c(2) w2(1) by (simp add: bplist_start_def mem Let_def w1_def mk_def)
  have sz: "length bs < 2 ^ 32" using False len by simp
  show ?thesis
  proof (cases "n < 15")
    case True
    then show ?thesis
      using h2 w2(2) f1 c(1) len sz by (auto simp: st head_bytes_def mk8 intro: follows_trans)
  next
    case False
    obtain w3 where w3: "bplist_append w2 0x13 1 = Some w3" "follows w2 w3"
      and h3: "holds w3 ((bs @ be_bytes 1 mk) @ be_bytes 1 0x13) (os @ [of_nat (length bs)])"
      using append_holds [OF h2] by blast
    obtain w4 where w4: "bplist_append w3 (of_nat n) 8 = Some w4" "follows w3 w4"
      and h4: "holds w4 (((bs @ be_bytes 1 mk) @ be_bytes 1 0x13) @ be_bytes 8 (of_nat n))
        (os @ [of_nat (length bs)])"
      using append_holds [OF h3] by blast
    have "((bs @ be_bytes 1 mk) @ be_bytes 1 0x13) @ be_bytes 8 (of_nat n) = bs @ head_bytes type n"
      using False by (simp add: head_bytes_def mk8)
    then show ?thesis
      using False h4 w3 w4 w2(2) f1 c(1) len sz by (auto simp: st intro: follows_trans)
  qed
qed

lemma append_refs_holds:
  assumes "holds w bs os"
  shows "\<exists>w'. append_refs w ref rs = Some w' \<and> holds w' (bs @ map ucast rs) os \<and> follows w w' \<and>
           (\<not> failed w' \<longrightarrow> (\<forall>r \<in> set rs. r < ref))"
  using assms
proof (induction rs arbitrary: w bs)
  case (Cons r rs)
  define w0 where "w0 = (if r \<ge> ref then w\<lparr>failed := True\<rparr> else w)"
  have h0: "holds w0 bs os" and f0: "follows w w0"
    using Cons.prems by (auto simp: w0_def holds_def follows_def)
  obtain w1 where w1: "bplist_append w0 (ucast r) 1 = Some w1" "follows w0 w1"
    and h1: "holds w1 (bs @ be_bytes 1 (ucast r)) os"
    using append_holds [OF h0] by blast
  obtain w2 where w2: "append_refs w1 ref rs = Some w2" "follows w1 w2"
    and h2: "holds w2 ((bs @ be_bytes 1 (ucast r)) @ map ucast rs) os"
    and lt: "\<not> failed w2 \<longrightarrow> (\<forall>r \<in> set rs. r < ref)"
    using Cons.IH [OF h1] by blast
  have "r < ref" if "\<not> failed w2"
    using that w1(2) w2(2) by (auto simp: follows_def w0_def not_le split: if_splits)
  then show ?case
    using w1 w2 h2 lt f0
    by (auto simp: w0_def Let_def ucast_via_wider intro: follows_trans)
qed auto

lemma add_bytes_holds:
  assumes "holds w bs os"
  shows "\<exists>ref w'. bplist_add_bytes w type d = Some (ref, w') \<and>
           holds w' (bs @ head_bytes type (length d) @ d) (os @ [of_nat (length bs)]) \<and> follows w w' \<and>
           (\<not> failed w' \<longrightarrow> ref = of_nat (length os) \<and> length os < 128 \<and> length bs < 2 ^ 32)"
proof -
  obtain ref w1 where st: "bplist_start w type (length d) = Some (ref, w1)" "follows w w1"
    and h1: "holds w1 (bs @ head_bytes type (length d)) (os @ [of_nat (length bs)])"
    and r: "\<not> failed w1 \<longrightarrow> ref = of_nat (length os) \<and> length os < 128 \<and> length bs < 2 ^ 32"
    using start_holds [OF assms] by blast
  show ?thesis
  proof (cases "failed w1 \<or> length d > length (w_data w1) - used w1")
    case False
    then have fit: "used w1 + length d \<le> length (w_data w1)" and nf: "\<not> failed w1"
      using h1 by (auto simp: holds_def)
    define w2 where "w2 = w1\<lparr>w_data := take (used w1) (w_data w1) @ d @ drop (used w1 + length d) (w_data w1),
      used := used w1 + length d\<rparr>"
    have "bplist_add_bytes w type d = Some (ref, w2)"
      using st False fit by (simp add: bplist_add_bytes_def mem w2_def)
    moreover have "holds w2 (bs @ head_bytes type (length d) @ d) (os @ [of_nat (length bs)])"
    proof -
      have tk: "take (used w1) (w_data w1) = bs @ head_bytes type (length d)"
        using h1 nf by (simp add: holds_def)
      have "used w1 = length bs + length (head_bytes type (length d))"
        using arg_cong [OF tk, of length] fit by simp
      then show ?thesis
        using h1 fit nf tk by (simp add: holds_def w2_def)
    qed
    moreover have "follows w w2"
      using st(2) fit by (auto simp: follows_def w2_def)
    ultimately show ?thesis using r nf by blast
  qed (use st h1 in \<open>auto simp: bplist_add_bytes_def holds_def follows_def\<close>)
qed

text \<open>Every addition extends the document by its item, or fails.\<close>

lemma add_holds:
  assumes "holds w (body its) (item_offsets its)"
  shows "\<exists>ref w'. bplist_add w it = Some (ref, w') \<and>
           holds w' (body (its @ [it])) (item_offsets (its @ [it])) \<and> follows w w' \<and>
           (\<not> failed w' \<longrightarrow> ref = of_nat (length its) \<and> (\<forall>r \<in> set (item_refs it). r < ref) \<and>
              length its < 128 \<and> length (body its) < 2 ^ 32)"
proof -
  let ?t = "item_type it" and ?n = "item_nibble it"
  obtain ref w1 where st: "bplist_start w ?t ?n = Some (ref, w1)" "follows w w1"
    and h1: "holds w1 (body its @ head_bytes ?t ?n) (item_offsets its @ [of_nat (length (body its))])"
    and r: "\<not> failed w1 \<longrightarrow> ref = of_nat (length (item_offsets its)) \<and>
      length (item_offsets its) < 128 \<and> length (body its) < 2 ^ 32"
    using start_holds [OF assms] by blast
  have os: "item_offsets its @ [of_nat (length (body its))] = item_offsets (its @ [it])"
    by (simp add: item_offsets_def)
  have bs: "body its @ head_bytes ?t ?n @ item_payload it = body (its @ [it])"
    by (simp add: body_def item_bytes_def)
  have len: "length (item_offsets its) = length its"
    by (simp add: item_offsets_def)
  show ?thesis
  proof (cases it)
    case (UintItem v)
    then show ?thesis
      using st append_holds [OF h1, of v 8] r bs os len
      by (auto simp: bplist_add_uint_def follows_def intro: follows_trans)
  next
    case (ArrayItem rs)
    then show ?thesis
      using st append_refs_holds [OF h1, of ref rs] r bs os len
      by (fastforce simp: bplist_add_array_def follows_def intro: follows_trans)
  next
    case (DictItem ps)
    obtain w2 where w2: "append_refs w1 ref (map fst ps) = Some w2" "follows w1 w2"
      and h2: "holds w2 ((body its @ head_bytes ?t ?n) @ map ucast (map fst ps)) (item_offsets (its @ [it]))"
      and l2: "\<not> failed w2 \<longrightarrow> (\<forall>r \<in> set (map fst ps). r < ref)"
      using append_refs_holds [OF h1 [unfolded os]] by blast
    obtain w3 where w3: "append_refs w2 ref (map snd ps) = Some w3" "follows w2 w3"
      and h3: "holds w3 (((body its @ head_bytes ?t ?n) @ map ucast (map fst ps)) @ map ucast (map snd ps))
        (item_offsets (its @ [it]))"
      and l3: "\<not> failed w3 \<longrightarrow> (\<forall>r \<in> set (map snd ps). r < ref)"
      using append_refs_holds [OF h2] by blast
    have "((body its @ head_bytes ?t ?n) @ map ucast (map fst ps)) @ map ucast (map snd ps) =
        body (its @ [it])"
      using bs DictItem by simp
    then show ?thesis
      using st w2 w3 h3 l2 l3 r len DictItem
      by (auto simp: bplist_add_dict_def follows_def)
  next
    case (DataItem d)
    then show ?thesis
      using add_bytes_holds [OF assms, of 4 d] bs os len by (auto simp: bplist_add_data_def)
  next
    case (TextItem d)
    then show ?thesis
      using add_bytes_holds [OF assms, of 5 d] bs os len by (auto simp: bplist_add_string_def)
  qed
qed

subsection \<open>From an empty buffer to a finished document\<close>

definition document :: "item list \<Rightarrow> u32 \<Rightarrow> buf" where
  "document its rt =
     body its @ concat (map (\<lambda>off. be_bytes 4 (ucast off)) (item_offsets its)) @
     [0, 0, 0, 0, 0, 0, 4, 1] @ be_bytes 8 (of_nat (length its)) @ be_bytes 8 (ucast rt) @
     be_bytes 8 (of_nat (length (body its)))"

lemma init_holds:
  "\<exists>w. bplist_writer_init data = Some w \<and> holds w (body []) (item_offsets []) \<and>
       length (w_data w) = length data"
proof -
  have m: "length bplist_magic = 8" by (simp add: bplist_magic_def)
  show ?thesis
  proof (cases "length data < 40")
    case True
    then show ?thesis
      by (simp add: bplist_writer_init_def holds_def)
  next
    case False
    then show ?thesis
      by (simp add: bplist_writer_init_def mem m holds_def body_def item_offsets_def)
  qed
qed

text \<open>Several integers in a row.\<close>

fun appends :: "bplist_writer \<Rightarrow> (u64 \<times> nat) list \<Rightarrow> bplist_writer option" where
  "appends w [] = Some w"
| "appends w ((v, n) # vs) = do { w \<leftarrow> bplist_append w v n; appends w vs }"

lemma appends_holds:
  assumes "holds w bs os"
  shows "\<exists>w'. appends w vs = Some w' \<and> holds w' (bs @ concat (map (\<lambda>(v, n). be_bytes n v) vs)) os \<and>
           follows w w' \<and> w_count w' = w_count w"
  using assms
proof (induction vs arbitrary: w bs)
  case (Cons vn vs)
  obtain v n where vn: "vn = (v, n)" by (cases vn)
  obtain w1 where w1: "bplist_append w v n = Some w1" "follows w w1" "w_count w1 = w_count w"
    and h1: "holds w1 (bs @ be_bytes n v) os"
    using append_holds [OF Cons.prems] by blast
  show ?case
    using Cons.IH [OF h1] w1 by (auto simp: vn intro: follows_trans)
qed auto

lemma item_offsets_snoc:
  "item_offsets (its @ [it]) = item_offsets its @ [of_nat (length (body its))]"
  by (simp add: item_offsets_def)

lemma add_all_holds:
  "holds w (body its) (item_offsets its) \<Longrightarrow>
   \<exists>w'. bplist_add_all w new = Some w' \<and>
        holds w' (body (its @ new)) (item_offsets (its @ new)) \<and> follows w w' \<and>
        (\<not> failed w' \<longrightarrow> (\<forall>i. length its \<le> i \<and> i < length (its @ new) \<longrightarrow>
            i < 128 \<and> length (body (take i (its @ new))) < 2 ^ 32 \<and>
            (\<forall>r \<in> set (item_refs ((its @ new) ! i)). unat r < i)))"
proof (induction new arbitrary: w its)
  case (Cons it new)
  obtain ref w1 where a: "bplist_add w it = Some (ref, w1)" "follows w w1"
    and h: "holds w1 (body (its @ [it])) (item_offsets (its @ [it]))"
    and r: "\<not> failed w1 \<longrightarrow> ref = of_nat (length its) \<and> (\<forall>r \<in> set (item_refs it). r < ref) \<and>
              length its < 128 \<and> length (body its) < 2 ^ 32"
    using add_holds [OF Cons.prems] by blast
  obtain w2 where b: "bplist_add_all w1 new = Some w2" "follows w1 w2"
    and h2: "holds w2 (body (its @ it # new)) (item_offsets (its @ it # new))"
    and r2: "\<not> failed w2 \<longrightarrow> (\<forall>i. length (its @ [it]) \<le> i \<and> i < length (its @ it # new) \<longrightarrow>
            i < 128 \<and> length (body (take i (its @ it # new))) < 2 ^ 32 \<and>
            (\<forall>r \<in> set (item_refs ((its @ it # new) ! i)). unat r < i))"
    using Cons.IH [OF h] by auto
  have "i < 128 \<and> length (body (take i (its @ it # new))) < 2 ^ 32 \<and>
      (\<forall>r \<in> set (item_refs ((its @ it # new) ! i)). unat r < i)"
    if "\<not> failed w2" "length its \<le> i" "i < length (its @ it # new)" for i
  proof (cases "i = length its")
    case True
    have "\<not> failed w1" using that(1) b(2) by (auto simp: follows_def)
    then have "length its < 128" "length (body its) < 2 ^ 32" "\<forall>r \<in> set (item_refs it). r < of_nat (length its)"
      using r by auto
    moreover have "unat r < length its" if "r < of_nat (length its)" for r :: u32
      using that \<open>length its < 128\<close> by (simp add: word_less_nat_alt unat_of_nat)
    ultimately show ?thesis using True by simp
  qed (use r2 that in auto)
  then show ?case
    using a b h2 by (auto intro: follows_trans)
qed auto

lemma append_offsets_holds:
  assumes "holds w bs os" and "set is \<subseteq> {..<w_count w}"
  shows "\<exists>w'. append_offsets w is = Some w' \<and>
           holds w' (bs @ concat (map (\<lambda>i. be_bytes 4 (ucast (os ! i))) is)) os \<and> follows w w' \<and>
           w_count w' = w_count w"
  using assms
proof (induction "is" arbitrary: w bs)
  case (Cons i "is")
  have i: "i < w_count w" "i < length (offsets w)"
    using Cons.prems by (auto simp: holds_def)
  obtain w1 where w1: "bplist_append w (ucast (offsets w ! i)) 4 = Some w1" "follows w w1"
      "w_count w1 = w_count w"
    and h1: "holds w1 (bs @ be_bytes 4 (ucast (offsets w ! i))) os"
    using append_holds [OF Cons.prems(1)] by blast
  have "offsets w ! i = os ! i" if "\<not> failed w1"
    using that w1(2) Cons.prems(1) i by (auto simp: follows_def holds_def)
  then have "holds w1 (bs @ be_bytes 4 (ucast (os ! i))) os"
    using h1 by (cases "failed w1") (auto simp: holds_def)
  then show ?case
    using Cons.IH [of w1] Cons.prems(2) w1 i by (fastforce simp: mem intro: follows_trans)
qed auto

lemma trailer_constants:
  "concat (map (\<lambda>(v, n). be_bytes n v) [(0, 6), (4, 1), (1, 1)]) = [0, 0, 0, 0, 0, 0, 4, 1]"
  by code_simp

lemma finish_holds:
  assumes "holds w (body its) (item_offsets its)"
  shows "\<exists>n w'. bplist_finish w rt = Some (n, w') \<and> length (w_data w') = length (w_data w) \<and>
           n \<le> length (w_data w') \<and>
           (n \<noteq> 0 \<longrightarrow> \<not> failed w \<and> unat rt < length its \<and> take n (w_data w') = document its rt)"
proof (cases "unat rt \<ge> w_count w \<or> failed w")
  case True
  then show ?thesis by (auto simp: bplist_finish_def)
next
  case False
  let ?os = "item_offsets its"
  have len: "length ?os = length its" by (simp add: item_offsets_def)
  have nf: "\<not> failed w" and bs: "take (used w) (w_data w) = body its" and os: "take (w_count w) (offsets w) = ?os"
    using False assms by (auto simp: holds_def)
  have cnt: "w_count w = length its"
    using arg_cong [OF os, of length] assms len by (auto simp: holds_def)
  have us: "used w = length (body its)"
    using arg_cong [OF bs, of length] assms by (auto simp: holds_def)
  obtain w1 where a1: "append_offsets w [0..<w_count w] = Some w1" "follows w w1" "w_count w1 = w_count w"
    and h1: "holds w1 (body its @ concat (map (\<lambda>i. be_bytes 4 (ucast (?os ! i))) [0..<w_count w])) ?os"
    using append_offsets_holds [OF assms, of "[0..<w_count w]"] by (auto simp: atLeast0LessThan)
  have tb: "map (\<lambda>i. be_bytes 4 (ucast (?os ! i))) [0..<w_count w] = map (\<lambda>off. be_bytes 4 (ucast off)) ?os"
    by (rule nth_equalityI) (simp_all add: cnt len)
  obtain w2 where a2: "appends w1 [(0, 6), (4, 1), (1, 1)] = Some w2" "follows w1 w2" "w_count w2 = w_count w1"
    and h2: "holds w2 ((body its @ concat (map (\<lambda>off. be_bytes 4 (ucast off)) ?os)) @
      [0, 0, 0, 0, 0, 0, 4, 1]) ?os"
    using appends_holds [OF h1 [unfolded tb], of "[(0, 6), (4, 1), (1, 1)]"]
    unfolding trailer_constants by blast
  define tl :: "(u64 \<times> nat) list" where
    "tl = [(of_nat (length its), 8), (ucast rt, 8), (of_nat (length (body its)), 8)]"
  obtain w3 where a3: "appends w2 tl = Some w3" "follows w2 w3"
    and h3: "holds w3 (((body its @ concat (map (\<lambda>off. be_bytes 4 (ucast off)) ?os)) @
      [0, 0, 0, 0, 0, 0, 4, 1]) @ concat (map (\<lambda>(v, n). be_bytes n v) tl)) ?os"
    using appends_holds [OF h2] by blast
  have "holds w3 (document its rt) ?os"
    using h3 by (simp add: document_def tl_def)
  moreover have "length (w_data w3) = length (w_data w)"
    using a1(2) a2(2) a3(2) by (simp add: follows_def)
  moreover have "bplist_finish w rt = Some (if failed w3 then 0 else used w3, w3)"
  proof -
    obtain wa wb where ab: "bplist_append w1 0 6 = Some wa" "bplist_append wa 4 1 = Some wb"
      "bplist_append wb 1 1 = Some w2"
      using a2(1) by (auto simp: bind_eq_Some_conv)
    obtain wc wd where cd: "bplist_append w2 (of_nat (length its)) 8 = Some wc"
      "bplist_append wc (ucast rt) 8 = Some wd" "bplist_append wd (of_nat (length (body its))) 8 = Some w3"
      using a3(1) by (auto simp: bind_eq_Some_conv tl_def)
    show ?thesis
      using False a1 ab cd a2(3) cnt us by (simp add: bplist_finish_def Let_def)
  qed
  ultimately show ?thesis
    using nf False cnt by (auto simp: holds_def)
qed

subsection \<open>Reading a document back\<close>

lemma take_drop_middle: "length a = p \<Longrightarrow> length m = n \<Longrightarrow> take n (drop p (a @ m @ c)) = m"
  by auto

lemma read_be_middle:
  "length a = p \<Longrightarrow> length m = n \<Longrightarrow> n \<le> 8 \<Longrightarrow>
   read_be (a @ m @ c) p n = Some (of_nat (be_nat m))"
  by (simp add: read_be_def be_loop_eq)

lemma read_be_be_bytes_8:
  "length a = p \<Longrightarrow> read_be (a @ be_bytes 8 v @ c) p 8 = Some v"
  by (simp add: read_be_middle be_nat_be_bytes_8)

lemma take_drop_concat:
  "i < length xs \<Longrightarrow> \<forall>x \<in> set xs. length (f x) = k \<Longrightarrow>
   concat (map f xs) = concat (map f (take i xs)) @ f (xs ! i) @ concat (map f (drop (Suc i) xs)) \<and>
   length (concat (map f (take i xs))) = i * k"
proof -
  assume i: "i < length xs" and k: "\<forall>x \<in> set xs. length (f x) = k"
  have "length (concat (map f ys)) = length ys * k" if "set ys \<subseteq> set xs" for ys
    using that k by (induction ys) auto
  then have "length (concat (map f (take i xs))) = i * k"
    using i set_take_subset [of i xs] by simp
  then show ?thesis
    by (subst id_take_nth_drop [OF i]) simp
qed

lemma length_item_offsets [simp]: "length (item_offsets its) = length its"
  by (simp add: item_offsets_def)

abbreviation offset_table :: "item list \<Rightarrow> buf" where
  "offset_table its \<equiv> concat (map (\<lambda>off. be_bytes 4 (ucast off)) (item_offsets its))"

lemma length_offset_table: "length (offset_table its) = 4 * length its"
  by (simp add: length_concat comp_def sum_list_triv)

lemma length_document: "length (document its rt) = length (body its) + 4 * length its + 32"
  unfolding document_def length_append length_offset_table by simp

definition view :: "item list \<Rightarrow> u32 \<Rightarrow> bplist" where
  "view its rt = \<lparr>bp_data = document its rt, table = length (body its), bp_count = of_nat (length its),
                  root = rt, offset_size = 4, ref_size = 1\<rparr>"

lemma body_ge_8: "8 \<le> length (body its)" and take_8_body: "take 8 (body its @ r) = bplist_magic"
  by (simp_all add: body_def bplist_magic_def)

lemma document_opens:
  assumes k: "length its \<le> 128" and rt: "unat rt < length its" and sz: "length (body its) < 2 ^ 64"
  shows "bplist_open (document its rt) = ok (view its rt)"
proof -
  define t where "t = length (body its) + 4 * length its"
  have len: "length (document its rt) = t + 32" by (simp add: length_document t_def)
  let ?pre = "body its @ offset_table its"
  have pre: "length ?pre = t" by (simp only: length_append length_offset_table t_def)
  let ?n = "of_nat (length its) :: u64" and ?tb = "of_nat (length (body its)) :: u64"
  have r1: "read_be (document its rt) (t + 8) 8 = Some ?n"
    using read_be_be_bytes_8 [of "?pre @ [0, 0, 0, 0, 0, 0, 4, 1]" "t + 8" ?n] pre
    by (simp add: document_def)
  have r2: "read_be (document its rt) (t + 16) 8 = Some (ucast rt)"
    using read_be_be_bytes_8 [of "?pre @ [0, 0, 0, 0, 0, 0, 4, 1] @ be_bytes 8 ?n" "t + 16" "ucast rt"] pre
    by (simp add: document_def)
  have r3: "read_be (document its rt) (t + 24) 8 = Some ?tb"
    using read_be_be_bytes_8 [of "?pre @ [0, 0, 0, 0, 0, 0, 4, 1] @ be_bytes 8 ?n @ be_bytes 8 (ucast rt)"
        "t + 24" ?tb "[]"] pre
    by (simp add: document_def)
  have d: "document its rt = ?pre @ [0, 0, 0, 0, 0, 0, 4, 1] @ be_bytes 8 ?n @ be_bytes 8 (ucast rt) @ be_bytes 8 ?tb"
    by (simp add: document_def)
  have b6: "rd (document its rt) (t + 6) = Some 4" and b7: "rd (document its rt) (t + 7) = Some 1"
    using nth_append_length_plus [of ?pre] pre len unfolding d by (simp_all add: rd_def)
  have un: "unat ?n = length its" and ut: "unat ?tb = length (body its)"
    using k sz by (simp_all add: unat_of_nat)
  have ur: "unat (ucast rt :: u64) = unat rt" by (rule unat_ucast_up) simp
  have magic: "take 8 (document its rt) = bplist_magic"
    unfolding document_def by (rule take_8_body)
  have nz: "?n \<noteq> 0" using un rt by auto
  have "\<not> ?n > 0xFFFFFFFF" "\<not> ucast rt \<ge> ?n" "\<not> ?tb < 8"
    using k rt body_ge_8 [of its] by (simp_all add: word_less_nat_alt word_le_nat_alt un ur ut)
  moreover have "(4 :: u8) \<noteq> 0" "\<not> (4 :: u8) > 8" "\<not> (1 :: u8) > 8" "(1 :: u8) \<noteq> 0" "unat (4 :: u8) = 4"
    "unat (1 :: u8) = 1" by simp_all
  moreover have "\<not> unat ?tb > t" "\<not> unat ?n > (t - unat ?tb) div 4"
    by (simp_all add: un ut t_def)
  moreover have "ucast ?n = (of_nat (length its) :: u32)" by (rule ucast_of_nat_down) simp
  moreover have "ucast (ucast rt :: u64) = rt" using ucast_via_wider [of rt, where 'c = 32 and 'b = 64] by simp
  moreover have "40 \<le> t + 32" using body_ge_8 [of its] by (simp add: t_def)
  ultimately show ?thesis
    unfolding bplist_open_def Let_def len add_diff_cancel_right'
    by (simp only: magic r1 r2 r3 b6 b7 nz bind.bind_lunit simp_thms not_less [symmetric] if_False
        view_def ut if_True)
qed

lemma item_offset:
  assumes i: "i < length its" and k: "length its \<le> 128" and sz: "length (body (take i its)) < 2 ^ 32"
  shows "read_be (document its rt) (length (body its) + i * 4) 4 = Some (of_nat (length (body (take i its))))"
proof -
  let ?f = "\<lambda>off. be_bytes 4 (ucast (off :: u32))" and ?os = "item_offsets its"
  define a c where "a = concat (map ?f (take i ?os))" and "c = concat (map ?f (drop (Suc i) ?os))"
  have t: "offset_table its = a @ ?f (?os ! i) @ c" "length a = i * 4"
    using take_drop_concat [of i ?os ?f 4] i by (simp_all add: a_def c_def)
  have "be_nat (?f (?os ! i)) = length (body (take i its))"
    using i sz unat_u32_less [of "?os ! i"]
    by (simp only: be_nat_be_bytes) (simp add: item_offsets_def unat_ucast_up unat_of_nat)
  then show ?thesis
    using read_be_middle [of "body its @ a" "length (body its) + i * 4" "?f (?os ! i)" 4] t
    by (simp add: document_def)
qed

lemma body_split:
  assumes "i < length its"
  obtains r where "body its = body (take i its) @ item_bytes (its ! i) @ r"
proof
  show "body its = body (take i its) @ item_bytes (its ! i) @ concat (map item_bytes (drop (Suc i) its))"
    unfolding body_def using assms
    by (subst id_take_nth_drop [OF assms]) (simp only: map_append concat_append list.map concat.simps append_assoc)
qed

lemma item_type_less: "item_type it < 16"
  by (cases it) auto

lemma marker_fields:
  assumes "t < 16" and "m < 16"
  shows "unat (drop_bit 4 (of_nat (t * 16 + m) :: u8)) = t" and "unat ((of_nat (t * 16 + m) :: u8) AND 15) = m"
proof -
  have u: "unat (of_nat (t * 16 + m) :: u8) = t * 16 + m"
    using assms by (simp add: unat_of_nat del: of_nat_add of_nat_mult)
  show "unat (drop_bit 4 (of_nat (t * 16 + m) :: u8)) = t"
    unfolding unat_drop_bit u using assms by simp
  have "(of_nat (t * 16 + m) :: u8) AND 15 = take_bit 4 (of_nat (t * 16 + m))"
    by (simp add: take_bit_eq_mask mask_eq_exp_minus_1)
  then show "unat ((of_nat (t * 16 + m) :: u8) AND 15) = m"
    using assms u by (simp only: unsigned_take_bit_eq) (simp add: take_bit_eq_mod)
qed

text \<open>The number of elements that the reader reports, and the room they take.\<close>

fun item_count :: "item \<Rightarrow> nat" where
  "item_count (UintItem v) = 8"
| "item_count it = item_nibble it"

lemma payload_length:
  "length (item_payload it) = item_count it * bplist_width (view its rt) (item_type it)"
  by (cases it) (simp_all add: bplist_width_def view_def)

lemma bplist_object_view:
  assumes i: "i < length its" and k: "length its \<le> 128"
    and sz: "length (body (take i its)) < 2 ^ 32" and cap: "length (body its) < 2 ^ 64"
  shows "bplist_object (view its rt) (of_nat i) = ok (item_type (its ! i),
    length (body (take i its) @ head_bytes (item_type (its ! i)) (item_nibble (its ! i))),
    item_count (its ! i))"
proof -
  let ?it = "its ! i" and ?d = "document its rt" and ?v = "view its rt"
  define t n pos where "t = item_type ?it" and "n = item_nibble ?it" and "pos = length (body (take i its))"
  obtain r where r: "body its = body (take i its) @ item_bytes ?it @ r"
    using body_split [OF i] .
  have bl: "length (body its) = pos + length (head_bytes t n) + length (item_payload ?it) + length r"
    using arg_cong [OF r, of length] by (simp add: item_bytes_def t_def n_def pos_def)
  have hd: "0 < length (head_bytes t n)" by (simp add: head_bytes_def)
  have dd: "?d = body (take i its) @ head_bytes t n @ item_payload ?it @ r @
      offset_table its @ [0, 0, 0, 0, 0, 0, 4, 1] @ be_bytes 8 (of_nat (length its)) @ be_bytes 8 (ucast rt) @
      be_bytes 8 (of_nat (length (body its)))"
    unfolding document_def by (subst r) (simp add: item_bytes_def t_def n_def)
  have ref: "unat (of_nat i :: u32) = i" "(of_nat i :: u32) < of_nat (length its)"
    using i k by (simp_all add: unat_of_nat word_less_nat_alt)
  have off: "read_be ?d (length (body its) + i * 4) 4 = Some (of_nat pos)"
    using item_offset [OF i k sz] by (simp add: pos_def)
  have up: "unat (of_nat pos :: u64) = pos"
    using sz by (simp add: pos_def unat_of_nat)
  have p8: "\<not> (of_nat pos :: u64) < 8"
    using body_ge_8 [of "take i its"] by (simp add: word_less_nat_alt up flip: pos_def)
  define marker :: u8 where "marker = of_nat (t * 16 + min n 15)"
  have mk: "rd ?d pos = Some marker"
    unfolding dd rd_def marker_def by (simp add: pos_def head_bytes_def nth_append)
  have fields: "unat (drop_bit 4 marker) = t" "unat (marker AND 15) = min n 15"
    unfolding marker_def using marker_fields [of t "min n 15"] item_type_less by (simp_all add: t_def)
  have size: "bplist_object_size ?v t (pos + 1) (min n 15) = ok (pos + length (head_bytes t n), item_count ?it)"
  proof (cases "n < 15")
    case True
    then show ?thesis
      by (cases ?it) (simp_all add: bplist_object_size_def t_def n_def head_bytes_def)
  next
    case False
    then have t: "t \<noteq> 1" "t \<noteq> 2" and c: "item_count ?it = n" by (cases ?it; simp add: t_def n_def)+
    have h: "head_bytes t n = [of_nat (t * 16 + 15), 0x13] @ be_bytes 8 (of_nat n)" "length (head_bytes t n) = 10"
      using False by (simp_all add: head_bytes_def)
    have m2: "rd ?d (pos + 1) = Some 0x13"
      unfolding dd rd_def h by (simp add: pos_def nth_append)
    have "n \<le> length (item_payload ?it)" using c unfolding payload_length [of _ its rt]
      by (simp add: bplist_width_def view_def)
    then have un: "unat (of_nat n :: u64) = n" using bl cap by (simp add: unat_of_nat)
    have "read_be ?d (pos + 1 + 1) 8 = Some (of_nat n)"
      using read_be_be_bytes_8 [of "body (take i its) @ [of_nat (t * 16 + 15), 0x13]" "pos + 1 + 1"]
      unfolding dd h by (simp add: pos_def)
    then show ?thesis
      using t False m2 un bl h(2) c by (simp add: bplist_object_size_def view_def Let_def)
  qed
  have room: "\<not> item_count ?it > (length (body its) - (pos + length (head_bytes t n))) div bplist_width ?v t"
  proof -
    have "item_count ?it * bplist_width ?v t \<le> length (body its) - (pos + length (head_bytes t n))"
      using bl payload_length [of ?it its rt] by (simp add: t_def)
    moreover have "0 < bplist_width ?v t" by (simp add: bplist_width_def view_def)
    ultimately show ?thesis by (simp add: not_less less_eq_div_iff_mult_less_eq)
  qed
  have lt: "\<not> length (body its) \<le> pos" using bl hd by simp
  have sel: "bp_data ?v = ?d" "table ?v = length (body its)" "bp_count ?v = of_nat (length its)" "offset_size ?v = 4"
    by (simp_all add: view_def)
  show ?thesis
    using size room lt p8 ref
    by (simp add: bplist_object_def sel off mk up fields not_le Let_def t_def [symmetric] n_def [symmetric]
        pos_def [symmetric])
qed

definition items_ok :: "item list \<Rightarrow> bool" where
  "items_ok its \<longleftrightarrow> length (body its) < 2 ^ 64 \<and>
     (\<forall>i < length its. i < 128 \<and> length (body (take i its)) < 2 ^ 32 \<and>
        (\<forall>r \<in> set (item_refs (its ! i)). unat r < i))"

definition payload_pos :: "item list \<Rightarrow> nat \<Rightarrow> nat" where
  "payload_pos its i = length (body (take i its) @ head_bytes (item_type (its ! i)) (item_nibble (its ! i)))"

lemma items_ok_length: "items_ok its \<Longrightarrow> length its \<le> 128"
  unfolding items_ok_def by (metis Suc_leI linorder_not_le nat_le_linear not_less_eq_eq lessI)

lemma object_view:
  assumes "items_ok its" and "i < length its"
  shows "bplist_object (view its rt) (of_nat i) =
    ok (item_type (its ! i), payload_pos its i, item_count (its ! i))"
  using bplist_object_view [OF assms(2) items_ok_length [OF assms(1)]] assms
  by (simp add: items_ok_def payload_pos_def)

lemma document_at:
  assumes "i < length its"
  obtains a r where "document its rt = a @ item_payload (its ! i) @ r" and "length a = payload_pos its i"
proof -
  obtain r where r: "body its = body (take i its) @ item_bytes (its ! i) @ r"
    using body_split [OF assms] .
  show ?thesis
    by (rule that [of "body (take i its) @ head_bytes (item_type (its ! i)) (item_nibble (its ! i))"
          "r @ drop (length (body its)) (document its rt)"])
      (simp_all add: document_def payload_pos_def, subst r, simp add: item_bytes_def)
qed

lemma payload_range:
  assumes "i < length its"
  shows "rd_range (document its rt) (payload_pos its i) (length (item_payload (its ! i))) =
    Some (item_payload (its ! i))"
  using document_at [OF assms, of rt] by (metis (no_types, lifting) add_le_cancel_left le_add1
      length_append rd_range_Some take_drop_middle add.assoc)

text \<open>A one-byte reference inside a payload is read back as the reference that was written.\<close>

lemma reference_view:
  assumes ok: "items_ok its" and i: "i < length its"
    and j: "j < length (item_payload (its ! i))" and r: "item_payload (its ! i) ! j = ucast r"
    and lt: "unat r < i"
  shows "bplist_reference (view its rt) (payload_pos its i + j) = Some r"
proof -
  obtain a q where d: "document its rt = a @ item_payload (its ! i) @ q" and la: "length a = payload_pos its i"
    using document_at [OF i] .
  have k: "length its \<le> 128" by (rule items_ok_length [OF ok])
  have u8: "unat (ucast r :: u8) = unat r"
  proof -
    have "unat r < 2 ^ LENGTH(8)" using lt i k by simp
    then show ?thesis by (simp only: unsigned_ucast_eq take_bit_nat_eq_self)
  qed
  have "document its rt = (a @ take j (item_payload (its ! i))) @ [ucast r] @
      drop (Suc j) (item_payload (its ! i)) @ q"
    unfolding d using id_take_nth_drop [OF j] r by simp
  then have "read_be (document its rt) (payload_pos its i + j) 1 = Some (of_nat (unat r))"
    using read_be_middle [of "a @ take j (item_payload (its ! i))" "payload_pos its i + j" "[ucast r]" 1] la j
    by (simp add: be_nat_Cons u8)
  moreover have "ucast (of_nat (unat r) :: u64) = r"
    using ucast_of_nat_down [of "unat r", where 'a = 64 and 'b = 32] by simp
  moreover have "unat (of_nat (unat r) :: u64) = unat r"
    by (simp add: unat_ucast_up)
  moreover have "unat (of_nat (length its) :: u32) = length its"
    using k by (simp add: unat_of_nat)
  ultimately show ?thesis
    using lt i by (simp add: bplist_reference_def view_def)
qed

text \<open>What a reader must return for an item.\<close>

definition dict_lookup :: "item list \<Rightarrow> (u32 \<times> u32) list \<Rightarrow> buf \<Rightarrow> u32" where
  "dict_lookup its ps key =
     (case find (\<lambda>(k, v). its ! unat k = TextItem key) ps of Some (k, v) \<Rightarrow> v | None \<Rightarrow> BPLIST_NONE)"

fun reads_back :: "bplist \<Rightarrow> item list \<Rightarrow> u32 \<Rightarrow> item \<Rightarrow> bool" where
  "reads_back p its ref (UintItem v) \<longleftrightarrow> bplist_uint p ref = ok v"
| "reads_back p its ref (DataItem bs) \<longleftrightarrow> bplist_bytes p ref = ok bs"
| "reads_back p its ref (TextItem bs) \<longleftrightarrow> bplist_bytes p ref = ok bs"
| "reads_back p its ref (ArrayItem rs) \<longleftrightarrow> bplist_children p ref = Some (length rs) \<and>
     (\<forall>j. bplist_at p ref j = Some (if j < length rs then rs ! j else BPLIST_NONE))"
| "reads_back p its ref (DictItem ps) \<longleftrightarrow> bplist_children p ref = Some (length ps) \<and>
     (\<forall>key. bplist_get p ref key = Some (dict_lookup its ps key))"

lemma find_map: "find P (map f xs) = map_option f (find (P \<circ> f) xs)"
  by (induction xs) auto

lemma get_loop_view:
  assumes ok: "items_ok its" and i: "i < length its" and it: "its ! i = DictItem ps"
    and sub: "set is \<subseteq> {..<length ps}"
  shows "bplist_get_loop (view its rt) key (payload_pos its i) (length ps) is =
    Some (case find (\<lambda>j. its ! unat (fst (ps ! j)) = TextItem key) is of
            Some j \<Rightarrow> snd (ps ! j) | None \<Rightarrow> BPLIST_NONE)"
  using sub
proof (induction "is")
  case (Cons j "is")
  then have j: "j < length ps" by simp
  let ?k = "fst (ps ! j)" and ?v = "snd (ps ! j)" and ?p = "payload_pos its i"
  have lt: "unat ?k < i" "unat ?v < i"
    using ok i it j nth_mem [OF j] by (auto simp: items_ok_def)
  have k: "unat ?k < length its" and k32: "of_nat (unat ?k) = ?k" using lt i by simp_all
  have rs: "ref_size (view its rt) = 1" "bp_data (view its rt) = document its rt" by (simp_all add: view_def)
  have r1: "bplist_reference (view its rt) (?p + j * 1) = Some ?k"
    using reference_view [OF ok i, of j ?k] it j lt by (simp add: nth_append)
  have r2: "bplist_reference (view its rt) (?p + (length ps + j) * 1) = Some ?v"
    using reference_view [OF ok i, of "length ps + j" ?v] it j lt by (simp add: nth_append)
  have ob: "bplist_object (view its rt) ?k = ok (item_type (its ! unat ?k), payload_pos its (unat ?k),
      item_count (its ! unat ?k))"
    using object_view [OF ok k] by (simp add: k32)
  show ?case
    using Cons ob r1 r2 payload_range [OF k, of rt]
    by (cases "its ! unat ?k") (auto simp: rs)
qed simp

lemma item_reads_back:
  assumes ok: "items_ok its" and i: "i < length its"
  shows "reads_back (view its rt) its (of_nat i) (its ! i)"
proof -
  have rs: "ref_size (view its rt) = 1" "bp_data (view its rt) = document its rt" by (simp_all add: view_def)
  note ob = object_view [OF ok i, of rt] and pr = payload_range [OF i, of rt]
  have refs: "\<forall>r \<in> set (item_refs (its ! i)). unat r < i"
    using ok i by (simp add: items_ok_def)
  show ?thesis
  proof (cases "its ! i")
    case (UintItem v)
    obtain a r where "document its rt = a @ be_bytes 8 v @ r" "length a = payload_pos its i"
      using document_at [OF i, of rt] UintItem by auto
    then show ?thesis
      using ob UintItem read_be_be_bytes_8 [of a _ v r] by (simp add: bplist_uint_def rs)
  next
    case (ArrayItem ps)
    have "bplist_reference (view its rt) (payload_pos its i + j) = Some (ps ! j)" if "j < length ps" for j
      using reference_view [OF ok i, of j "ps ! j"] that refs ArrayItem by simp
    then show ?thesis
      using ob ArrayItem by (auto simp: bplist_children_def bplist_at_def rs)
  next
    case (DictItem ps)
    have "find (\<lambda>(k, v). its ! unat k = TextItem key) ps =
        map_option ((!) ps) (find (\<lambda>j. its ! unat (fst (ps ! j)) = TextItem key) [0..<length ps])" for key
      using find_map [of "\<lambda>(k, v). its ! unat k = TextItem key" "(!) ps" "[0..<length ps]"]
      by (simp add: map_nth comp_def case_prod_beta)
    then show ?thesis
      using ob DictItem get_loop_view [OF ok i DictItem, of "[0..<length ps]" rt]
      by (auto simp: bplist_children_def bplist_get_def dict_lookup_def atLeast0LessThan
          split: option.splits prod.splits)
  qed (use ob pr in \<open>auto simp: bplist_bytes_def rs\<close>)
qed

subsection \<open>Properties of the writer\<close>

text \<open>
  The writer never stores outside the caller's buffer, whatever is added to it and however
  small the buffer is; an addition that does not fit only marks the writer as failed, and then
  \<open>bplist_finish\<close> reports 0.
\<close>

theorem bplist_writer_bounded:
  "\<exists>w w' n w''. bplist_writer_init data = Some w \<and> bplist_add_all w its = Some w' \<and>
     bplist_finish w' rt = Some (n, w'') \<and> length (w_data w'') = length data \<and>
     n \<le> (if failed w' then 0 else length data)"
proof -
  obtain w where w: "bplist_writer_init data = Some w" "holds w (body []) (item_offsets [])"
      "length (w_data w) = length data"
    using init_holds by blast
  obtain w' where w': "bplist_add_all w its = Some w'" "holds w' (body its) (item_offsets its)" "follows w w'"
    using add_all_holds [OF w(2), of its] by auto
  obtain n w'' where "bplist_finish w' rt = Some (n, w'')" "length (w_data w'') = length (w_data w')"
    "n \<le> length (w_data w'')" "n \<noteq> 0 \<longrightarrow> \<not> failed w'"
    using finish_holds [OF w'(2), of rt] by blast
  then show ?thesis
    using w w' by (auto simp: follows_def)
qed

text \<open>
  C25: when \<open>bplist_finish\<close> reports a length, the bytes written are a document that the
  reader opens, whose root is the reference given, and in which every item reads back: integers
  and byte strings by value, arrays by their references in order, dictionaries by the first
  value whose key has the given text.
\<close>

theorem bplist_roundtrip:
  assumes "length data < 2 ^ 64" and "bplist_writer_init data = Some w"
    and "bplist_add_all w its = Some w'" and "bplist_finish w' rt = Some (n, w'')" and "n \<noteq> 0"
  shows "\<exists>p. bplist_open (take n (w_data w'')) = ok p \<and> root p = rt \<and> unat rt < length its \<and>
    (\<forall>i < length its. reads_back p its (of_nat i) (its ! i))"
proof -
  have h: "holds w (body []) (item_offsets [])" "length (w_data w) = length data"
    using init_holds [of data] assms(2) by auto
  have h': "holds w' (body its) (item_offsets its)" "follows w w'" and
    r: "\<not> failed w' \<longrightarrow> (\<forall>i. 0 \<le> i \<and> i < length its \<longrightarrow>
            i < 128 \<and> length (body (take i its)) < 2 ^ 32 \<and> (\<forall>r \<in> set (item_refs (its ! i)). unat r < i))"
    using add_all_holds [OF h(1), of its] assms(3) by auto
  have f: "\<not> failed w'" "unat rt < length its" "take n (w_data w'') = document its rt"
    using finish_holds [OF h'(1), of rt] assms(4,5) by auto
  have "length (body its) \<le> length data"
    using h' h(2) f(1) by (auto simp: holds_def follows_def dest: arg_cong [where f = length])
  then have ok: "items_ok its"
    using r f(1) assms(1) by (simp add: items_ok_def)
  then have "bplist_open (document its rt) = ok (view its rt)"
    using f(2) items_ok_length by (intro document_opens) (auto simp: items_ok_def)
  then show ?thesis
    using f item_reads_back [OF ok] by (auto simp: view_def)
qed

text \<open>A dictionary with one entry, written to a buffer of 64 bytes.\<close>

definition sample_items :: "item list" where
  "sample_items = [TextItem [0x61], UintItem 5, DictItem [(0, 1)]]"

definition sample_writer :: "bplist_writer option" where
  "sample_writer = do { w \<leftarrow> bplist_writer_init (replicate 72 0); bplist_add_all w sample_items }"

lemma sample_finishes: "map_option fst (do { w \<leftarrow> sample_writer; bplist_finish w 2 }) = Some 66"
  by code_simp

theorem bplist_roundtrip_witness:
  "\<exists>n w'. do { w \<leftarrow> sample_writer; bplist_finish w 2 } = Some (n, w') \<and> n = 66 \<and>
     (\<exists>p. bplist_open (take n (w_data w')) = ok p \<and> root p = 2 \<and>
        bplist_uint p 1 = ok 5 \<and> bplist_get p 2 [0x61] = Some 1)"
proof -
  obtain w w' n w'' where w: "bplist_writer_init (replicate 72 0) = Some w" "bplist_add_all w sample_items = Some w'"
    and f: "bplist_finish w' 2 = Some (n, w'')" "n = 66"
    using sample_finishes by (fastforce simp: sample_writer_def bind_eq_Some_conv)
  obtain p where p: "bplist_open (take n (w_data w'')) = ok p" "root p = 2"
    and rb: "\<forall>i < length sample_items. reads_back p sample_items (of_nat i) (sample_items ! i)"
    using bplist_roundtrip [OF _ w f(1)] f(2) by auto
  have "reads_back p sample_items 1 (UintItem 5)" "reads_back p sample_items 2 (DictItem [(0, 1)])"
    using rb [rule_format, of 1] rb [rule_format, of 2] by (simp_all add: sample_items_def)
  then show ?thesis
    using w f p by (auto simp: sample_writer_def dict_lookup_def sample_items_def)
qed

end
