(* ===== verification/Ntp_Sync.thy ===== *)
theory Ntp_Sync
  imports Prelude
begin

section \<open>AirPlay 1 clock synchronization (shared/sync/ntp_sync.c)\<close>

text \<open>
  The timing exchange with the sender, the anchors that bind RTP timestamps to the sender's
  clock, and the translation of a timestamp to a local deadline.  \<open>os_time_us\<close> is an argument
  of every function that calls it.  Signed 64-bit values are integers; the operations whose
  result may leave the range are checked by \<open>s64\<close>, since C leaves the overflow undefined.
\<close>

record ntp_timestamp =
  seconds :: u32
  fraction :: u32

record ntp_sync =
  clock_offset_us :: int
  rtt_us :: int
  rtp_base :: u32
  latency_frames :: u32
  ntp_base :: ntp_timestamp
  request_time :: ntp_timestamp
  request_local_us :: u64
  next_request_us :: u64
  best_sample_us :: u64
  requests :: u32
  samples :: u32
  synchronized :: bool
  anchor_valid :: bool
  request_pending :: bool

definition read32 :: "buf \<Rightarrow> nat \<Rightarrow> u32 option" where
  "read32 b p = do { a \<leftarrow> rd b p; b1 \<leftarrow> rd b (p + 1); c \<leftarrow> rd b (p + 2); d \<leftarrow> rd b (p + 3);
                     Some (be32 a b1 c d) }"

definition write32 :: "buf \<Rightarrow> nat \<Rightarrow> u32 \<Rightarrow> buf option" where
  "write32 b p v = wr_range b p (bytes32 v)"

definition read_time :: "buf \<Rightarrow> nat \<Rightarrow> ntp_timestamp option" where
  "read_time b p = do { s \<leftarrow> read32 b p; f \<leftarrow> read32 b (p + 4); Some \<lparr>seconds = s, fraction = f\<rparr> }"

definition write_time :: "buf \<Rightarrow> nat \<Rightarrow> ntp_timestamp \<Rightarrow> buf option" where
  "write_time b p t = do { b \<leftarrow> write32 b p (seconds t); write32 b (p + 4) (fraction t) }"

definition from_us :: "u64 \<Rightarrow> ntp_timestamp" where
  "from_us us = \<lparr>seconds = ucast (us div 1000000 + 2208988800),
                 fraction = ucast ((us mod 1000000) * 4294967296 div 1000000)\<rparr>"

definition ntp_sync_init :: ntp_sync where
  "ntp_sync_init = \<lparr>clock_offset_us = 0, rtt_us = 0, rtp_base = 0, latency_frames = 0,
     ntp_base = \<lparr>seconds = 0, fraction = 0\<rparr>, request_time = \<lparr>seconds = 0, fraction = 0\<rparr>,
     request_local_us = 0, next_request_us = 0, best_sample_us = 0, requests = 0, samples = 0,
     synchronized = False, anchor_valid = False, request_pending = False\<rparr>"

definition ntp_sync_deinit :: "ntp_sync \<Rightarrow> ntp_sync" where
  "ntp_sync_deinit sync = ntp_sync_init"

definition ntp_sync_now :: "u64 \<Rightarrow> ntp_timestamp" where
  "ntp_sync_now now = from_us now"

definition ntp_sync_diff_us :: "ntp_timestamp \<Rightarrow> ntp_timestamp \<Rightarrow> int" where
  "ntp_sync_diff_us a b =
     sint (seconds b - seconds a) * 1000000 +
     cdiv ((uint (fraction b) - uint (fraction a)) * 1000000) 4294967296"

text \<open>Returns whether a request was built, and the packet.\<close>

definition ntp_sync_request :: "u64 \<Rightarrow> ntp_sync \<Rightarrow> (buf option \<times> ntp_sync) option" where
  "ntp_sync_request now sync =
     (if now < next_request_us sync then Some (None, sync)
      else do {
        p \<leftarrow> wr (replicate 32 0) 0 0x80;
        p \<leftarrow> wr p 1 0xd2;
        p \<leftarrow> wr p 3 7;
        let sync = sync\<lparr>request_local_us := now, request_time := from_us now\<rparr>;
        p \<leftarrow> write_time p 24 (request_time sync);
        let n = requests sync + 1;
        Some (Some p, sync\<lparr>request_pending := True, requests := n,
          next_request_us := now + (if n \<le> 4 then 250000 else 2000000)\<rparr>) })"

text \<open>
  The guard on a reply reads no byte of a short packet, but its warning prints the first two.
\<close>

definition ntp_reply_header_ok :: "ntp_sync \<Rightarrow> buf \<Rightarrow> bool option" where
  "ntp_reply_header_ok sync data =
     (if length data < 32 then Some False
      else do {
        d0 \<leftarrow> rd data 0;
        d1 \<leftarrow> rd data 1;
        Some (drop_bit 6 d0 = 2 \<and> d1 AND 0x7f = 0x53 \<and> request_pending sync) })"

definition ntp_sync_process_packet :: "u64 \<Rightarrow> ntp_sync \<Rightarrow> buf \<Rightarrow> (int \<times> ntp_sync) option" where
  "ntp_sync_process_packet now sync data = do {
     okay \<leftarrow> ntp_reply_header_ok sync data;
     if \<not> okay then do { _ \<leftarrow> rd data 0; _ \<leftarrow> rd data 1; Some (-1, sync) }
     else do {
       origin \<leftarrow> read_time data 8;
       if seconds origin \<noteq> seconds (request_time sync) \<or> fraction origin \<noteq> fraction (request_time sync)
       then Some (-1, sync)
       else do {
         receive \<leftarrow> read_time data 16;
         transmit \<leftarrow> read_time data 24;
         let processing = ntp_sync_diff_us receive transmit;
         rtt \<leftarrow> s64 (sint (now - request_local_us sync) - processing);
         if processing < 0 \<or> rtt < -2 \<or> rtt > 500000 then Some (-1, sync)
         else do {
           let rtt = max rtt 0;
           let offset =
             cdiv (ntp_sync_diff_us origin receive + ntp_sync_diff_us (from_us now) transmit) 2;
           let sync = sync\<lparr>request_pending := False, samples := samples sync + 1\<rparr>;
           if \<not> synchronized sync \<or> rtt \<le> rtt_us sync + 500 \<or> now - best_sample_us sync > 10000000
           then Some (0, sync\<lparr>clock_offset_us := offset, rtt_us := rtt, best_sample_us := now,
                              synchronized := True\<rparr>)
           else Some (0, sync) } } } }"

text \<open>\<open>now\<close> and \<open>now'\<close> are the two readings of the clock.\<close>

definition ntp_sync_reply :: "u64 \<Rightarrow> u64 \<Rightarrow> buf \<Rightarrow> buf ret option" where
  "ntp_sync_reply now now' request =
     (if length request < 32 then fail
      else do {
        r0 \<leftarrow> rd request 0;
        r1 \<leftarrow> rd request 1;
        if drop_bit 6 r0 \<noteq> 2 \<or> r1 AND 0x7f \<noteq> 0x52 then fail
        else do {
          p \<leftarrow> wr (replicate 32 0) 0 0x80;
          p \<leftarrow> wr p 1 0xd3;
          r2 \<leftarrow> rd request 2;
          p \<leftarrow> wr p 2 r2;
          r3 \<leftarrow> rd request 3;
          p \<leftarrow> wr p 3 r3;
          origin \<leftarrow> rd_range request 8 8;
          p \<leftarrow> wr_range p 8 origin;
          p \<leftarrow> write_time p 16 (ntp_sync_now now);
          p \<leftarrow> write_time p 24 (ntp_sync_now now');
          ok p } })"

definition ntp_sync_control :: "ntp_sync \<Rightarrow> buf \<Rightarrow> u32 \<Rightarrow> (int \<times> ntp_sync) option" where
  "ntp_sync_control sync data rate =
     (if length data < 20 then Some (-1, sync)
      else do {
        d0 \<leftarrow> rd data 0;
        d1 \<leftarrow> rd data 1;
        if drop_bit 6 d0 \<noteq> 2 \<or> d1 AND 0x7f \<noteq> 0x54 \<or> rate = 0 then Some (-1, sync)
        else do {
          playing \<leftarrow> read32 data 4;
          sending \<leftarrow> read32 data 16;
          let latency = sending - playing;
          if unat latency > unat rate * 10 then Some (-1, sync)
          else do {
            t \<leftarrow> read_time data 8;
            Some (0, sync\<lparr>rtp_base := playing, ntp_base := t, latency_frames := latency,
                          anchor_valid := True\<rparr>) } } })"

definition ntp_sync_rtp_to_ntp :: "u64 \<Rightarrow> ntp_sync \<Rightarrow> u32 \<Rightarrow> u32 \<Rightarrow> ntp_timestamp" where
  "ntp_sync_rtp_to_ntp now sync ts rate =
     (if \<not> anchor_valid sync \<or> rate = 0 then ntp_sync_now now
      else
        let delta = cdiv (sint (ts - rtp_base sync) * 1000000) (uint rate);
            secs = cdiv delta 1000000;
            frac = uint (fraction (ntp_base sync)) + cdiv (cmod delta 1000000 * 4294967296) 1000000;
            (secs, frac) = (if frac < 0 then (secs - 1, frac + 4294967296) else (secs, frac));
            (secs, frac) = (if frac \<ge> 4294967296 then (secs + 1, frac - 4294967296) else (secs, frac))
        in \<lparr>seconds = seconds (ntp_base sync) + of_int secs, fraction = of_int frac\<rparr>)"

definition ntp_sync_deadline :: "u64 \<Rightarrow> ntp_sync \<Rightarrow> u32 \<Rightarrow> u32 \<Rightarrow> u64 ret option" where
  "ntp_sync_deadline now sync ts rate =
     (if \<not> synchronized sync \<or> \<not> anchor_valid sync \<or> rate = 0 then fail
      else do {
        let remote = ntp_sync_rtp_to_ntp now sync ts rate;
        delta \<leftarrow> s64 (ntp_sync_diff_us (from_us now) remote - clock_offset_us sync);
        local \<leftarrow> s64 (sint now + delta);
        ok (of_int local) })"

definition ntp_sync_get_offset_us :: "ntp_sync \<Rightarrow> int" where
  "ntp_sync_get_offset_us sync = clock_offset_us sync"

subsection \<open>The time arithmetic\<close>

text \<open>
  \<open>ticks n t\<close>: the timestamp \<open>t\<close> is the instant \<open>n\<close>, in units of \<open>2 ^ -32\<close> seconds, of the
  NTP scale, which the 32-bit seconds repeat every era.
\<close>

definition ticks :: "int \<Rightarrow> ntp_timestamp \<Rightarrow> bool" where
  "ticks n t \<longleftrightarrow> seconds t = of_int (n div 4294967296) \<and> uint (fraction t) = n mod 4294967296"

text \<open>The instant of a local time: the microseconds are rounded down to a tick.\<close>

definition us_ticks :: "int \<Rightarrow> int" where
  "us_ticks us = (us div 1000000 + 2208988800) * 4294967296 + (us mod 1000000) * 4294967296 div 1000000"

lemma uint_fraction_from_us:
  "uint (fraction (from_us us)) = (uint us mod 1000000) * 4294967296 div 1000000"
proof -
  have b: "uint us mod 1000000 < 1000000" "0 \<le> uint us mod 1000000" by simp_all
  have m: "uint (us mod 1000000 * 4294967296) = (uint us mod 1000000) * 4294967296"
    using b by (simp add: uint_word_ariths uint_mod_distrib)
  show ?thesis
    using b by (simp add: from_us_def unsigned_ucast_eq uint_div_distrib m take_bit_int_eq_self)
qed

lemma us_ticks_parts:
  "us_ticks us div 4294967296 = us div 1000000 + 2208988800"
  "us_ticks us mod 4294967296 = (us mod 1000000) * 4294967296 div 1000000"
proof -
  define q f where "q = us div 1000000 + 2208988800" and "f = (us mod 1000000) * 4294967296 div 1000000"
  have "0 \<le> us mod 1000000" "us mod 1000000 < 1000000" by simp_all
  then have "0 \<le> f" "f < 4294967296" unfolding f_def by linarith+
  then have "(q * 4294967296 + f) div 4294967296 = q" "(q * 4294967296 + f) mod 4294967296 = f" by simp_all
  then show "us_ticks us div 4294967296 = us div 1000000 + 2208988800"
    "us_ticks us mod 4294967296 = (us mod 1000000) * 4294967296 div 1000000"
    by (simp_all only: us_ticks_def q_def f_def)
qed

lemma from_us_ticks: "ticks (us_ticks (uint us)) (from_us us)"
proof -
  define x where "x = uint us div 1000000"
  have "0 \<le> uint us" "uint us < 18446744073709551616"
    using unsigned_less [where ?'a = int, of us] by simp_all
  then have x: "0 \<le> x" "x < 18446744073710" unfolding x_def by linarith+
  have "uint (us div 1000000) = x" by (simp add: x_def uint_div_distrib)
  then have "uint (us div 1000000 + 2208988800) = x + 2208988800"
    using x by (simp add: uint_word_ariths)
  then have "ucast (us div 1000000 + 2208988800) = (of_int (x + 2208988800) :: u32)"
    by (metis ucast_eq)
  then show ?thesis
    unfolding ticks_def us_ticks_parts uint_fraction_from_us x_def by (simp add: from_us_def)
qed

lemma us_ticks_scaled: "us_ticks us * 1000000 \<le> (us + 2208988800 * 1000000) * 4294967296"
  "(us + 2208988800 * 1000000) * 4294967296 < us_ticks us * 1000000 + 1000000"
proof -
  have scale: "(q * n + r * n div m) * m \<le> (q * m + r) * n \<and>
      (q * m + r) * n < (q * n + r * n div m) * m + m" if "0 < m" for q r n m :: int
  proof -
    have "r * n div m * m \<le> r * n" "r * n < r * n div m * m + m"
      using that pos_mod_sign [of m "r * n"] pos_mod_bound [of m "r * n"]
        div_mult_mod_eq [of "r * n" m] by linarith+
    then show ?thesis by (simp add: algebra_simps)
  qed
  have "us + 2208988800 * 1000000 = (us div 1000000 + 2208988800) * 1000000 + us mod 1000000" by simp
  then show "us_ticks us * 1000000 \<le> (us + 2208988800 * 1000000) * 4294967296"
    "(us + 2208988800 * 1000000) * 4294967296 < us_ticks us * 1000000 + 1000000"
    using scale [of 1000000 "us div 1000000 + 2208988800" 4294967296 "us mod 1000000"]
    unfolding us_ticks_def by (simp_all only:)
qed

text \<open>
  The difference of two instants less than half an era apart, in whole microseconds: it is
  less than one microsecond off.
\<close>

lemma diff_us_ticks:
  assumes a: "ticks m a" and b: "ticks n b" and r: "\<bar>n div 4294967296 - m div 4294967296\<bar> < 2147483648"
  shows "\<bar>ntp_sync_diff_us a b * 4294967296 - (n - m) * 1000000\<bar> < 4294967296"
proof -
  let ?s = "n div 4294967296 - m div 4294967296" and ?f = "n mod 4294967296 - m mod 4294967296"
  have "seconds b - seconds a = of_int ?s" using a b by (simp add: ticks_def)
  then have s: "sint (seconds b - seconds a) = ?s"
    using r by (simp only: sint_of_int_32)
  have d: "ntp_sync_diff_us a b = ?s * 1000000 + cdiv (?f * 1000000) 4294967296"
    unfolding ntp_sync_diff_us_def s using a b by (simp add: ticks_def)
  have "\<bar>cdiv (?f * 1000000) 4294967296 * 4294967296 - ?f * 1000000\<bar> < 4294967296"
    using cdiv_bounds [of 4294967296 "?f * 1000000"] by simp
  moreover have "(s * M + c) * N - ((sn * N + fn) - (sm * N + fm)) * M = c * N - (fn - fm) * M"
    if "s = sn - sm" for s sn sm fn fm M N c :: int
    unfolding that by (simp add: algebra_simps)
  ultimately show ?thesis
    unfolding d by (metis div_mult_mod_eq)
qed

text \<open>Two local times of the same era.\<close>

lemma diff_us_from_us:
  assumes "\<bar>uint b - uint a\<bar> \<le> 2147483646000000"
  shows "\<bar>ntp_sync_diff_us (from_us a) (from_us b) - (uint b - uint a)\<bar> \<le> 1"
proof -
  have "\<bar>us_ticks (uint b) div 4294967296 - us_ticks (uint a) div 4294967296\<bar> < 2147483648"
    unfolding us_ticks_parts using assms by linarith
  then have "\<bar>ntp_sync_diff_us (from_us a) (from_us b) * 4294967296
      - (us_ticks (uint b) - us_ticks (uint a)) * 1000000\<bar> < 4294967296"
    by (rule diff_us_ticks [OF from_us_ticks from_us_ticks])
  then show ?thesis
    using us_ticks_scaled [of "uint a"] us_ticks_scaled [of "uint b"]
    unfolding abs_less_iff abs_le_iff by (simp add: algebra_simps)
qed

lemma diff_us_bound: "\<bar>ntp_sync_diff_us a b\<bar> \<le> 2147483650000000"
proof -
  have "\<bar>sint (seconds b - seconds a)\<bar> \<le> 2147483648"
    using sint_range_size [of "seconds b - seconds a"] by (simp add: word_size abs_le_iff)
  moreover have "\<bar>uint (fraction b) - uint (fraction a)\<bar> \<le> 4294967296"
    using unsigned_less [where ?'a = int, of "fraction a"] unsigned_less [where ?'a = int, of "fraction b"]
    by (simp add: abs_le_iff) (smt (verit) unsigned_greater_eq)
  moreover have "\<bar>cdiv (f * 1000000) 4294967296\<bar> \<le> 1000000" if "\<bar>f\<bar> \<le> 4294967296" for f
    using cdiv_bounds [of 4294967296 "f * 1000000"] that by (simp add: abs_mult)
  ultimately show ?thesis
    unfolding ntp_sync_diff_us_def by fastforce
qed

text \<open>Translating a timestamp adds its distance from the anchor to the anchor's instant.\<close>

lemma carry_ticks:
  fixes N :: int
  assumes N: "0 < N" and f: "0 \<le> f" "f < N" and c: "\<bar>c\<bar> < N"
    and n: "(s1, f1) = (if f + c < 0 then (sc - 1, f + c + N) else (sc, f + c))"
    and r: "(s2, f2) = (if f1 \<ge> N then (s1 + 1, f1 - N) else (s1, f1))"
  shows "0 \<le> f2 \<and> f2 < N \<and> s2 * N + f2 = sc * N + f + c"
  using assms by (auto simp: algebra_simps split: if_splits)

lemma rtp_to_ntp_ticks:
  assumes "anchor_valid s" and "rate \<noteq> 0" and b: "ticks m (ntp_base s)"
    and d: "d = cdiv (sint (ts - rtp_base s) * 1000000) (uint rate)"
  shows "ticks (m + cdiv d 1000000 * 4294967296 + cdiv (cmod d 1000000 * 4294967296) 1000000)
           (ntp_sync_rtp_to_ntp now s ts rate)"
proof -
  let ?N = "4294967296 :: int"
  define c f where "c = cdiv (cmod d 1000000 * ?N) 1000000" and "f = m mod ?N"
  have "\<bar>c * 1000000\<bar> \<le> \<bar>cmod d 1000000 * ?N\<bar>"
    unfolding c_def using cdiv_bounds [of 1000000 "cmod d 1000000 * ?N"] by simp
  moreover have "\<bar>cmod d 1000000\<bar> < 1000000" by (rule cmod_bounds) simp
  ultimately have c: "\<bar>c\<bar> < ?N" by (simp add: abs_mult)
  have f: "0 \<le> f" "f < ?N" "uint (fraction (ntp_base s)) = f"
    using b by (simp_all add: f_def ticks_def)
  obtain s1 f1 where n: "(s1, f1) = (if f + c < 0 then (cdiv d 1000000 - 1, f + c + ?N) else (cdiv d 1000000, f + c))"
    by (metis surj_pair)
  obtain s2 f2 where r: "(s2, f2) = (if f1 \<ge> ?N then (s1 + 1, f1 - ?N) else (s1, f1))"
    by (metis surj_pair)
  have k: "0 \<le> f2" "f2 < ?N" "s2 * ?N + f2 = cdiv d 1000000 * ?N + f + c"
    using carry_ticks [OF _ f(1,2) c n r] by simp_all
  have res: "ntp_sync_rtp_to_ntp now s ts rate =
      \<lparr>seconds = seconds (ntp_base s) + of_int s2, fraction = of_int f2\<rparr>"
    unfolding ntp_sync_rtp_to_ntp_def Let_def d [symmetric] c_def [symmetric] f(3)
    using assms(1,2) by (simp flip: n r)
  have "m = m div ?N * ?N + f" by (simp add: f_def)
  then have e: "m + cdiv d 1000000 * ?N + c = (m div ?N + s2) * ?N + f2"
    using k(3) by (simp add: algebra_simps)
  have "((m div ?N + s2) * ?N + f2) div ?N = m div ?N + s2" "((m div ?N + s2) * ?N + f2) mod ?N = f2"
    using k(1,2) by (simp_all del: distrib_right_numeral add: div_mult_self3 mod_mult_self3)
  then show ?thesis
    unfolding c_def [symmetric] e res ticks_def
    using b k(1,2) by (simp add: ticks_def unsigned_of_int take_bit_int_eq_self)
qed

subsection \<open>Properties\<close>


text \<open>
  C30: a reply is used once.  A packet is accepted only while a request is pending and only if
  it echoes that request's timestamp; afterwards every packet, the same one included, is
  refused without effect until the next request is sent.
\<close>

theorem ntp_reply_once:
  assumes "ntp_sync_process_packet now s data = Some (0, s')"
  shows "request_pending s \<and> read_time data 8 = Some (request_time s) \<and>
    (\<forall>now' data'. 2 \<le> length data' \<longrightarrow> ntp_sync_process_packet now' s' data' = Some (-1, s'))"
proof -
  have pend: "ntp_reply_header_ok s data = Some True" "\<not> request_pending s'"
    "read_time data 8 = Some (request_time s)"
    using assms unfolding ntp_sync_process_packet_def
    by (auto simp: bind_eq_Some_conv Let_def split: if_splits intro!: ntp_timestamp.equality)
  have "ntp_sync_process_packet now' s' data' = Some (-1, s')" if "2 \<le> length data'" for now' data'
    using pend(2)
    by (simp add: ntp_sync_process_packet_def ntp_reply_header_ok_def rd_within [OF that])
  moreover have "request_pending s"
    using pend(1) by (auto simp: ntp_reply_header_ok_def bind_eq_Some_conv split: if_splits)
  ultimately show ?thesis using pend by blast
qed

text \<open>
  The guard on replies protects no read for packets of less than two bytes: the warning it
  prints reads the first two bytes.  Within the range of the clocks, that is the only access
  outside a packet.
\<close>

theorem ntp_process_reads:
  assumes "\<bar>sint (now - request_local_us s)\<bar> < 2 ^ 62"
  shows "ntp_sync_process_packet now s data = None \<longleftrightarrow> length data < 2"
proof (cases "length data < 2")
  case True
  then show ?thesis
    by (auto simp: ntp_sync_process_packet_def ntp_reply_header_ok_def rd_def)
next
  case False
  then have two: "2 \<le> length data" by simp
  have "ntp_sync_process_packet now s data \<noteq> None"
  proof (cases "32 \<le> length data")
    case True
    have rt: "read_time data p \<noteq> None" if "p \<in> {8, 16, 24}" for p
      using that True by (auto simp: read_time_def read32_def rd_def)
    have rd: "rd data 0 \<noteq> None" "rd data 1 \<noteq> None"
      by (simp_all add: rd_within [OF True])
    have "s64 (sint (now - request_local_us s) - ntp_sync_diff_us a b) \<noteq> None" for a b
      using assms diff_us_bound [of a b] by (simp add: s64_def abs_less_iff abs_le_iff)
    then show ?thesis
      using rd unfolding ntp_sync_process_packet_def ntp_reply_header_ok_def Let_def
      by (intro bind_defined if_defined Some_defined rt) auto
  qed (use two in \<open>simp add: ntp_sync_process_packet_def ntp_reply_header_ok_def rd_within [OF two]\<close>)
  then show ?thesis using False by simp
qed

lemma zero_packet: "replicate 32 (0 :: u8) = [0, 0, 0, 0, 0, 0, 0, 0, 0, 0, 0, 0, 0, 0, 0, 0,
    0, 0, 0, 0, 0, 0, 0, 0, 0, 0, 0, 0, 0, 0, 0, 0]"
  by code_simp

text \<open>
  The reply that this program makes to a timing request copies the request's origin
  field, which this program (as a sender) leaves zero, and not the transmit time it has to
  echo.  So a peer that runs the same code refuses every reply it gets.
\<close>

theorem ntp_reply_not_echoed:
  assumes rq: "ntp_sync_request t1 s = Some (Some pkt, s1)" and rp: "ntp_sync_reply t2 t3 pkt = ok rep"
    and nz: "request_time s1 \<noteq> \<lparr>seconds = 0, fraction = 0\<rparr>"
  shows "ntp_sync_process_packet t4 s1 rep = Some (-1, s1)"
proof -
  have s1: "request_time s1 = from_us t1" "request_pending s1"
    and pkt: "pkt = [0x80, 0xd2, 0, 7, 0, 0, 0, 0, 0, 0, 0, 0, 0, 0, 0, 0, 0, 0, 0, 0, 0, 0, 0, 0] @
      bytes32 (seconds (from_us t1)) @ bytes32 (fraction (from_us t1))"
    using rq by (auto simp: ntp_sync_request_def Let_def wr_def write_time_def write32_def wr_range_def
        zero_packet bytes32_def split: if_splits)
  have rep: "rep = [0x80, 0xd3, 0, 7, 0, 0, 0, 0, 0, 0, 0, 0, 0, 0, 0, 0] @
      bytes32 (seconds (from_us t2)) @ bytes32 (fraction (from_us t2)) @
      bytes32 (seconds (from_us t3)) @ bytes32 (fraction (from_us t3))"
    using rp by (simp add: ntp_sync_reply_def pkt wr_def write_time_def write32_def wr_range_def rd_def rd_range_def
        zero_packet bytes32_def ntp_sync_now_def split: if_splits)
  have len: "32 \<le> length rep" by (simp add: rep)
  have "read_time rep 8 = Some \<lparr>seconds = 0, fraction = 0\<rparr>" "ntp_reply_header_ok s1 rep = Some True"
    using len s1(2) by (simp_all add: read_time_def read32_def ntp_reply_header_ok_def rd_def rep be32_def)
  then show ?thesis
    using nz by (auto simp: ntp_sync_process_packet_def intro: ntp_timestamp.equality)
qed

text \<open>The distance of an anchored timestamp from now, as the exchange's arithmetic gives it.\<close>

lemma anchored_distance:
  fixes now a :: u64 and s :: ntp_sync and ts rate :: u32
  defines "d \<equiv> cdiv (sint (ts - rtp_base s) * 1000000) (uint rate)"
  assumes sy: "anchor_valid s" "rate \<noteq> 0" and b: "ntp_base s = from_us a"
    and rng: "\<bar>uint a + d - uint now\<bar> \<le> 2147483640000000"
  shows "\<bar>ntp_sync_diff_us (from_us now) (ntp_sync_rtp_to_ntp now s ts rate) - (uint a + d - uint now)\<bar> \<le> 1"
proof -
  let ?N = "4294967296 :: int"
  define q c where "q = cdiv d 1000000" and "c = cdiv (cmod d 1000000 * ?N) 1000000"
  define n where "n = us_ticks (uint a) + q * ?N + c"
  define remote where "remote = ntp_sync_rtp_to_ntp now s ts rate"
  have r: "ticks n remote"
    unfolding n_def q_def c_def remote_def
    by (rule rtp_to_ntp_ticks [OF sy]) (simp_all add: b from_us_ticks d_def)
  have cd: "\<bar>c * 1000000 - cmod d 1000000 * ?N\<bar> < 1000000"
    unfolding c_def using cdiv_bounds [of 1000000 "cmod d 1000000 * ?N"] by simp
  have dN: "d * ?N = q * ?N * 1000000 + cmod d 1000000 * ?N"
    unfolding q_def cmod_def left_diff_distrib by linarith
  have scaled: "\<bar>n * 1000000 - (uint a + 2208988800 * 1000000 + d) * ?N\<bar> < 2000000"
    using us_ticks_scaled [of "uint a"] cd dN unfolding n_def abs_less_iff distrib_right by linarith
  have near: "\<bar>(n - us_ticks (uint now)) * 1000000 - (uint a + d - uint now) * ?N\<bar> < 3000000"
    using scaled us_ticks_scaled [of "uint now"]
    unfolding abs_less_iff distrib_right left_diff_distrib by linarith
  have "\<bar>n div ?N - us_ticks (uint now) div ?N\<bar> < 2147483648"
  proof -
    have "\<bar>(n - us_ticks (uint now)) * 1000000\<bar> < 2147483646 * ?N * 1000000"
      using near rng unfolding abs_less_iff abs_le_iff by (auto simp: algebra_simps)
    then have "\<bar>n - us_ticks (uint now)\<bar> < 2147483646 * ?N" by (simp add: abs_mult)
    then show ?thesis unfolding abs_less_iff by linarith
  qed
  then have "\<bar>ntp_sync_diff_us (from_us now) remote * ?N - (n - us_ticks (uint now)) * 1000000\<bar> < ?N"
    by (rule diff_us_ticks [OF from_us_ticks r])
  then have "\<bar>ntp_sync_diff_us (from_us now) remote - (uint a + d - uint now)\<bar> \<le> 1"
    using near unfolding abs_less_iff abs_le_iff by (auto simp: algebra_simps)
  then show ?thesis by (simp only: remote_def)
qed

text \<open>
  C31: with a clock offset and an anchor that was sent at \<open>a\<close> of the sender's clock, the local
  deadline of a timestamp is the anchor plus the timestamp's distance from it in
  microseconds (across a wrap-around of the 32-bit timestamp), minus the clock offset, to
  within one microsecond.
\<close>

theorem ntp_deadline_accuracy:
  fixes now a :: u64 and s :: ntp_sync and ts rate :: u32
  defines "d \<equiv> cdiv (sint (ts - rtp_base s) * 1000000) (uint rate)"
  assumes sy: "synchronized s" "anchor_valid s" "rate \<noteq> 0" and b: "ntp_base s = from_us a"
    and rng: "\<bar>uint a + d - uint now\<bar> \<le> 2147483640000000" "uint now < 2 ^ 62" "\<bar>clock_offset_us s\<bar> \<le> 2 ^ 61"
    and pos: "1 \<le> uint a + d - clock_offset_us s"
  shows "\<exists>l. ntp_sync_deadline now s ts rate = ok l \<and>
    \<bar>uint l - (uint a + d - clock_offset_us s)\<bar> \<le> 1"
proof -
  define remote where "remote = ntp_sync_rtp_to_ntp now s ts rate"
  have diff: "\<bar>ntp_sync_diff_us (from_us now) remote - (uint a + d - uint now)\<bar> \<le> 1"
    using anchored_distance [OF sy(2,3) b rng(1) [unfolded d_def]] by (simp only: remote_def d_def)
  define delta where "delta = ntp_sync_diff_us (from_us now) remote - clock_offset_us s"
  have sn: "sint now = uint now"
    using sint_of_int_64 [of "uint now"] rng(2) order_trans [of "- 9223372036854775808" 0 "uint now"] by simp
  have l: "\<bar>(uint now + delta) - (uint a + d - clock_offset_us s)\<bar> \<le> 1"
    using diff by (simp add: delta_def)
  have b62: "(2 :: int) ^ 62 = 4611686018427387904" "(2 :: int) ^ 61 = 2305843009213693952" by simp_all
  have e1: "s64 delta = Some delta" "s64 (uint now + delta) = Some (uint now + delta)"
  proof -
    have "0 \<le> uint now" by simp
    then show "s64 delta = Some delta" "s64 (uint now + delta) = Some (uint now + delta)"
      using diff rng unfolding delta_def b62 by (intro s64_Some; linarith)+
  qed
  have "0 \<le> uint now + delta" using l pos by linarith
  moreover have "uint now + delta < 18446744073709551616"
    using e1(2) by (simp add: s64_def split: if_splits)
  ultimately have "uint (of_int (uint now + delta) :: u64) = uint now + delta"
    by (simp add: unsigned_of_int take_bit_int_eq_self del: of_int_add)
  then show ?thesis
    using sy l e1 by (simp add: ntp_sync_deadline_def Let_def sn remote_def [symmetric] delta_def [symmetric]
      del: of_int_add)
qed

subsection \<open>Concrete exchanges\<close>

text \<open>A peer whose clock is five seconds ahead, one millisecond away.\<close>

definition sample_reply :: "ntp_timestamp \<Rightarrow> ntp_timestamp \<Rightarrow> ntp_timestamp \<Rightarrow> buf" where
  "sample_reply org r x = [0x80, 0xd3, 0, 7, 0, 0, 0, 0] @
     bytes32 (seconds org) @ bytes32 (fraction org) @ bytes32 (seconds r) @ bytes32 (fraction r) @
     bytes32 (seconds x) @ bytes32 (fraction x)"

definition sample_pending :: ntp_sync where
  "sample_pending = ntp_sync_init\<lparr>request_pending := True, request_local_us := 1700000000000000,
     request_time := from_us 1700000000000000\<rparr>"

lemma sample_reply_fields:
  "read_time (sample_reply org r x) 8 = Some org" "read_time (sample_reply org r x) 16 = Some r"
  "read_time (sample_reply org r x) 24 = Some x"
  "request_pending s \<Longrightarrow> ntp_reply_header_ok s (sample_reply org r x) = Some True"
  by (simp_all add: read_time_def read32_def rd_def sample_reply_def bytes32_def be32_bytes ntp_reply_header_ok_def)


lemma sample_accepted:
  "map_option fst (ntp_sync_process_packet 1700000000002000 sample_pending
     (sample_reply (from_us 1700000000000000) (from_us 1700000005001000) (from_us 1700000005001000))) = Some 0"
  by code_simp

theorem ntp_reply_once_witness:
  "\<exists>s'. ntp_sync_process_packet 1700000000002000 sample_pending
           (sample_reply (from_us 1700000000000000) (from_us 1700000005001000) (from_us 1700000005001000))
         = Some (0, s') \<and>
    ntp_sync_process_packet 1700000000003000 s'
      (sample_reply (from_us 1700000000000000) (from_us 1700000005001000) (from_us 1700000005001000))
         = Some (-1, s')"
proof -
  obtain s' where s': "ntp_sync_process_packet 1700000000002000 sample_pending
      (sample_reply (from_us 1700000000000000) (from_us 1700000005001000) (from_us 1700000005001000)) = Some (0, s')"
    using sample_accepted by auto
  then show ?thesis
    using ntp_reply_once [OF s'] by (auto simp: sample_reply_def)
qed

theorem ntp_process_reads_witness:
  "ntp_sync_process_packet 5 ntp_sync_init [0x80] = None \<and> ntp_sync_process_packet 5 ntp_sync_init [0x80, 0xd3] \<noteq> None"
proof -
  have "\<bar>sint (5 - request_local_us ntp_sync_init)\<bar> < 2 ^ 62"
    by (simp add: ntp_sync_init_def)
  then show ?thesis
    using ntp_process_reads [of 5 ntp_sync_init "[0x80]"] ntp_process_reads [of 5 ntp_sync_init "[0x80, 0xd3]"]
    by simp
qed

lemma sample_request:
  "do { (p, s) \<leftarrow> ntp_sync_request 1700000000000000 ntp_sync_init;
        p \<leftarrow> p; r \<leftarrow> ntp_sync_reply 1700000000001000 1700000000001000 p;
        Some (request_time s \<noteq> \<lparr>seconds = 0, fraction = 0\<rparr>, isl r) } = Some (True, False)"
  by code_simp

theorem ntp_reply_not_echoed_witness:
  "\<exists>pkt s rep. ntp_sync_request 1700000000000000 ntp_sync_init = Some (Some pkt, s) \<and>
     ntp_sync_reply 1700000000001000 1700000000001000 pkt = ok rep \<and>
     ntp_sync_process_packet 1700000000002000 s rep = Some (-1, s)"
proof -
  obtain pkt s rep where "ntp_sync_request 1700000000000000 ntp_sync_init = Some (Some pkt, s)"
    "ntp_sync_reply 1700000000001000 1700000000001000 pkt = ok rep"
    "request_time s \<noteq> \<lparr>seconds = 0, fraction = 0\<rparr>"
    using sample_request by (auto simp: bind_eq_Some_conv isl_def split: sum.splits) (metis sum.exhaust)
  then show ?thesis
    using ntp_reply_not_echoed by blast
qed

definition sample_anchor :: ntp_sync where
  "sample_anchor = ntp_sync_init\<lparr>synchronized := True, anchor_valid := True, clock_offset_us := 5000000,
     rtp_base := 0xFFFFFFFF, ntp_base := from_us 1700000005000000\<rparr>"

theorem ntp_deadline_accuracy_witness:
  "\<exists>l. ntp_sync_deadline 1700000000500000 sample_anchor 44099 44100 = ok l \<and>
       \<bar>uint l - 1700000001000000\<bar> \<le> 1"
proof -
  have f: "synchronized sample_anchor" "anchor_valid sample_anchor" "rtp_base sample_anchor = 0xFFFFFFFF"
    "ntp_base sample_anchor = from_us 1700000005000000" "clock_offset_us sample_anchor = 5000000"
    by (simp_all add: sample_anchor_def)
  have "cdiv (sint (44099 - rtp_base sample_anchor) * 1000000) (uint (44100 :: u32)) = 1000000"
    unfolding f by (simp add: cdiv_def)
  then show ?thesis
    using ntp_deadline_accuracy [of sample_anchor 44100 1700000005000000 44099 1700000000500000] f by simp
qed

end
