(* ===== verification/Ptp_Sync.thy ===== *)
theory Ptp_Sync
  imports Rtp
begin

section \<open>AirPlay 2 clock synchronization (shared/sync/ptp_sync.c)\<close>

text \<open>
  A receive-only PTP listener: Sync and Follow_Up messages of one sender clock give samples
  of the offset between the sender's clock and the local one; an anchor binds an RTP
  timestamp to the sender's clock, and a deadline translates a timestamp to local time.
  Signed 64-bit arithmetic is checked by \<open>s64\<close>.  Receives and the clock are arguments.
\<close>

record airplay_anchor =
  anchor_clock_id :: u64
  network_us :: u64
  rtp_time :: u32
  anchor_valid :: bool
  anchor_playing :: bool

record ptp_sync =
  clock_id :: u64
  sync_received_us :: u64
  updated_us :: u64
  offset_us :: int
  sync_correction :: int
  ptp_sequence :: u16
  ptp_domain :: u8
  source_port :: buf
  pending :: bool
  ready :: bool
  opened :: bool

definition be :: "buf \<Rightarrow> nat \<Rightarrow> nat \<Rightarrow> u64 option" where
  "be b p n = be_loop b p n 0"

definition ptp_sync_init :: ptp_sync where
  "ptp_sync_init = \<lparr>clock_id = 0, sync_received_us = 0, updated_us = 0, offset_us = 0,
     sync_correction = 0, ptp_sequence = 0, ptp_domain = 0, source_port = replicate 10 0,
     pending = False, ready = False, opened = False\<rparr>"

definition ptp_sync_close :: "ptp_sync \<Rightarrow> ptp_sync" where
  "ptp_sync_close p = ptp_sync_init"

text \<open>\<open>bind_ok\<close> and \<open>join_ok\<close>: whether the platform binds and joins each of the two sockets.\<close>

definition ptp_sync_open ::
  "(nat \<Rightarrow> bool) \<Rightarrow> (nat \<Rightarrow> string \<Rightarrow> bool) \<Rightarrow> ptp_sync \<Rightarrow> string \<Rightarrow> int \<times> ptp_sync" where
  "ptp_sync_open bind_ok join_ok p local_ip =
     (if opened p then (0, p)
      else if \<not> bind_ok 0 \<or> \<not> bind_ok 1 \<or> \<not> join_ok 0 local_ip \<or> \<not> join_ok 1 local_ip
      then (-1, ptp_sync_close p)
      else (0, p\<lparr>opened := True\<rparr>))"

definition ptp_sync_set_clock :: "ptp_sync \<Rightarrow> u64 \<Rightarrow> ptp_sync" where
  "ptp_sync_set_clock p clock =
     (if clock_id p \<noteq> clock then p\<lparr>clock_id := clock, pending := False, ready := False\<rparr> else p)"

text \<open>
  Taking a sample from the origin timestamp of a message; \<open>correction\<close> is the sum of the
  corrections of the messages it belongs to.
\<close>

definition ptp_sample :: "ptp_sync \<Rightarrow> buf \<Rightarrow> int \<Rightarrow> u64 \<Rightarrow> (int \<times> ptp_sync) option" where
  "ptp_sample p data correction now = do {
     sec \<leftarrow> be data 34 6;
     ns64 \<leftarrow> be data 40 4;
     let ns = (ucast ns64 :: u32);
     if ns \<ge> 1000000000 \<or> unat sec > 9223372036854 then Some (-1, p)
     else do {
       local \<leftarrow> s64 (sint (sec * 1000000 + ucast (ns div 1000)) + correction);
       offset \<leftarrow> s64 (local - sint (sync_received_us p));
       offs \<leftarrow> (if \<not> ready p \<or> now - updated_us p > 2000000 \<or> offset > offset_us p then Some offset
               else do { d \<leftarrow> s64 (offset - offset_us p); Some (offset_us p + cdiv d 64) });
       Some (1, p\<lparr>offset_us := offs, ready := True, pending := False, updated_us := now\<rparr>) } }"

definition ptp_sync_packet :: "ptp_sync \<Rightarrow> buf \<Rightarrow> u64 \<Rightarrow> (int \<times> ptp_sync) option" where
  "ptp_sync_packet p data now =
     (if length data < 44 then Some (-1, p)
      else do {
        d1 \<leftarrow> rd data 1;
        if d1 AND 15 \<noteq> 2 then Some (-1, p)
        else do {
          len \<leftarrow> be data 2 2;
          if unat len < 44 \<or> unat len > length data then Some (-1, p)
          else do {
            d0 \<leftarrow> rd data 0;
            let type = d0 AND 15;
            clock \<leftarrow> be data 20 8;
            if (type \<noteq> 0 \<and> type \<noteq> 8) \<or> clock_id p = 0 \<or> clock \<noteq> clock_id p then Some (0, p)
            else do {
              seq64 \<leftarrow> be data 30 2;
              let seq = (ucast seq64 :: u16);
              c \<leftarrow> be data 8 8;
              let correction = cdiv (sint c) 65536000;
              d4 \<leftarrow> rd data 4;
              src \<leftarrow> rd_range data 20 10;
              if type = 0 then do {
                let p = p\<lparr>ptp_sequence := seq, ptp_domain := d4, sync_received_us := now,
                          source_port := src, sync_correction := correction, pending := True\<rparr>;
                d6 \<leftarrow> rd data 6;
                if d6 AND 2 \<noteq> 0 then Some (0, p) else ptp_sample p data correction now }
              else if \<not> pending p \<or> seq \<noteq> ptp_sequence p \<or> d4 \<noteq> ptp_domain p \<or>
                      src \<noteq> source_port p \<or> now - sync_received_us p > 1000000
              then Some (0, p)
              else do {
                correction \<leftarrow> s64 (correction + sync_correction p);
                ptp_sample p data correction now } } } } })"

text \<open>
  The receives of one socket, each with the time at which the packet is handled, at most
  eight; then both sockets.  The boolean says that a receive failed.
\<close>

fun ptp_poll_socket :: "nat \<Rightarrow> (udp_recv \<times> u64) list \<Rightarrow> ptp_sync \<Rightarrow> (bool \<times> ptp_sync) option" where
  "ptp_poll_socket 0 rx p = Some (False, p)"
| "ptp_poll_socket (Suc batch) [] p = Some (False, p)"
| "ptp_poll_socket (Suc batch) ((RecvTimeout, now) # rx) p = Some (False, p)"
| "ptp_poll_socket (Suc batch) ((RecvError, now) # rx) p = Some (True, p)"
| "ptp_poll_socket (Suc batch) ((Datagram data peer, now) # rx) p =
     do { (_, p) \<leftarrow> ptp_sync_packet p data now; ptp_poll_socket batch rx p }"

definition ptp_sync_poll ::
  "(udp_recv \<times> u64) list \<Rightarrow> (udp_recv \<times> u64) list \<Rightarrow> ptp_sync \<Rightarrow> (int \<times> ptp_sync) option" where
  "ptp_sync_poll rx0 rx1 p =
     (if \<not> opened p then Some (0, p)
      else do {
        (bad, p) \<leftarrow> ptp_poll_socket 8 rx0 p;
        if bad then Some (-1, p)
        else do {
          (bad, p) \<leftarrow> ptp_poll_socket 8 rx1 p;
          Some (if bad then -1 else 0, p) } })"

definition ptp_sync_anchor :: "buf \<Rightarrow> airplay_anchor ret option" where
  "ptp_sync_anchor data =
     (if length data < 28 then fail
      else do {
        d0 \<leftarrow> rd data 0;
        d1 \<leftarrow> rd data 1;
        id \<leftarrow> be data 20 8;
        if drop_bit 6 d0 \<noteq> 2 \<or> d1 AND 0x7f \<noteq> 0x57 \<or> id = 0 then fail
        else do {
          t \<leftarrow> be data 4 4;
          ns \<leftarrow> be data 8 8;
          ok \<lparr>anchor_clock_id = id, network_us = ns div 1000, rtp_time = ucast t,
              anchor_valid = True, anchor_playing = True\<rparr> } })"

definition ptp_sync_deadline ::
  "u64 \<Rightarrow> ptp_sync \<Rightarrow> airplay_anchor \<Rightarrow> u32 \<Rightarrow> u32 \<Rightarrow> u32 \<Rightarrow> u64 ret option" where
  "ptp_sync_deadline now p a ts rate latency =
     (if \<not> ready p \<or> \<not> anchor_valid a \<or> \<not> anchor_playing a \<or> rate = 0 \<or>
         anchor_clock_id a \<noteq> clock_id p \<or>
         (now \<ge> updated_us p \<and> now - updated_us p > 5000000)
      then fail
      else do {
        let delta = sint (ts - rtp_time a) + uint latency;
        base \<leftarrow> s64 (sint (network_us a) - offset_us p);
        local \<leftarrow> s64 (base + cdiv (delta * 1000000) (uint rate));
        if local < 0 then fail else ok (of_int local) })"

subsection \<open>Properties\<close>

lemma be_Some: "p + n \<le> length b \<Longrightarrow> be b p n \<noteq> None"
  using be_loop_Some [of p n b 0] by (auto simp: be_def)

text \<open>The sample that the origin timestamp of \<open>data\<close> gives for a Sync received at \<open>at\<close>.\<close>

definition origin_us :: "buf \<Rightarrow> int" where
  "origin_us data = int (be_nat (take 6 (drop 34 data))) * 1000000 + int (be_nat (take 4 (drop 40 data))) div 1000"

definition correction_us :: "buf \<Rightarrow> int" where
  "correction_us data = cdiv (sint (of_nat (be_nat (take 8 (drop 8 data))) :: u64)) 65536000"

lemma be_eq: "p + n \<le> length b \<Longrightarrow> n \<le> 8 \<Longrightarrow> be b p n = Some (of_nat (be_nat (take n (drop p b))))"
  unfolding be_def by (rule be_loop_eq)

lemma be_nat_take: "p + n \<le> length b \<Longrightarrow> be_nat (take n (drop p b)) < 256 ^ n"
  using be_nat_less [of "take n (drop p b)"] by simp

text \<open>The two words of the origin timestamp, as the code converts them.\<close>

lemma origin_fields:
  assumes "44 \<le> length data"
  obtains sec ns where "be data 34 6 = Some sec" and "be data 40 4 = Some ns"
    and "unat sec = be_nat (take 6 (drop 34 data))"
    and "unat (ucast ns :: u32) = be_nat (take 4 (drop 40 data))"
    and "unat sec \<le> 9223372036854 \<Longrightarrow> unat (ucast ns :: u32) < 1000000000 \<Longrightarrow>
      uint (sec * 1000000 + ucast ((ucast ns :: u32) div 1000)) = origin_us data"
proof -
  let ?a = "be_nat (take 6 (drop 34 data))" and ?b = "be_nat (take 4 (drop 40 data))"
  have b: "?a < 256 ^ 6" "?b < 256 ^ 4"
    using be_nat_take [of 34 6 data] be_nat_take [of 40 4 data] assms by simp_all
  have u: "unat (of_nat ?a :: u64) = ?a" "unat (ucast (of_nat ?b :: u64) :: u32) = ?b"
    using b by (simp_all add: unat_of_nat ucast_of_nat_down)
  have "uint (of_nat ?a * 1000000 + ucast ((ucast (of_nat ?b :: u64) :: u32) div 1000) :: u64) = origin_us data"
    if "?a \<le> 9223372036854" "?b < 1000000000"
  proof -
    have d: "unat (ucast ((ucast (of_nat ?b :: u64) :: u32) div 1000) :: u64) = ?b div 1000"
      by (subst unat_ucast_up) (simp_all add: unat_div_distrib u del: ucast_of_nat_down)
    have "unat (of_nat ?a * 1000000 + ucast ((ucast (of_nat ?b :: u64) :: u32) div 1000) :: u64)
        = ?a * 1000000 + ?b div 1000"
      using that by (simp only: unat_word_ariths d u) simp
    then show ?thesis
      unfolding origin_us_def by (simp only: uint_nat of_nat_add of_nat_mult zdiv_int of_nat_numeral)
  qed
  then show ?thesis
    using that [of "of_nat ?a" "of_nat ?b"] u be_eq [of 34 6 data] be_eq [of 40 4 data] assms by simp
qed

lemma ptp_sample_result:
  assumes len: "44 \<le> length data" and sm: "ptp_sample p data c now = Some (1, p')" and o: "origin_us data < 2 ^ 63"
  shows "p' = p\<lparr>offset_us := (let s = origin_us data + c - sint (sync_received_us p) in
           if \<not> ready p \<or> now - updated_us p > 2000000 \<or> s > offset_us p then s
           else offset_us p + cdiv (s - offset_us p) 64),
         ready := True, pending := False, updated_us := now\<rparr>"
proof -
  obtain sec ns where f: "be data 34 6 = Some sec" "be data 40 4 = Some ns"
    and v: "unat sec \<le> 9223372036854 \<Longrightarrow> unat (ucast ns :: u32) < 1000000000 \<Longrightarrow>
      uint (sec * 1000000 + ucast ((ucast ns :: u32) div 1000)) = origin_us data"
    by (rule origin_fields [OF len]) blast
  have g: "unat sec \<le> 9223372036854" "unat (ucast ns :: u32) < 1000000000"
    using sm by (auto simp: ptp_sample_def f Let_def word_le_nat_alt word_less_nat_alt not_le not_less split: if_splits)
  have "0 \<le> origin_us data" by (simp add: origin_us_def)
  then have "sint (sec * 1000000 + ucast ((ucast ns :: u32) div 1000)) = origin_us data"
    using sint_small_64 v [OF g] o by simp
  then show ?thesis
    using sm by (auto simp: ptp_sample_def f Let_def bind_eq_Some_conv s64_eq_Some_iff split: if_splits)
qed

text \<open>
  What a sample does.  A packet is counted as a sample only if it comes from the selected
  clock and is a Sync, or the Follow_Up of the pending Sync (same sequence number, domain and
  source port, at most a second after it).  The sample is the origin time plus the corrections
  minus the local time at which the Sync arrived.  A first sample, one after two seconds of
  silence and one with less delay than the estimate replace the estimate; any other sample
  moves it by a sixty-fourth of the distance, so that it never leaves the interval between
  the estimate and the sample.
\<close>

theorem ptp_offset_update:
  assumes "ptp_sync_packet p data now = Some (1, p')" and "origin_us data < 2 ^ 63"
  shows "\<exists>at c. (data ! 0 AND 15 = 0 \<and> at = now \<and> c = correction_us data \<or>
              data ! 0 AND 15 = 8 \<and> pending p \<and> at = sync_received_us p \<and>
              c = correction_us data + sync_correction p \<and> now - at \<le> 1000000 \<and>
              ptp_sequence p = of_nat (be_nat (take 2 (drop 30 data))) \<and> ptp_domain p = data ! 4 \<and>
              source_port p = take 10 (drop 20 data)) \<and>
    clock_id p = of_nat (be_nat (take 8 (drop 20 data))) \<and> clock_id p \<noteq> 0 \<and>
    ready p' \<and> \<not> pending p' \<and> updated_us p' = now \<and>
    (let s = origin_us data + c - sint at in
       (if \<not> ready p \<or> now - updated_us p > 2000000 \<or> s > offset_us p then offset_us p' = s
        else s \<le> offset_us p' \<and> offset_us p' \<le> offset_us p))"
proof -
  have len: "44 \<le> length data" using assms(1) by (auto simp: ptp_sync_packet_def split: if_splits)
  have reads: "rd data 0 = Some (data ! 0)" "rd data 1 = Some (data ! 1)" "rd data 4 = Some (data ! 4)"
    "rd data 6 = Some (data ! 6)" "rd_range data 20 10 = Some (take 10 (drop 20 data))"
    using len by (simp_all add: rd_within [OF len] rd_range_def)
  have words: "be data 2 2 = Some (of_nat (be_nat (take 2 (drop 2 data))))"
    "be data 20 8 = Some (of_nat (be_nat (take 8 (drop 20 data))))"
    "be data 30 2 = Some (of_nat (be_nat (take 2 (drop 30 data))))"
    "be data 8 8 = Some (of_nat (be_nat (take 8 (drop 8 data))))"
    using len by (simp_all add: be_eq)
  have seq: "ucast (of_nat n :: u64) = (of_nat n :: u16)" for n by (rule ucast_of_nat_down) simp
  have between: "s \<le> o' + cdiv (s - o') 64 \<and> o' + cdiv (s - o') 64 \<le> o'" if "s \<le> o'" for s o' :: int
    using that by (cases "s = o'") (auto simp: cdiv_neg cdiv_nonneg)
  note res = ptp_sample_result [OF len _ assms(2)]
  obtain q c where q: "ptp_sample q data c now = Some (1, p')"
    and cl: "clock_id p = of_nat (be_nat (take 8 (drop 20 data)))" "clock_id p \<noteq> 0"
    and rd: "ready q = ready p" "updated_us q = updated_us p" "offset_us q = offset_us p"
    and k: "data ! 0 AND 15 = 0 \<and> sync_received_us q = now \<and> c = correction_us data \<or>
              data ! 0 AND 15 = 8 \<and> pending p \<and> sync_received_us q = sync_received_us p \<and>
              c = correction_us data + sync_correction p \<and> now - sync_received_us p \<le> 1000000 \<and>
              ptp_sequence p = of_nat (be_nat (take 2 (drop 30 data))) \<and> ptp_domain p = data ! 4 \<and>
              source_port p = take 10 (drop 20 data)"
    using assms(1) len
    by (auto simp: ptp_sync_packet_def reads words Let_def seq correction_us_def [symmetric] bind_eq_Some_conv
        s64_eq_Some_iff not_less split: if_splits)
  show ?thesis
    using k cl res [OF q] rd between
    by (intro exI [of _ "sync_received_us q"] exI [of _ c]) (auto simp: Let_def)
qed

text \<open>A Sync or Follow_Up message as the sender lays it out.\<close>

definition ptp_message :: "u8 \<Rightarrow> u8 \<Rightarrow> u16 \<Rightarrow> u8 \<Rightarrow> u64 \<Rightarrow> buf \<Rightarrow> u64 \<Rightarrow> u64 \<Rightarrow> u64 \<Rightarrow> buf" where
  "ptp_message type flags seq domain clock prt corr sec ns =
     [type, 2, 0, 44, domain, 0, flags, 0] @ be_bytes 8 corr @ [0, 0, 0, 0] @ be_bytes 8 clock @ prt @
     be_bytes 2 (ucast seq) @ [0, 0] @ be_bytes 6 sec @ be_bytes 4 ns"

lemma ptp_message_fields:
  fixes seq :: u16 and domain :: u8 and clock corr sec ns :: u64
  assumes prt: "length prt = 2"
  defines "m \<equiv> \<lambda>type flags. ptp_message type flags seq domain clock prt corr sec ns"
  shows "length (m type flags) = 44"
    and "rd (m type flags) 0 = Some type" "rd (m type flags) (Suc 0) = Some 2"
    and "rd (m type flags) 4 = Some domain" "rd (m type flags) 6 = Some flags"
    and "be (m type flags) 2 2 = Some 44" "be (m type flags) 20 8 = Some clock"
    and "be (m type flags) 30 2 = Some (ucast seq)" "be (m type flags) 8 8 = Some corr"
    and "rd_range (m type flags) 20 10 = Some (be_bytes 8 clock @ prt)"
    and "be_nat (take 6 (drop 34 (m type flags))) = unat sec mod 256 ^ 6"
    and "be_nat (take 4 (drop 40 (m type flags))) = unat ns mod 256 ^ 4"
proof -
  have len: "length (m t f) = 44" for t f by (simp add: m_def ptp_message_def prt)
  then show "length (m type flags) = 44" .
  have sq: "be_nat (be_bytes 2 (ucast seq)) = unat seq"
    by (subst be_nat_be_bytes) (simp_all add: unat_ucast_up)
  show "rd (m type flags) 0 = Some type" "rd (m type flags) (Suc 0) = Some 2"
    "rd (m type flags) 4 = Some domain" "rd (m type flags) 6 = Some flags"
    using len [of type flags] by (simp_all add: rd_def) (simp_all add: m_def ptp_message_def)
  have "be_nat (take 2 (drop 2 (m type flags))) = 44"
    by (simp add: m_def ptp_message_def be_nat_def)
  then show "be (m type flags) 2 2 = Some 44" by (simp add: be_eq len)
  show "be (m type flags) 20 8 = Some clock" "be (m type flags) 30 2 = Some (ucast seq)"
    "be (m type flags) 8 8 = Some corr"
    using prt len [of type flags]
    by (simp_all add: be_eq) (simp_all add: m_def ptp_message_def be_nat_be_bytes_8 sq)
  show "rd_range (m type flags) 20 10 = Some (be_bytes 8 clock @ prt)"
    using prt len [of type flags] by (simp add: rd_range_def) (simp add: m_def ptp_message_def)
  have "take 6 (drop 34 (m type flags)) = be_bytes 6 sec" "take 4 (drop 40 (m type flags)) = be_bytes 4 ns"
    using prt by (simp_all add: m_def ptp_message_def)
  then show "be_nat (take 6 (drop 34 (m type flags))) = unat sec mod 256 ^ 6"
    "be_nat (take 4 (drop 40 (m type flags))) = unat ns mod 256 ^ 4"
    by (simp_all only: be_nat_be_bytes)
qed

lemma origin_us_bounds:
  assumes s: "be_nat (take 6 (drop 34 data)) < 256 ^ 5" and n: "be_nat (take 4 (drop 40 data)) < 1000000000"
  shows "0 \<le> origin_us data" "origin_us data \<le> 1099511627777000000"
proof -
  have "int (be_nat (take 6 (drop 34 data))) < 1099511627776" "int (be_nat (take 4 (drop 40 data))) < 1000000000"
    using s n by simp_all
  then show "0 \<le> origin_us data" "origin_us data \<le> 1099511627777000000"
    unfolding origin_us_def by linarith+
qed

lemma ptp_sample_first:
  assumes len: "44 \<le> length data" and nr: "\<not> ready p"
    and s: "be_nat (take 6 (drop 34 data)) < 256 ^ 5" and n: "be_nat (take 4 (drop 40 data)) < 1000000000"
    and c: "\<bar>c\<bar> \<le> 300000000000" and r: "\<bar>sint (sync_received_us p)\<bar> \<le> 2305843009213693952"
  shows "ptp_sample p data c now = Some (1, p\<lparr>offset_us := origin_us data + c - sint (sync_received_us p),
    ready := True, pending := False, updated_us := now\<rparr>)"
proof -
  obtain sec ns where f: "be data 34 6 = Some sec" "be data 40 4 = Some ns"
    and u: "unat sec = be_nat (take 6 (drop 34 data))" "unat (ucast ns :: u32) = be_nat (take 4 (drop 40 data))"
    and v: "unat sec \<le> 9223372036854 \<Longrightarrow> unat (ucast ns :: u32) < 1000000000 \<Longrightarrow>
      uint (sec * 1000000 + ucast ((ucast ns :: u32) div 1000)) = origin_us data"
    by (rule origin_fields [OF len]) blast
  have g: "unat sec \<le> 9223372036854" "unat (ucast ns :: u32) < 1000000000" using s n u by simp_all
  note o = origin_us_bounds [OF s n]
  have "sint (sec * 1000000 + ucast ((ucast ns :: u32) div 1000)) = origin_us data"
    using sint_small_64 v [OF g] o by simp
  moreover have "s64 (origin_us data + c) = Some (origin_us data + c)"
    "s64 (origin_us data + c - sint (sync_received_us p)) = Some (origin_us data + c - sint (sync_received_us p))"
    using o c r by (intro s64_Some; linarith)+
  moreover have "\<not> 1000000000 \<le> (ucast ns :: u32)"
    using g(2) by (simp add: word_le_nat_alt)
  ultimately show ?thesis
    using nr g(1) by (simp add: ptp_sample_def f Let_def)
qed

lemma correction_bound: "\<bar>cdiv (sint (c :: u64)) 65536000\<bar> \<le> 140737488356"
proof -
  have "\<bar>sint c\<bar> \<le> 9223372036854775808"
    using sint_range_size [of c] by (simp add: word_size abs_le_iff)
  then show ?thesis
    using cdiv_bounds [of 65536000 "sint c"] by linarith
qed

text \<open>
  A two-step exchange.  A Sync of the selected clock that announces a Follow_Up gives no
  sample by itself; the matching Follow_Up, at most a second later, completes it: the offset
  is the origin time of the Follow_Up, corrected by both messages, minus the local time at
  which the Sync (not the Follow_Up) was received.
\<close>

theorem ptp_two_step:
  fixes t1 t2 sec ns c1 c2 :: u64
  assumes ck: "clock_id p = clock" "clock \<noteq> 0" "\<not> ready p" and prt: "length prt = 2"
    and t: "uint t1 < 2 ^ 61" "uint t1 \<le> uint t2" "uint t2 \<le> uint t1 + 1000000"
    and o: "unat sec < 256 ^ 5" "unat ns < 1000000000"
  shows "\<exists>p1 p2. ptp_sync_packet p (ptp_message 0 2 seq domain clock prt c1 s0 n0) t1 = Some (0, p1) \<and>
    ready p1 = False \<and>
    ptp_sync_packet p1 (ptp_message 8 0 seq domain clock prt c2 sec ns) t2 = Some (1, p2) \<and> ready p2 \<and>
    offset_us p2 = uint sec * 1000000 + uint ns div 1000 +
      (cdiv (sint c1) 65536000 + cdiv (sint c2) 65536000) - uint t1"
proof -
  define m1 m2 where "m1 = ptp_message 0 2 seq domain clock prt c1 s0 n0"
    and "m2 = ptp_message 8 0 seq domain clock prt c2 sec ns"
  note f1 = ptp_message_fields [OF prt, where type = 0 and flags = 2 and seq = seq and domain = domain and
      clock = clock and corr = c1 and sec = s0 and ns = n0, folded m1_def]
  note f2 = ptp_message_fields [OF prt, where type = 8 and flags = 0 and seq = seq and domain = domain and
      clock = clock and corr = c2 and sec = sec and ns = ns, folded m2_def]
  have sq: "ucast (ucast seq :: u64) = seq"
    using ucast_via_wider [of seq, where 'b = 64 and 'c = 16] by simp
  define p1 where "p1 = p\<lparr>ptp_sequence := seq, ptp_domain := domain, sync_received_us := t1,
    source_port := be_bytes 8 clock @ prt, sync_correction := cdiv (sint c1) 65536000, pending := True\<rparr>"
  define c where "c = cdiv (sint c2) 65536000 + cdiv (sint c1) 65536000"
  have one: "ptp_sync_packet p m1 t1 = Some (0, p1)"
    using ck by (simp add: ptp_sync_packet_def f1 Let_def sq p1_def)
  have st: "sint t1 = uint t1" using t(1) by (intro sint_small_64) simp
  have cb: "\<bar>c\<bar> \<le> 300000000000"
    unfolding c_def using correction_bound [of c1] correction_bound [of c2] by linarith
  have sm: "ptp_sample p1 m2 c t2 = Some (1, p1\<lparr>offset_us := origin_us m2 + c - sint (sync_received_us p1),
      ready := True, pending := False, updated_us := t2\<rparr>)"
  proof (rule ptp_sample_first)
    show "be_nat (take 6 (drop 34 m2)) < 256 ^ 5" "be_nat (take 4 (drop 40 m2)) < 1000000000"
      unfolding f2 using o by simp_all
  qed (use ck(3) cb t(1) in \<open>simp_all add: f2 p1_def st\<close>)
  have "uint (t2 - t1) = uint t2 - uint t1" using t(2) by (simp only: uint_minus_simple_alt [THEN iffD1] word_le_def)
  then have near: "\<not> t2 - t1 > 1000000" using t by (simp add: word_less_def)
  have "s64 c = Some c" using cb by (intro s64_Some; linarith)
  then have two: "ptp_sync_packet p1 m2 t2 = ptp_sample p1 m2 c t2"
    using ck near by (simp add: ptp_sync_packet_def f2 Let_def sq p1_def c_def)
  have "origin_us m2 = uint sec * 1000000 + uint ns div 1000"
    unfolding origin_us_def f2 using o by simp
  then show ?thesis
    using one two sm st ck(3) unfolding m1_def [symmetric] m2_def [symmetric]
    by (simp add: p1_def c_def)
qed

text \<open>The state a listener can be in while clocks and origin times are below some \<open>2 ^ 61\<close> microseconds.\<close>

definition ptp_inv :: "ptp_sync \<Rightarrow> bool" where
  "ptp_inv p \<longleftrightarrow> \<bar>offset_us p\<bar> \<le> 4611686018427387904 \<and> \<bar>sync_correction p\<bar> \<le> 140737488356 \<and>
     uint (sync_received_us p) < 2305843009213693952"

lemma ptp_sample_safe:
  assumes len: "44 \<le> length data" and iv: "ptp_inv p" and s: "be_nat (take 6 (drop 34 data)) < 256 ^ 5"
    and c: "\<bar>c\<bar> \<le> 300000000000"
  obtains r p' where "ptp_sample p data c now = Some (r, p')" and "ptp_inv p'"
proof -
  obtain sec ns where f: "be data 34 6 = Some sec" "be data 40 4 = Some ns"
    and u: "unat sec = be_nat (take 6 (drop 34 data))" "unat (ucast ns :: u32) = be_nat (take 4 (drop 40 data))"
    and v: "unat sec \<le> 9223372036854 \<Longrightarrow> unat (ucast ns :: u32) < 1000000000 \<Longrightarrow>
      uint (sec * 1000000 + ucast ((ucast ns :: u32) div 1000)) = origin_us data"
    by (rule origin_fields [OF len]) blast
  show ?thesis
  proof (cases "(1000000000 :: u32) \<le> ucast ns")
    case True
    then show ?thesis using that iv by (simp add: ptp_sample_def f Let_def)
  next
    case False
    then have g: "unat sec \<le> 9223372036854" "unat (ucast ns :: u32) < 1000000000"
      using s u by (simp_all add: word_le_nat_alt not_le)
    have n: "be_nat (take 4 (drop 40 data)) < 1000000000" using g(2) u by simp
    note o = origin_us_bounds [OF s n]
    have or: "sint (sec * 1000000 + ucast ((ucast ns :: u32) div 1000)) = origin_us data"
      using sint_small_64 v [OF g] o by simp
    have rc: "0 \<le> sint (sync_received_us p)" "sint (sync_received_us p) < 2305843009213693952"
      using iv sint_small_64 [of "sync_received_us p"] by (simp_all add: ptp_inv_def)
    define x where "x = origin_us data + c - sint (sync_received_us p)"
    have x4: "\<bar>x\<bar> \<le> 3405197646206000000"
      using o c rc unfolding x_def by linarith
    have x: "s64 (origin_us data + c) = Some (origin_us data + c)" "s64 x = Some x"
      "s64 (x - offset_us p) = Some (x - offset_us p)"
      using o c x4 iv unfolding ptp_inv_def by (intro s64_Some; linarith)+
    have mv: "\<bar>offset_us p + cdiv (x - offset_us p) 64\<bar> \<le> 4611686018427387904" if "x \<le> offset_us p"
      using cdiv_bounds [of 64 "x - offset_us p"] that x4 iv unfolding ptp_inv_def by linarith
    show ?thesis
    proof (rule that)
      let ?o = "if \<not> ready p \<or> now - updated_us p > 2000000 \<or> x > offset_us p then x
                else offset_us p + cdiv (x - offset_us p) 64"
      let ?p = "p\<lparr>offset_us := ?o, ready := True, pending := False, updated_us := now\<rparr>"
      show "ptp_sample p data c now = Some (1, ?p)"
        using False g(1) x by (simp add: ptp_sample_def f Let_def or x_def [symmetric])
      have "\<bar>?o\<bar> \<le> 4611686018427387904" using mv x4 by auto
      then show "ptp_inv ?p"
        using iv by (simp add: ptp_inv_def)
    qed
  qed
qed

text \<open>
  C32: while the clocks of both sides are below \<open>2 ^ 40\<close> seconds, handling any packet, accepted
  or not, stays inside it, overflows no signed integer, and keeps these bounds.
\<close>

theorem ptp_packet_safe:
  assumes "ptp_inv p" and "uint now < 2 ^ 61"
    and "44 \<le> length data \<longrightarrow> be_nat (take 6 (drop 34 data)) < 256 ^ 5"
  shows "\<exists>r p'. ptp_sync_packet p data now = Some (r, p') \<and> ptp_inv p'"
proof (cases "44 \<le> length data")
  case False
  then show ?thesis using assms by (simp add: ptp_sync_packet_def)
next
  case len: True
  have reads: "rd data 0 = Some (data ! 0)" "rd data (Suc 0) = Some (data ! 1)" "rd data 4 = Some (data ! 4)"
    "rd data 6 = Some (data ! 6)" "rd_range data 20 10 = Some (take 10 (drop 20 data))"
    using len by (simp_all add: rd_within [OF len] rd_range_def)
  obtain w2 w20 w30 w8 where words: "be data 2 2 = Some w2" "be data 20 8 = Some w20"
    "be data 30 2 = Some w30" "be data 8 8 = Some w8"
    using be_Some [of 2 2 data] be_Some [of 20 8 data] be_Some [of 30 2 data] be_Some [of 8 8 data] len by auto
  let ?c = "cdiv (sint w8) 65536000"
  have s: "be_nat (take 6 (drop 34 data)) < 256 ^ 5" using assms(3) len by blast
  have c1: "\<bar>?c\<bar> \<le> 300000000000" and c2: "\<bar>?c + sync_correction p\<bar> \<le> 300000000000"
    using correction_bound [of w8] assms(1) unfolding ptp_inv_def by linarith+
  define q where "q = p\<lparr>ptp_sequence := ucast w30, ptp_domain := data ! 4, sync_received_us := now,
    source_port := take 10 (drop 20 data), sync_correction := ?c, pending := True\<rparr>"
  have q: "ptp_inv q"
    using assms(1,2) correction_bound [of w8] by (simp add: ptp_inv_def q_def)
  obtain r1 p1 where s1: "ptp_sample q data ?c now = Some (r1, p1)" "ptp_inv p1"
    using ptp_sample_safe [OF len q s c1] .
  obtain r2 p2 where s2: "ptp_sample p data (?c + sync_correction p) now = Some (r2, p2)" "ptp_inv p2"
    using ptp_sample_safe [OF len assms(1) s c2] .
  have s64: "s64 (?c + sync_correction p) = Some (?c + sync_correction p)"
    using c2 by (intro s64_Some; linarith)
  show ?thesis
    using assms(1) len q s1 s2 s64
    by (simp add: ptp_sync_packet_def reads words Let_def q_def [symmetric])
qed

text \<open>
  Nothing enforces those bounds.  The guard on the seconds admits an origin time of
  \<open>2 ^ 63 - 1\<close> microseconds, and adding a positive correction to it overflows.
\<close>

theorem ptp_packet_overflow:
  assumes "clock_id p = clock" and "clock \<noteq> 0" and "length prt = 2"
  shows "ptp_sync_packet p (ptp_message 0 0 seq domain clock prt 65536000 9223372036854 775807000) now = None"
proof -
  define m where "m = ptp_message 0 0 seq domain clock prt 65536000 9223372036854 775807000"
  note f = ptp_message_fields [OF assms(3), where type = 0 and flags = 0 and seq = seq and domain = domain and
      clock = clock and corr = 65536000 and sec = 9223372036854 and ns = 775807000, folded m_def]
  have len: "44 \<le> length m" by (simp add: f)
  obtain sec ns where w: "be m 34 6 = Some sec" "be m 40 4 = Some ns"
    and u': "unat sec = be_nat (take 6 (drop 34 m))" "unat (ucast ns :: u32) = be_nat (take 4 (drop 40 m))"
    and v: "unat sec \<le> 9223372036854 \<Longrightarrow> unat (ucast ns :: u32) < 1000000000 \<Longrightarrow>
      uint (sec * 1000000 + ucast ((ucast ns :: u32) div 1000)) = origin_us m"
    by (rule origin_fields [OF len]) blast
  have u: "unat sec = 9223372036854" "unat (ucast ns :: u32) = 775807000"
    unfolding u' f by simp_all
  have "origin_us m = 9223372036854775807"
    unfolding origin_us_def f by simp
  then have "sint (sec * 1000000 + ucast ((ucast ns :: u32) div 1000)) = 9223372036854775807"
    using v u by (simp add: sint_small_64)
  moreover have "\<not> 1000000000 \<le> (ucast ns :: u32)" using u by (simp add: word_le_nat_alt)
  moreover have "cdiv (sint (65536000 :: u64)) 65536000 = 1" by (simp add: cdiv_def)
  ultimately show ?thesis
    using assms unfolding m_def [symmetric]
    by (simp add: ptp_sync_packet_def f Let_def ptp_sample_def w u s64_def)
qed

text \<open>
  Deadlines follow the sender's timeline.  A deadline is given only for a fresh sample of
  the anchor's clock; it is the anchor's time, in local time, plus the distance in frames
  from the anchor and the latency, and packets \<open>n\<close> frames apart (across the wrap-around of
  the timestamps) get deadlines \<open>n / rate\<close> seconds apart, to less than two microseconds.
\<close>

theorem ptp_deadline_spacing:
  assumes l1: "ptp_sync_deadline now p a t1 rate lat = ok l1" and l2: "ptp_sync_deadline now p a t2 rate lat = ok l2"
    and t2: "t2 = t1 + of_int n"
    and rng: "- 2147483648 \<le> sint (t1 - rtp_time a) + n" "sint (t1 - rtp_time a) + n < 2147483648"
  shows "anchor_clock_id a = clock_id p \<and> ready p \<and> (now \<ge> updated_us p \<longrightarrow> now - updated_us p \<le> 5000000) \<and>
    uint l1 = sint (network_us a) - offset_us p +
      cdiv ((sint (t1 - rtp_time a) + uint lat) * 1000000) (uint rate) \<and>
    \<bar>(uint l2 - uint l1) * uint rate - n * 1000000\<bar> < 2 * uint rate"
proof -
  have r0: "rate \<noteq> 0" and g: "anchor_clock_id a = clock_id p" "ready p"
    "now \<ge> updated_us p \<longrightarrow> now - updated_us p \<le> 5000000"
    using l1 by (auto simp: ptp_sync_deadline_def not_less split: if_splits)
  have r: "0 < uint rate" using r0 by (simp add: less_le uint_0_iff eq_commute [of 0])
  have form: "uint l = sint (network_us a) - offset_us p + cdiv ((sint (t - rtp_time a) + uint lat) * 1000000) (uint rate)"
    if "ptp_sync_deadline now p a t rate lat = ok l" for t l
    using that
    by (auto simp: ptp_sync_deadline_def Let_def bind_eq_Some_conv s64_eq_Some_iff uint_of_int_64 not_less
        simp del: of_int_add of_int_diff split: if_splits)
  have "t2 - rtp_time a = of_int (sint (t1 - rtp_time a) + n)" by (simp add: t2)
  then have d: "sint (t2 - rtp_time a) = sint (t1 - rtp_time a) + n"
    using rng by (simp only: sint_of_int_32)
  let ?x = "(sint (t1 - rtp_time a) + uint lat) * 1000000"
  have "\<bar>cdiv ?x (uint rate) * uint rate - ?x\<bar> < uint rate"
    "\<bar>cdiv (?x + n * 1000000) (uint rate) * uint rate - (?x + n * 1000000)\<bar> < uint rate"
    using cdiv_bounds [OF r] by blast+
  moreover have "(sint (t1 - rtp_time a) + n + uint lat) * 1000000 = ?x + n * 1000000" by simp
  then have "(uint l2 - uint l1) * uint rate =
      cdiv (?x + n * 1000000) (uint rate) * uint rate - cdiv ?x (uint rate) * uint rate"
    unfolding form [OF l1] form [OF l2, unfolded d] by (simp only:) (simp add: left_diff_distrib)
  ultimately have "\<bar>(uint l2 - uint l1) * uint rate - n * 1000000\<bar> < 2 * uint rate"
    by linarith
  then show ?thesis
    using g form [OF l1] by blast
qed

subsection \<open>Concrete messages\<close>

definition sample_ptp :: ptp_sync where
  "sample_ptp = ptp_sync_init\<lparr>clock_id := 1\<rparr>"

definition sample_sync :: buf where
  "sample_sync = ptp_message 0 0 5 0 1 [0, 1] 0 1000 2000"

lemma sample_ptp_fields: "clock_id sample_ptp = 1" "\<not> ready sample_ptp" "offset_us sample_ptp = 0"
  by (simp_all add: sample_ptp_def ptp_sync_init_def)

lemma sample_sync_time: "origin_us sample_sync = 1000000002" "correction_us sample_sync = 0" "sample_sync ! 0 = 0"
  by code_simp+

lemma sample_sync_accepted: "\<exists>p'. ptp_sync_packet sample_ptp sample_sync 7 = Some (1, p')"
proof -
  note f = ptp_message_fields [of "[0, 1]", where type = 0 and flags = 0 and seq = 5 and domain = 0 and
      clock = 1 and corr = 0 and sec = 1000 and ns = 2000, folded sample_sync_def]
  have "be_nat (take 6 (drop 34 sample_sync)) < 256 ^ 5" "be_nat (take 4 (drop 40 sample_sync)) < 1000000000"
    by code_simp+
  then have "\<exists>p'. ptp_sample q sample_sync 0 7 = Some (1, p')" if "\<not> ready q" "sync_received_us q = 7" for q
    using that ptp_sample_first [of sample_sync q 0 7] by (simp add: f)
  then show ?thesis
    by (simp add: ptp_sync_packet_def f Let_def sample_ptp_fields cdiv_def)
qed

theorem ptp_offset_update_witness:
  "\<exists>p'. ptp_sync_packet sample_ptp sample_sync 7 = Some (1, p') \<and> offset_us p' = 999999995"
proof -
  obtain p' where "ptp_sync_packet sample_ptp sample_sync 7 = Some (1, p')"
    using sample_sync_accepted by auto
  then show ?thesis
    using ptp_offset_update [of sample_ptp sample_sync 7 p']
    by (auto simp: sample_ptp_fields sample_sync_time)
qed

theorem ptp_two_step_witness:
  "\<exists>p1 p2. ptp_sync_packet sample_ptp (ptp_message 0 2 5 0 1 [0, 1] 0 0 0) 7 = Some (0, p1) \<and>
     ptp_sync_packet p1 (ptp_message 8 0 5 0 1 [0, 1] 65536000 1000 2000) 400007 = Some (1, p2) \<and>
     offset_us p2 = 999999996"
proof -
  have "cdiv (sint (65536000 :: u64)) 65536000 = 1" "cdiv (sint (0 :: u64)) 65536000 = 0"
    by (simp_all add: cdiv_def)
  then show ?thesis
    using ptp_two_step [of sample_ptp 1 "[0, 1]" 7 400007 1000 2000 5 0 0 0 0 65536000]
    by (auto simp: sample_ptp_fields)
qed

theorem ptp_packet_safe_witness:
  "\<exists>r p'. ptp_sync_packet sample_ptp sample_sync 7 = Some (r, p') \<and> ptp_inv p'"
proof -
  have "be_nat (take 6 (drop 34 sample_sync)) = 1000" by code_simp
  moreover have "ptp_inv sample_ptp" by (simp add: ptp_inv_def sample_ptp_def ptp_sync_init_def)
  ultimately show ?thesis
    using ptp_packet_safe [of sample_ptp 7 sample_sync] by simp
qed

theorem ptp_packet_overflow_witness:
  "ptp_sync_packet sample_ptp (ptp_message 0 0 5 0 1 [0, 1] 65536000 9223372036854 775807000) 7 = None"
  using ptp_packet_overflow [of sample_ptp 1 "[0, 1]" 5 0 7] by (simp add: sample_ptp_fields)

definition sample_ready :: ptp_sync where
  "sample_ready = ptp_sync_init\<lparr>clock_id := 1, ready := True, offset_us := 500, updated_us := 1000000\<rparr>"

definition sample_ptp_anchor :: airplay_anchor where
  "sample_ptp_anchor = \<lparr>anchor_clock_id = 1, network_us = 9000500, rtp_time = 0xFFFFFF00,
     anchor_valid = True, anchor_playing = True\<rparr>"

lemma sample_deadlines:
  "ptp_sync_deadline 1000001 sample_ready sample_ptp_anchor 0xFFFFFF00 44100 0 = ok 9000000"
  "ptp_sync_deadline 1000001 sample_ready sample_ptp_anchor 0x60 44100 0 = ok 9007981"
  by code_simp+

theorem ptp_deadline_spacing_witness:
  "\<bar>(uint (9007981 :: u64) - uint (9000000 :: u64)) * uint (44100 :: u32) - 352 * 1000000\<bar> < 2 * uint (44100 :: u32)"
  using ptp_deadline_spacing [OF sample_deadlines, of 352] by (simp add: sample_ptp_anchor_def)

end
