(* ===== verification/Pairing.thy ===== *)
theory Pairing
  imports Prelude
begin

section \<open>Transient pairing and encrypted control records (shared/airplay/pairing.c)\<close>

text \<open>
  The TLV8 reader and writer, the SRP exchange of Pair-Setup as a server, and the sealed records
  of the control connection.  The cryptographic primitives come from mbedTLS, which is not part
  of the repository: they are the fields of a record that every definition takes.  Big integers
  are natural numbers.  A primitive that reports an error gives \<open>None\<close>.
\<close>

record pair_crypto =
  sha512 :: "buf \<Rightarrow> buf option"
  hkdf :: "buf \<Rightarrow> buf \<Rightarrow> buf \<Rightarrow> buf option"
  seal :: "buf \<Rightarrow> buf \<Rightarrow> buf \<Rightarrow> buf \<Rightarrow> (buf \<times> buf) option"
  unseal :: "buf \<Rightarrow> buf \<Rightarrow> buf \<Rightarrow> buf \<Rightarrow> buf \<Rightarrow> buf option"
  srp_prime :: buf

text \<open>
  \<open>hkdf salt key info\<close> derives 32 bytes; \<open>seal key nonce aad plain\<close> gives the ciphertext and the
  tag; \<open>unseal key nonce aad tag cipher\<close> the plaintext if the tag is right.
\<close>

definition srp_bytes :: nat where
  "srp_bytes = 384"

definition pair_record_max :: nat where
  "pair_record_max = 1024"

record srp =
  srp_v :: nat
  srp_b :: nat
  salt :: buf
  public_key :: buf

record pairing =
  srp_state :: "srp option"
  read_key :: buf
  write_key :: buf
  shared_secret :: buf
  read_counter :: u64
  write_counter :: u64
  established :: bool

definition ascii :: "string \<Rightarrow> buf" where
  "ascii s = map of_char s"

definition free_srp :: "pairing \<Rightarrow> pairing" where
  "free_srp p = p\<lparr>srp_state := None\<rparr>"

definition pairing_zero :: pairing where
  "pairing_zero = \<lparr>srp_state = None, read_key = replicate 32 0, write_key = replicate 32 0,
     shared_secret = replicate 32 0, read_counter = 0, write_counter = 0, established = False\<rparr>"

definition pairing_close :: "pairing \<Rightarrow> pairing" where
  "pairing_close p = pairing_zero"

subsection \<open>TLV8 fields\<close>

text \<open>
  \<open>acc\<close> holds the bytes copied to the output so far; \<open>prev\<close> is the type and the length of the
  field before the current one, if there is one.
\<close>

function tlv_get_loop ::
  "buf \<Rightarrow> u8 \<Rightarrow> nat \<Rightarrow> nat \<Rightarrow> buf \<Rightarrow> bool \<Rightarrow> (u8 \<times> nat) option \<Rightarrow> buf ret option" where
  "tlv_get_loop b type capacity pos acc found prev =
     (if pos \<ge> length b then (if found then ok acc else fail)
      else if length b - pos < 2 then fail
      else do {
        t \<leftarrow> rd b pos;
        n8 \<leftarrow> rd b (pos + 1);
        let n = unat n8;
        let pos = pos + 2;
        if n > length b - pos then fail
        else if t = type then
          (if found \<and> prev \<noteq> Some (type, 255) \<or> n > capacity - length acc then fail
           else do {
             v \<leftarrow> rd_range b pos n;
             tlv_get_loop b type capacity (pos + n) (acc @ v) True (Some (t, n)) })
        else tlv_get_loop b type capacity (pos + n) acc found (Some (t, n)) })"
  by pat_completeness auto
termination
  by (relation "measure (\<lambda>(b, type, capacity, pos, acc, found, prev). length b - pos)") auto

declare tlv_get_loop.simps [simp del]

definition tlv_get :: "buf \<Rightarrow> u8 \<Rightarrow> nat \<Rightarrow> buf ret option" where
  "tlv_get b type capacity = tlv_get_loop b type capacity 0 [] False None"

text \<open>The output buffer and the number of bytes used; \<open>out\<close> has the capacity as its length.\<close>

function tlv_put :: "buf \<Rightarrow> nat \<Rightarrow> u8 \<Rightarrow> buf \<Rightarrow> (buf \<times> nat) ret option" where
  "tlv_put out used type data =
     (let n = (if length data > 255 then 255 else length data) in
      if used > length out \<or> n + 2 > length out - used then fail
      else do {
        out \<leftarrow> wr out used type;
        out \<leftarrow> wr out (used + 1) (of_nat n);
        out \<leftarrow> wr_range out (used + 2) (take n data);
        if drop n data \<noteq> [] then tlv_put out (used + 2 + n) type (drop n data)
        else ok (out, used + 2 + n) })"
  by pat_completeness auto
termination
  by (relation "measure (\<lambda>(out, used, type, data). length data)") auto

declare tlv_put.simps [simp del]

subsection \<open>SRP\<close>

text \<open>Big-endian bytes of a number, in \<open>k\<close> bytes, and the number of bytes it needs.\<close>

fun nat_bytes :: "nat \<Rightarrow> nat \<Rightarrow> buf" where
  "nat_bytes 0 x = []"
| "nat_bytes (Suc k) x = of_nat (x div 256 ^ k) # nat_bytes k x"

fun mpi_size :: "nat \<Rightarrow> nat" where
  "mpi_size x = (if x = 0 then 0 else Suc (mpi_size (x div 256)))"

declare mpi_size.simps [simp del]

definition hash_parts :: "pair_crypto \<Rightarrow> buf list \<Rightarrow> buf option" where
  "hash_parts c parts = sha512 c (concat parts)"

fun minimal :: "buf \<Rightarrow> buf" where
  "minimal (x # y # r) = (if x = 0 then minimal (y # r) else x # y # r)"
| "minimal b = b"

definition padded_generator :: buf where
  "padded_generator = replicate (srp_bytes - 1) 0 @ [5]"

text \<open>
  \<open>rnd\<close> is what the random generator returns for the salt and the private exponent (or a failure
  of it).  The verifier is \<open>5 ^ x mod N\<close> and the public key \<open>(5 ^ b + k * v) mod N\<close>.
\<close>

definition srp_begin :: "pair_crypto \<Rightarrow> (buf \<times> buf) option \<Rightarrow> srp option" where
  "srp_begin c rnd = do {
     (slt, random) \<leftarrow> rnd;
     let n = be_nat (srp_prime c);
     let b = be_nat random;
     h \<leftarrow> sha512 c (ascii ''Pair-Setup:3939'');
     h \<leftarrow> hash_parts c [slt, h];
     let v = 5 ^ be_nat h mod n;
     h \<leftarrow> hash_parts c [srp_prime c, padded_generator];
     let pub = (5 ^ b mod n + be_nat h * v) mod n;
     Some \<lparr>srp_v = v, srp_b = b, salt = slt, public_key = nat_bytes srp_bytes pub\<rparr> }"

definition begin_setup :: "pair_crypto \<Rightarrow> (buf \<times> buf) option \<Rightarrow> pairing \<Rightarrow> bool \<times> pairing" where
  "begin_setup c rnd p =
     (let p = pairing_close p in
      case srp_begin c rnd of
        None \<Rightarrow> (False, free_srp p)
      | Some s \<Rightarrow> (True, p\<lparr>srp_state := Some s\<rparr>))"

text \<open>The comparison that takes the same time wherever the first difference is.\<close>

definition difference :: "buf \<Rightarrow> buf \<Rightarrow> u8" where
  "difference xs ys = fold (\<lambda>(x, y) d. d OR (x XOR y)) (zip xs ys) 0"

text \<open>The checks of \<open>verify\<close> up to the answer: the session key and the answer.\<close>

definition srp_check :: "pair_crypto \<Rightarrow> srp \<Rightarrow> buf \<Rightarrow> buf \<Rightarrow> (buf \<times> buf) option" where
  "srp_check c s a proof =
     (if a = [] \<or> length a > srp_bytes then None
      else do {
        let padded_a = replicate (srp_bytes - length a) 0 @ a;
        let n = be_nat (srp_prime c);
        if be_nat a mod n = 0 then None
        else do {
          h \<leftarrow> hash_parts c [padded_a, public_key s];
          let u = be_nat h;
          if u = 0 then None
          else do {
            let temp = (srp_v s ^ u mod n) * be_nat a mod n;
            let secret = temp ^ srp_b s mod n;
            let secret_size = mpi_size secret;
            if secret_size = 0 \<or> secret_size > srp_bytes then None
            else do {
              key \<leftarrow> sha512 c (nat_bytes secret_size secret);
              hn \<leftarrow> sha512 c (srp_prime c);
              hg \<leftarrow> sha512 c [5];
              hi \<leftarrow> sha512 c (ascii ''Pair-Setup'');
              expected \<leftarrow> hash_parts c [map2 (XOR) hn hg, hi, minimal (salt s), minimal padded_a,
                                      minimal (public_key s), key];
              if difference expected proof \<noteq> 0 then None
              else do {
                answer \<leftarrow> hash_parts c [minimal padded_a, proof, key];
                Some (key, answer) } } } } })"

definition verify :: "pair_crypto \<Rightarrow> pairing \<Rightarrow> buf \<Rightarrow> buf \<Rightarrow> buf option \<times> pairing" where
  "verify c p a proof =
     (case srp_state p of
        None \<Rightarrow> (None, p)
      | Some s \<Rightarrow>
        (case srp_check c s a proof of
           None \<Rightarrow> (None, p)
         | Some (key, answer) \<Rightarrow>
           (case hkdf c (ascii ''Control-Salt'') key (ascii ''Control-Read-Encryption-Key'') of
              None \<Rightarrow> (None, p)
            | Some k1 \<Rightarrow>
              let p = p\<lparr>write_key := k1\<rparr> in
              (case hkdf c (ascii ''Control-Salt'') key (ascii ''Control-Write-Encryption-Key'') of
                 None \<Rightarrow> (None, p)
               | Some k2 \<Rightarrow>
                 (Some answer, p\<lparr>read_key := k2, shared_secret := take 32 key, established := True\<rparr>)))))"

subsection \<open>Pair-Setup\<close>

text \<open>One field of a single byte, as \<open>!tlv_get(in, size, type, &v, 1, &n) && n == 1\<close>.\<close>

definition tlv_byte :: "buf \<Rightarrow> u8 \<Rightarrow> u8 option option" where
  "tlv_byte b type = do {
     r \<leftarrow> tlv_get b type 1;
     Some (case r of Inr [x] \<Rightarrow> Some x | _ \<Rightarrow> None) }"

text \<open>Several fields in a row; the writing stops at the first that does not fit.\<close>

fun tlv_put_all :: "buf \<Rightarrow> nat \<Rightarrow> (u8 \<times> buf) list \<Rightarrow> (buf \<times> nat) ret option" where
  "tlv_put_all out used [] = ok (out, used)"
| "tlv_put_all out used ((t, d) # fs) =
     on_ok (tlv_put out used t d) (\<lambda>(out, used). tlv_put_all out used fs)"

text \<open>The first message: its answer's fields, or \<open>None\<close> when it is refused.\<close>

definition setup_m1 ::
  "pair_crypto \<Rightarrow> (buf \<times> buf) option \<Rightarrow> pairing \<Rightarrow> buf \<Rightarrow> ((u8 \<times> buf) list option \<times> pairing) option" where
  "setup_m1 c rnd p b = do {
     method \<leftarrow> tlv_byte b 0;
     if method \<noteq> Some 0 then Some (None, p)
     else do {
       flags \<leftarrow> tlv_byte b 0x13;
       (case flags of
          None \<Rightarrow> Some (None, p)
        | Some f \<Rightarrow>
          if f AND 0x10 = 0 then Some (None, p)
          else (case begin_setup c rnd p of
                  (False, p) \<Rightarrow> Some (None, p)
                | (True, p) \<Rightarrow>
                  (case srp_state p of
                     None \<Rightarrow> None
                   | Some s \<Rightarrow> Some (Some [(6, [2]), (2, salt s), (3, public_key s)], p)))) } }"

definition setup_m3 :: "pair_crypto \<Rightarrow> pairing \<Rightarrow> buf \<Rightarrow> ((u8 \<times> buf) list option \<times> pairing) option" where
  "setup_m3 c p b = do {
     ra \<leftarrow> tlv_get b 3 srp_bytes;
     (case ra of
        Inl _ \<Rightarrow> Some (None, free_srp p)
      | Inr a \<Rightarrow> do {
          rp \<leftarrow> tlv_get b 4 64;
          (case rp of
             Inl _ \<Rightarrow> Some (None, free_srp p)
           | Inr proof \<Rightarrow>
             if length proof \<noteq> 64 then Some (None, free_srp p)
             else (case verify c p a proof of
                     (None, p) \<Rightarrow> Some (None, free_srp p)
                   | (Some answer, p) \<Rightarrow> Some (Some [(6, [4]), (4, answer)], free_srp p))) }) }"

text \<open>
  \<open>mem_ok\<close>: the memory of the crypto library could be set up.  The result is the buffer and the
  number of bytes of the answer, or the failure of the whole call.
\<close>

definition pairing_setup ::
  "pair_crypto \<Rightarrow> bool \<Rightarrow> (buf \<times> buf) option \<Rightarrow> pairing \<Rightarrow> buf \<Rightarrow> buf
     \<Rightarrow> ((errno + buf \<times> nat) \<times> pairing) option" where
  "pairing_setup c mem_ok rnd p input out =
     (if \<not> mem_ok \<or> length out < 6 then Some (Inl EFail, p)
      else do {
        st \<leftarrow> tlv_byte input 6;
        (case st of
           None \<Rightarrow> Some (Inl EFail, p)
         | Some state \<Rightarrow>
           if established p then Some (Inl EFail, p)
           else do {
             (fields, p) \<leftarrow> (if state = 1 then setup_m1 c rnd p input
                            else if state = 3 then setup_m3 c p input
                            else Some (None, p));
             r \<leftarrow> (case fields of None \<Rightarrow> fail | Some fs \<Rightarrow> tlv_put_all out 0 fs);
             (case r of
                Inr (out, used) \<Rightarrow> Some (Inr (out, used), p)
              | Inl _ \<Rightarrow> do {
                  let p = pairing_close p;
                  r \<leftarrow> tlv_put_all out 0 [(6, [if state = 3 then 4 else 2]), (7, [2])];
                  (case r of Inr (out, used) \<Rightarrow> Some (Inr (out, used), p)
                   | Inl _ \<Rightarrow> Some (Inl EFail, p)) }) }) })"

subsection \<open>Control records\<close>

definition nonce_bytes :: "u64 \<Rightarrow> buf" where
  "nonce_bytes counter = replicate 4 0 @ map (\<lambda>i. ucast (drop_bit (i * 8) counter)) [0..<8]"

definition pairing_seal :: "pair_crypto \<Rightarrow> pairing \<Rightarrow> buf \<Rightarrow> (buf \<times> pairing) option" where
  "pairing_seal c p plain =
     (if \<not> established p \<or> plain = [] \<or> length plain > pair_record_max \<or> write_counter p = - 1 then None
      else do {
        let size = length plain;
        let aad = [of_nat size, of_nat (size div 256)];
        (cipher, tag) \<leftarrow> seal c (write_key p) (nonce_bytes (write_counter p)) aad plain;
        Some (aad @ cipher @ tag, p\<lparr>write_counter := write_counter p + 1\<rparr>) })"

text \<open>The outer option is the access outside the record, the inner result the return code.\<close>

definition pairing_open :: "pair_crypto \<Rightarrow> pairing \<Rightarrow> buf \<Rightarrow> ((errno + buf) \<times> pairing) option" where
  "pairing_open c p record =
     (if \<not> established p \<or> length record < 18 \<or> read_counter p = - 1 then Some (Inl EFail, p)
      else do {
        r0 \<leftarrow> rd record 0;
        r1 \<leftarrow> rd record 1;
        let n = unat r0 + unat r1 * 256;
        if n = 0 \<or> n > pair_record_max \<or> length record \<noteq> n + 18 then Some (Inl EFail, p)
        else do {
          aad \<leftarrow> rd_range record 0 2;
          tag \<leftarrow> rd_range record (2 + n) 16;
          cipher \<leftarrow> rd_range record 2 n;
          (case unseal c (read_key p) (nonce_bytes (read_counter p)) aad tag cipher of
             None \<Rightarrow> Some (Inl EFail, p)
           | Some plain \<Rightarrow> Some (Inr plain, p\<lparr>read_counter := read_counter p + 1\<rparr>)) } })"

subsection \<open>TLV fields: bounds and round trip\<close>

text \<open>The encoding of a field: fragments of 255 bytes, then the rest.\<close>

function tlv_enc :: "u8 \<Rightarrow> buf \<Rightarrow> buf" where
  "tlv_enc t d =
     (if length d > 255 then [t, 255] @ take 255 d @ tlv_enc t (drop 255 d)
      else [t, of_nat (length d)] @ d)"
  by pat_completeness auto
termination
  by (relation "measure (\<lambda>(t, d). length d)") auto

declare tlv_enc.simps [simp del]

definition tlv_stream :: "(u8 \<times> buf) list \<Rightarrow> buf" where
  "tlv_stream fs = concat (map (\<lambda>(t, d). tlv_enc t d) fs)"

lemma tlv_stream_simps [simp]:
  "tlv_stream [] = []" "tlv_stream ((t, d) # fs) = tlv_enc t d @ tlv_stream fs"
  by (simp_all add: tlv_stream_def)

lemma wr_range_after_two:
  assumes "used + 2 + length d \<le> length out"
  shows "wr_range (out[used := x, Suc used := y]) (used + 2) d =
    Some (take used out @ [x, y] @ d @ drop (used + 2 + length d) out)"
proof -
  have "take (used + 2) (out[used := x, Suc used := y]) = take used out @ [x, y]"
    using assms by (intro nth_equalityI) (auto simp: nth_append nth_list_update less_Suc_eq)
  then show ?thesis using assms by (simp add: wr_range_def)
qed

lemma drop_past_prefix: "length h = n \<Longrightarrow> drop (n + k) (h @ drop n xs) = drop (n + k) xs"
  by (simp add: add.commute)

lemma tlv_put_spec:
  "tlv_put out used t d =
     (if used + length (tlv_enc t d) \<le> length out
      then ok (take used out @ tlv_enc t d @ drop (used + length (tlv_enc t d)) out, used + length (tlv_enc t d))
      else fail)"
proof (induction out used t d rule: tlv_put.induct)
  case (1 out used t d)
  show ?case
  proof (cases "length d > 255")
    case True
    note enc = tlv_enc.simps [of t d, unfolded if_P [OF True]]
    have le: "length (tlv_enc t d) = 257 + length (tlv_enc t (drop 255 d))"
      using True by (simp add: enc)
    show ?thesis
    proof (cases "used > length out \<or> 257 > length out - used")
      case True
      then show ?thesis
        using \<open>length d > 255\<close> le by (subst tlv_put.simps) auto
    next
      case False
      let ?o = "take used out @ [t, 255] @ take 255 d @ drop (used + 257) out"
      have w: "wr out used t = Some (out[used := t])" "wr (out[used := t]) (used + 1) (of_nat 255) = Some (out[used := t, Suc used := 255])"
        "wr_range (out[used := t, Suc used := 255]) (used + 2) (take 255 d) = Some ?o"
        using False True wr_range_after_two [of used "take 255 d" out t 255] by (auto simp: wr_def add.commute)
      then have "tlv_put out used t d = tlv_put ?o (used + 257) t (drop 255 d)"
        using False True by (subst tlv_put.simps) (simp add: Let_def add.commute)
      moreover have "tlv_put ?o (used + 257) t (drop 255 d) =
        (if used + 257 + length (tlv_enc t (drop 255 d)) \<le> length ?o
         then ok (take (used + 257) ?o @ tlv_enc t (drop 255 d) @ drop (used + 257 + length (tlv_enc t (drop 255 d))) ?o,
                  used + 257 + length (tlv_enc t (drop 255 d))) else fail)"
        using "1.IH" [of 255 "out[used := t]" "out[used := t, Suc used := 255]" ?o] False True w
        by (simp add: add.commute add.left_commute)
      moreover have "take (used + 257) ?o = take used out @ [t, 255] @ take 255 d"
        using False True by simp
      moreover have "drop (used + 257 + length (tlv_enc t (drop 255 d))) ?o =
          drop (used + 257 + length (tlv_enc t (drop 255 d))) out"
        using drop_past_prefix [of "take used out @ [t, 255] @ take 255 d" "used + 257"] False True by simp
      moreover have "length ?o = length out" using False True by auto
      ultimately show ?thesis
        using False True by (simp add: le enc) (auto simp: add.assoc)
    qed
  next
    case short: False
    then have enc: "tlv_enc t d = [t, of_nat (length d)] @ d" by (subst tlv_enc.simps) simp
    show ?thesis
    proof (cases "used + (length d + 2) \<le> length out")
      case True
      then show ?thesis
        using short wr_range_after_two [of used d out t "of_nat (length d)"]
        by (subst tlv_put.simps) (simp add: enc wr_def Let_def)
    next
      case False
      then have "used > length out \<or> length d + 2 > length out - used" by auto
      then show ?thesis using short False by (subst tlv_put.simps) (simp add: enc Let_def)
    qed
  qed
qed

lemma tlv_put_all_spec:
  "used \<le> length out \<Longrightarrow>
   tlv_put_all out used fs =
     (if used + length (tlv_stream fs) \<le> length out
      then ok (take used out @ tlv_stream fs @ drop (used + length (tlv_stream fs)) out, used + length (tlv_stream fs))
      else fail)"
proof (induction fs arbitrary: out used)
  case (Cons f fs)
  obtain t d where f: "f = (t, d)" by (cases f)
  show ?case
    using Cons by (auto simp: f tlv_put_spec add.assoc add.left_commute add.commute)
qed simp

text \<open>One fragment at the current position.\<close>

lemma tlv_get_fragment:
  assumes b: "b = pre @ [t, of_nat (length v)] @ v @ post" and n: "length v \<le> 255"
  shows "tlv_get_loop b type cap (length pre) acc found prev =
    (if t = type then
       (if found \<and> prev \<noteq> Some (type, 255) \<or> length v > cap - length acc then fail
        else tlv_get_loop b type cap (length pre + 2 + length v) (acc @ v) True (Some (t, length v)))
     else tlv_get_loop b type cap (length pre + 2 + length v) acc found (Some (t, length v)))"
proof -
  have u: "unat (of_nat (length v) :: u8) = length v" using n by (simp add: unat_of_nat)
  have "rd b (length pre) = Some t" "rd b (length pre + 1) = Some (of_nat (length v))"
    "rd_range b (length pre + 2) (length v) = Some v"
    by (simp_all add: b rd_def rd_range_def nth_append)
  then show ?thesis
    using u by (subst tlv_get_loop.simps) (auto simp: b Let_def add.commute)
qed

lemma tlv_get_other:
  "t \<noteq> type \<Longrightarrow> \<exists>l. tlv_get_loop (pre @ tlv_enc t d @ post) type cap (length pre) acc found prev =
     tlv_get_loop (pre @ tlv_enc t d @ post) type cap (length pre + length (tlv_enc t d)) acc found (Some (t, l))"
proof (induction t d arbitrary: pre prev rule: tlv_enc.induct)
  case (1 t d)
  show ?case
  proof (cases "length d > 255")
    case True
    note enc = tlv_enc.simps [of t d, unfolded if_P [OF True]]
    let ?pre = "pre @ [t, 255] @ take 255 d"
    have b: "pre @ tlv_enc t d @ post = ?pre @ tlv_enc t (drop 255 d) @ post"
      by (simp add: enc)
    have f: "tlv_get_loop (pre @ tlv_enc t d @ post) type cap (length pre) acc found prev =
        tlv_get_loop (pre @ tlv_enc t d @ post) type cap (length ?pre) acc found (Some (t, 255))"
      using tlv_get_fragment [of "pre @ tlv_enc t d @ post" pre t "take 255 d" "tlv_enc t (drop 255 d) @ post"
          type cap acc found prev] "1.prems" True by (simp add: enc add.commute)
    have len: "length pre + length (tlv_enc t d) = length ?pre + length (tlv_enc t (drop 255 d))"
      using True by (simp add: enc)
    show ?thesis
      using "1.IH" [OF True "1.prems", of ?pre "Some (t, 255)"] unfolding f len unfolding b by blast
  next
    case False
    then have enc: "tlv_enc t d = [t, of_nat (length d)] @ d" by (subst tlv_enc.simps) simp
    then show ?thesis
      using tlv_get_fragment [of "pre @ tlv_enc t d @ post" pre t d post type cap acc found prev] "1.prems" False
      by (simp add: enc add.assoc) blast
  qed
qed

lemma tlv_get_same:
  "found \<longrightarrow> prev = Some (type, 255) \<Longrightarrow> length acc \<le> cap \<Longrightarrow>
   \<exists>l. tlv_get_loop (pre @ tlv_enc type d @ post) type cap (length pre) acc found prev =
     (if length acc + length d \<le> cap
      then tlv_get_loop (pre @ tlv_enc type d @ post) type cap (length pre + length (tlv_enc type d))
             (acc @ d) True (Some (type, l))
      else fail)"
proof (induction type d arbitrary: pre prev acc found rule: tlv_enc.induct)
  case (1 t d)
  show ?case
  proof (cases "length d > 255")
    case True
    note enc = tlv_enc.simps [of t d, unfolded if_P [OF True]]
    let ?pre = "pre @ [t, 255] @ take 255 d"
    have b: "pre @ tlv_enc t d @ post = ?pre @ tlv_enc t (drop 255 d) @ post"
      by (simp add: enc)
    have f: "tlv_get_loop (pre @ tlv_enc t d @ post) t cap (length pre) acc found prev =
        (if 255 > cap - length acc then fail else
        tlv_get_loop (pre @ tlv_enc t d @ post) t cap (length ?pre) (acc @ take 255 d) True (Some (t, 255)))"
      using tlv_get_fragment [of "pre @ tlv_enc t d @ post" pre t "take 255 d" "tlv_enc t (drop 255 d) @ post"
          t cap acc found prev] "1.prems" True by (simp add: enc add.commute) blast
    have len: "length pre + length (tlv_enc t d) = length ?pre + length (tlv_enc t (drop 255 d))"
      using True by (simp add: enc)
    show ?thesis
    proof (cases "255 > cap - length acc")
      case True
      then show ?thesis using f \<open>length d > 255\<close> by auto
    next
      case False
      then have "length (acc @ take 255 d) \<le> cap" using True "1.prems" by simp
      from "1.IH" [OF True _ this, of True "Some (t, 255)" ?pre]
      show ?thesis
        using False True "1.prems" unfolding f len unfolding b by (auto simp: add.assoc)
    qed
  next
    case False
    then have enc: "tlv_enc t d = [t, of_nat (length d)] @ d" by (subst tlv_enc.simps) simp
    have c: "length d > cap - length acc \<longleftrightarrow> \<not> length acc + length d \<le> cap" using "1.prems" by auto
    show ?thesis
      using tlv_get_fragment [of "pre @ tlv_enc t d @ post" pre t d post t cap acc found prev] "1.prems" False c
      by (simp add: enc add.assoc) blast
  qed
qed

lemma tlv_get_rest:
  "type \<notin> fst ` set fs \<Longrightarrow>
   tlv_get_loop (pre @ tlv_stream fs) type cap (length pre) acc found prev = (if found then ok acc else fail)"
proof (induction fs arbitrary: pre prev)
  case Nil
  then show ?case by (subst tlv_get_loop.simps) simp
next
  case (Cons f fs)
  obtain t d where f: "f = (t, d)" by (cases f)
  have "t \<noteq> type" using Cons.prems by (auto simp: f)
  from tlv_get_other [OF this, of pre d "tlv_stream fs" cap acc found prev]
  obtain l where "tlv_get_loop (pre @ tlv_stream (f # fs)) type cap (length pre) acc found prev =
      tlv_get_loop ((pre @ tlv_enc t d) @ tlv_stream fs) type cap (length (pre @ tlv_enc t d)) acc found (Some (t, l))"
    by (auto simp: f)
  then show ?case
    using Cons.IH [of "pre @ tlv_enc t d"] Cons.prems by simp
qed

lemma tlv_get_stream:
  "distinct (map fst fs) \<Longrightarrow>
   tlv_get_loop (pre @ tlv_stream fs) type cap (length pre) [] False prev =
     (case map_of fs type of None \<Rightarrow> fail | Some d \<Rightarrow> if length d \<le> cap then ok d else fail)"
proof (induction fs arbitrary: pre prev)
  case Nil
  then show ?case by (subst tlv_get_loop.simps) simp
next
  case (Cons f fs)
  obtain t d where f: "f = (t, d)" by (cases f)
  show ?case
  proof (cases "t = type")
    case True
    then have "type \<notin> fst ` set fs" using Cons.prems by (simp add: f)
    moreover obtain l where "tlv_get_loop (pre @ tlv_enc type d @ tlv_stream fs) type cap (length pre) [] False prev =
      (if length [] + length d \<le> cap
       then tlv_get_loop (pre @ tlv_enc type d @ tlv_stream fs) type cap (length pre + length (tlv_enc type d))
             ([] @ d) True (Some (type, l))
       else fail)"
      using tlv_get_same [of False prev type "[]" cap pre d "tlv_stream fs"] by auto
    ultimately show ?thesis
      using True tlv_get_rest [of type fs "pre @ tlv_enc type d"] by (simp add: f)
  next
    case False
    from tlv_get_other [OF this, of pre d "tlv_stream fs" cap "[]" False prev]
    obtain l where "tlv_get_loop (pre @ tlv_stream (f # fs)) type cap (length pre) [] False prev =
        tlv_get_loop ((pre @ tlv_enc t d) @ tlv_stream fs) type cap (length (pre @ tlv_enc t d)) [] False (Some (t, l))"
      by (auto simp: f)
    then show ?thesis
      using False Cons.IH [of "pre @ tlv_enc t d"] Cons.prems by (simp add: f)
  qed
qed

lemma tlv_get_defined: "tlv_get_loop b type cap pos acc found prev \<noteq> None"
proof (induction b type cap pos acc found prev rule: tlv_get_loop.induct)
  case (1 b type cap pos acc found prev)
  show ?case
    by (subst tlv_get_loop.simps, intro if_defined bind_defined)
      (use 1 in \<open>auto simp: rd_def rd_range_def Let_def split: if_splits\<close>)
qed

subsection \<open>The SRP exchange\<close>

lemma length_nat_bytes [simp]: "length (nat_bytes k x) = k"
  by (induction k) auto

lemma be_nat_nat_bytes: "be_nat (nat_bytes k x) = x mod 256 ^ k"
proof (induction k)
  case (Suc k)
  have "unat (of_nat (x div 256 ^ k) :: u8) = x div 256 ^ k mod 256"
    by (simp add: unat_of_nat)
  then show ?case
    using Suc mod_mult2_eq [of x "256 ^ k" 256] by (simp add: be_nat_Cons mult.commute)
qed simp

lemma mpi_size_le: "x < 256 ^ k \<Longrightarrow> mpi_size x \<le> k"
proof (induction x arbitrary: k rule: mpi_size.induct)
  case (1 x)
  show ?case
  proof (cases "x = 0")
    case False
    then obtain k' where k: "k = Suc k'" using "1.prems" by (cases k) auto
    have "x div 256 < 256 ^ k'" using "1.prems" k by (simp add: less_mult_imp_div_less mult.commute)
    then show ?thesis using "1.IH" False k by (subst mpi_size.simps) simp
  qed (simp add: mpi_size.simps)
qed

lemma mpi_size_pos: "0 < x \<Longrightarrow> 0 < mpi_size x"
  by (subst mpi_size.simps) simp

lemma fold_or_nonzero: "(fold (\<lambda>(x, y) d. d OR (x XOR y)) ps d = (0 :: u8)) \<longleftrightarrow> d = 0 \<and> (\<forall>(x, y) \<in> set ps. x = y)"
proof (induction ps arbitrary: d)
  case (Cons q ps)
  have "x XOR y = 0 \<longleftrightarrow> x = y" for x y :: u8
    by (auto simp: bit_eq_iff bit_xor_iff)
  moreover have "a OR b = 0 \<longleftrightarrow> a = 0 \<and> b = 0" for a b :: u8
    by (auto simp: bit_eq_iff bit_or_iff)
  ultimately show ?case using Cons.IH by (cases q) simp
qed simp

lemma difference_zero: "length xs = length ys \<Longrightarrow> difference xs ys = 0 \<longleftrightarrow> xs = ys"
  unfolding difference_def fold_or_nonzero
  by (induction xs ys rule: list_induct2) auto

text \<open>The other side: a client with private exponent \<open>a\<close> that follows SRP-6a.\<close>

definition client_public :: "pair_crypto \<Rightarrow> nat \<Rightarrow> buf" where
  "client_public c a = nat_bytes srp_bytes (5 ^ a mod be_nat (srp_prime c))"

definition client_proof :: "pair_crypto \<Rightarrow> buf \<Rightarrow> buf \<Rightarrow> nat \<Rightarrow> (buf \<times> buf) option" where
  "client_proof c slt pk a = do {
     let n = be_nat (srp_prime c);
     h \<leftarrow> sha512 c (ascii ''Pair-Setup:3939'');
     x \<leftarrow> hash_parts c [slt, h];
     k \<leftarrow> hash_parts c [srp_prime c, padded_generator];
     u \<leftarrow> hash_parts c [client_public c a, pk];
     if be_nat u = 0 then None
     else do {
       let base = nat ((int (be_nat pk) - int (be_nat k) * 5 ^ be_nat x) mod int n);
       let secret = base ^ (a + be_nat u * be_nat x) mod n;
       key \<leftarrow> sha512 c (nat_bytes (mpi_size secret) secret);
       hn \<leftarrow> sha512 c (srp_prime c);
       hg \<leftarrow> sha512 c [5];
       hi \<leftarrow> sha512 c (ascii ''Pair-Setup'');
       proof \<leftarrow> hash_parts c [map2 (XOR) hn hg, hi, minimal slt, minimal (client_public c a), minimal pk, key];
       Some (key, proof) } }"

text \<open>The two secrets agree.\<close>

lemma srp_secret_agreement:
  fixes n k x u a b v pub :: nat
  assumes n: "0 < n" and v: "v = 5 ^ x mod n" and pub: "pub = (5 ^ b mod n + k * v) mod n"
  shows "((v ^ u mod n) * (5 ^ a mod n) mod n) ^ b mod n =
    nat ((int pub - int k * 5 ^ x) mod int n) ^ (a + u * x) mod n"
proof -
  have "(int pub - int k * 5 ^ x) mod int n = 5 ^ b mod int n"
  proof -
    define N A B K where "N = int n" and "A = (5 :: int) ^ b" and "B = (5 :: int) ^ x" and "K = int k"
    have "K * (B mod N) - K * B = - (K * (B div N)) * N"
      by (simp add: minus_div_mult_eq_mod [symmetric] algebra_simps)
    then have "A mod N + K * (B mod N) - K * B = A mod N + - (K * (B div N)) * N" by linarith
    then have "((A mod N + K * (B mod N)) mod N - K * B) mod N = A mod N"
      by (simp only: mod_diff_left_eq mod_mult_self1 mod_mod_trivial)
    then show ?thesis
      unfolding pub v N_def A_def B_def K_def by (simp only: of_nat_mod of_nat_add of_nat_mult of_nat_power of_nat_numeral)
  qed
  then have base: "nat ((int pub - int k * 5 ^ x) mod int n) = 5 ^ b mod n"
    by (metis nat_int of_nat_mod of_nat_numeral of_nat_power)
  have "((v ^ u mod n) * (5 ^ a mod n) mod n) ^ b mod n = ((5 ^ x) ^ u * 5 ^ a) ^ b mod n"
    unfolding v by (simp add: power_mod mod_simps)
  also have "((5 ^ x) ^ u * 5 ^ a) ^ b = ((5 :: nat) ^ b) ^ (a + u * x)"
    by (simp add: power_mult [symmetric] power_add [symmetric] algebra_simps)
  finally show ?thesis
    unfolding base by (simp add: power_mod)
qed

lemma power_mod_nonzero:
  fixes n m :: nat
  assumes "coprime 5 n" and "1 < n"
  shows "5 ^ m mod n \<noteq> 0"
proof
  assume "5 ^ m mod n = 0"
  then have "n dvd 5 ^ m" by auto
  moreover have "coprime (5 ^ m) n" using assms(1) by simp
  ultimately have "is_unit n" by (meson coprime_common_divisor dvd_refl)
  then show False using assms(2) by simp
qed

lemma srp_secret_nonzero:
  assumes "coprime 5 n" "1 < (n :: nat)"
  shows "(((5 ^ x mod n) ^ u mod n) * (5 ^ a mod n) mod n) ^ b mod n \<noteq> 0"
proof -
  have "(((5 ^ x mod n) ^ u mod n) * (5 ^ a mod n) mod n) ^ b mod n = 5 ^ ((x * u + a) * b) mod n"
    by (simp add: power_mod mod_simps power_mult power_add)
  then show ?thesis using power_mod_nonzero [OF assms] by simp
qed

text \<open>What the server makes of the public key and a proof of an honest client.\<close>

lemma srp_check_honest:
  assumes bg: "srp_begin c rnd = Some s"
    and cl: "client_proof c (salt s) (public_key s) a = Some (key, proof)"
    and pr: "length (srp_prime c) = srp_bytes" "1 < be_nat (srp_prime c)" "coprime 5 (be_nat (srp_prime c))"
  shows "srp_check c s (client_public c a) other =
      (if difference proof other \<noteq> 0 then None
       else do { answer \<leftarrow> hash_parts c [minimal (client_public c a), other, key]; Some (key, answer) })"
proof -
  let ?n = "be_nat (srp_prime c)"
  obtain slt random h hx hk where rnd: "rnd = Some (slt, random)"
    and h: "sha512 c (ascii ''Pair-Setup:3939'') = Some h" "hash_parts c [slt, h] = Some hx"
      "hash_parts c [srp_prime c, padded_generator] = Some hk"
    and s: "s = \<lparr>srp_v = 5 ^ be_nat hx mod ?n, srp_b = be_nat random, salt = slt, public_key =
      nat_bytes srp_bytes ((5 ^ be_nat random mod ?n + be_nat hk * (5 ^ be_nat hx mod ?n)) mod ?n)\<rparr>"
    using bg by (auto simp: srp_begin_def Let_def bind_eq_Some_conv)
  define pub where "pub = (5 ^ be_nat random mod ?n + be_nat hk * (5 ^ be_nat hx mod ?n)) mod ?n"
  have n_small: "?n < 256 ^ srp_bytes" using be_nat_less [of "srp_prime c"] pr(1) by simp
  have lt: "y mod ?n < 256 ^ srp_bytes" for y
    using n_small pr(2) by (meson mod_less_divisor less_trans zero_less_one)
  have pk: "public_key s = nat_bytes srp_bytes pub" "be_nat (public_key s) = pub"
    using lt by (simp_all add: s pub_def [symmetric] be_nat_nat_bytes) (simp add: pub_def)
  have sel: "srp_v s = 5 ^ be_nat hx mod ?n" "srp_b s = be_nat random" "salt s = slt"
    by (simp_all add: s)
  have A: "be_nat (client_public c a) = 5 ^ a mod ?n"
    using lt by (simp add: client_public_def be_nat_nat_bytes)
  have nz: "5 ^ m mod ?n \<noteq> 0" for m
    using power_mod_nonzero [OF pr(3,2)] .
  obtain hu where hu: "hash_parts c [client_public c a, public_key s] = Some hu" "be_nat hu \<noteq> 0"
    using cl h by (auto simp: client_proof_def Let_def bind_eq_Some_conv sel split: if_splits)
  define secret where "secret = (((5 ^ be_nat hx mod ?n) ^ be_nat hu mod ?n) * (5 ^ a mod ?n) mod ?n) ^ be_nat random mod ?n"
  have agree: "nat ((int pub - int (be_nat hk) * 5 ^ be_nat hx) mod int ?n) ^ (a + be_nat hu * be_nat hx) mod ?n = secret"
    unfolding secret_def using pr(2) by (intro srp_secret_agreement [symmetric] refl pub_def) simp
  have secret0: "secret \<noteq> 0"
    unfolding secret_def by (rule srp_secret_nonzero [OF pr(3,2)])
  have size: "mpi_size secret \<noteq> 0" "mpi_size secret \<le> srp_bytes"
    using mpi_size_pos [of secret] secret0 mpi_size_le [of secret srp_bytes] lt by (auto simp: secret_def)
  obtain hn hg hi where hs: "sha512 c (nat_bytes (mpi_size secret) secret) = Some key"
    "sha512 c (srp_prime c) = Some hn" "sha512 c [5] = Some hg" "sha512 c (ascii ''Pair-Setup'') = Some hi"
    "hash_parts c [map2 (XOR) hn hg, hi, minimal (salt s), minimal (client_public c a), minimal (public_key s), key] = Some proof"
    using cl h hu agree by (auto simp: client_proof_def Let_def bind_eq_Some_conv sel pk(2))
  have pad: "replicate (srp_bytes - length (client_public c a)) 0 @ client_public c a = client_public c a"
    "client_public c a \<noteq> []" "length (client_public c a) = srp_bytes"
    by (simp_all add: client_public_def srp_bytes_def flip: length_0_conv)
  show ?thesis
    using hu hs size nz [of a] pad
    by (simp add: srp_check_def A Let_def sel secret_def [symmetric] not_less)
qed

text \<open>
  C33: an honest client is accepted and both sides get the same keys.  When the server has
  begun and a client that knows the fixed code computes its proof from the salt and the
  public key it was sent, \<open>verify\<close> accepts the proof and derives the connection keys from the
  client's session key; and no other proof of the same length is accepted.
\<close>

theorem srp_agreement:
  assumes bg: "srp_begin c rnd = Some s" and st: "srp_state p = Some s"
    and cl: "client_proof c (salt s) (public_key s) a = Some (key, proof)"
    and pr: "length (srp_prime c) = srp_bytes" "1 < be_nat (srp_prime c)" "coprime 5 (be_nat (srp_prime c))"
    and total: "\<And>b. sha512 c b \<noteq> None" "\<And>s k i. hkdf c s k i \<noteq> None"
  shows "\<exists>answer p'. verify c p (client_public c a) proof = (Some answer, p') \<and> established p' \<and>
    shared_secret p' = take 32 key \<and>
    hkdf c (ascii ''Control-Salt'') key (ascii ''Control-Read-Encryption-Key'') = Some (write_key p') \<and>
    hkdf c (ascii ''Control-Salt'') key (ascii ''Control-Write-Encryption-Key'') = Some (read_key p') \<and>
    (\<forall>other. length other = length proof \<and> fst (verify c p (client_public c a) other) \<noteq> None \<longrightarrow> other = proof)"
proof -
  note chk = srp_check_honest [OF bg cl pr]
  obtain answer where "hash_parts c [minimal (client_public c a), proof, key] = Some answer"
    using total(1) by (auto simp: hash_parts_def)
  then have ok: "srp_check c s (client_public c a) proof = Some (key, answer)"
    by (simp add: chk difference_zero)
  obtain k1 k2 where k: "hkdf c (ascii ''Control-Salt'') key (ascii ''Control-Read-Encryption-Key'') = Some k1"
    "hkdf c (ascii ''Control-Salt'') key (ascii ''Control-Write-Encryption-Key'') = Some k2"
    using total(2) by blast
  have "other = proof" if "length other = length proof" "fst (verify c p (client_public c a) other) \<noteq> None" for other
    using that by (auto simp: verify_def st chk difference_zero split: if_splits)
  then show ?thesis
    by (simp add: verify_def st ok k)
qed

subsection \<open>Pair-Setup as a state machine\<close>

text \<open>
  What is written with \<open>tlv_put\<close> is found with \<open>tlv_get\<close>, fields longer than 255 bytes
  being split and joined again.  A field that is missing or longer than the reader's
  capacity is reported as a failure.
\<close>

theorem tlv_roundtrip:
  assumes "distinct (map fst fs)" and "tlv_put_all out 0 fs = ok (out', used)"
  shows "tlv_get (take used out') type cap =
    (case map_of fs type of None \<Rightarrow> fail | Some d \<Rightarrow> if length d \<le> cap then ok d else fail)"
proof -
  have "take used out' = tlv_stream fs"
    using assms(2) by (auto simp: tlv_put_all_spec split: if_splits)
  then show ?thesis
    using tlv_get_stream [OF assms(1), of "[]"] by (simp add: tlv_get_def)
qed

lemma tlv_byte_defined: "tlv_byte b t \<noteq> None"
  unfolding tlv_byte_def tlv_get_def by (intro bind_defined tlv_get_defined Some_defined)

lemma setup_m1_outcome:
  "\<exists>fs p'. setup_m1 c rnd p b = Some (fs, p') \<and>
     (fs = None \<and> (p' = p \<or> p' = pairing_zero) \<or>
      (\<exists>s. srp_begin c rnd = Some s \<and> fs = Some [(6, [2]), (2, salt s), (3, public_key s)] \<and>
           p' = pairing_zero\<lparr>srp_state := Some s\<rparr>))"
proof -
  obtain m f where "tlv_byte b 0 = Some m" "tlv_byte b 0x13 = Some f"
    using tlv_byte_defined by blast
  then show ?thesis
    by (cases f; cases "srp_begin c rnd")
      (auto simp: setup_m1_def begin_setup_def Let_def pairing_close_def free_srp_def pairing_zero_def)
qed

lemma setup_m3_outcome:
  "\<exists>fs p'. setup_m3 c p b = Some (fs, p') \<and>
     (fs = None \<or>
      (\<exists>s a proof key answer. srp_state p = Some s \<and> tlv_get b 3 srp_bytes = ok a \<and>
         tlv_get b 4 64 = ok proof \<and> srp_check c s a proof = Some (key, answer) \<and>
         fs = Some [(6, [4]), (4, answer)] \<and> established p' \<and> shared_secret p' = take 32 key \<and>
         srp_state p' = None))"
proof -
  obtain ra rp where r: "tlv_get b 3 srp_bytes = Some ra" "tlv_get b 4 64 = Some rp"
    using tlv_get_defined unfolding tlv_get_def by blast
  show ?thesis
  proof (cases "\<exists>a pf. ra = Inr a \<and> rp = Inr pf")
    case True
    then obtain a pf where k: "ra = Inr a" "rp = Inr pf" by blast
    obtain ans q where "verify c p a pf = (ans, q)" by (cases "verify c p a pf")
    then show ?thesis
      using r k
      by (cases ans) (auto simp: setup_m3_def verify_def free_srp_def Let_def split: option.splits)
  next
    case False
    then show ?thesis
      by (cases ra; cases rp) (auto simp: setup_m3_def r)
  qed
qed

lemma pairing_setup_result:
  "\<exists>r p'. pairing_setup c mem_ok rnd p input out = Some (r, p') \<and>
     (case r of Inl _ \<Rightarrow> True | Inr (out', used) \<Rightarrow> length out' = length out \<and> used \<le> length out) \<and>
     (p' = p \<or> p' = pairing_zero \<or> \<not> established p \<and>
      ((\<exists>s. srp_begin c rnd = Some s \<and> p' = pairing_zero\<lparr>srp_state := Some s\<rparr>) \<or>
       established p' \<and> srp_state p' = None \<and>
       (\<exists>s a proof key answer. srp_state p = Some s \<and> tlv_get input 3 srp_bytes = ok a \<and>
          tlv_get input 4 64 = ok proof \<and> srp_check c s a proof = Some (key, answer) \<and>
          shared_secret p' = take 32 key)))"
proof (cases "mem_ok \<and> 6 \<le> length out")
  case True
  have put: "tlv_put_all out 0 fs = fail \<or>
      (\<exists>out'. tlv_put_all out 0 fs = ok (out', length (tlv_stream fs)) \<and> length out' = length out \<and>
        length (tlv_stream fs) \<le> length out)" for fs
    by (auto simp: tlv_put_all_spec)
  obtain st where st: "tlv_byte input 6 = Some st" using tlv_byte_defined by blast
  define answer where "answer state fp = (case fp of (flds, q) \<Rightarrow> do {
      r \<leftarrow> (case flds of None \<Rightarrow> fail | Some fs \<Rightarrow> tlv_put_all out 0 fs);
      (case r of
         Inr (out, used) \<Rightarrow> Some (Inr (out, used), q)
       | Inl _ \<Rightarrow> do {
           let p = pairing_close q;
           r \<leftarrow> tlv_put_all out 0 [(6, [if state = 3 then 4 else 2]), (7, [2])];
           (case r of Inr (out, used) \<Rightarrow> Some (Inr (out, used), p) | Inl _ \<Rightarrow> Some (Inl EFail, p)) }) })"
    for state :: u8 and fp :: "(u8 \<times> buf) list option \<times> pairing"
  have ans: "\<exists>r p'. answer state (fs, q) = Some (r, p') \<and>
      (case r of Inl _ \<Rightarrow> True | Inr (out', used) \<Rightarrow> length out' = length out \<and> used \<le> length out) \<and>
      (p' = pairing_zero \<or> fs \<noteq> None \<and> p' = q)" for state fs q
    using put [of "the fs"] put [of "[(6, [if state = 3 then 4 else 2]), (7, [2])]"]
    by (cases fs) (auto simp: answer_def pairing_close_def Let_def)
  show ?thesis
  proof (cases "st = None \<or> established p")
    case False
    then obtain state where state: "st = Some state" and ne: "\<not> established p" by auto
    obtain fs1 p1 fs3 p3 where m: "setup_m1 c rnd p input = Some (fs1, p1)" "setup_m3 c p input = Some (fs3, p3)"
      using setup_m1_outcome [of c rnd p input] setup_m3_outcome [of c p input] by blast
    have eq: "pairing_setup c mem_ok rnd p input out =
        answer state (if state = 1 then (fs1, p1) else if state = 3 then (fs3, p3) else (None, p))"
      using True ne by (simp add: pairing_setup_def st state answer_def m del: tlv_put_all.simps)
    show ?thesis
      using setup_m1_outcome [of c rnd p input] setup_m3_outcome [of c p input]
        ans [of state fs1 p1] ans [of state fs3 p3] ans [of state None p] ne
      unfolding eq m by auto
  qed (use True st in \<open>cases st; auto simp: pairing_setup_def\<close>)
qed (auto simp: pairing_setup_def)

text \<open>
  C34: one Pair-Setup request, whatever its bytes.  The handler stays inside the request and the
  answer buffer; an established pairing refuses every request and is not changed; a pairing
  becomes established only from a begun exchange and a third message whose proof passes the SRP
  check against the stored verifier, and its session key is then the one of that check; in
  every other case it is left as it was, reset to zero, or freshly begun.
\<close>

theorem pairing_setup_outcome:
  "\<exists>r p'. pairing_setup c mem_ok rnd p input out = Some (r, p') \<and>
     (case r of Inl _ \<Rightarrow> True | Inr (out', used) \<Rightarrow> length out' = length out \<and> used \<le> length out) \<and>
     (p' = p \<or> p' = pairing_zero \<or> \<not> established p \<and>
      ((\<exists>s. srp_begin c rnd = Some s \<and> p' = pairing_zero\<lparr>srp_state := Some s\<rparr>) \<or>
       established p' \<and> srp_state p' = None \<and>
       (\<exists>s a proof key answer. srp_state p = Some s \<and> tlv_get input 3 srp_bytes = ok a \<and>
          tlv_get input 4 64 = ok proof \<and> srp_check c s a proof = Some (key, answer) \<and>
          shared_secret p' = take 32 key)))"
  by (rule pairing_setup_result)

subsection \<open>The record channel\<close>

fun seal_all :: "pair_crypto \<Rightarrow> pairing \<Rightarrow> buf list \<Rightarrow> (buf list \<times> pairing) option" where
  "seal_all c p [] = Some ([], p)"
| "seal_all c p (m # ms) = do {
     (r, p) \<leftarrow> pairing_seal c p m;
     (rs, p) \<leftarrow> seal_all c p ms;
     Some (r # rs, p) }"

fun open_all :: "pair_crypto \<Rightarrow> pairing \<Rightarrow> buf list \<Rightarrow> (buf list \<times> pairing) option" where
  "open_all c q [] = Some ([], q)"
| "open_all c q (r # rs) = do {
     (x, q) \<leftarrow> pairing_open c q r;
     (case x of Inl _ \<Rightarrow> None
      | Inr m \<Rightarrow> do { (ms, q) \<leftarrow> open_all c q rs; Some (m # ms, q) }) }"

text \<open>
  What the records rely on: sealing keeps the length and makes a tag of 16 bytes, and a record
  is opened exactly when it is the sealing of what it is opened to.
\<close>

definition aead_ok :: "pair_crypto \<Rightarrow> bool" where
  "aead_ok c \<longleftrightarrow> (\<forall>k n a m ct tg. seal c k n a m = Some (ct, tg) \<longrightarrow> length ct = length m \<and> length tg = 16) \<and>
     (\<forall>k n a m ct tg. unseal c k n a tg ct = Some m \<longleftrightarrow> seal c k n a m = Some (ct, tg))"

text \<open>Two ends of a direction: the writer's key and position are the reader's.\<close>

definition linked :: "pairing \<Rightarrow> pairing \<Rightarrow> bool" where
  "linked p q \<longleftrightarrow> established p \<and> established q \<and> write_key p = read_key q \<and> write_counter p = read_counter q"

lemma record_size_bytes:
  assumes "n \<le> 1024"
  shows "unat (of_nat n :: u8) + unat (of_nat (n div 256) :: u8) * 256 = n"
  using assms by (simp add: unat_of_nat)

lemma open_sealed:
  assumes ok: "aead_ok c" and l: "linked p q" and s: "pairing_seal c p m = Some (r, p')"
  shows "\<exists>q'. pairing_open c q r = Some (Inr m, q') \<and> linked p' q' \<and> length r = length m + 18"
proof -
  let ?a = "[of_nat (length m), of_nat (length m div 256)] :: buf"
  obtain ct tg where sl: "seal c (write_key p) (nonce_bytes (write_counter p)) ?a m = Some (ct, tg)"
    and r: "r = ?a @ ct @ tg" "p' = p\<lparr>write_counter := write_counter p + 1\<rparr>"
    and g: "m \<noteq> []" "length m \<le> 1024" "write_counter p \<noteq> - 1"
    using s by (auto simp: pairing_seal_def Let_def bind_eq_Some_conv pair_record_max_def split: if_splits)
  have len: "length ct = length m" "length tg = 16"
    using ok sl by (auto simp: aead_ok_def)
  have un: "unseal c (read_key q) (nonce_bytes (read_counter q)) ?a tg ct = Some m"
    using ok sl l by (simp add: aead_ok_def linked_def)
  have parts: "rd r 0 = Some (of_nat (length m))" "rd r 1 = Some (of_nat (length m div 256))"
    "rd_range r 0 2 = Some ?a" "rd_range r (2 + length m) 16 = Some tg" "rd_range r 2 (length m) = Some ct"
    using len by (simp_all add: r rd_def rd_range_def)
  define r0 r1 :: u8 where "r0 = of_nat (length m)" and "r1 = of_nat (length m div 256)"
  have "length r = length m + 18" "0 < length m" using len g(1) by (simp_all add: r)
  moreover have "unat r0 + unat r1 * 256 = length m"
    using record_size_bytes [OF g(2)] by (simp add: r0_def r1_def)
  moreover from calculation have "0 < unat r0 \<or> 0 < unat r1" by presburger
  ultimately show ?thesis
    using l g parts un unfolding r0_def [symmetric] r1_def [symmetric]
    by (simp add: pairing_open_def linked_def pair_record_max_def Let_def r(2))
qed

text \<open>Messages sealed in a row, opened in that row.\<close>

lemma open_all_sealed:
  assumes ok: "aead_ok c"
  shows "linked p q \<Longrightarrow> seal_all c p ms = Some (rs, p') \<Longrightarrow>
    (\<exists>q'. open_all c q rs = Some (ms, q') \<and> linked p' q') \<and> map length rs = map (\<lambda>m. length m + 18) ms"
proof (induction ms arbitrary: p q rs)
  case (Cons m ms)
  obtain r p1 rs1 where s: "pairing_seal c p m = Some (r, p1)" "seal_all c p1 ms = Some (rs1, p')" "rs = r # rs1"
    using Cons.prems(2) by (auto simp: bind_eq_Some_conv)
  obtain q1 where o: "pairing_open c q r = Some (Inr m, q1)" "linked p1 q1" "length r = length m + 18"
    using open_sealed [OF ok Cons.prems(1) s(1)] by blast
  show ?case
    using Cons.IH [OF o(2) s(2)] s o by auto
qed simp

text \<open>The only record that is opened to a message is the one that sealing it makes.\<close>

lemma opened_sealed:
  assumes ok: "aead_ok c" and l: "linked p q" and op: "pairing_open c q r = Some (Inr m, q')"
  shows "pairing_seal c p m = Some (r, p\<lparr>write_counter := write_counter p + 1\<rparr>)"
proof -
  from op have len: "18 \<le> length r" "read_counter q \<noteq> - 1"
    by (auto simp: pairing_open_def split: if_splits)
  define n where "n = unat (r ! 0) + unat (r ! 1) * 256"
  have rd: "rd r 0 = Some (r ! 0)" "rd r (Suc 0) = Some (r ! 1)"
    by (simp_all add: rd_within [OF len(1)])
  have n: "n \<noteq> 0" "n \<le> 1024" "length r = n + 18"
    using op len by (auto simp: pairing_open_def rd n_def pair_record_max_def Let_def split: if_splits)
  have two: "take 2 r = [r ! 0, r ! 1]"
    using len by (intro nth_equalityI) (auto simp: less_Suc_eq numeral_2_eq_2)
  have un: "unseal c (read_key q) (nonce_bytes (read_counter q)) (take 2 r) (take 16 (drop (2 + n) r)) (take n (drop 2 r)) = Some m"
    using op len n
    by (auto simp: pairing_open_def rd n_def pair_record_max_def Let_def rd_range_def split: option.splits if_splits)
  then have sl: "seal c (read_key q) (nonce_bytes (read_counter q)) (take 2 r) m =
      Some (take n (drop 2 r), take 16 (drop (2 + n) r))"
    using ok by (simp add: aead_ok_def)
  then have lm: "length m = n"
    using ok n(3) by (fastforce simp: aead_ok_def)
  have "n div 256 = unat (r ! 1)" by (simp add: n_def)
  moreover have "(of_nat n :: u8) = r ! 0"
    unfolding word_unat_eq_iff unat_of_nat n_def by simp
  ultimately have aad: "[of_nat (length m), of_nat (length m div 256)] = take 2 r"
    using lm two by simp
  have whole: "take 2 r @ take n (drop 2 r) @ take 16 (drop (2 + n) r) = r"
  proof -
    have "take 16 (drop (2 + n) r) = drop (2 + n) r" using n(3) by simp
    moreover have "take n (drop 2 r) @ drop (2 + n) r = drop 2 r"
      using append_take_drop_id [of n "drop 2 r"] by (simp add: add.commute)
    ultimately show ?thesis by (simp only: append_take_drop_id)
  qed
  have g: "established p" "m \<noteq> []" "\<not> length m > 1024" "write_counter p \<noteq> - 1"
    "write_key p = read_key q" "write_counter p = read_counter q"
    using l lm n len(2) by (auto simp: linked_def)
  show "pairing_seal c p m = Some (r, p\<lparr>write_counter := write_counter p + 1\<rparr>)"
    unfolding pairing_seal_def Let_def aad pair_record_max_def g(5,6)
    using g sl by (simp only: whole bind.bind_lunit prod.case if_False simp_thms)
qed


subsection \<open>A toy instance\<close>

text \<open>
  Primitives small enough to evaluate, with which the hypotheses of the properties hold: the
  prime is 23, in 384 bytes; the hash is a constant and the length of its input; sealing is
  the identity with a tag of zeros.
\<close>

definition toy :: pair_crypto where
  "toy = \<lparr>sha512 = \<lambda>b. Some [7, of_nat (length b)], hkdf = \<lambda>s k i. Some (replicate 32 (of_nat (length i))),
    seal = \<lambda>k n a m. Some (m, replicate 16 0),
    unseal = \<lambda>k n a tg ct. if tg = replicate 16 0 then Some ct else None,
    srp_prime = replicate 383 0 @ [23]\<rparr>"

lemma toy_prime: "length (srp_prime toy) = srp_bytes" "be_nat (srp_prime toy) = 23"
proof -
  have "be_nat (replicate k 0 @ [23]) = 23" for k
    by (induction k) (simp_all add: be_nat_Cons)
  then show "length (srp_prime toy) = srp_bytes" "be_nat (srp_prime toy) = 23"
    by (simp_all add: toy_def srp_bytes_def)
qed

lemma toy_total: "sha512 toy b \<noteq> None" "hkdf toy s k i \<noteq> None"
  by (simp_all add: toy_def)

definition toy_server :: srp where
  "toy_server = the (srp_begin toy (Some ([1, 2], [3])))"

lemma toy_server_begins: "srp_begin toy (Some ([1, 2], [3])) = Some toy_server"
  unfolding toy_server_def by (simp add: srp_begin_def hash_parts_def toy_total Let_def) (simp add: toy_def)

lemma toy_client: "client_proof toy (salt toy_server) (public_key toy_server) 4 \<noteq> None"
  by (simp add: client_proof_def hash_parts_def toy_def be_nat_Cons Let_def)

theorem srp_agreement_witness:
  "\<exists>key proof answer p'. client_proof toy (salt toy_server) (public_key toy_server) 4 = Some (key, proof) \<and>
     verify toy (pairing_zero\<lparr>srp_state := Some toy_server\<rparr>) (client_public toy 4) proof = (Some answer, p') \<and>
     established p'"
proof -
  obtain key pf where cl: "client_proof toy (salt toy_server) (public_key toy_server) 4 = Some (key, pf)"
    using toy_client by auto
  have "coprime 5 (23 :: nat)" by (simp add: coprime_iff_gcd_eq_1) code_simp
  then show ?thesis
    using srp_agreement [OF toy_server_begins _ cl, of "pairing_zero\<lparr>srp_state := Some toy_server\<rparr>"]
      cl toy_prime toy_total by fastforce
qed

definition sample_fields :: "(u8 \<times> buf) list" where
  "sample_fields = [(6, [2]), (3, replicate 300 9)]"

lemma sample_fields_fit: "\<exists>out used. tlv_put_all (replicate 400 0) 0 sample_fields = ok (out, used)"
proof -
  have "length (tlv_stream sample_fields) = 307"
    by (simp add: sample_fields_def tlv_enc.simps)
  then show ?thesis by (simp add: tlv_put_all_spec)
qed

theorem tlv_roundtrip_witness:
  "\<exists>out used. tlv_put_all (replicate 400 0) 0 sample_fields = ok (out, used) \<and>
     tlv_get (take used out) 3 384 = ok (replicate 300 9) \<and> tlv_get (take used out) 4 384 = fail"
proof -
  obtain out used where o: "tlv_put_all (replicate 400 0) 0 sample_fields = ok (out, used)"
    using sample_fields_fit by blast
  have "distinct (map fst sample_fields)" by (simp add: sample_fields_def)
  then have "tlv_get (take used out) 3 384 = ok (replicate 300 9)" "tlv_get (take used out) 4 384 = fail"
    using tlv_roundtrip [OF _ o, of 3 384] tlv_roundtrip [OF _ o, of 4 384] by (simp_all add: sample_fields_def)
  then show ?thesis using o by blast
qed

definition toy_end :: pairing where
  "toy_end = pairing_zero\<lparr>established := True\<rparr>"

lemma toy_seals: "\<exists>rs p'. seal_all toy toy_end [[1, 2, 3], [4]] = Some (rs, p')"
  by (simp add: toy_def toy_end_def pairing_zero_def pairing_seal_def pair_record_max_def)


end
