(* ===== verification/Alac.thy ===== *)
theory Alac
  imports Prelude
begin

section \<open>The ALAC decoder\<close>

text \<open>
  \<open>shared/codec/alac.c\<close>: the bit reader, the adaptive Rice entropy decoder, the adaptive FIR
  predictor, the two de-interlacers and \<open>decode_frame\<close> with its mono and stereo branches.

  \<open>int32_t\<close> values are 32-bit words, read with \<open>sint\<close>; additions, subtractions and
  multiplications wrap as the machine instructions do.  A shift by an amount outside
  \<open>0..31\<close> and an access outside an array have no meaning and are \<open>None\<close>.  The working
  buffers are the fixed arrays of the decoder context; the pointers of the struct always
  point to them after \<open>alac_allocate_buffers\<close> and are not kept separately.
\<close>

subsection \<open>Reading bits\<close>

text \<open>
  The stream fields of \<open>alac_file\<close>: the input from \<open>input_start\<close> to \<open>input_end\<close>, the
  position \<open>input_buffer\<close> in it, the number of bits consumed of the current byte, and the
  sticky \<open>decode_error\<close>.
\<close>

record bitstream =
  input :: buf
  input_buffer :: nat
  bitaccumulator :: nat
  decode_error :: bool

abbreviation decode_fail :: "bitstream \<Rightarrow> bitstream" where
  "decode_fail b \<equiv> b\<lparr>decode_error := True\<rparr>"

fun readbits_loop :: "nat \<Rightarrow> u32 \<Rightarrow> bitstream \<Rightarrow> (u32 \<times> bitstream) option" where
  "readbits_loop 0 value b = Some (value, b)"
| "readbits_loop (Suc n) value b =
     do { x \<leftarrow> rd (input b) (input_buffer b);
          let value = push_bit 1 value OR (drop_bit (7 - bitaccumulator b) (ucast x) AND 1);
          let b = (if Suc (bitaccumulator b) = 8
                   then b\<lparr>input_buffer := Suc (input_buffer b), bitaccumulator := 0\<rparr>
                   else b\<lparr>bitaccumulator := Suc (bitaccumulator b)\<rparr>);
          readbits_loop n value b }"

definition readbits_16 :: "bitstream \<Rightarrow> int \<Rightarrow> (u32 \<times> bitstream) option" where
  "readbits_16 b bits =
     (if bits < 0 \<or> bits > 16 \<or> decode_error b then Some (0, decode_fail b)
      else if (length (input b) - input_buffer b) * 8 < bitaccumulator b + nat bits
      then Some (0, decode_fail b)
      else readbits_loop (nat bits) 0 b)"

definition readbits :: "bitstream \<Rightarrow> int \<Rightarrow> (u32 \<times> bitstream) option" where
  "readbits b bits =
     (if bits < 0 \<or> bits > 32 then Some (0, decode_fail b)
      else if bits > 16
      then do { (high, b) \<leftarrow> readbits_16 b 16;
                (low, b) \<leftarrow> readbits_16 b (bits - 16);
                Some (push_bit (nat (bits - 16)) high OR low, b) }
      else readbits_16 b bits)"

definition readbit :: "bitstream \<Rightarrow> (bool \<times> bitstream) option" where
  "readbit b = do { (v, b) \<leftarrow> readbits_16 b 1; Some (v \<noteq> 0, b) }"

definition unreadbits :: "bitstream \<Rightarrow> int \<Rightarrow> bitstream" where
  "unreadbits b bits =
     (let offset = input_buffer b * 8 + bitaccumulator b in
      if bits < 0 \<or> bits > int offset then decode_fail b
      else let offset = offset - nat bits in
        b\<lparr>input_buffer := offset div 8, bitaccumulator := offset mod 8\<rparr>)"

subsection \<open>Integer operations\<close>

text \<open>The branch of \<open>count_leading_zeros\<close> for compilers with \<open>__builtin_clz\<close>.\<close>

definition count_leading_zeros :: "u32 \<Rightarrow> int" where
  "count_leading_zeros v = int (length (takeWhile (\<lambda>i. \<not> bit v i) (rev [0..<32])))"

definition shl32 :: "u32 \<Rightarrow> int \<Rightarrow> u32 option" where
  "shl32 v n = (if 0 \<le> n \<and> n < 32 then Some (push_bit (nat n) v) else None)"

definition shr32 :: "u32 \<Rightarrow> int \<Rightarrow> u32 option" where
  "shr32 v n = (if 0 \<le> n \<and> n < 32 then Some (drop_bit (nat n) v) else None)"

text \<open>The right shift of a signed value copies the sign.\<close>

definition sar32 :: "u32 \<Rightarrow> int \<Rightarrow> u32 option" where
  "sar32 v n = (if 0 \<le> n \<and> n < 32 then Some (signed_drop_bit (nat n) v) else None)"

definition SIGN_EXTENDED32 :: "u32 \<Rightarrow> int \<Rightarrow> u32 option" where
  "SIGN_EXTENDED32 val bits = do { v \<leftarrow> shl32 val (32 - bits); sar32 v (32 - bits) }"

definition SIGN_ONLY :: "u32 \<Rightarrow> u32" where
  "SIGN_ONLY v = (if v <s 0 then - 1 else if 0 <s v then 1 else 0)"

definition SignExtend24 :: "u32 \<Rightarrow> u32" where
  "SignExtend24 v = signed_drop_bit 8 (push_bit 8 v)"

subsection \<open>Rice entropy decoding\<close>

definition RICE_THRESHOLD :: nat where
  "RICE_THRESHOLD = 8"

text \<open>Counts the ones before a zero; the argument is the number of bits it may still read.\<close>

fun rice_prefix :: "nat \<Rightarrow> bitstream \<Rightarrow> (nat \<times> bitstream) option" where
  "rice_prefix 0 b = Some (0, b)"
| "rice_prefix (Suc n) b =
     do { (one, b) \<leftarrow> readbit b;
          if one then do { (x, b) \<leftarrow> rice_prefix n b; Some (Suc x, b) } else Some (0, b) }"

definition entropy_decode_value ::
  "bitstream \<Rightarrow> int \<Rightarrow> int \<Rightarrow> u32 \<Rightarrow> (u32 \<times> bitstream) option" where
  "entropy_decode_value b readSampleSize k rice_kmodifier_mask =
     do { (x, b) \<leftarrow> rice_prefix (Suc RICE_THRESHOLD) b;
          if x > RICE_THRESHOLD
          then do { (v, b) \<leftarrow> readbits b readSampleSize;
                    low \<leftarrow> shr32 0xFFFFFFFF (32 - readSampleSize);
                    Some (v AND low, b) }
          else if k \<noteq> 1
          then do { (extraBits, b) \<leftarrow> readbits b k;
                    p \<leftarrow> shl32 1 k;
                    let x = of_nat x * ((p - 1) AND rice_kmodifier_mask);
                    if 1 <s extraBits then Some (x + (extraBits - 1), b)
                    else Some (x, unreadbits b 1) }
          else Some (of_nat x, b) }"

definition rice_k :: "int \<Rightarrow> u32 \<Rightarrow> int" where
  "rice_k kmodifier history =
     (let k = 31 - kmodifier - count_leading_zeros (signed_drop_bit 9 history + 3)
      in if k < 0 then k + kmodifier else kmodifier)"

text \<open>One sample: the value stored and the updated history.\<close>

definition rice_sample ::
  "bitstream \<Rightarrow> int \<Rightarrow> int \<Rightarrow> u32 \<Rightarrow> u32 \<Rightarrow> u32 \<Rightarrow> ((u32 \<times> u32) \<times> bitstream) option" where
  "rice_sample b readSampleSize kmodifier historymult history signModifier =
     do { (decodedValue, b) \<leftarrow>
            entropy_decode_value b readSampleSize (rice_k kmodifier history) 0xFFFFFFFF;
          let decodedValue = decodedValue + signModifier;
          let half = of_int (cdiv (sint (decodedValue + 1)) 2);
          let finalValue = (if odd decodedValue then - half else half);
          let history = history + (decodedValue * historymult
                                   - signed_drop_bit 9 (history * historymult));
          Some ((finalValue, if 0xFFFF <s decodedValue then 0xFFFF else history), b) }"

text \<open>The length of a run of zeros, for a small history.\<close>

definition rice_run ::
  "bitstream \<Rightarrow> u32 \<Rightarrow> u32 \<Rightarrow> (u32 \<times> bitstream) option" where
  "rice_run b history rice_kmodifier_mask =
     entropy_decode_value b 16
       (count_leading_zeros history + cdiv (sint (history + 16)) 64 - 24) rice_kmodifier_mask"

text \<open>
  The loop over \<open>outputCount\<close>, by the number \<open>outputSize - outputCount\<close> of samples left; the
  stream carries \<open>decode_error\<close> out of it.
\<close>

fun rice_loop ::
  "nat \<Rightarrow> int \<Rightarrow> int \<Rightarrow> u32 \<Rightarrow> u32 \<Rightarrow> nat \<Rightarrow> u32 list \<Rightarrow> u32 \<Rightarrow> u32 \<Rightarrow> bitstream
   \<Rightarrow> (u32 list \<times> bitstream) option" where
  "rice_loop outputSize rss kmod mult kmask 0 out history signModifier b = Some (out, b)"
| "rice_loop outputSize rss kmod mult kmask (Suc n) out history signModifier b =
     do { ((finalValue, history'), b') \<leftarrow> rice_sample b rss kmod mult history signModifier;
          if decode_error b' then Some (out, b')
          else do {
            let outputCount = outputSize - Suc n;
            out \<leftarrow> wr out outputCount finalValue;
            if sint history' < 128 \<and> n > 0
            then do { (blockSize, b') \<leftarrow> rice_run b' history' kmask;
                      if decode_error b' \<or> sint blockSize < 0 \<or> sint blockSize > int n
                      then Some (out, decode_fail b')
                      else do {
                        out \<leftarrow> wr_range out (Suc outputCount) (replicate (unat blockSize) 0);
                        rice_loop outputSize rss kmod mult kmask (n - unat blockSize) out 0
                          (if 0xFFFF <s blockSize then 0 else 1) b' } }
            else rice_loop outputSize rss kmod mult kmask n out history' 0 b' } }"

definition entropy_rice_decode ::
  "bitstream \<Rightarrow> u32 list \<Rightarrow> nat \<Rightarrow> int \<Rightarrow> u32 \<Rightarrow> int \<Rightarrow> u32 \<Rightarrow> u32 \<Rightarrow> (u32 list \<times> bitstream) option"
where
  "entropy_rice_decode b outputBuffer outputSize readSampleSize rice_initialhistory
      rice_kmodifier rice_historymult rice_kmodifier_mask =
     rice_loop outputSize readSampleSize rice_kmodifier rice_historymult rice_kmodifier_mask
       outputSize outputBuffer rice_initialhistory 0 b"

subsection \<open>The adaptive FIR predictor\<close>

text \<open>Samples from their differences; both the special case 31 and the warm-up do this.\<close>

definition fir_difference :: "u32 list \<Rightarrow> int \<Rightarrow> nat \<Rightarrow> u32 list \<Rightarrow> u32 list option" where
  "fir_difference error_buffer readsamplesize i out =
     do { prev_value \<leftarrow> rd out i;
          error_value \<leftarrow> rd error_buffer (Suc i);
          v \<leftarrow> SIGN_EXTENDED32 (prev_value + error_value) readsamplesize;
          wr out (Suc i) v }"

text \<open>
  The moving pointer \<open>buffer_out\<close> is the index \<open>p\<close> of its target.  \<open>fir_sum\<close> adds the terms of the
  first \<open>j\<close> coefficients.
\<close>

fun fir_sum :: "u32 list \<Rightarrow> u16 list \<Rightarrow> nat \<Rightarrow> nat \<Rightarrow> nat \<Rightarrow> u32 option" where
  "fir_sum out coef p num 0 = Some 0"
| "fir_sum out coef p num (Suc j) =
     do { sum \<leftarrow> fir_sum out coef p num j;
          x \<leftarrow> rd out (p + (num - j));
          y \<leftarrow> rd out p;
          c \<leftarrow> rd coef j;
          Some (sum + (x - y) * scast c) }"

text \<open>
  The two adaptation loops, for a positive and a negative error; the counter is
  \<open>predictor_num + 1\<close>.
\<close>

fun fir_adapt ::
  "u32 list \<Rightarrow> nat \<Rightarrow> nat \<Rightarrow> int \<Rightarrow> bool \<Rightarrow> nat \<Rightarrow> u32 \<Rightarrow> u16 list \<Rightarrow> u16 list option" where
  "fir_adapt out p num quant pos 0 error_val coef = Some coef"
| "fir_adapt out p num quant pos (Suc predictor_num) error_val coef =
     (if (if pos then 0 <s error_val else error_val <s 0)
      then do { x \<leftarrow> rd out p;
                y \<leftarrow> rd out (p + (num - predictor_num));
                let val = x - y;
                let sign = (if pos then SIGN_ONLY val else - SIGN_ONLY val);
                c \<leftarrow> rd coef predictor_num;
                coef \<leftarrow> wr coef predictor_num (c - ucast sign);
                d \<leftarrow> sar32 (val * sign) quant;
                fir_adapt out p num quant pos predictor_num
                  (error_val - d * of_nat (num - predictor_num)) coef }
      else Some coef)"

text \<open>One sample of the general case.\<close>

definition fir_step ::
  "u32 list \<Rightarrow> int \<Rightarrow> nat \<Rightarrow> int \<Rightarrow> nat \<Rightarrow> u32 list \<times> u16 list \<Rightarrow> (u32 list \<times> u16 list) option" where
  "fir_step error_buffer readsamplesize num quant i = (\<lambda>(out, coef).
     do { let p = i - Suc num;
          error_val \<leftarrow> rd error_buffer i;
          sum \<leftarrow> fir_sum out coef p num num;
          half \<leftarrow> shl32 1 (quant - 1);
          outval \<leftarrow> sar32 (half + sum) quant;
          y \<leftarrow> rd out p;
          outval \<leftarrow> SIGN_EXTENDED32 (outval + y + error_val) readsamplesize;
          out \<leftarrow> wr out (p + Suc num) outval;
          coef \<leftarrow> (if 0 <s error_val then fir_adapt out p num quant True num error_val coef
                  else if error_val <s 0 then fir_adapt out p num quant False num error_val coef
                  else Some coef);
          Some (out, coef) })"

definition predictor_decompress_fir_adapt ::
  "u32 list \<Rightarrow> u32 list \<Rightarrow> nat \<Rightarrow> int \<Rightarrow> u16 list \<Rightarrow> nat \<Rightarrow> int \<Rightarrow> u32 list option" where
  "predictor_decompress_fir_adapt error_buffer out output_size readsamplesize coef num quant =
     do { first \<leftarrow> rd error_buffer 0;
          out \<leftarrow> wr out 0 first;
          if num = 0
          then if output_size \<le> 1 then Some out
               else do { es \<leftarrow> rd_range error_buffer 1 (output_size - 1); wr_range out 1 es }
          else if num = 31
          then if output_size \<le> 1 then Some out
               else for_loop (output_size - 1) (fir_difference error_buffer readsamplesize) 0 out
          else do {
            out \<leftarrow> for_loop num (fir_difference error_buffer readsamplesize) 0 out;
            (out, coef) \<leftarrow> for_loop (output_size - Suc num)
              (fir_step error_buffer readsamplesize num quant) (Suc num) (out, coef);
            Some out } }"

subsection \<open>De-interlacing\<close>

text \<open>The host is little endian, as \<open>host_bigendian\<close> says.\<close>

definition store16 :: "buf \<Rightarrow> nat \<Rightarrow> u16 \<Rightarrow> buf option" where
  "store16 out i v = wr_range out (2 * i) [ucast v, ucast (drop_bit 8 v)]"

definition store24 :: "buf \<Rightarrow> nat \<Rightarrow> u32 \<Rightarrow> buf option" where
  "store24 out i v = wr_range out i [ucast v, ucast (drop_bit 8 v), ucast (drop_bit 16 v)]"

definition deinterlace_16 ::
  "u32 list \<Rightarrow> u32 list \<Rightarrow> buf \<Rightarrow> nat \<Rightarrow> nat \<Rightarrow> u8 \<Rightarrow> u8 \<Rightarrow> buf option" where
  "deinterlace_16 buffer_a buffer_b buffer_out channels numsamples shift leftweight =
     for_loop numsamples (\<lambda>i out.
       do { a \<leftarrow> rd buffer_a i;
            b \<leftarrow> rd buffer_b i;
            (left, right) \<leftarrow>
              (if leftweight \<noteq> 0
               then do { s \<leftarrow> sar32 (b * ucast leftweight) (uint shift);
                         let right = (ucast (a - s) :: u16);
                         Some (ucast (scast right + b :: u32), right) }
               else Some (ucast a, ucast b));
            out \<leftarrow> store16 out (i * channels) left;
            store16 out (i * channels + 1) right }) 0 buffer_out"

text \<open>Puts the uncompressed low bytes below a sample.\<close>

definition append_low_bytes :: "u32 \<Rightarrow> int \<Rightarrow> u32 list \<Rightarrow> nat \<Rightarrow> u32 option" where
  "append_low_bytes v ub low i =
     (if ub \<noteq> 0
      then do { m \<leftarrow> shl32 0xFFFFFFFF (ub * 8);
                v \<leftarrow> shl32 v (ub * 8);
                l \<leftarrow> rd low i;
                Some (v OR (l AND NOT m)) }
      else Some v)"

definition deinterlace_24 ::
  "u32 list \<Rightarrow> u32 list \<Rightarrow> int \<Rightarrow> u32 list \<Rightarrow> u32 list \<Rightarrow> buf \<Rightarrow> nat \<Rightarrow> nat \<Rightarrow> u8 \<Rightarrow> u8 \<Rightarrow> buf option"
where
  "deinterlace_24 buffer_a buffer_b ub low_a low_b buffer_out channels numsamples shift leftweight =
     for_loop numsamples (\<lambda>i out.
       do { a \<leftarrow> rd buffer_a i;
            b \<leftarrow> rd buffer_b i;
            (left, right) \<leftarrow>
              (if leftweight \<noteq> 0
               then do { s \<leftarrow> sar32 (b * ucast leftweight) (uint shift);
                         let right = a - s;
                         Some (right + b, right) }
               else Some (a, b));
            left \<leftarrow> append_low_bytes left ub low_a i;
            right \<leftarrow> append_low_bytes right ub low_b i;
            out \<leftarrow> store24 out (i * channels * 3) left;
            store24 out (i * channels * 3 + 3) right }) 0 buffer_out"

subsection \<open>The stream as a list of bits\<close>

text \<open>
  \<open>rest b\<close> is what is left to read, the most significant bit of each byte first;
  \<open>bits_nat\<close> is the number that a list of bits denotes and \<open>skip n b\<close> the reader \<open>n\<close> bits
  further.
\<close>

definition byte_bits :: "u8 \<Rightarrow> bool list" where
  "byte_bits x = map (bit x) (rev [0..<8])"

definition bitlist :: "buf \<Rightarrow> bool list" where
  "bitlist bs = concat (map byte_bits bs)"

definition offset :: "bitstream \<Rightarrow> nat" where
  "offset b = input_buffer b * 8 + bitaccumulator b"

definition rest :: "bitstream \<Rightarrow> bool list" where
  "rest b = drop (offset b) (bitlist (input b))"

definition bits_nat :: "bool list \<Rightarrow> nat" where
  "bits_nat bs = foldl (\<lambda>a x. 2 * a + of_bool x) 0 bs"

definition skip :: "nat \<Rightarrow> bitstream \<Rightarrow> bitstream" where
  "skip n b = b\<lparr>input_buffer := (offset b + n) div 8, bitaccumulator := (offset b + n) mod 8\<rparr>"

definition placed :: "bitstream \<Rightarrow> bool" where
  "placed b \<longleftrightarrow> bitaccumulator b < 8 \<and> offset b \<le> 8 * length (input b)"

lemma length_byte_bits [simp]: "length (byte_bits x) = 8"
  by (simp add: byte_bits_def)

lemma length_bitlist [simp]: "length (bitlist bs) = 8 * length bs"
  by (induction bs) (simp_all add: bitlist_def)

lemma length_rest: "length (rest b) = 8 * length (input b) - offset b"
  by (simp add: rest_def)

lemma nth_bitlist: "i < length bs \<Longrightarrow> j < 8 \<Longrightarrow> bitlist bs ! (i * 8 + j) = bit (bs ! i) (7 - j)"
proof (induction bs arbitrary: i)
  case (Cons x bs)
  have *: "bitlist (x # bs) = byte_bits x @ bitlist bs"
    by (simp add: bitlist_def)
  show ?case
  proof (cases i)
    case 0
    then show ?thesis
      using Cons.prems by (simp add: * nth_append byte_bits_def rev_nth del: upt_Suc)
  next
    case (Suc i')
    then show ?thesis
      using Cons by (simp add: * nth_append)
  qed
qed simp

lemma offset_skip [simp]: "offset (skip n b) = offset b + n"
  by (simp add: skip_def offset_def)

lemma input_skip [simp]: "input (skip n b) = input b" "decode_error (skip n b) = decode_error b"
  by (simp_all add: skip_def)

lemma rest_skip [simp]: "rest (skip n b) = drop n (rest b)"
  by (simp add: rest_def add.commute)

lemma placed_skip: "n \<le> length (rest b) \<Longrightarrow> placed b \<Longrightarrow> placed (skip n b)"
  by (auto simp: placed_def length_rest) (simp add: skip_def)

lemma skip_skip [simp]: "skip m (skip n b) = skip (n + m) b"
  by (simp add: skip_def offset_def add.assoc)

lemma skip_0 [simp]: "placed b \<Longrightarrow> skip 0 b = b"
  by (cases b) (auto simp: skip_def placed_def offset_def)

lemma bits_nat_Nil [simp]: "bits_nat [] = 0"
  by (simp add: bits_nat_def)

lemma foldl_bits:
  "foldl (\<lambda>a x. 2 * a + of_bool x) k bs = k * 2 ^ length bs + bits_nat bs"
proof (induction bs arbitrary: k)
  case (Cons x bs)
  have "bits_nat (x # bs) = of_bool x * 2 ^ length bs + bits_nat bs"
    using Cons.IH [of "of_bool x"] by (simp add: bits_nat_def)
  then show ?case
    using Cons.IH [of "2 * k + of_bool x"] by (cases x) simp_all
qed (simp add: bits_nat_def)

lemma bits_nat_append: "bits_nat (xs @ ys) = bits_nat xs * 2 ^ length ys + bits_nat ys"
  using foldl_bits [of "bits_nat xs" ys] by (simp add: bits_nat_def)

lemma bits_nat_less: "bits_nat bs < 2 ^ length bs"
proof (induction bs rule: rev_induct)
  case (snoc x bs)
  have "bits_nat (bs @ [x]) = bits_nat bs * 2 + of_bool x"
    by (simp add: bits_nat_append) (simp add: bits_nat_def)
  then show ?case using snoc by (cases x) simp_all
qed simp

lemma foldl_word_bits:
  "foldl (\<lambda>a x. 2 * a + of_bool x) (of_nat k) bs
   = (of_nat (foldl (\<lambda>a x. 2 * a + of_bool x) k bs) :: u32)"
proof (induction bs arbitrary: k)
  case (Cons x bs)
  then show ?case
    using Cons.IH [of "2 * k + of_bool x"] by simp
qed simp

lemma next_bit:
  assumes "placed b" and "rest b \<noteq> []"
  shows "input_buffer b < length (input b)"
    and "drop_bit (7 - bitaccumulator b) (ucast (input b ! input_buffer b)) AND 1
         = (of_bool (hd (rest b)) :: u32)"
proof -
  have o: "offset b < 8 * length (input b)"
    using assms(2) by (metis length_greater_0_conv length_rest zero_less_diff)
  then show i: "input_buffer b < length (input b)"
    by (simp add: offset_def)
  have j: "bitaccumulator b < 8"
    using assms(1) by (simp add: placed_def)
  have "hd (rest b) = bitlist (input b) ! offset b"
    using o by (simp add: rest_def hd_drop_conv_nth)
  also have "\<dots> = bit (input b ! input_buffer b) (7 - bitaccumulator b)"
    using nth_bitlist [OF i j] by (simp add: offset_def)
  finally show "drop_bit (7 - bitaccumulator b) (ucast (input b ! input_buffer b)) AND 1
      = (of_bool (hd (rest b)) :: u32)"
    by (intro bit_word_eqI) (auto simp: bit_simps)
qed

lemma push_or_bit: "push_bit 1 v OR of_bool x = 2 * v + (of_bool x :: u32)"
proof -
  have "push_bit 1 v OR of_bool x = push_bit 1 v + (of_bool x :: u32)"
    by (rule disjunctive_add [symmetric]) (auto simp: bit_simps bit_0)
  then show ?thesis by (simp add: push_bit_eq_mult mult.commute)
qed

lemma readbits_loop_foldl:
  "placed b \<Longrightarrow> n \<le> length (rest b) \<Longrightarrow>
   readbits_loop n v b = Some (foldl (\<lambda>a x. 2 * a + of_bool x) v (take n (rest b)), skip n b)"
proof (induction n arbitrary: v b)
  case (Suc n)
  have ne: "rest b \<noteq> []" using Suc.prems by auto
  note nb = next_bit [OF Suc.prems(1) ne]
  have sk: "(if Suc (bitaccumulator b) = 8
        then b\<lparr>input_buffer := Suc (input_buffer b), bitaccumulator := 0\<rparr>
        else b\<lparr>bitaccumulator := Suc (bitaccumulator b)\<rparr>) = skip 1 b"
    using Suc.prems(1) by (cases b) (auto simp: skip_def offset_def placed_def)
  have "readbits_loop (Suc n) v b = readbits_loop n (2 * v + of_bool (hd (rest b))) (skip 1 b)"
    unfolding readbits_loop.simps rd_Some [OF nb(1)] bind.bind_lunit Let_def nb(2) sk push_or_bit ..
  also have "\<dots> = Some (foldl (\<lambda>a x. 2 * a + of_bool x) (2 * v + of_bool (hd (rest b)))
      (take n (rest (skip 1 b))), skip n (skip 1 b))"
    using Suc.prems by (intro Suc.IH placed_skip) (auto simp: Suc_le_eq)
  finally show ?case
    using ne by (cases "rest b") simp_all
qed simp

lemma readbits_loop_spec:
  "placed b \<Longrightarrow> n \<le> length (rest b) \<Longrightarrow>
   readbits_loop n 0 b = Some (of_nat (bits_nat (take n (rest b))), skip n b)"
  using foldl_word_bits [of 0] by (simp add: readbits_loop_foldl bits_nat_def)

lemma available: "placed b \<Longrightarrow>
   (length (input b) - input_buffer b) * 8 < bitaccumulator b + n \<longleftrightarrow> length (rest b) < n"
  by (auto simp: placed_def length_rest offset_def)

lemma readbits_16_spec:
  assumes "placed b" "\<not> decode_error b" "n \<le> 16" "n \<le> length (rest b)"
  shows "readbits_16 b (int n) = Some (of_nat (bits_nat (take n (rest b))), skip n b)"
  using assms by (auto simp: readbits_16_def available readbits_loop_spec)

lemma readbits_16_short:
  assumes "placed b" "decode_error b \<or> n < 0 \<or> 16 < n \<or> length (rest b) < nat n"
  shows "readbits_16 b n = Some (0, decode_fail b)"
  using assms by (auto simp: readbits_16_def available)

lemma unat_less_iff_take_bit: "unat (v :: u32) < 2 ^ k \<longleftrightarrow> take_bit k v = v"
  by (simp add: word_unat_eq_iff unsigned_take_bit_eq take_bit_nat_eq_self_iff)

lemma push_or_low: "unat y < 2 ^ k \<Longrightarrow> push_bit k x OR y = push_bit k x + (y :: u32)"
proof (rule disjunctive_add [symmetric])
  fix i
  assume "unat y < 2 ^ k"
  then have "take_bit k y = y"
    by (simp add: unat_less_iff_take_bit)
  then have "bit y i \<Longrightarrow> i < k"
    by (metis bit_take_bit_iff)
  then show "\<not> bit (push_bit k x) i \<or> \<not> bit y i"
    by (auto simp: bit_simps)
qed

lemma readbits_spec:
  assumes "placed b" "\<not> decode_error b" "n \<le> 32" "n \<le> length (rest b)"
  shows "readbits b (int n) = Some (of_nat (bits_nat (take n (rest b))), skip n b)"
proof (cases "n > 16")
  case True
  define k where "k = n - 16"
  have n: "n = 16 + k" "k \<le> 16" using True assms(3) by (auto simp: k_def)
  let ?hi = "take 16 (rest b)" and ?lo = "take k (drop 16 (rest b))"
  have split: "take n (rest b) = ?hi @ ?lo"
    using n by (simp add: take_add)
  have len: "length ?lo = k" using assms(4) n by simp
  have mk: "min (length (rest b) - 16) k = k" using assms(4) n by simp
  have "bits_nat ?lo < 2 ^ k"
    using bits_nat_less [of ?lo] len by simp
  moreover have "(2::nat) ^ k \<le> 2 ^ 16"
    using n by (intro power_increasing) auto
  ultimately have "unat (of_nat (bits_nat ?lo) :: u32) < 2 ^ k"
    by (simp add: unat_of_nat)
  then have "push_bit k (of_nat (bits_nat ?hi)) OR (of_nat (bits_nat ?lo) :: u32)
      = of_nat (bits_nat (?hi @ ?lo))"
    by (subst push_or_low) (simp_all add: bits_nat_append mk push_bit_eq_mult)
  moreover have "readbits_16 b 16 = Some (of_nat (bits_nat ?hi), skip 16 b)"
    using readbits_16_spec [of b 16] assms n by simp
  moreover have "readbits_16 (skip 16 b) (int k) = Some (of_nat (bits_nat ?lo), skip k (skip 16 b))"
    using readbits_16_spec [of "skip 16 b" k] assms n by (simp add: placed_skip)
  moreover have "int n - 16 = int k" "nat (int n - 16) = k" using n by simp_all
  ultimately show ?thesis
    using True assms(3) n unfolding readbits_def split by simp
qed (use assms readbits_16_spec in \<open>auto simp: readbits_def\<close>)

subsection \<open>Every read stays inside the input\<close>

text \<open>What every operation on the stream keeps.\<close>

definition reads :: "bitstream \<Rightarrow> bitstream \<Rightarrow> bool" where
  "reads b b' \<longleftrightarrow> input b' = input b \<and> (placed b \<longrightarrow> placed b') \<and> (decode_error b \<longrightarrow> decode_error b')"

lemma reads_refl [simp]: "reads b b" and reads_fail [simp]: "reads b (decode_fail b)"
  by (simp_all add: reads_def placed_def offset_def)

lemma reads_trans: "reads a b \<Longrightarrow> reads b c \<Longrightarrow> reads a c"
  by (simp add: reads_def)

lemma reads_skip: "n \<le> length (rest b) \<Longrightarrow> reads b (skip n b)"
  by (simp add: reads_def placed_skip)

lemma readbits_16_total:
  assumes "placed b"
  shows "\<exists>v b'. readbits_16 b n = Some (v, b') \<and> reads b b' \<and> unat v < 2 ^ nat n"
proof (cases "decode_error b \<or> n < 0 \<or> 16 < n \<or> length (rest b) < nat n")
  case True
  then show ?thesis using readbits_16_short [OF assms True] by simp
next
  case False
  then have l: "length (take (nat n) (rest b)) = nat n" "nat n \<le> 16" by auto
  have "bits_nat (take (nat n) (rest b)) < 2 ^ nat n"
    using bits_nat_less [of "take (nat n) (rest b)"] l by simp
  moreover have "(2::nat) ^ nat n \<le> 2 ^ 16"
    using l by (intro power_increasing) auto
  ultimately show ?thesis
    using readbits_16_spec [of b "nat n"] False assms by (auto simp: reads_skip unat_of_nat)
qed

lemma readbits_total:
  assumes "placed b"
  shows "\<exists>v b'. readbits b n = Some (v, b') \<and> reads b b' \<and> unat v < 2 ^ nat n"
proof (cases "n < 0 \<or> n > 32")
  case True
  then show ?thesis by (auto simp: readbits_def)
next
  case False
  obtain h b1 where h: "readbits_16 b 16 = Some (h, b1)" "reads b b1" "unat h < 2 ^ 16"
    using readbits_16_total [OF assms, of 16] by auto
  moreover from this obtain l b2 where l: "readbits_16 b1 (n - 16) = Some (l, b2)" "reads b1 b2"
      "unat l < 2 ^ nat (n - 16)"
    using readbits_16_total [of b1 "n - 16"] assms by (auto simp: reads_def)
  moreover obtain v b3 where "readbits_16 b n = Some (v, b3)" "reads b b3" "unat v < 2 ^ nat n"
    using readbits_16_total [OF assms, of n] by auto
  moreover have "unat (push_bit (nat (n - 16)) h OR l) < 2 ^ nat n" if "n > 16"
  proof -
    have "take_bit 16 h = h" "take_bit (nat (n - 16)) l = l"
      using h(3) l(3) by (simp_all only: unat_less_iff_take_bit)
    then have "bit h i \<Longrightarrow> i < 16" "bit l i \<Longrightarrow> i < nat (n - 16)" for i
      by (metis bit_take_bit_iff)+
    then have "take_bit (nat n) (push_bit (nat (n - 16)) h OR l) = push_bit (nat (n - 16)) h OR l"
      using that by (intro bit_word_eqI) (fastforce simp: bit_simps)
    then show ?thesis by (simp only: unat_less_iff_take_bit)
  qed
  ultimately show ?thesis
    using False by (auto simp: readbits_def intro: reads_trans)
qed

lemma readbit_total: "placed b \<Longrightarrow> \<exists>v b'. readbit b = Some (v, b') \<and> reads b b'"
  using readbits_16_total [of b 1] by (auto simp: readbit_def)

lemma unreadbits_reads: "reads b (unreadbits b n)"
proof (cases "n < 0 \<or> n > int (offset b)")
  case False
  then have "unreadbits b n = b\<lparr>input_buffer := (offset b - nat n) div 8,
      bitaccumulator := (offset b - nat n) mod 8\<rparr>"
    by (auto simp: unreadbits_def offset_def Let_def)
  moreover have "offset \<dots> = offset b - nat n"
    by (simp add: offset_def)
  ultimately show ?thesis
    unfolding reads_def placed_def by (auto intro: le_trans [OF diff_le_self])
qed (auto simp: unreadbits_def offset_def Let_def)

lemma rice_prefix_total:
  "placed b \<Longrightarrow> \<exists>x b'. rice_prefix n b = Some (x, b') \<and> reads b b' \<and> x \<le> n"
proof (induction n arbitrary: b)
  case (Suc n)
  obtain v b1 where b1: "readbit b = Some (v, b1)" "reads b b1"
    using readbit_total [OF Suc.prems] by auto
  then have "placed b1" using Suc.prems by (simp add: reads_def)
  then obtain x b2 where "rice_prefix n b1 = Some (x, b2)" "reads b1 b2" "x \<le> n"
    using Suc.IH by blast
  then show ?case using b1 by (auto intro: reads_trans)
qed simp

text \<open>
  A decoded value is bounded by its two forms: the masked raw value, or the quotient times
  \<open>2 ^ k - 1\<close> plus the remainder.
\<close>

lemma unat_mask_shift: "1 \<le> r \<Longrightarrow> r \<le> 32 \<Longrightarrow> unat (v AND drop_bit (nat (32 - r)) (0xFFFFFFFF :: u32)) < 2 ^ nat r"
proof -
  assume r: "1 \<le> r" "r \<le> 32"
  have "drop_bit (nat (32 - r)) (0xFFFFFFFF :: u32) = mask (nat r)"
  proof (rule bit_word_eqI)
    fix n
    assume "n < LENGTH(32)"
    have ff: "(0xFFFFFFFF :: u32) = mask 32" by (simp add: mask_eq_exp_minus_1)
    show "bit (drop_bit (nat (32 - r)) (0xFFFFFFFF :: u32)) n = bit (mask (nat r) :: u32) n"
      unfolding ff bit_drop_bit_eq o_def bit_mask_iff using r \<open>n < LENGTH(32)\<close> by auto
  qed
  then have "unat (v AND drop_bit (nat (32 - r)) (0xFFFFFFFF :: u32)) = take_bit (nat r) (unat v)"
    by (simp flip: take_bit_eq_mask add: unsigned_take_bit_eq)
  then show ?thesis by simp
qed

lemma and_all_ones: "v AND (0xFFFFFFFF :: u32) = v"
proof -
  have ff: "(0xFFFFFFFF :: u32) = mask 32" by (simp add: mask_eq_exp_minus_1)
  show ?thesis by (rule bit_word_eqI) (simp only: ff bit_simps, auto)
qed

lemma unat_add_le: "unat (a + b :: u32) \<le> unat a + unat b"
  and unat_mult_le: "unat (a * b :: u32) \<le> unat a * unat b"
  by (simp_all only: unat_word_ariths mod_less_eq_dividend)

lemma unat_power_minus_one: "k < 32 \<Longrightarrow> unat (push_bit k 1 - 1 :: u32) = 2 ^ k - 1"
proof -
  assume "k < 32"
  then have "take_bit 32 ((2::nat) ^ k) = 2 ^ k"
    by (intro take_bit_nat_eq_self power_strict_increasing) auto
  then have p: "unat (push_bit k 1 :: u32) = 2 ^ k"
    by (simp only: unsigned_push_bit_eq) (simp add: push_bit_eq_mult)
  then have "push_bit k (1 :: u32) \<noteq> 0"
    by (metis power_not_zero unat_0 zero_neq_numeral)
  with p show ?thesis by (simp add: unat_minus_one)
qed

lemma entropy_decode_value_total:
  assumes "placed b" "1 \<le> rss" "rss \<le> 17" "0 \<le> k" "k \<le> 24"
  shows "\<exists>v b'. entropy_decode_value b rss k kmask = Some (v, b') \<and> reads b b' \<and>
           (kmask = 0xFFFFFFFF \<longrightarrow> unat v < 2 ^ 28)"
proof -
  obtain x b1 where b1: "rice_prefix (Suc RICE_THRESHOLD) b = Some (x, b1)" "reads b b1" "x \<le> 9"
    using rice_prefix_total [OF assms(1), of "Suc RICE_THRESHOLD"] by (auto simp: RICE_THRESHOLD_def)
  then have p1: "placed b1" using assms(1) by (simp add: reads_def)
  consider "x > 8" | "x \<le> 8" "k = 1" | "x \<le> 8" "k \<noteq> 1" by linarith
  then show ?thesis
  proof cases
    case 1
    obtain v b2 where b2: "readbits b1 rss = Some (v, b2)" "reads b1 b2"
      using readbits_total [OF p1] by blast
    have "unat (v AND drop_bit (nat (32 - rss)) (0xFFFFFFFF :: u32)) < 2 ^ nat rss"
      using unat_mask_shift [of rss v] assms by simp
    also have "(2::nat) ^ nat rss \<le> 2 ^ 17"
      using assms by (intro power_increasing) auto
    finally show ?thesis
      using 1 b1 b2 assms by (auto simp: entropy_decode_value_def RICE_THRESHOLD_def shr32_def intro: reads_trans)
  next
    case 2
    then have "unat (of_nat x :: u32) < 2 ^ 28" by (simp add: unat_of_nat)
    then show ?thesis
      using 2 b1 by (auto simp: entropy_decode_value_def RICE_THRESHOLD_def)
  next
    case 3
    obtain e b2 where b2: "readbits b1 k = Some (e, b2)" "reads b1 b2" "unat e < 2 ^ nat k"
      using readbits_total [OF p1] by blast
    have "nat k < 32" using assms by simp
    define q where "q = push_bit (nat k) (1 :: u32) - 1"
    have "(2::nat) ^ nat k \<le> 2 ^ 24"
      using assms by (intro power_increasing) auto
    then have q: "unat q \<le> 2 ^ 24" and e: "unat e \<le> 2 ^ 24"
      using b2(3) unat_power_minus_one [OF \<open>nat k < 32\<close>] by (simp_all add: q_def)
    have xq: "unat (of_nat x * q) \<le> 8 * 2 ^ 24"
    proof -
      have "unat (of_nat x * q) \<le> unat (of_nat x :: u32) * unat q"
        by (rule unat_mult_le)
      also have "\<dots> \<le> 8 * 2 ^ 24"
        using 3 q by (intro mult_le_mono) (simp_all add: unat_of_nat)
      finally show ?thesis .
    qed
    have "unat (e - 1) \<le> unat e" if "1 <s e"
    proof -
      have "e \<noteq> 0" using that by (auto simp: word_sless_alt)
      then show ?thesis by (simp add: unat_minus_one)
    qed
    then have "unat (of_nat x * q + (e - 1)) < 2 ^ 28" if "1 <s e"
      using unat_add_le [of "of_nat x * q" "e - 1"] xq e that by force
    moreover have "unat (of_nat x * q) < 2 ^ 28" using xq by simp
    ultimately show ?thesis
      using 3 b1 b2 assms unreadbits_reads [of b2 1]
      by (auto simp: entropy_decode_value_def RICE_THRESHOLD_def shl32_def q_def and_all_ones Let_def
               intro: reads_trans)
  qed
qed

subsection \<open>The entropy decoder stays inside its buffers\<close>

lemma clz_ge: "unat v < 2 ^ n \<Longrightarrow> n \<le> 32 \<Longrightarrow> 32 - int n \<le> count_leading_zeros v"
proof -
  assume v: "unat v < 2 ^ n" and n: "n \<le> 32"
  have zeros: "\<not> bit v i" if "n \<le> i" for i
    using v that by (metis unat_less_iff_take_bit bit_take_bit_iff leD)
  have "rev [0..<32] = rev [n..<32] @ rev [0..<n]"
    using n by (metis rev_append upt_add_eq_append le_add_diff_inverse zero_le)
  moreover have "takeWhile (\<lambda>i. \<not> bit v i) (rev [n..<32] @ rev [0..<n])
      = rev [n..<32] @ takeWhile (\<lambda>i. \<not> bit v i) (rev [0..<n])"
    using zeros by (intro takeWhile_append2) auto
  ultimately show ?thesis
    using n by (simp add: count_leading_zeros_def del: upt_Suc)
qed

lemma clz_le: "2 ^ n \<le> unat v \<Longrightarrow> count_leading_zeros v \<le> 31 - int n"
proof -
  assume v: "2 ^ n \<le> unat v"
  then have "take_bit n v \<noteq> v" by (simp flip: unat_less_iff_take_bit)
  moreover have "take_bit n v = v" if "\<forall>i. bit v i \<longrightarrow> i < n"
    using that by (intro bit_word_eqI) (auto simp: bit_take_bit_iff)
  ultimately obtain i where i: "n \<le> i" "bit v i"
    by (meson not_less)
  then have "i < 32" using bit_imp_le_length [of v i] by simp
  have "[0..<32] = [0..<i] @ i # [Suc i..<32]"
    using \<open>i < 32\<close> upt_add_eq_append [of 0 i "32 - i"] by (simp add: upt_conv_Cons del: upt_Suc)
  then have "rev [0..<32] = rev [Suc i..<32] @ i # rev [0..<i]"
    by (simp del: upt_Suc)
  then have "takeWhile (\<lambda>i. \<not> bit v i) (rev [0..<32]) = takeWhile (\<lambda>i. \<not> bit v i) (rev [Suc i..<32])"
    using i by (simp add: takeWhile_tail del: upt_Suc)
  moreover have "length (takeWhile (\<lambda>i. \<not> bit v i) (rev [Suc i..<32])) \<le> 31 - i"
    using length_takeWhile_le [of "\<lambda>i. \<not> bit v i" "rev [Suc i..<32]"] by simp
  ultimately show ?thesis
    using i \<open>i < 32\<close> by (simp add: count_leading_zeros_def del: upt_Suc)
qed

lemma clz_max: "count_leading_zeros v \<le> 32"
proof -
  have "length (rev [0..<32]) = 32" by (simp only: length_rev length_upt)
  then have "length (takeWhile (\<lambda>i. \<not> bit v i) (rev [0..<32])) \<le> 32"
    by (metis length_takeWhile_le)
  then show ?thesis unfolding count_leading_zeros_def by linarith
qed

lemma unat_signed_drop_bit: "unat (h :: u32) < 2 ^ 31 \<Longrightarrow> unat (signed_drop_bit n h) = unat h div 2 ^ n"
proof -
  assume "unat h < 2 ^ 31"
  then have "\<not> bit h i" if "31 \<le> i" for i
    using that by (metis unat_less_iff_take_bit bit_take_bit_iff leD)
  then have "signed_drop_bit n h = drop_bit n h"
    by (intro bit_word_eqI) (auto simp: bit_simps)
  then show ?thesis by (simp add: unat_drop_bit)
qed

lemma rice_k_range:
  assumes "0 \<le> kmod" "kmod \<le> 24" "unat h < 2 ^ 25"
  shows "0 \<le> rice_k kmod h \<and> rice_k kmod h \<le> 24"
proof -
  let ?v = "signed_drop_bit 9 h + 3"
  have "unat (signed_drop_bit 9 h) = unat h div 512"
    using assms(3) by (simp add: unat_signed_drop_bit)
  then have v: "unat ?v = unat h div 512 + 3"
    using assms(3) unat_add_le [of "signed_drop_bit 9 h" 3] by (simp add: unat_word_ariths)
  have "15 \<le> count_leading_zeros ?v" "count_leading_zeros ?v \<le> 30"
    using clz_ge [of ?v 17] clz_le [of 1 ?v] assms(3) unfolding v by simp_all
  then show ?thesis
    using assms unfolding rice_k_def Let_def by simp
qed

text \<open>The number of bits of a run length is in range when the history is below 128.\<close>

lemma rice_run_range:
  assumes "unat h < 128"
  shows "0 \<le> count_leading_zeros h + cdiv (sint (h + 16)) 64 - 24 \<and>
         count_leading_zeros h + cdiv (sint (h + 16)) 64 - 24 \<le> 10"
proof -
  have u: "uint h < 128" unfolding uint_nat using assms by linarith
  have "sint (h + 16) = sint (of_int (uint h + 16) :: u32)"
    by (simp only: of_int_add word_of_int_uint of_int_numeral)
  also have "\<dots> = uint h + 16"
    using u unsigned_greater_eq [of h, where 'a = int] by (intro sint_of_int_32) linarith+
  finally have "sint (h + 16) = uint h + 16" .
  moreover have "25 \<le> count_leading_zeros h" "count_leading_zeros h \<le> 32"
    using clz_ge [of h 7] clz_max [of h] assms by simp_all
  moreover have "0 \<le> uint h" by simp
  moreover from this have "0 \<le> (uint h + 16) div 64" "(uint h + 16) div 64 \<le> 2"
    using u by (simp_all add: pos_imp_zdiv_nonneg_iff)
  ultimately show ?thesis
    by (simp add: cdiv_nonneg)
qed

end
