(* ===== verification/Alac_Bounds.thy ===== *)
theory Alac_Bounds
  imports Alac
begin

section \<open>The ALAC routines stay inside their buffers\<close>

text \<open>
  For the Rice parameters up to which the history cannot overflow (a multiplier of at most
  64 and at most 24 remainder bits), the entropy decoder, the predictor and the
  de-interlacers are defined for every input and keep the sizes of their buffers.
\<close>

subsection \<open>Entropy decoding\<close>

lemma nat_div_512: "m \<le> 512 \<Longrightarrow> (h :: nat) * m div 512 \<le> h"
proof -
  assume "m \<le> 512"
  then have "h * m \<le> h * 512" by simp
  then have "h * m div 512 \<le> h * 512 div 512" by (rule div_le_mono)
  then show ?thesis by simp
qed

text \<open>The history never passes \<open>2 ^ 25\<close>: what decays is at least what is added.\<close>

lemma history_step:
  assumes "h < 2 ^ 25" "d \<le> 65535" "m \<le> (64 :: nat)"
  shows "h * m < 2 ^ 31" "h + d * m - h * m div 512 < 2 ^ 25"
proof -
  have "h * m \<le> h * 64" using assms(3) by (intro mult_le_mono) auto
  also have "\<dots> < 2 ^ 31" using assms(1) by simp
  finally show "h * m < 2 ^ 31" .
  define D where "D = d * m"
  have dm: "D \<le> 65535 * m" using assms unfolding D_def by (intro mult_le_mono) auto
  define H where "H = 33554431 - h"
  have h: "h + H = 33554431" using assms by (simp add: H_def)
  define P q N where "P = h * m" and "q = P div 512" and "N = H * m"
  have "P = 512 * q + P mod 512" "P mod 512 < 512"
    by (simp_all add: q_def)
  then have "P < 512 * q + 512" by linarith
  moreover have "33554431 * m = P + N"
    unfolding h [symmetric] P_def N_def by (simp add: distrib_right)
  moreover have "N \<le> H * 512" using assms(3) unfolding N_def by (intro mult_le_mono) auto
  ultimately have "h + D < q + 33554432"
    using dm h by linarith
  then have "h + D - q < 33554432" by linarith
  then show "h + d * m - h * m div 512 < 2 ^ 25" by (simp add: q_def P_def D_def)
qed

lemma history_update:
  fixes h d m :: u32
  assumes "unat h < 2 ^ 25" "unat d \<le> 65535" "unat m \<le> 64"
  shows "unat (h + (d * m - signed_drop_bit 9 (h * m))) < 2 ^ 25"
proof -
  note hs = history_step [OF assms]
  have hm: "unat (h * m) = unat h * unat m"
    using hs(1) by (simp add: unat_word_ariths)
  have "unat d * unat m \<le> 65535 * 64" using assms by (intro mult_le_mono) auto
  then have dm: "unat (d * m) = unat d * unat m" "unat d * unat m \<le> 65535 * 64"
    by (simp_all add: unat_word_ariths)
  define s where "s = signed_drop_bit 9 (h * m)"
  have s: "unat s = unat h * unat m div 512"
    using hs(1) hm by (simp add: s_def unat_signed_drop_bit)
  have "unat h * unat m div 512 \<le> unat h"
    using nat_div_512 assms(3) by simp
  have sum: "unat (h + d * m) = unat h + unat d * unat m"
    using assms(1) dm(2) by (simp add: unat_word_ariths(1) dm(1))
  have "h + (d * m - s) = (h + d * m) - s" by (simp only: add_diff_eq)
  moreover have "unat ((h + d * m) - s) = unat (h + d * m) - unat s"
    by (rule unat_sub) (use \<open>unat h * unat m div 512 \<le> unat h\<close> in \<open>simp add: word_le_nat_alt sum s\<close>)
  ultimately show ?thesis
    using hs(2) by (simp only: s_def [symmetric] sum s)
qed

lemma rice_sample_total:
  assumes "placed b" "1 \<le> rss" "rss \<le> 17" "0 \<le> kmod" "kmod \<le> 24" "unat mult \<le> 64"
    and "unat h < 2 ^ 25" "unat sm \<le> 1"
  shows "\<exists>f h' b'. rice_sample b rss kmod mult h sm = Some ((f, h'), b') \<and> reads b b' \<and> unat h' < 2 ^ 25"
proof -
  obtain v b' where v: "entropy_decode_value b rss (rice_k kmod h) 0xFFFFFFFF = Some (v, b')"
      "reads b b'" "unat v < 2 ^ 28"
    using entropy_decode_value_total [OF assms(1-3), of "rice_k kmod h" "0xFFFFFFFF"]
      rice_k_range [OF assms(4,5,7)] by auto
  define d where "d = v + sm"
  have "unat d < 2 ^ 31"
    using v(3) assms(8) unat_add_le [of v sm] by (simp add: d_def)
  then have "0xFFFF <s d \<longleftrightarrow> 65535 < unat d"
    by (simp add: word_sless_alt unat_small_sint uint_numeral_iff)
  then have "unat (h + (d * mult - signed_drop_bit 9 (h * mult))) < 2 ^ 25" if "\<not> 0xFFFF <s d"
    using history_update [of h d mult] assms that by simp
  then show ?thesis
    using v by (simp add: rice_sample_def Let_def d_def)
qed

lemma rice_run_total:
  assumes "placed b" "unat h < 128"
  shows "\<exists>n b'. rice_run b h kmask = Some (n, b') \<and> reads b b'"
proof -
  let ?k = "count_leading_zeros h + cdiv (sint (h + 16)) 64 - 24"
  have "0 \<le> ?k" "?k \<le> 24" using rice_run_range [OF assms(2)] by simp_all
  then show ?thesis
    using entropy_decode_value_total [of b 16 ?k kmask] assms(1) by (auto simp: rice_run_def)
qed

lemma rice_loop_total:
  assumes "1 \<le> rss" "rss \<le> 17" "0 \<le> kmod" "kmod \<le> 24" "unat mult \<le> 64"
  shows "placed b \<Longrightarrow> unat h < 2 ^ 25 \<Longrightarrow> unat sm \<le> 1 \<Longrightarrow> n \<le> sz \<Longrightarrow> sz \<le> length out \<Longrightarrow>
    \<exists>out' b'. rice_loop sz rss kmod mult kmask n out h sm b = Some (out', b') \<and>
      length out' = length out \<and> reads b b'"
proof (induction n arbitrary: out h sm b rule: less_induct)
  case (less n)
  show ?case
  proof (cases n)
    case (Suc m)
    obtain f h' b1 where r: "rice_sample b rss kmod mult h sm = Some ((f, h'), b1)" "reads b b1"
        "unat h' < 2 ^ 25"
      using rice_sample_total [OF less.prems(1) assms less.prems(2,3)] by auto
    have p1: "placed b1" using r less.prems by (simp add: reads_def)
    let ?c = "sz - Suc m" and ?out = "out[sz - Suc m := f]"
    have c: "?c < length out" using less.prems Suc by simp
    consider "decode_error b1" | "\<not> decode_error b1" "\<not> (sint h' < 128 \<and> m > 0)"
      | "\<not> decode_error b1" "sint h' < 128" "m > 0" by blast
    then show ?thesis
    proof cases
      case 1
      then show ?thesis using r Suc by simp
    next
      case 2
      then have "\<exists>out' b'. rice_loop sz rss kmod mult kmask m ?out h' 0 b1 = Some (out', b') \<and>
          length out' = length ?out \<and> reads b1 b'"
        using less.IH [of m b1 h' 0 ?out] Suc p1 r less.prems by simp
      then show ?thesis using 2 r Suc c by (auto simp: wr_Some intro: reads_trans)
    next
      case 3
      have "unat h' < 128" using 3 r(3) unat_small_sint [of h'] by (simp add: uint_numeral_iff)
      then obtain bl b2 where b2: "rice_run b1 h' kmask = Some (bl, b2)" "reads b1 b2"
        using rice_run_total [OF p1] by blast
      show ?thesis
      proof (cases "decode_error b2 \<or> sint bl < 0 \<or> sint bl > int m")
        case True
        then show ?thesis
          using 3 r Suc c b2 by (auto simp: wr_Some intro: reads_trans)
      next
        case False
        then have m: "unat bl \<le> m"
          using unat_nonneg_sint [of bl] by linarith
        define out2 where "out2 = take (Suc ?c) ?out @ replicate (unat bl) 0 @ drop (Suc ?c + unat bl) ?out"
        define sm2 :: u32 where "sm2 = (if 0xFFFF <s bl then 0 else 1)"
        have fits: "Suc ?c + unat bl \<le> length ?out"
          using m less.prems Suc by simp
        then have len: "length out2 = length out" by (simp add: out2_def)
        have o2: "take (Suc ?c) ?out @ replicate (unat bl) 0 @ drop (Suc (?c + unat bl)) out = out2"
          by (simp add: out2_def)
        have "unat sm2 \<le> 1" by (simp add: sm2_def)
        moreover have "placed b2" using b2 p1 by (simp add: reads_def)
        ultimately have "\<exists>out' b'. rice_loop sz rss kmod mult kmask (m - unat bl) out2 0 sm2 b2 = Some (out', b') \<and>
            length out' = length out2 \<and> reads b2 b'"
          using less.prems Suc len by (intro less.IH) auto
        moreover have "reads b b2" using r(2) b2(2) by (rule reads_trans)
        ultimately show ?thesis
          using 3 False r Suc c b2 fits len
          by (auto simp: wr_Some wr_range_Some Let_def o2 sm2_def [symmetric] intro: reads_trans)
      qed
    qed
  qed simp
qed

lemma entropy_rice_decode_total:
  assumes "placed b" "1 \<le> rss" "rss \<le> 17" "0 \<le> kmod" "kmod \<le> 24" "unat mult \<le> 64"
    and "unat h < 2 ^ 25" "n \<le> length out"
  shows "\<exists>out' b'. entropy_rice_decode b out n rss h kmod mult kmask = Some (out', b') \<and>
           length out' = length out \<and> reads b b'"
  unfolding entropy_rice_decode_def
  by (rule rice_loop_total [OF assms(2-6,1,7)]) (use assms(8) in simp_all)

subsection \<open>Prediction\<close>

lemma SIGN_EXTENDED32_total: "1 \<le> n \<Longrightarrow> n \<le> 32 \<Longrightarrow> \<exists>w. SIGN_EXTENDED32 v n = Some w"
  by (simp add: SIGN_EXTENDED32_def shl32_def sar32_def)

lemma fir_difference_total:
  assumes "Suc i < length errors" "Suc i < length out" "1 \<le> rss" "rss \<le> 32"
  shows "\<exists>out'. fir_difference errors rss i out = Some out' \<and> length out' = length out"
proof -
  obtain w where "SIGN_EXTENDED32 (out ! i + errors ! Suc i) rss = Some w"
    using SIGN_EXTENDED32_total [OF assms(3,4)] by blast
  then show ?thesis
    using assms by (simp add: fir_difference_def rd_Some wr_Some)
qed

lemma fir_differences_total:
  assumes "n < length errors" "n < length out" "1 \<le> rss" "rss \<le> 32"
  shows "\<exists>out'. for_loop n (fir_difference errors rss) 0 out = Some out' \<and> length out' = length out"
proof (rule for_loop_inv [where P = "\<lambda>i xs. length xs = length out"])
  fix j and s :: "u32 list"
  assume "j < 0 + n" "length s = length out"
  then show "\<exists>s'. fir_difference errors rss j s = Some s' \<and> length s' = length out"
    using fir_difference_total [of j errors s rss] assms by simp
qed simp

lemma fir_sum_total:
  "j \<le> num \<Longrightarrow> p + num < length out \<Longrightarrow> j \<le> length coef \<Longrightarrow> \<exists>v. fir_sum out coef p num j = Some v"
proof (induction j)
  case (Suc j)
  then obtain v where "fir_sum out coef p num j = Some v" by auto
  then show ?case using Suc.prems by (simp add: rd_Some)
qed simp

lemma fir_adapt_total:
  "m \<le> num \<Longrightarrow> p + num < length out \<Longrightarrow> m \<le> length coef \<Longrightarrow> 0 \<le> quant \<Longrightarrow> quant < 32 \<Longrightarrow>
   \<exists>coef'. fir_adapt out p num quant pos m e coef = Some coef' \<and> length coef' = length coef"
proof (induction m arbitrary: e coef)
  case (Suc m)
  have "p + (num - m) < length out" using Suc.prems by linarith
  moreover have "\<exists>coef'. fir_adapt out p num quant pos m e' (coef[m := c]) = Some coef' \<and>
      length coef' = length coef" for e' c
    using Suc.IH [of "coef[m := c]" e'] Suc.prems by simp
  ultimately show ?case
    using Suc.prems by (simp add: rd_Some wr_Some sar32_def Let_def)
qed simp

lemma fir_step_total:
  assumes "Suc num \<le> i" "i < length errors" "i < length out" "num \<le> length coef"
    and "1 \<le> quant" "quant \<le> 31" "1 \<le> rss" "rss \<le> 32"
  shows "\<exists>out' coef'. fir_step errors rss num quant i (out, coef) = Some (out', coef') \<and>
           length out' = length out \<and> length coef' = length coef"
proof -
  define p where "p = i - Suc num"
  have p: "p + Suc num = i" "p + num < length out" "p < length out"
    using assms by (simp_all add: p_def)
  obtain sum where "fir_sum out coef p num num = Some sum"
    using fir_sum_total [of num num p out coef] p assms by auto
  moreover obtain w where "SIGN_EXTENDED32 (signed_drop_bit (nat quant) (push_bit (nat (quant - 1)) 1 + sum)
      + out ! p + errors ! i) rss = Some w"
    using SIGN_EXTENDED32_total assms by blast
  moreover obtain t where "fir_adapt (out[i := w]) p num quant True num (errors ! i) coef = Some t"
      "length t = length coef"
    using fir_adapt_total [of num num p "out[i := w]" coef quant] p assms by fastforce
  moreover obtain f where "fir_adapt (out[i := w]) p num quant False num (errors ! i) coef = Some f"
      "length f = length coef"
    using fir_adapt_total [of num num p "out[i := w]" coef quant] p assms by fastforce
  ultimately show ?thesis
    using p(3) assms p(1) by (simp add: fir_step_def p_def [symmetric] rd_Some wr_Some shl32_def sar32_def Let_def)
qed

lemma predictor_total:
  assumes "0 < n" "n \<le> length errors" "n \<le> length out" "num \<le> length coef"
    and "num \<noteq> 0 \<longrightarrow> 1 \<le> quant \<and> quant \<le> 31" "num \<noteq> 31 \<longrightarrow> num < n" "1 \<le> rss" "rss \<le> 32"
  shows "\<exists>out'. predictor_decompress_fir_adapt errors out n rss coef num quant = Some out' \<and>
           length out' = length out"
proof -
  let ?out = "out[0 := errors ! 0]"
  have first: "rd errors 0 = Some (errors ! 0)" "wr out 0 (errors ! 0) = Some ?out"
    using assms by (auto simp: rd_def wr_def)
  consider "num = 0" | "num = 31" | "num \<noteq> 0" "num \<noteq> 31" by blast
  then show ?thesis
  proof cases
    case 1
    then show ?thesis
      using first assms by (auto simp: predictor_decompress_fir_adapt_def rd_range_Some wr_range_Some)
  next
    case 2
    then show ?thesis
      using first assms fir_differences_total [of "n - 1" errors ?out rss]
      by (simp add: predictor_decompress_fir_adapt_def)
  next
    case 3
    obtain warm where w: "for_loop num (fir_difference errors rss) 0 ?out = Some warm" "length warm = length out"
      using fir_differences_total [of num errors ?out rss] 3 assms by auto
    have "\<exists>r. for_loop (n - Suc num) (fir_step errors rss num quant) (Suc num) (warm, coef) = Some r \<and>
        length (fst r) = length out \<and> length (snd r) = length coef"
    proof (rule for_loop_inv [where P = "\<lambda>i r. length (fst r) = length out \<and> length (snd r) = length coef"])
      fix i and r :: "u32 list \<times> u16 list"
      assume i: "Suc num \<le> i" "i < Suc num + (n - Suc num)"
        and r: "length (fst r) = length out \<and> length (snd r) = length coef"
      obtain xs c where oc: "r = (xs, c)" by (cases r)
      have "\<exists>xs' c'. fir_step errors rss num quant i (xs, c) = Some (xs', c') \<and>
          length xs' = length xs \<and> length c' = length c"
        using i r oc 3 assms by (intro fir_step_total) auto
      then show "\<exists>r'. fir_step errors rss num quant i r = Some r' \<and>
          length (fst r') = length out \<and> length (snd r') = length coef"
        using r oc by auto
    qed (use w in simp)
    then show ?thesis
      using 3 first w by (fastforce simp: predictor_decompress_fir_adapt_def)
  qed
qed

subsection \<open>De-interlacing\<close>

lemma store16_total: "2 * i + 2 \<le> length out \<Longrightarrow> \<exists>out'. store16 out i v = Some out' \<and> length out' = length out"
  by (simp add: store16_def wr_range_Some)

lemma store24_total: "i + 3 \<le> length out \<Longrightarrow> \<exists>out'. store24 out i v = Some out' \<and> length out' = length out"
  by (simp add: store24_def wr_range_Some)

text \<open>The last pair that is stored ends at \<open>n * channels\<close> samples.\<close>

lemma sample_index: "i < n \<Longrightarrow> i * c + c \<le> n * (c :: nat)"
  using mult_le_mono1 [of "Suc i" n c] by simp

lemma deinterlace_16_total:
  assumes "n \<le> length a" "n \<le> length b" "unat shift \<le> 31" "n * 4 \<le> length out"
  shows "\<exists>out'. deinterlace_16 a b out 2 n shift leftweight = Some out' \<and> length out' = length out"
  unfolding deinterlace_16_def
proof (rule for_loop_inv [where P = "\<lambda>i xs. length xs = length out"])
  fix i and s :: buf
  assume "i < 0 + n" and s: "length s = length out"
  then have i: "i < length a" "i < length b" "i * 4 + 4 \<le> length s"
    using assms sample_index [of i n 4] by simp_all
  have "uint shift < 32" using assms(3) by (simp add: uint_numeral_iff)
  then have sh: "\<exists>w. sar32 v (uint shift) = Some w" for v by (simp add: sar32_def)
  have st: "\<exists>s'. do { out \<leftarrow> store16 s (i * 2) l; store16 out (i * 2 + 1) r } = Some s' \<and>
      length s' = length out" for l r
  proof -
    obtain s1 where "store16 s (i * 2) l = Some s1" "length s1 = length s"
      using store16_total [of "i * 2" s l] i by auto
    then show ?thesis using store16_total [of "i * 2 + 1" s1 r] i s by simp
  qed
  obtain w where "sar32 (b ! i * ucast leftweight) (uint shift) = Some w" using sh by blast
  then show "\<exists>s'. (do { a \<leftarrow> rd a i; b \<leftarrow> rd b i;
      (left, right) \<leftarrow> (if leftweight \<noteq> 0
        then do { s \<leftarrow> sar32 (b * ucast leftweight) (uint shift);
                  let right = (ucast (a - s) :: u16);
                  Some (ucast (scast right + b :: u32), right) }
        else Some (ucast a, ucast b));
      out \<leftarrow> store16 s (i * 2) left; store16 out (i * 2 + 1) right }) = Some s' \<and>
      length s' = length out"
    using i st by (simp add: rd_Some Let_def)
qed simp

end
