(* ===== verification/Alac_Decoder.thy ===== *)
theory Alac_Decoder
  imports Alac
begin

section \<open>ALAC frames and the decoder adapter\<close>

text \<open>
  \<open>decode_frame\<close> of \<open>shared/codec/alac.c\<close>, split at the blocks of its two \<open>case\<close> branches, the
  pool of decoder contexts, and the checked adapter \<open>shared/codec/alac_decoder.c\<close>.
\<close>

subsection \<open>Decoder contexts\<close>

record alac_file =
  stream :: bitstream
  in_use :: bool
  samplesize :: int
  numchannels :: int
  bytespersample :: int
  predicterror_buffer_a :: "u32 list"
  predicterror_buffer_b :: "u32 list"
  outputsamples_buffer_a :: "u32 list"
  outputsamples_buffer_b :: "u32 list"
  uncompressed_bytes_buffer_a :: "u32 list"
  uncompressed_bytes_buffer_b :: "u32 list"
  setinfo_max_samples_per_frame :: u32
  setinfo_7a :: u8
  setinfo_sample_size :: u8
  setinfo_rice_historymult :: u8
  setinfo_rice_initialhistory :: u8
  setinfo_rice_kmodifier :: u8
  setinfo_7f :: u8
  setinfo_80 :: u16
  setinfo_82 :: u32
  setinfo_86 :: u32
  setinfo_8a_rate :: u32

definition ALAC_MAX_SAMPLES_PER_FRAME :: nat where
  "ALAC_MAX_SAMPLES_PER_FRAME = 352"

definition ALAC_MAX_CONTEXTS :: nat where
  "ALAC_MAX_CONTEXTS = 1"

text \<open>A context after \<open>memset(alac, 0, sizeof(*alac))\<close>.\<close>

definition alac_zero :: alac_file where
  "alac_zero =
     (let z = replicate ALAC_MAX_SAMPLES_PER_FRAME 0 in
      \<lparr>stream = \<lparr>input = [], input_buffer = 0, bitaccumulator = 0, decode_error = False\<rparr>,
       in_use = False, samplesize = 0, numchannels = 0, bytespersample = 0,
       predicterror_buffer_a = z, predicterror_buffer_b = z,
       outputsamples_buffer_a = z, outputsamples_buffer_b = z,
       uncompressed_bytes_buffer_a = z, uncompressed_bytes_buffer_b = z,
       setinfo_max_samples_per_frame = 0, setinfo_7a = 0, setinfo_sample_size = 0,
       setinfo_rice_historymult = 0, setinfo_rice_initialhistory = 0, setinfo_rice_kmodifier = 0,
       setinfo_7f = 0, setinfo_80 = 0, setinfo_82 = 0, setinfo_86 = 0, setinfo_8a_rate = 0\<rparr>)"

definition alac_free :: "alac_file \<Rightarrow> alac_file" where
  "alac_free alac = alac_zero"

text \<open>Zeros the first \<open>max_samples_per_frame\<close> elements of each buffer.\<close>

definition zero_prefix :: "nat \<Rightarrow> u32 list \<Rightarrow> u32 list" where
  "zero_prefix n xs = replicate (min n (length xs)) 0 @ drop n xs"

definition alac_allocate_buffers :: "alac_file \<Rightarrow> alac_file" where
  "alac_allocate_buffers alac =
     (let m = setinfo_max_samples_per_frame alac;
          m = (if m = 0 \<or> unat m > ALAC_MAX_SAMPLES_PER_FRAME
               then of_nat ALAC_MAX_SAMPLES_PER_FRAME else m);
          z = zero_prefix (unat m) in
      alac\<lparr>setinfo_max_samples_per_frame := m,
           predicterror_buffer_a := z (predicterror_buffer_a alac),
           predicterror_buffer_b := z (predicterror_buffer_b alac),
           outputsamples_buffer_a := z (outputsamples_buffer_a alac),
           outputsamples_buffer_b := z (outputsamples_buffer_b alac),
           uncompressed_bytes_buffer_a := z (uncompressed_bytes_buffer_a alac),
           uncompressed_bytes_buffer_b := z (uncompressed_bytes_buffer_b alac)\<rparr>)"

text \<open>The codec configuration cookie; \<open>cookie\<close> starts at \<open>inputbuffer\<close>.\<close>

definition rd_be32 :: "buf \<Rightarrow> nat \<Rightarrow> u32 option" where
  "rd_be32 b p =
     do { x \<leftarrow> rd b p; y \<leftarrow> rd b (p + 1); z \<leftarrow> rd b (p + 2); w \<leftarrow> rd b (p + 3);
          Some (be32 x y z w) }"

definition alac_set_info :: "alac_file \<Rightarrow> buf \<Rightarrow> alac_file option" where
  "alac_set_info alac cookie =
     do { max_samples \<leftarrow> rd_be32 cookie 24;
          c7a \<leftarrow> rd cookie 28;
          sample_size \<leftarrow> rd cookie 29;
          historymult \<leftarrow> rd cookie 30;
          initialhistory \<leftarrow> rd cookie 31;
          kmodifier \<leftarrow> rd cookie 32;
          c7f \<leftarrow> rd cookie 33;
          hi \<leftarrow> rd cookie 34;
          lo \<leftarrow> rd cookie 35;
          c82 \<leftarrow> rd_be32 cookie 36;
          c86 \<leftarrow> rd_be32 cookie 40;
          rate \<leftarrow> rd_be32 cookie 44;
          let max_samples = (if unat max_samples > ALAC_MAX_SAMPLES_PER_FRAME
                             then of_nat ALAC_MAX_SAMPLES_PER_FRAME else max_samples);
          Some (alac_allocate_buffers
            (alac\<lparr>setinfo_max_samples_per_frame := max_samples, setinfo_7a := c7a,
                  setinfo_sample_size := sample_size, setinfo_rice_historymult := historymult,
                  setinfo_rice_initialhistory := initialhistory,
                  setinfo_rice_kmodifier := kmodifier, setinfo_7f := c7f,
                  setinfo_80 := be16 hi lo, setinfo_82 := c82, setinfo_86 := c86,
                  setinfo_8a_rate := rate\<rparr>)) }"

text \<open>
  The pool \<open>g_alac_pool\<close>; \<open>alac_create\<close> returns the index of the context taken.
\<close>

type_synonym alac_pool = "alac_file list"

definition alac_new :: "int \<Rightarrow> int \<Rightarrow> alac_file" where
  "alac_new sz channels =
     alac_allocate_buffers
       (alac_zero\<lparr>in_use := True, samplesize := sz, numchannels := channels,
                  bytespersample := cdiv sz 8 * channels,
                  setinfo_max_samples_per_frame := of_nat ALAC_MAX_SAMPLES_PER_FRAME\<rparr>)"

fun alac_create :: "alac_pool \<Rightarrow> int \<Rightarrow> int \<Rightarrow> (nat \<times> alac_pool) option" where
  "alac_create [] sz channels = None"
| "alac_create (c # pool) sz channels =
     (if \<not> in_use c then Some (0, alac_new sz channels # pool)
      else map_option (\<lambda>(i, p). (Suc i, c # p)) (alac_create pool sz channels))"

subsection \<open>Frames\<close>

text \<open>
  A block of \<open>decode_frame\<close> either returns from it, with the context and the value of
  \<open>*outputsize\<close>, or goes on with its results.
\<close>

datatype 'a flow = Return alac_file int | Go alac_file 'a

definition on_go ::
  "'a flow option \<Rightarrow> (alac_file \<Rightarrow> 'a \<Rightarrow> 'b flow option) \<Rightarrow> 'b flow option" where
  "on_go r f = (case r of None \<Rightarrow> None | Some (Return a n) \<Rightarrow> Some (Return a n) | Some (Go a x) \<Rightarrow> f a x)"

text \<open>\<open>readbits\<close> on the stream of a context.\<close>

definition take_bits :: "alac_file \<Rightarrow> int \<Rightarrow> (u32 \<times> alac_file) option" where
  "take_bits alac n = do { (v, s) \<leftarrow> readbits (stream alac) n; Some (v, alac\<lparr>stream := s\<rparr>) }"

abbreviation frame_error :: "alac_file \<Rightarrow> alac_file" where
  "frame_error alac \<equiv> alac\<lparr>stream := decode_fail (stream alac)\<rparr>"

definition set_output_size_checked :: "alac_file \<Rightarrow> int \<Rightarrow> int \<Rightarrow> int ret" where
  "set_output_size_checked alac outputsamples outbuffer_allocation_size =
     (if outputsamples \<le> 0 \<or> outputsamples > sint (setinfo_max_samples_per_frame alac) then Inl EFail
      else let required = outputsamples * bytespersample alac in
        if required \<le> 0 \<or> required > 2147483647 \<or> required > outbuffer_allocation_size
        then Inl EFail else Inr required)"

text \<open>
  The start of both branches.  The stereo branch has one bit more per sample.
\<close>

record frame_prefix =
  outputsamples :: nat
  frame_size :: int
  uncompressed_bytes :: int
  isnotcompressed :: bool
  readsamplesize :: int

definition read_prefix ::
  "alac_file \<Rightarrow> int \<Rightarrow> int \<Rightarrow> int \<Rightarrow> int \<Rightarrow> frame_prefix flow option" where
  "read_prefix alac samples allocation sz extra =
     do { (_, alac) \<leftarrow> take_bits alac 4;
          (_, alac) \<leftarrow> take_bits alac 12;
          (hassize, alac) \<leftarrow> take_bits alac 1;
          (ub, alac) \<leftarrow> take_bits alac 2;
          (notcompressed, alac) \<leftarrow> take_bits alac 1;
          (samples, alac, checked) \<leftarrow>
            (if hassize \<noteq> 0
             then do { (n, alac) \<leftarrow> take_bits alac 32;
                       Some (sint n, alac, set_output_size_checked alac (sint n) allocation) }
             else Some (samples, alac, Inr sz));
          case checked of
            Inl e \<Rightarrow> Some (Return alac 0)
          | Inr sz \<Rightarrow>
              (let rss = uint (setinfo_sample_size alac) - uint ub * 8 + extra in
               if rss \<le> 0 \<or> rss > 32 then Some (Return (frame_error alac) sz)
               else Some (Go alac \<lparr>outputsamples = nat samples, frame_size = sz,
                                   uncompressed_bytes = uint ub,
                                   isnotcompressed = (notcompressed \<noteq> 0), readsamplesize = rss\<rparr>)) }"

definition mono_prefix :: "alac_file \<Rightarrow> int \<Rightarrow> int \<Rightarrow> int \<Rightarrow> frame_prefix flow option" where
  "mono_prefix alac samples allocation sz = read_prefix alac samples allocation sz 0"

definition stereo_prefix :: "alac_file \<Rightarrow> int \<Rightarrow> int \<Rightarrow> int \<Rightarrow> frame_prefix flow option" where
  "stereo_prefix alac samples allocation sz = read_prefix alac samples allocation sz 1"

text \<open>The parameters of one channel's predictor, with its coefficients.\<close>

record predictor =
  quantitization :: int
  ricemodifier :: int
  coef_num :: nat
  coef_table :: "u16 list"

fun read_coefs :: "nat \<Rightarrow> alac_file \<Rightarrow> (u16 list \<times> alac_file) option" where
  "read_coefs 0 alac = Some ([], alac)"
| "read_coefs (Suc n) alac =
     do { (c, alac) \<leftarrow> take_bits alac 16;
          (cs, alac) \<leftarrow> read_coefs n alac;
          Some (ucast c # cs, alac) }"

definition read_predictor :: "alac_file \<Rightarrow> frame_prefix \<Rightarrow> predictor flow option" where
  "read_predictor alac p =
     do { (prediction_type, alac) \<leftarrow> take_bits alac 4;
          (quant, alac) \<leftarrow> take_bits alac 4;
          (rice, alac) \<leftarrow> take_bits alac 3;
          (num, alac) \<leftarrow> take_bits alac 5;
          if prediction_type \<noteq> 0 \<or> (num \<noteq> 0 \<and> quant = 0) \<or>
             (unat num \<noteq> 31 \<and> unat num \<ge> outputsamples p)
          then Some (Return (frame_error alac) (frame_size p))
          else do { (coefs, alac) \<leftarrow> read_coefs (unat num) alac;
                    Some (Go alac \<lparr>quantitization = uint quant, ricemodifier = uint rice,
                                   coef_num = unat num, coef_table = coefs\<rparr>) } }"

text \<open>Entropy decoding and prediction of one channel, for its two buffers.\<close>

definition decode_channel ::
  "alac_file \<Rightarrow> frame_prefix \<Rightarrow> predictor \<Rightarrow> u32 list \<Rightarrow> u32 list
   \<Rightarrow> (u32 list \<times> u32 list \<times> alac_file) option" where
  "decode_channel alac p pr errors samples =
     do { one \<leftarrow> shl32 1 (uint (setinfo_rice_kmodifier alac));
          (errors, s) \<leftarrow> entropy_rice_decode (stream alac) errors (outputsamples p) (readsamplesize p)
            (ucast (setinfo_rice_initialhistory alac)) (uint (setinfo_rice_kmodifier alac))
            (of_int (cdiv (ricemodifier pr * uint (setinfo_rice_historymult alac)) 4)) (one - 1);
          samples \<leftarrow> predictor_decompress_fir_adapt errors samples (outputsamples p)
            (readsamplesize p) (coef_table pr) (coef_num pr) (quantitization pr);
          Some (errors, samples, alac\<lparr>stream := s\<rparr>) }"

definition mono_low_bytes :: "frame_prefix \<Rightarrow> nat \<Rightarrow> alac_file \<Rightarrow> alac_file option" where
  "mono_low_bytes p li alac =
     do { (v, alac) \<leftarrow> take_bits alac (uncompressed_bytes p * 8);
          low \<leftarrow> wr (uncompressed_bytes_buffer_a alac) li v;
          Some (alac\<lparr>uncompressed_bytes_buffer_a := low\<rparr>) }"

definition mono_compressed :: "alac_file \<Rightarrow> frame_prefix \<Rightarrow> unit flow option" where
  "mono_compressed alac p =
     do { (_, alac) \<leftarrow> take_bits alac 8;
          (_, alac) \<leftarrow> take_bits alac 8;
          on_go (read_predictor alac p) (\<lambda>alac pr.
            do { alac \<leftarrow>
                   (if uncompressed_bytes p \<noteq> 0
                    then for_loop (outputsamples p) (mono_low_bytes p) 0 alac else Some alac);
                 (errors, samples, alac) \<leftarrow> decode_channel alac p pr
                   (predicterror_buffer_a alac) (outputsamples_buffer_a alac);
                 Some (Go (alac\<lparr>predicterror_buffer_a := errors,
                                outputsamples_buffer_a := samples\<rparr>) ()) }) }"

text \<open>One sample of an uncompressed frame.\<close>

definition read_raw_sample :: "alac_file \<Rightarrow> (u32 \<times> alac_file) option" where
  "read_raw_sample alac =
     (let bits = uint (setinfo_sample_size alac) in
      if bits \<le> 16
      then do { (v, alac) \<leftarrow> take_bits alac bits;
                v \<leftarrow> SIGN_EXTENDED32 v bits;
                Some (v, alac) }
      else do { (high, alac) \<leftarrow> take_bits alac 16;
                high \<leftarrow> shl32 high (bits - 16);
                (low, alac) \<leftarrow> take_bits alac (bits - 16);
                Some (SignExtend24 (high OR low), alac) })"

definition mono_raw_sample :: "nat \<Rightarrow> alac_file \<Rightarrow> alac_file option" where
  "mono_raw_sample i alac =
     do { (v, alac) \<leftarrow> read_raw_sample alac;
          samples \<leftarrow> wr (outputsamples_buffer_a alac) i v;
          Some (alac\<lparr>outputsamples_buffer_a := samples\<rparr>) }"

definition mono_raw :: "alac_file \<Rightarrow> frame_prefix \<Rightarrow> alac_file option" where
  "mono_raw alac p = for_loop (outputsamples p) mono_raw_sample 0 alac"

definition mono_output :: "alac_file \<Rightarrow> frame_prefix \<Rightarrow> int \<Rightarrow> buf \<Rightarrow> buf option" where
  "mono_output alac p ub out =
     (if setinfo_sample_size alac = 16
      then for_loop (outputsamples p) (\<lambda>i out.
             do { v \<leftarrow> rd (outputsamples_buffer_a alac) i;
                  store16 out (i * nat (numchannels alac)) (ucast v) }) 0 out
      else if setinfo_sample_size alac = 24
      then for_loop (outputsamples p) (\<lambda>i out.
             do { v \<leftarrow> rd (outputsamples_buffer_a alac) i;
                  v \<leftarrow> append_low_bytes v ub (uncompressed_bytes_buffer_a alac) i;
                  store24 out (i * nat (numchannels alac) * 3) v }) 0 out
      else Some out)"

definition decode_mono ::
  "alac_file \<Rightarrow> int \<Rightarrow> int \<Rightarrow> int \<Rightarrow> buf \<Rightarrow> (alac_file \<times> buf \<times> int) option" where
  "decode_mono alac samples allocation sz out =
     do { r \<leftarrow> on_go (mono_prefix alac samples allocation sz) (\<lambda>alac p.
            if \<not> isnotcompressed p
            then on_go (mono_compressed alac p) (\<lambda>alac _. Some (Go alac (p, uncompressed_bytes p)))
            else do { alac \<leftarrow> mono_raw alac p; Some (Go alac (p, 0)) });
          case r of
            Return alac n \<Rightarrow> Some (alac, out, n)
          | Go alac (p, ub) \<Rightarrow>
              do { out \<leftarrow> mono_output alac p ub out; Some (alac, out, frame_size p) } }"

text \<open>The stereo branch: the interlacing parameters are the result.\<close>

definition stereo_low_bytes :: "frame_prefix \<Rightarrow> nat \<Rightarrow> alac_file \<Rightarrow> alac_file option" where
  "stereo_low_bytes p li alac =
     do { (v, alac) \<leftarrow> take_bits alac (uncompressed_bytes p * 8);
          low_a \<leftarrow> wr (uncompressed_bytes_buffer_a alac) li v;
          (v, alac) \<leftarrow> take_bits alac (uncompressed_bytes p * 8);
          low_b \<leftarrow> wr (uncompressed_bytes_buffer_b alac) li v;
          Some (alac\<lparr>uncompressed_bytes_buffer_a := low_a, uncompressed_bytes_buffer_b := low_b\<rparr>) }"

definition stereo_compressed :: "alac_file \<Rightarrow> frame_prefix \<Rightarrow> (u8 \<times> u8) flow option" where
  "stereo_compressed alac p =
     do { (shift, alac) \<leftarrow> take_bits alac 8;
          (leftweight, alac) \<leftarrow> take_bits alac 8;
          if unat shift > 31 then Some (Return (frame_error alac) (frame_size p))
          else on_go (read_predictor alac p) (\<lambda>alac pr_a.
            on_go (read_predictor alac p) (\<lambda>alac pr_b.
            do { alac \<leftarrow>
                   (if uncompressed_bytes p \<noteq> 0
                    then for_loop (outputsamples p) (stereo_low_bytes p) 0 alac else Some alac);
                 (errors_a, samples_a, alac) \<leftarrow> decode_channel alac p pr_a
                   (predicterror_buffer_a alac) (outputsamples_buffer_a alac);
                 (errors_b, samples_b, alac) \<leftarrow> decode_channel alac p pr_b
                   (predicterror_buffer_b alac) (outputsamples_buffer_b alac);
                 Some (Go (alac\<lparr>predicterror_buffer_a := errors_a,
                                outputsamples_buffer_a := samples_a,
                                predicterror_buffer_b := errors_b,
                                outputsamples_buffer_b := samples_b\<rparr>)
                          (ucast shift, ucast leftweight)) })) }"

definition stereo_raw_sample :: "nat \<Rightarrow> alac_file \<Rightarrow> alac_file option" where
  "stereo_raw_sample i alac =
     do { (a, alac) \<leftarrow> read_raw_sample alac;
          (b, alac) \<leftarrow> read_raw_sample alac;
          samples_a \<leftarrow> wr (outputsamples_buffer_a alac) i a;
          samples_b \<leftarrow> wr (outputsamples_buffer_b alac) i b;
          Some (alac\<lparr>outputsamples_buffer_a := samples_a, outputsamples_buffer_b := samples_b\<rparr>) }"

definition stereo_raw :: "alac_file \<Rightarrow> frame_prefix \<Rightarrow> alac_file option" where
  "stereo_raw alac p = for_loop (outputsamples p) stereo_raw_sample 0 alac"

definition stereo_output ::
  "alac_file \<Rightarrow> frame_prefix \<Rightarrow> int \<Rightarrow> u8 \<Rightarrow> u8 \<Rightarrow> buf \<Rightarrow> buf option" where
  "stereo_output alac p ub shift leftweight out =
     (if setinfo_sample_size alac = 16
      then deinterlace_16 (outputsamples_buffer_a alac) (outputsamples_buffer_b alac) out
             (nat (numchannels alac)) (outputsamples p) shift leftweight
      else if setinfo_sample_size alac = 24
      then deinterlace_24 (outputsamples_buffer_a alac) (outputsamples_buffer_b alac) ub
             (uncompressed_bytes_buffer_a alac) (uncompressed_bytes_buffer_b alac) out
             (nat (numchannels alac)) (outputsamples p) shift leftweight
      else Some out)"

definition decode_stereo ::
  "alac_file \<Rightarrow> int \<Rightarrow> int \<Rightarrow> int \<Rightarrow> buf \<Rightarrow> (alac_file \<times> buf \<times> int) option" where
  "decode_stereo alac samples allocation sz out =
     do { r \<leftarrow> on_go (stereo_prefix alac samples allocation sz) (\<lambda>alac p.
            if \<not> isnotcompressed p
            then on_go (stereo_compressed alac p) (\<lambda>alac (shift, leftweight).
                   Some (Go alac (p, uncompressed_bytes p, shift, leftweight)))
            else do { alac \<leftarrow> stereo_raw alac p; Some (Go alac (p, 0, 0, 0)) });
          case r of
            Return alac n \<Rightarrow> Some (alac, out, n)
          | Go alac (p, ub, shift, leftweight) \<Rightarrow>
              do { out \<leftarrow> stereo_output alac p ub shift leftweight out;
                   Some (alac, out, frame_size p) } }"

text \<open>\<open>*outputsize\<close> is \<open>sz\<close> before and the last component after.\<close>

definition decode_frame ::
  "alac_file \<Rightarrow> buf \<Rightarrow> int \<Rightarrow> (alac_file \<times> buf \<times> int) option" where
  "decode_frame alac out sz =
     do { let alac = alac\<lparr>stream := (stream alac)\<lparr>input_buffer := 0, bitaccumulator := 0\<rparr>\<rparr>;
          (channels, alac) \<leftarrow> take_bits alac 3;
          if uint channels > 1 \<or> uint channels + 1 \<noteq> numchannels alac
          then Some (frame_error alac, out, sz)
          else case set_output_size_checked alac
                      (sint (setinfo_max_samples_per_frame alac)) sz of
              Inl e \<Rightarrow> Some (alac, out, 0)
            | Inr required \<Rightarrow>
                (if channels = 0
                 then decode_mono alac (sint (setinfo_max_samples_per_frame alac)) sz required out
                 else decode_stereo alac (sint (setinfo_max_samples_per_frame alac)) sz required out) }"

definition alac_decode_frame ::
  "alac_file \<Rightarrow> buf \<Rightarrow> buf \<Rightarrow> int \<Rightarrow> (alac_file \<times> buf \<times> int) option" where
  "alac_decode_frame alac inbuffer out sz =
     (if inbuffer = [] \<or> samplesize alac \<noteq> 16 then Some (alac, out, 0)
      else do { let alac = alac\<lparr>stream := (stream alac)\<lparr>input := inbuffer, decode_error := False\<rparr>\<rparr>;
                (alac, out, n) \<leftarrow> decode_frame alac out sz;
                Some (alac, out, if decode_error (stream alac) then 0 else n) })"

subsection \<open>The adapter\<close>

text \<open>\<open>impl\<close> is the index of a context of the pool.\<close>

record alac_decoder =
  frame_length :: u32
  bit_depth :: u8
  channels :: u8
  sample_rate :: u32
  fmtp :: "u32 list"
  impl :: "nat option"

text \<open>A configured value with its default: \<open>(fmtp_count > i) ? (uint8_t)fmtp[i] : d\<close>.\<close>

definition fmtp_or :: "u32 list \<Rightarrow> nat \<Rightarrow> 'a::len word \<Rightarrow> 'a word" where
  "fmtp_or fs i d = (if length fs > i then ucast (fs ! i) else d)"

definition alac_configure :: "alac_decoder \<Rightarrow> alac_file \<Rightarrow> alac_file" where
  "alac_configure d alac =
     alac_allocate_buffers
       (alac\<lparr>setinfo_max_samples_per_frame := frame_length d,
             setinfo_7a := fmtp_or (fmtp d) 1 0,
             setinfo_sample_size := bit_depth d,
             setinfo_rice_historymult := fmtp_or (fmtp d) 3 40,
             setinfo_rice_initialhistory := fmtp_or (fmtp d) 4 10,
             setinfo_rice_kmodifier := fmtp_or (fmtp d) 5 14,
             setinfo_7f := fmtp_or (fmtp d) 6 (channels d),
             setinfo_80 := fmtp_or (fmtp d) 7 255,
             setinfo_82 := fmtp_or (fmtp d) 8 0,
             setinfo_86 := fmtp_or (fmtp d) 9 0,
             setinfo_8a_rate := sample_rate d\<rparr>)"

text \<open>The configuration that \<open>alac_decoder_init\<close> settles on.\<close>

definition alac_negotiate :: "u32 list \<Rightarrow> u32 \<Rightarrow> u8 \<Rightarrow> u8 \<Rightarrow> u32 \<Rightarrow> alac_decoder" where
  "alac_negotiate fs frames_per_packet depth chans rate =
     \<lparr>frame_length = (if frames_per_packet \<noteq> 0 then frames_per_packet else 352),
      bit_depth = (let b = (if depth \<noteq> 0 then depth else 16) in if b \<noteq> 16 \<and> b \<noteq> 24 then 16 else b),
      channels = (let c = (if chans \<noteq> 0 then chans else 2) in if c = 0 \<or> unat c > 2 then 2 else c),
      sample_rate = (if rate \<noteq> 0 then rate else 44100),
      fmtp = take 12 fs, impl = None\<rparr>"

definition alac_decoder_init ::
  "alac_pool \<Rightarrow> u32 list \<Rightarrow> u32 \<Rightarrow> u8 \<Rightarrow> u8 \<Rightarrow> u32 \<Rightarrow> (int \<times> alac_decoder \<times> alac_pool)" where
  "alac_decoder_init pool fs frames_per_packet depth chans rate =
     (let d = alac_negotiate fs frames_per_packet depth chans rate in
      if unat (frame_length d) > ALAC_MAX_SAMPLES_PER_FRAME
      then (-1, \<lparr>frame_length = frame_length d, bit_depth = 0, channels = 0, sample_rate = 0,
                 fmtp = [], impl = None\<rparr>, pool)
      else case alac_create pool (uint (bit_depth d)) (uint (channels d)) of
          None \<Rightarrow> (-1, d, pool)
        | Some (i, pool) \<Rightarrow>
            (0, d\<lparr>impl := Some i\<rparr>, pool[i := alac_configure d (pool ! i)]))"

text \<open>The result is the code with what is stored in \<open>*output_samples\<close>, the output buffer and the pool.\<close>

definition alac_decoder_decode_frame ::
  "alac_decoder \<Rightarrow> alac_pool \<Rightarrow> buf \<Rightarrow> buf \<Rightarrow> nat \<Rightarrow> ((int \<times> nat option) \<times> buf \<times> alac_pool) option" where
  "alac_decoder_decode_frame d pool inbuffer out max_output_samples =
     (case impl d of
        None \<Rightarrow> Some ((-1, None), out, pool)
      | Some i \<Rightarrow>
          if inbuffer = [] \<or> max_output_samples = 0 then Some ((-1, None), out, pool)
          else do {
            alac \<leftarrow> rd pool i;
            (alac, out, n) \<leftarrow> alac_decode_frame alac inbuffer out
              (min (int max_output_samples * 2) 2147483647);
            let pool = pool[i := alac];
            if n \<le> 0 then Some ((-1, Some 0), out, pool)
            else let samples = nat n div 2 in
              if samples > max_output_samples \<or> samples mod unat (channels d) \<noteq> 0
              then Some ((-1, Some 0), out, pool)
              else Some ((0, Some samples), out, pool) })"

definition alac_decoder_close :: "alac_decoder \<Rightarrow> alac_pool \<Rightarrow> alac_decoder \<times> alac_pool" where
  "alac_decoder_close d pool =
     (case impl d of
        None \<Rightarrow> (d, pool)
      | Some i \<Rightarrow> (d\<lparr>impl := None\<rparr>, pool[i := alac_free (pool ! i)]))"

end
