(* ===== verification/Alac_Safety.thy ===== *)
theory Alac_Safety
  imports Alac_Decoder Alac_Bounds
begin

section \<open>The ALAC decoder on arbitrary input\<close>

text \<open>
  A context configured for 16-bit samples and for Rice parameters within the bounds of
  \<open>Alac_Bounds\<close> decodes every input without leaving its input, its working buffers or the
  output buffer, and reports a size that fits.
\<close>

subsection \<open>The invariant of a context\<close>

definition ready :: "alac_file \<Rightarrow> bool" where
  "ready a \<longleftrightarrow>
     placed (stream a) \<and>
     length (predicterror_buffer_a a) = 352 \<and> length (predicterror_buffer_b a) = 352 \<and>
     length (outputsamples_buffer_a a) = 352 \<and> length (outputsamples_buffer_b a) = 352 \<and>
     length (uncompressed_bytes_buffer_a a) = 352 \<and> length (uncompressed_bytes_buffer_b a) = 352 \<and>
     samplesize a = 16 \<and> setinfo_sample_size a = 16 \<and>
     (numchannels a = 1 \<or> numchannels a = 2) \<and> bytespersample a = 2 * numchannels a \<and>
     unat (setinfo_max_samples_per_frame a) \<le> 352 \<and>
     unat (setinfo_rice_kmodifier a) \<le> 24 \<and> unat (setinfo_rice_historymult a) \<le> 37"

text \<open>What every step of a frame keeps.\<close>

definition keeps :: "alac_file \<Rightarrow> alac_file \<Rightarrow> bool" where
  "keeps a a' \<longleftrightarrow> (ready a \<longrightarrow> ready a') \<and> numchannels a' = numchannels a"

lemma keeps_refl [simp]: "keeps a a"
  by (simp add: keeps_def)

lemma keeps_trans: "keeps a b \<Longrightarrow> keeps b c \<Longrightarrow> keeps a c"
  by (simp add: keeps_def)

lemma keeps_stream: "reads (stream a) s \<Longrightarrow> keeps a (a\<lparr>stream := s\<rparr>)"
  by (simp add: keeps_def ready_def reads_def)

lemma keeps_error [simp]: "keeps a (frame_error a)"
  by (simp add: keeps_stream)

lemma take_bits_total:
  "ready a \<Longrightarrow> \<exists>v a'. take_bits a n = Some (v, a') \<and> keeps a a' \<and> unat v < 2 ^ nat n"
  using readbits_total [of "stream a" n] by (auto simp: take_bits_def ready_def keeps_stream)

lemma take_bits_cases:
  assumes "ready a"
  obtains v a' where "take_bits a n = Some (v, a')" "keeps a a'" "ready a'" "unat v < 2 ^ nat n"
  using take_bits_total [OF assms, of n] assms by (auto simp: keeps_def)

subsection \<open>The blocks of a frame\<close>

text \<open>What a block that went on or returned leaves.\<close>

definition flow_ok :: "alac_file \<Rightarrow> int \<Rightarrow> ('a \<Rightarrow> bool) \<Rightarrow> 'a flow option \<Rightarrow> bool" where
  "flow_ok a alloc P r \<longleftrightarrow>
     (case r of
        None \<Rightarrow> False
      | Some (Return a' n) \<Rightarrow> keeps a a' \<and> (decode_error (stream a') \<or> n = 0)
      | Some (Go a' x) \<Rightarrow> keeps a a' \<and> P x)"

lemma flow_ok_simps [simp]:
  "\<not> flow_ok a alloc P None"
  "flow_ok a alloc P (Some (Return a' n)) \<longleftrightarrow> keeps a a' \<and> (decode_error (stream a') \<or> n = 0)"
  "flow_ok a alloc P (Some (Go a' x)) \<longleftrightarrow> keeps a a' \<and> P x"
  by (simp_all add: flow_ok_def)

lemma flow_ok_weaken: "flow_ok b alloc P r \<Longrightarrow> keeps a b \<Longrightarrow> flow_ok a alloc P r"
  by (auto simp: flow_ok_def split: option.splits flow.splits intro: keeps_trans)

lemma on_go_ok:
  assumes "flow_ok a alloc P r"
    and "\<And>b x. keeps a b \<Longrightarrow> P x \<Longrightarrow> flow_ok b alloc Q (f b x)"
  shows "flow_ok a alloc Q (on_go r f)"
proof (cases r)
  case (Some q)
  then show ?thesis
    using assms by (cases q) (auto simp: on_go_def intro: flow_ok_weaken)
qed (use assms in simp)

text \<open>Reading bits first.\<close>

lemma take_bits_flow:
  assumes "ready a"
    and "\<And>v b. keeps a b \<Longrightarrow> ready b \<Longrightarrow> unat v < 2 ^ nat n \<Longrightarrow> flow_ok b alloc P (f v b)"
  shows "flow_ok a alloc P (take_bits a n \<bind> (\<lambda>(v, b). f v b))"
proof -
  obtain v b where "take_bits a n = Some (v, b)" "keeps a b" "ready b" "unat v < 2 ^ nat n"
    using take_bits_cases [OF assms(1)] by metis
  then show ?thesis using assms(2) by (auto intro: flow_ok_weaken)
qed

definition frame_ok :: "int \<Rightarrow> int \<Rightarrow> frame_prefix \<Rightarrow> bool" where
  "frame_ok c alloc p \<longleftrightarrow>
     0 < outputsamples p \<and> outputsamples p \<le> 352 \<and>
     frame_size p = int (outputsamples p) * (2 * c) \<and> frame_size p \<le> alloc \<and>
     1 \<le> readsamplesize p \<and> readsamplesize p \<le> 17"

lemma set_output_size_checked_ok:
  assumes "ready a" "set_output_size_checked a n alloc = Inr sz"
  shows "0 < n" "n \<le> 352" "sz = n * (2 * numchannels a)" "sz \<le> alloc"
proof -
  have "sint (setinfo_max_samples_per_frame a) \<le> 352"
    using assms(1) unat_small_sint [of "setinfo_max_samples_per_frame a"]
    by (simp add: ready_def uint_numeral_iff)
  then show "0 < n" "n \<le> 352" "sz = n * (2 * numchannels a)" "sz \<le> alloc"
    using assms by (auto simp: set_output_size_checked_def ready_def Let_def split: if_splits)
qed

lemma errno_EFail [simp]: "(e :: errno) = EFail"
  by (cases e) simp

lemma read_prefix_ok:
  assumes "ready a" "extra = 0 \<or> extra = 1" "numchannels a = c"
    and "set_output_size_checked a samples alloc = Inr sz"
  shows "flow_ok a alloc (frame_ok c alloc) (read_prefix a samples alloc sz extra)"
proof -
  have rest: "flow_ok b alloc (frame_ok c alloc)
      (let rss = uint (setinfo_sample_size b) - uint ub * 8 + extra in
       if rss \<le> 0 \<or> rss > 32 then Some (Return (frame_error b) n)
       else Some (Go b \<lparr>outputsamples = nat m, frame_size = n, uncompressed_bytes = uint ub,
                        isnotcompressed = nc, readsamplesize = rss\<rparr>))"
    if "ready b" "0 < m" "m \<le> 352" "n = m * (2 * c)" "n \<le> alloc" for b m n nc and ub :: u32
  proof -
    define u where "u = uint ub"
    have "0 \<le> u" by (simp add: u_def)
    then show ?thesis
      using that assms(2) by (auto simp: Let_def frame_ok_def ready_def u_def [symmetric])
  qed
  show ?thesis
    unfolding read_prefix_def
    apply (rule take_bits_flow [OF assms(1)])
    apply (rule take_bits_flow, assumption)
    apply (rule take_bits_flow, assumption)
    apply (rule take_bits_flow, assumption)
    apply (rule take_bits_flow, assumption)
    subgoal premises prems for v1 a1 v2 a2 h a3 ub a4 nc a5
    proof (cases "h = 0")
      case True
      then show ?thesis
        using rest [OF prems(14)] set_output_size_checked_ok [OF assms(1,4)] assms(3) by simp
    next
      case False
      obtain n a6 where n: "take_bits a5 32 = Some (n, a6)" "keeps a5 a6" "ready a6"
        using take_bits_cases [OF prems(14)] by metis
      have "keeps a a6"
        using prems n by (meson keeps_trans)
      then have c: "numchannels a6 = c" using assms(3) by (simp add: keeps_def)
      show ?thesis
      proof (cases "set_output_size_checked a6 (sint n) alloc")
        case (Inr m)
        note so = set_output_size_checked_ok [OF n(3) Inr, unfolded c]
        have "flow_ok a5 alloc (frame_ok c alloc)
          (let rss = uint (setinfo_sample_size a6) - uint ub * 8 + extra in
           if rss \<le> 0 \<or> rss > 32 then Some (Return (frame_error a6) m)
           else Some (Go a6 \<lparr>outputsamples = nat (sint n), frame_size = m, uncompressed_bytes = uint ub,
                            isnotcompressed = (nc \<noteq> 0), readsamplesize = rss\<rparr>))"
          by (rule flow_ok_weaken [OF rest [OF n(3) so] n(2)])
        then show ?thesis using False n Inr by simp
      qed (use False n in simp)
    qed
    done
qed

definition predictor_ok :: "frame_prefix \<Rightarrow> predictor \<Rightarrow> bool" where
  "predictor_ok p pr \<longleftrightarrow>
     length (coef_table pr) = coef_num pr \<and>
     (coef_num pr \<noteq> 0 \<longrightarrow> 1 \<le> quantitization pr \<and> quantitization pr \<le> 31) \<and>
     (coef_num pr \<noteq> 31 \<longrightarrow> coef_num pr < outputsamples p) \<and>
     0 \<le> ricemodifier pr \<and> ricemodifier pr \<le> 7"

lemma read_coefs_total:
  "ready a \<Longrightarrow> \<exists>cs b. read_coefs n a = Some (cs, b) \<and> keeps a b \<and> length cs = n"
proof (induction n arbitrary: a)
  case (Suc n)
  obtain v a1 where 1: "take_bits a 16 = Some (v, a1)" "keeps a a1" "ready a1"
    using take_bits_cases [OF Suc.prems] by metis
  obtain cs b where "read_coefs n a1 = Some (cs, b)" "keeps a1 b" "length cs = n"
    using Suc.IH [OF 1(3)] by blast
  then show ?case using 1 by (auto intro: keeps_trans)
qed simp

lemma read_predictor_ok:
  assumes "ready a"
  shows "flow_ok a alloc (predictor_ok p) (read_predictor a p)"
  unfolding read_predictor_def
  apply (rule take_bits_flow [OF assms])
  apply (rule take_bits_flow, assumption)
  apply (rule take_bits_flow, assumption)
  apply (rule take_bits_flow, assumption)
  subgoal premises prems for v1 a1 quant a2 rice a3 num a4
  proof -
    obtain cs b where cs: "read_coefs (unat num) a4 = Some (cs, b)" "keeps a4 b" "length cs = unat num"
      using read_coefs_total [OF prems(11)] by blast
    have "unat quant < 16" "unat rice < 8" using prems by simp_all
    then have "uint quant \<le> 31" "uint rice \<le> 7" by (simp_all add: uint_numeral_iff)
    moreover have "quant \<noteq> 0 \<Longrightarrow> 1 \<le> uint quant"
      using uint_ge_0 [of quant] uint_0_iff [of quant] by linarith
    ultimately show ?thesis
      using cs by (auto simp: predictor_ok_def)
  qed
  done

text \<open>The multiplier that the frame selects is at most 64.\<close>

lemma history_multiplier:
  fixes hm :: u8
  assumes "0 \<le> r" "r \<le> 7" "unat hm \<le> 37"
  shows "unat (of_int (cdiv (r * uint hm) 4) :: u32) \<le> 64"
proof -
  define u where "u = uint hm"
  have u: "0 \<le> u" "u \<le> 37"
    using assms(3) by (simp_all add: u_def uint_numeral_iff)
  have "0 \<le> r * u" using assms u by simp
  moreover have "r * u \<le> 7 * 37" using assms u by (intro mult_mono) auto
  ultimately have "0 \<le> r * u div 4" "r * u div 4 \<le> 64"
    by (simp_all add: pos_imp_zdiv_nonneg_iff)
  then have "uint (of_int (r * u div 4) :: u32) = r * u div 4"
    by (simp add: unsigned_of_int take_bit_int_eq_self)
  then show ?thesis
    using \<open>0 \<le> r * u\<close> \<open>r * u div 4 \<le> 64\<close>
    by (simp add: cdiv_nonneg u_def [symmetric] flip: uint_numeral_iff(3))
qed

lemma decode_channel_total:
  assumes "ready a" "frame_ok c alloc p" "predictor_ok p pr" "length es = 352" "length xs = 352"
  shows "\<exists>es' xs' a'. decode_channel a p pr es xs = Some (es', xs', a') \<and> keeps a a' \<and>
           (\<exists>s. a' = a\<lparr>stream := s\<rparr> \<and> placed s) \<and> length es' = 352 \<and> length xs' = 352"
proof -
  let ?k = "uint (setinfo_rice_kmodifier a)"
  have k: "0 \<le> ?k" "?k \<le> 24"
    using assms(1) by (simp_all add: ready_def uint_numeral_iff)
  have mult: "unat (of_int (cdiv (ricemodifier pr * uint (setinfo_rice_historymult a)) 4) :: u32) \<le> 64"
    using assms(1,3) by (intro history_multiplier) (simp_all add: ready_def predictor_ok_def)
  have h: "unat (ucast (setinfo_rice_initialhistory a) :: u32) < 2 ^ 25"
    using order_less_trans [OF unat_u8_less, of "2 ^ 25"] by (simp add: unat_ucast_u8)
  have pl: "placed (stream a)" and rss: "1 \<le> readsamplesize p" "readsamplesize p \<le> 17"
    and n: "0 < outputsamples p" "outputsamples p \<le> 352"
    using assms by (simp_all add: ready_def frame_ok_def)
  obtain es' s where e: "entropy_rice_decode (stream a) es (outputsamples p) (readsamplesize p)
      (ucast (setinfo_rice_initialhistory a)) ?k
      (of_int (cdiv (ricemodifier pr * uint (setinfo_rice_historymult a)) 4)) (push_bit (nat ?k) 1 - 1) = Some (es', s)"
      "length es' = length es" "reads (stream a) s"
    using entropy_rice_decode_total [OF pl rss k mult h, of "outputsamples p" es] n(2)
    unfolding assms(4) by blast
  obtain xs' where x: "predictor_decompress_fir_adapt es' xs (outputsamples p) (readsamplesize p)
      (coef_table pr) (coef_num pr) (quantitization pr) = Some xs'" "length xs' = length xs"
    using predictor_total [of "outputsamples p" es' xs "coef_num pr" "coef_table pr" "quantitization pr" "readsamplesize p"]
      assms(3-5) e(2) rss n by (auto simp: predictor_ok_def)
  have "shl32 1 ?k = Some (push_bit (nat ?k) 1)" using k by (simp add: shl32_def)
  then have "decode_channel a p pr es xs = Some (es', xs', a\<lparr>stream := s\<rparr>)"
    using e x by (simp only: decode_channel_def bind.bind_lunit prod.case)
  then show ?thesis
    using e x assms(4,5) pl keeps_stream [OF e(3)] by (auto simp: reads_def)
qed

text \<open>
  The remainder width comes from the sender (\<open>fmtp[5]\<close>) unchecked; from 32 on the mask
  \<open>1 << kmodifier\<close> that every compressed channel computes is an illegal shift.
\<close>

lemma kmodifier_undefined:
  "32 \<le> unat (setinfo_rice_kmodifier a) \<Longrightarrow> decode_channel a p pr es xs = None"
  by (simp add: decode_channel_def shl32_def uint_numeral_iff not_less)

lemma keeps_buffers:
  "ready a \<Longrightarrow> length e1 = 352 \<Longrightarrow> length x1 = 352 \<Longrightarrow>
   keeps a (a\<lparr>predicterror_buffer_a := e1, outputsamples_buffer_a := x1\<rparr>)"
  "ready a \<Longrightarrow> length e1 = 352 \<Longrightarrow> length x1 = 352 \<Longrightarrow> length e2 = 352 \<Longrightarrow> length x2 = 352 \<Longrightarrow>
   keeps a (a\<lparr>predicterror_buffer_a := e1, outputsamples_buffer_a := x1,
              predicterror_buffer_b := e2, outputsamples_buffer_b := x2\<rparr>)"
  "ready a \<Longrightarrow> length x1 = 352 \<Longrightarrow> keeps a (a\<lparr>outputsamples_buffer_a := x1\<rparr>)"
  "ready a \<Longrightarrow> length x1 = 352 \<Longrightarrow> length x2 = 352 \<Longrightarrow>
   keeps a (a\<lparr>outputsamples_buffer_a := x1, outputsamples_buffer_b := x2\<rparr>)"
  "ready a \<Longrightarrow> length x1 = 352 \<Longrightarrow> keeps a (a\<lparr>uncompressed_bytes_buffer_a := x1\<rparr>)"
  "ready a \<Longrightarrow> length x1 = 352 \<Longrightarrow> length x2 = 352 \<Longrightarrow>
   keeps a (a\<lparr>uncompressed_bytes_buffer_a := x1, uncompressed_bytes_buffer_b := x2\<rparr>)"
  by (auto simp: keeps_def ready_def)

text \<open>A loop over the samples of a frame.\<close>

lemma sample_loop:
  assumes "ready a" "n \<le> 352"
    and "\<And>i b. i < 352 \<Longrightarrow> ready b \<Longrightarrow> \<exists>b'. f i b = Some b' \<and> keeps b b'"
  shows "\<exists>a'. for_loop n f 0 a = Some a' \<and> keeps a a' \<and> ready a'"
proof -
  have "\<exists>a'. for_loop n f 0 a = Some a' \<and> (keeps a a' \<and> ready a')"
  proof (rule for_loop_inv [where P = "\<lambda>_ b. keeps a b \<and> ready b"])
    fix j b
    assume "j < 0 + n" and b: "keeps a b \<and> ready b"
    then obtain b' where "f j b = Some b'" "keeps b b'"
      using assms by (metis add_0 order_less_le_trans)
    then show "\<exists>b'. f j b = Some b' \<and> (keeps a b' \<and> ready b')"
      using b by (auto simp: keeps_def)
  qed (use assms in simp)
  then show ?thesis by simp
qed

lemma ready_lengths:
  assumes "ready a"
  shows "length (predicterror_buffer_a a) = 352" "length (predicterror_buffer_b a) = 352"
    "length (outputsamples_buffer_a a) = 352" "length (outputsamples_buffer_b a) = 352"
    "length (uncompressed_bytes_buffer_a a) = 352" "length (uncompressed_bytes_buffer_b a) = 352"
  using assms by (simp_all add: ready_def)

text \<open>A bit read and a store, as the loop bodies do.\<close>

lemma mono_low_bytes_total: "i < 352 \<Longrightarrow> ready a \<Longrightarrow> \<exists>b. mono_low_bytes p i a = Some b \<and> keeps a b"
proof -
  assume i: "i < 352" and a: "ready a"
  obtain v b where b: "take_bits a (uncompressed_bytes p * 8) = Some (v, b)" "keeps a b" "ready b"
    using take_bits_cases [OF a] by metis
  show ?thesis
    using b i keeps_trans [OF b(2) keeps_buffers(5) [OF b(3)]]
    by (simp add: mono_low_bytes_def wr_Some ready_lengths)
qed

lemma stereo_low_bytes_total: "i < 352 \<Longrightarrow> ready a \<Longrightarrow> \<exists>b. stereo_low_bytes p i a = Some b \<and> keeps a b"
proof -
  assume i: "i < 352" and a: "ready a"
  obtain v b where b: "take_bits a (uncompressed_bytes p * 8) = Some (v, b)" "keeps a b" "ready b"
    using take_bits_cases [OF a] by metis
  obtain w c where c: "take_bits b (uncompressed_bytes p * 8) = Some (w, c)" "keeps b c" "ready c"
    using take_bits_cases [OF b(3)] by metis
  show ?thesis
    using b c i keeps_trans [OF keeps_trans [OF b(2) c(2)] keeps_buffers(6) [OF c(3)]]
    by (simp add: stereo_low_bytes_def wr_Some ready_lengths)
qed

lemma read_raw_sample_total: "ready a \<Longrightarrow> \<exists>v b. read_raw_sample a = Some (v, b) \<and> keeps a b \<and> ready b"
proof -
  assume a: "ready a"
  obtain v b where b: "take_bits a 16 = Some (v, b)" "keeps a b" "ready b"
    using take_bits_cases [OF a] by metis
  obtain w where "SIGN_EXTENDED32 v 16 = Some w"
    using SIGN_EXTENDED32_total [of 16 v] by auto
  moreover have "uint (setinfo_sample_size a) = 16" using a by (simp add: ready_def)
  ultimately show ?thesis
    using b by (simp add: read_raw_sample_def)
qed

lemma mono_raw_sample_total: "i < 352 \<Longrightarrow> ready a \<Longrightarrow> \<exists>b. mono_raw_sample i a = Some b \<and> keeps a b"
proof -
  assume i: "i < 352" and a: "ready a"
  obtain v b where b: "read_raw_sample a = Some (v, b)" "keeps a b" "ready b"
    using read_raw_sample_total [OF a] by blast
  show ?thesis
    using b i keeps_trans [OF b(2) keeps_buffers(3) [OF b(3)]]
    by (simp add: mono_raw_sample_def wr_Some ready_lengths)
qed

lemma stereo_raw_sample_total: "i < 352 \<Longrightarrow> ready a \<Longrightarrow> \<exists>b. stereo_raw_sample i a = Some b \<and> keeps a b"
proof -
  assume i: "i < 352" and a: "ready a"
  obtain v b where b: "read_raw_sample a = Some (v, b)" "keeps a b" "ready b"
    using read_raw_sample_total [OF a] by blast
  obtain w c where c: "read_raw_sample b = Some (w, c)" "keeps b c" "ready c"
    using read_raw_sample_total [OF b(3)] by blast
  show ?thesis
    using b c i keeps_trans [OF keeps_trans [OF b(2) c(2)] keeps_buffers(4) [OF c(3)]]
    by (simp add: stereo_raw_sample_def wr_Some ready_lengths)
qed

text \<open>The loop that reads the low bytes, when the frame has them.\<close>

lemma low_bytes_loop:
  assumes "ready a" "outputsamples p \<le> 352"
    and "\<And>i b. i < 352 \<Longrightarrow> ready b \<Longrightarrow> \<exists>b'. f i b = Some b' \<and> keeps b b'"
  obtains b where "(if uncompressed_bytes p \<noteq> 0 then for_loop (outputsamples p) f 0 a else Some a) = Some b"
    "keeps a b" "ready b"
proof (cases "uncompressed_bytes p = 0")
  case False
  have "\<exists>b. for_loop (outputsamples p) f 0 a = Some b \<and> keeps a b \<and> ready b"
    by (rule sample_loop [OF assms(1,2)]) (rule assms(3))
  then show ?thesis using that False by auto
qed (use that assms(1) in simp)

lemma ready_keeps: "ready a \<Longrightarrow> keeps a b \<Longrightarrow> ready b"
  by (simp add: keeps_def)

text \<open>What follows the predictors of a stereo frame.\<close>

lemma stereo_channels_ok:
  assumes "ready b" "frame_ok c alloc p" "predictor_ok p pr_a" "predictor_ok p pr_b" "P r"
  shows "flow_ok b alloc P
    (do { alac \<leftarrow> (if uncompressed_bytes p \<noteq> 0
                  then for_loop (outputsamples p) (stereo_low_bytes p) 0 b else Some b);
          (errors_a, samples_a, alac) \<leftarrow> decode_channel alac p pr_a
            (predicterror_buffer_a alac) (outputsamples_buffer_a alac);
          (errors_b, samples_b, alac) \<leftarrow> decode_channel alac p pr_b
            (predicterror_buffer_b alac) (outputsamples_buffer_b alac);
          Some (Go (alac\<lparr>predicterror_buffer_a := errors_a, outputsamples_buffer_a := samples_a,
                         predicterror_buffer_b := errors_b, outputsamples_buffer_b := samples_b\<rparr>) r) })"
proof -
  have "outputsamples p \<le> 352" using assms(2) by (simp add: frame_ok_def)
  then obtain b1 where b1: "(if uncompressed_bytes p \<noteq> 0 then for_loop (outputsamples p) (stereo_low_bytes p) 0 b
      else Some b) = Some b1" "keeps b b1" "ready b1"
    using low_bytes_loop [OF assms(1)] stereo_low_bytes_total by metis
  obtain ea xa b2 where b2: "decode_channel b1 p pr_a (predicterror_buffer_a b1) (outputsamples_buffer_a b1) =
      Some (ea, xa, b2)" "keeps b1 b2" "length ea = 352" "length xa = 352"
    using decode_channel_total [OF b1(3) assms(2,3)] ready_lengths [OF b1(3)] by metis
  note r2 = ready_keeps [OF b1(3) b2(2)]
  obtain eb xb b3 where b3: "decode_channel b2 p pr_b (predicterror_buffer_b b2) (outputsamples_buffer_b b2) =
      Some (eb, xb, b3)" "keeps b2 b3" "length eb = 352" "length xb = 352"
    using decode_channel_total [OF r2 assms(2,4)] ready_lengths [OF r2] by metis
  note r3 = ready_keeps [OF r2 b3(2)]
  have "keeps b (b3\<lparr>predicterror_buffer_a := ea, outputsamples_buffer_a := xa,
                   predicterror_buffer_b := eb, outputsamples_buffer_b := xb\<rparr>)"
    by (rule keeps_trans [OF b1(2) keeps_trans [OF b2(2) keeps_trans [OF b3(2) keeps_buffers(2)]]])
      (use r3 b2 b3 in simp_all)
  then show ?thesis
    using b1 b2 b3 assms(5) by simp
qed

lemma mono_compressed_ok:
  assumes "ready a" "frame_ok c alloc p"
  shows "flow_ok a alloc (\<lambda>_. True) (mono_compressed a p)"
  unfolding mono_compressed_def
  apply (rule take_bits_flow [OF assms(1)])
  apply (rule take_bits_flow, assumption)
  apply (rule on_go_ok, erule read_predictor_ok)
  subgoal premises prems for v1 a1 v2 a2 b pr
  proof -
    have b: "ready b" using prems by (simp add: keeps_def)
    have "outputsamples p \<le> 352" using assms(2) by (simp add: frame_ok_def)
    then obtain b1 where b1: "(if uncompressed_bytes p \<noteq> 0 then for_loop (outputsamples p) (mono_low_bytes p) 0 b
        else Some b) = Some b1" "keeps b b1" "ready b1"
      using low_bytes_loop [OF b] mono_low_bytes_total by metis
    obtain es xs b2 where b2: "decode_channel b1 p pr (predicterror_buffer_a b1) (outputsamples_buffer_a b1) =
        Some (es, xs, b2)" "keeps b1 b2" "length es = 352" "length xs = 352"
      using decode_channel_total [OF b1(3) assms(2) prems(8)] ready_lengths [OF b1(3)] by metis
    have "ready b2" using b1(3) b2(2) by (simp add: keeps_def)
    then show ?thesis
      using b1 b2 keeps_trans [OF keeps_trans [OF b1(2) b2(2)] keeps_buffers(1)] by simp
  qed
  done

lemma stereo_compressed_ok:
  assumes "ready a" "frame_ok c alloc p"
  shows "flow_ok a alloc (\<lambda>(shift, w). unat shift \<le> 31) (stereo_compressed a p)"
  unfolding stereo_compressed_def
  apply (rule take_bits_flow [OF assms(1)])
  apply (rule take_bits_flow, assumption)
  subgoal premises prems for shift a1 w a2
  proof (cases "unat shift > 31")
    case False
    then have sh: "case (ucast shift, ucast w) of (shift :: u8, w :: u8) \<Rightarrow> unat shift \<le> 31"
      by (simp add: unsigned_ucast_eq take_bit_nat_eq_self)
    show ?thesis
      unfolding if_not_P [OF False]
      by (rule on_go_ok, rule read_predictor_ok [OF prems(5)],
          rule on_go_ok, rule read_predictor_ok, erule ready_keeps [OF prems(5)],
          rule stereo_channels_ok [OF _ assms(2)])
        (use prems(5) sh in \<open>auto simp: keeps_def\<close>)
  qed simp
  done

subsection \<open>Output\<close>

lemma mono_output_total:
  assumes "ready a" "frame_ok 1 alloc p" "numchannels a = 1" "frame_size p \<le> int (length out)"
  shows "\<exists>out'. mono_output a p ub out = Some out' \<and> length out' = length out"
proof -
  have n: "outputsamples p \<le> 352" "2 * outputsamples p \<le> length out"
    using assms by (simp_all add: frame_ok_def)
  have "\<exists>out'. for_loop (outputsamples p) (\<lambda>i out.
      do { v \<leftarrow> rd (outputsamples_buffer_a a) i; store16 out (i * nat (numchannels a)) (ucast v) }) 0 out
      = Some out' \<and> length out' = length out"
  proof (rule for_loop_inv [where P = "\<lambda>i xs. length xs = length out"])
    fix i and s :: buf
    assume "i < 0 + outputsamples p" "length s = length out"
    then show "\<exists>s'. do { v \<leftarrow> rd (outputsamples_buffer_a a) i; store16 s (i * nat (numchannels a)) (ucast v) } =
        Some s' \<and> length s' = length out"
      using n assms store16_total [of i s "ucast (outputsamples_buffer_a a ! i)"]
      by (simp add: rd_Some ready_lengths)
  qed simp
  then show ?thesis
    using assms by (simp add: mono_output_def ready_def)
qed

lemma stereo_output_total:
  assumes "ready a" "frame_ok 2 alloc p" "numchannels a = 2" "frame_size p \<le> int (length out)"
    and "unat shift \<le> 31"
  shows "\<exists>out'. stereo_output a p ub shift w out = Some out' \<and> length out' = length out"
proof -
  have "outputsamples p \<le> 352" "outputsamples p * 4 \<le> length out"
    using assms by (simp_all add: frame_ok_def)
  then show ?thesis
    using assms deinterlace_16_total [of "outputsamples p" "outputsamples_buffer_a a" "outputsamples_buffer_b a" shift out w]
    by (simp add: stereo_output_def ready_def)
qed

subsection \<open>Whole frames\<close>

text \<open>
  The result of a frame: the context is kept, the output buffer keeps its size, and unless the
  stream failed the size reported is a whole number of samples that fits.
\<close>

definition result_ok :: "alac_file \<Rightarrow> int \<Rightarrow> buf \<Rightarrow> (alac_file \<times> buf \<times> int) option \<Rightarrow> bool" where
  "result_ok a alloc out r \<longleftrightarrow>
     (\<exists>a' out' n. r = Some (a', out', n) \<and> keeps a a' \<and> length out' = length out \<and>
        (decode_error (stream a') \<or> (0 \<le> n \<and> n \<le> alloc \<and> n mod (2 * numchannels a) = 0)))"

lemma frame_size_ok:
  assumes "frame_ok c alloc p"
  shows "0 < frame_size p \<or> c \<le> 0" "frame_size p \<le> alloc" "frame_size p mod (2 * c) = 0"
  using assms by (auto simp: frame_ok_def zero_less_mult_iff)

lemma mono_raw_total:
  assumes "ready a" "frame_ok c alloc p"
  shows "\<exists>b. mono_raw a p = Some b \<and> keeps a b"
  using sample_loop [OF assms(1), of "outputsamples p" mono_raw_sample] assms(2)
  by (auto simp: mono_raw_def frame_ok_def mono_raw_sample_total)

lemma stereo_raw_total:
  assumes "ready a" "frame_ok c alloc p"
  shows "\<exists>b. stereo_raw a p = Some b \<and> keeps a b"
  using sample_loop [OF assms(1), of "outputsamples p" stereo_raw_sample] assms(2)
  by (auto simp: stereo_raw_def frame_ok_def stereo_raw_sample_total)

lemma decode_mono_ok:
  assumes "ready a" "numchannels a = 1" "alloc \<le> int (length out)"
    and "set_output_size_checked a samples alloc = Inr sz"
  shows "result_ok a alloc out (decode_mono a samples alloc sz out)"
proof -
  have "flow_ok a alloc (\<lambda>(p, ub). frame_ok 1 alloc p)
      (on_go (mono_prefix a samples alloc sz) (\<lambda>alac p.
            if \<not> isnotcompressed p
            then on_go (mono_compressed alac p) (\<lambda>alac _. Some (Go alac (p, uncompressed_bytes p)))
            else do { alac \<leftarrow> mono_raw alac p; Some (Go alac (p, 0)) }))"
    (is "flow_ok _ _ _ ?r")
    unfolding mono_prefix_def
  proof (rule on_go_ok [OF read_prefix_ok [OF assms(1) _ assms(2,4)]])
    fix b p
    assume b: "keeps a b" and p: "frame_ok 1 alloc p"
    show "flow_ok b alloc (\<lambda>(p, ub). frame_ok 1 alloc p)
        (if \<not> isnotcompressed p
         then on_go (mono_compressed b p) (\<lambda>alac _. Some (Go alac (p, uncompressed_bytes p)))
         else do { alac \<leftarrow> mono_raw b p; Some (Go alac (p, 0)) })"
    proof (cases "isnotcompressed p")
      case True
      then show ?thesis using mono_raw_total [OF ready_keeps [OF assms(1) b] p] p by auto
    next
      case False
      have "flow_ok b alloc (\<lambda>(p, ub). frame_ok 1 alloc p)
          (on_go (mono_compressed b p) (\<lambda>alac _. Some (Go alac (p, uncompressed_bytes p))))"
        by (rule on_go_ok [OF mono_compressed_ok [OF ready_keeps [OF assms(1) b] p]]) (use p in simp)
      then show ?thesis using False by simp
    qed
  qed simp
  then consider (ret) a' n where "?r = Some (Return a' n)" "keeps a a'" "decode_error (stream a') \<or> n = 0"
    | (go) a' p ub where "?r = Some (Go a' (p, ub))" "keeps a a'" "frame_ok 1 alloc p"
    by (auto simp: flow_ok_def split: option.splits flow.splits)
  then show ?thesis
  proof cases
    case ret
    have "0 \<le> alloc" using set_output_size_checked_ok [OF assms(1,4)] assms(2) by simp
    then show ?thesis using ret by (auto simp: decode_mono_def result_ok_def)
  next
    case go
    have "\<exists>out'. mono_output a' p ub out = Some out' \<and> length out' = length out"
      using go assms frame_size_ok [OF go(3)]
      by (intro mono_output_total [OF ready_keeps [OF assms(1) go(2)] go(3)]) (auto simp: keeps_def)
    then show ?thesis
      using go assms(2) frame_size_ok [OF go(3)] by (auto simp: decode_mono_def result_ok_def)
  qed
qed

lemma decode_stereo_ok:
  assumes "ready a" "numchannels a = 2" "alloc \<le> int (length out)"
    and "set_output_size_checked a samples alloc = Inr sz"
  shows "result_ok a alloc out (decode_stereo a samples alloc sz out)"
proof -
  let ?Q = "\<lambda>(p, ub, shift :: u8, w :: u8). frame_ok 2 alloc p \<and> unat shift \<le> 31"
  have "flow_ok a alloc ?Q
      (on_go (stereo_prefix a samples alloc sz) (\<lambda>alac p.
            if \<not> isnotcompressed p
            then on_go (stereo_compressed alac p) (\<lambda>alac (shift, leftweight).
                   Some (Go alac (p, uncompressed_bytes p, shift, leftweight)))
            else do { alac \<leftarrow> stereo_raw alac p; Some (Go alac (p, 0, 0, 0)) }))"
    (is "flow_ok _ _ _ ?r")
    unfolding stereo_prefix_def
  proof (rule on_go_ok [OF read_prefix_ok [OF assms(1) _ assms(2,4)]])
    fix b p
    assume b: "keeps a b" and p: "frame_ok 2 alloc p"
    show "flow_ok b alloc ?Q
        (if \<not> isnotcompressed p
         then on_go (stereo_compressed b p) (\<lambda>alac (shift, leftweight).
                Some (Go alac (p, uncompressed_bytes p, shift, leftweight)))
         else do { alac \<leftarrow> stereo_raw b p; Some (Go alac (p, 0, 0, 0)) })"
    proof (cases "isnotcompressed p")
      case True
      then show ?thesis using stereo_raw_total [OF ready_keeps [OF assms(1) b] p] p by auto
    next
      case False
      have "flow_ok b alloc ?Q
          (on_go (stereo_compressed b p) (\<lambda>alac (shift, leftweight).
             Some (Go alac (p, uncompressed_bytes p, shift, leftweight))))"
        by (rule on_go_ok [OF stereo_compressed_ok [OF ready_keeps [OF assms(1) b] p]]) (use p in auto)
      then show ?thesis using False by simp
    qed
  qed simp
  then consider (ret) a' n where "?r = Some (Return a' n)" "keeps a a'" "decode_error (stream a') \<or> n = 0"
    | (go) a' p ub shift w where "?r = Some (Go a' (p, ub, shift, w))" "keeps a a'" "frame_ok 2 alloc p"
        "unat shift \<le> 31"
    by (auto simp: flow_ok_def split: option.splits flow.splits)
  then show ?thesis
  proof cases
    case ret
    have "0 \<le> alloc" using set_output_size_checked_ok [OF assms(1,4)] assms(2) by simp
    then show ?thesis using ret by (auto simp: decode_stereo_def result_ok_def)
  next
    case go
    have "\<exists>out'. stereo_output a' p ub shift w out = Some out' \<and> length out' = length out"
      using go assms frame_size_ok [OF go(3)]
      by (intro stereo_output_total [OF ready_keeps [OF assms(1) go(2)] go(3)]) (auto simp: keeps_def)
    then show ?thesis
      using go assms(2) frame_size_ok [OF go(3)] by (auto simp: decode_stereo_def result_ok_def)
  qed
qed

lemma result_ok_weaken: "result_ok b alloc out r \<Longrightarrow> keeps a b \<Longrightarrow> result_ok a alloc out r"
  by (fastforce simp: result_ok_def keeps_def)

lemma decode_frame_ok:
  assumes "ready a" "0 \<le> alloc" "alloc \<le> int (length out)"
  shows "result_ok a alloc out (decode_frame a out alloc)"
proof -
  let ?s = "(stream a)\<lparr>input_buffer := 0, bitaccumulator := 0\<rparr>"
  let ?a = "a\<lparr>stream := ?s\<rparr>"
  have k0: "keeps a ?a"
    using assms(1) by (auto simp: keeps_def ready_def placed_def offset_def)
  obtain v b where b: "take_bits ?a 3 = Some (v, b)" "keeps ?a b" "ready b"
    using take_bits_cases [OF ready_keeps [OF assms(1) k0]] by metis
  have k: "keeps a b" using k0 b(2) by (rule keeps_trans)
  show ?thesis
  proof (cases "uint v > 1 \<or> uint v + 1 \<noteq> numchannels b")
    case True
    then have "decode_frame a out alloc = Some (frame_error b, out, alloc)"
      using b by (simp add: decode_frame_def Let_def)
    moreover have "keeps a (frame_error b)" using keeps_trans [OF k keeps_error] .
    ultimately show ?thesis by (simp add: result_ok_def)
  next
    case False
    show ?thesis
    proof (cases "set_output_size_checked b (sint (setinfo_max_samples_per_frame b)) alloc")
      case (Inl e)
      then have "decode_frame a out alloc = Some (b, out, 0)"
        using False b by (simp add: decode_frame_def Let_def)
      then show ?thesis using k assms by (simp add: result_ok_def)
    next
      case (Inr sz)
      have "result_ok b alloc out (if v = 0
          then decode_mono b (sint (setinfo_max_samples_per_frame b)) alloc sz out
          else decode_stereo b (sint (setinfo_max_samples_per_frame b)) alloc sz out)"
      proof (cases "v = 0")
        case True
        then show ?thesis
          using decode_mono_ok [OF b(3) _ assms(3) Inr] False by simp
      next
        case vn: False
        then have "uint v \<noteq> 0" by (simp add: uint_0_iff)
        moreover have "0 \<le> uint v" by simp
        ultimately have "uint v = 1" using False by linarith
        then show ?thesis
          using decode_stereo_ok [OF b(3) _ assms(3) Inr] False vn by simp
      qed
      then show ?thesis
        using False b Inr by (simp add: decode_frame_def Let_def result_ok_weaken [OF _ k])
    qed
  qed
qed

lemma alac_decode_frame_total:
  assumes "ready a" "0 \<le> alloc" "alloc \<le> int (length out)"
  shows "\<exists>a' out' n. alac_decode_frame a inp out alloc = Some (a', out', n) \<and> keeps a a' \<and>
           length out' = length out \<and> 0 \<le> n \<and> n \<le> alloc \<and> n mod (2 * numchannels a) = 0"
proof (cases "inp = []")
  case False
  let ?a = "a\<lparr>stream := (stream a)\<lparr>input := inp, decode_error := False\<rparr>\<rparr>"
  let ?b = "a\<lparr>stream := \<lparr>input = inp, input_buffer = 0, bitaccumulator = 0, decode_error = False\<rparr>\<rparr>"
  have start: "?a\<lparr>stream := (stream ?a)\<lparr>input_buffer := 0, bitaccumulator := 0\<rparr>\<rparr>
      = ?b\<lparr>stream := (stream ?b)\<lparr>input_buffer := 0, bitaccumulator := 0\<rparr>\<rparr>"
    by (cases "stream a") simp
  have "decode_frame ?a out alloc = decode_frame ?b out alloc"
    by (simp only: decode_frame_def Let_def start)
  moreover have "keeps a ?b"
    by (simp add: keeps_def ready_def placed_def offset_def)
  moreover from this have "result_ok ?b alloc out (decode_frame ?b out alloc)"
    by (rule decode_frame_ok [OF ready_keeps [OF assms(1)] assms(2,3)])
  ultimately have "result_ok a alloc out (decode_frame ?a out alloc)"
    by (simp add: result_ok_weaken)
  then show ?thesis
    using False assms by (auto simp: alac_decode_frame_def result_ok_def ready_def)
qed (use assms in \<open>auto simp: alac_decode_frame_def\<close>)

subsection \<open>The adapter\<close>

text \<open>A stream of packets decoded one after the other into the same output buffer.\<close>

fun alac_session ::
  "alac_decoder \<Rightarrow> alac_pool \<Rightarrow> buf \<Rightarrow> nat \<Rightarrow> buf list \<Rightarrow> (int \<times> nat option) list option" where
  "alac_session d pool out max_samples [] = Some []"
| "alac_session d pool out max_samples (packet # packets) =
     do { (r, out, pool) \<leftarrow> alac_decoder_decode_frame d pool packet out max_samples;
          rs \<leftarrow> alac_session d pool out max_samples packets;
          Some (r # rs) }"

definition decoder_ready :: "alac_decoder \<Rightarrow> alac_pool \<Rightarrow> bool" where
  "decoder_ready d pool \<longleftrightarrow>
     (\<exists>i. impl d = Some i \<and> i < length pool \<and> ready (pool ! i) \<and> numchannels (pool ! i) = uint (channels d))"

text \<open>What a call reports: a failure, or at most \<open>max_samples\<close> samples, as many for each channel.\<close>

definition report_ok :: "alac_decoder \<Rightarrow> nat \<Rightarrow> int \<times> nat option \<Rightarrow> bool" where
  "report_ok d max_samples r \<longleftrightarrow>
     (case r of
        (code, Some n) \<Rightarrow> (code = -1 \<and> n = 0) \<or>
          (code = 0 \<and> 0 < n \<and> n \<le> max_samples \<and> n mod unat (channels d) = 0)
      | (code, None) \<Rightarrow> code = -1)"

lemma decode_packet_total:
  assumes "decoder_ready d pool" "2 * max_samples \<le> length out"
  shows "\<exists>r out' pool'. alac_decoder_decode_frame d pool packet out max_samples = Some (r, out', pool') \<and>
           decoder_ready d pool' \<and> length out' = length out \<and> report_ok d max_samples r"
proof -
  obtain i where i: "impl d = Some i" "i < length pool" "ready (pool ! i)" "numchannels (pool ! i) = uint (channels d)"
    using assms(1) by (auto simp: decoder_ready_def)
  let ?alloc = "min (int max_samples * 2) 2147483647"
  obtain a' out' n where a': "alac_decode_frame (pool ! i) packet out ?alloc = Some (a', out', n)"
      "keeps (pool ! i) a'" "length out' = length out" "0 \<le> n" "n \<le> ?alloc"
      "n mod (2 * uint (channels d)) = 0"
  proof -
    have "0 \<le> ?alloc" "?alloc \<le> int (length out)" using assms(2) by linarith+
    then show ?thesis using alac_decode_frame_total [OF i(3)] i(4) that by metis
  qed
  have ready': "decoder_ready d (pool[i := a'])"
    using i a'(2) by (auto simp: decoder_ready_def keeps_def)
  have "nat n div 2 \<le> max_samples"
    using a'(5) by linarith
  moreover have "nat n div 2 mod unat (channels d) = 0"
  proof -
    have "int (nat n mod (2 * unat (channels d))) = n mod (2 * uint (channels d))"
      using a'(4) by (simp only: zmod_int of_nat_mult of_nat_numeral uint_nat int_nat_eq if_True)
    then have "2 * unat (channels d) dvd nat n"
      using a'(6) by (simp add: dvd_eq_mod_eq_0)
    then obtain q where "nat n = 2 * unat (channels d) * q" by (auto elim: dvdE)
    then show ?thesis by simp
  qed
  moreover have "0 < nat n div 2" if "0 < n"
  proof -
    have "0 < uint (channels d)" using i(3,4) by (auto simp: ready_def)
    then have "2 \<le> n" using a'(6) that zdvd_imp_le [of "2 * uint (channels d)" n] by auto
    then show ?thesis by linarith
  qed
  ultimately show ?thesis
    using assms(1) i a' ready' by (auto simp: alac_decoder_decode_frame_def rd_Some Let_def report_ok_def)
qed

lemma zero_prefix_length [simp]: "length (zero_prefix n xs) = length xs"
  by (simp add: zero_prefix_def)

lemma alac_create_spec:
  "alac_create pool b c = Some (i, pool') \<Longrightarrow> i < length pool' \<and> pool' ! i = alac_new b c"
  by (induction pool arbitrary: i pool') (auto split: if_splits)

lemma configured_ready:
  assumes "bit_depth d = 16" "uint (channels d) = 1 \<or> uint (channels d) = 2" "unat (frame_length d) \<le> 352"
    and "unat (fmtp_or (fmtp d) 5 14 :: u8) \<le> 24" "unat (fmtp_or (fmtp d) 3 40 :: u8) \<le> 37"
  shows "ready (alac_configure d (alac_new 16 (uint (channels d))))"
    and "numchannels (alac_configure d (alac_new 16 (uint (channels d)))) = uint (channels d)"
  using assms
  by (simp_all add: ready_def alac_configure_def alac_new_def alac_zero_def alac_allocate_buffers_def
      Let_def placed_def offset_def ALAC_MAX_SAMPLES_PER_FRAME_def cdiv_nonneg)

lemma init_ready:
  assumes "alac_decoder_init pool fs frames depth chans rate = (0, d, pool')" "depth \<noteq> 24"
    and "unat (fmtp_or fs 5 14 :: u8) \<le> 24" "unat (fmtp_or fs 3 40 :: u8) \<le> 37"
  shows "decoder_ready d pool'"
proof -
  define d1 where "d1 = alac_negotiate fs frames depth chans rate"
  have bd: "bit_depth d1 = 16"
    using assms(2) by (simp add: d1_def alac_negotiate_def Let_def)
  have len: "unat (frame_length d1) \<le> 352"
    using assms(1) by (auto simp: alac_decoder_init_def d1_def Let_def ALAC_MAX_SAMPLES_PER_FRAME_def split: if_splits)
  have ch: "uint (channels d1) = 1 \<or> uint (channels d1) = 2"
  proof -
    have "channels d1 \<noteq> 0" and c: "unat (channels d1) \<le> 2"
      by (auto simp: d1_def alac_negotiate_def Let_def)
    then have "0 < unat (channels d1)" by (simp add: unat_gt_0)
    then show ?thesis using c unfolding uint_nat by linarith
  qed
  obtain i p where i: "alac_create pool 16 (uint (channels d1)) = Some (i, p)" "d = d1\<lparr>impl := Some i\<rparr>"
      "pool' = p[i := alac_configure d1 (p ! i)]"
    using assms(1) len bd
    by (auto simp: alac_decoder_init_def d1_def [symmetric] Let_def ALAC_MAX_SAMPLES_PER_FRAME_def split: option.splits)
  have f: "fmtp_or (fmtp d1) 5 14 = (fmtp_or fs 5 14 :: u8)" "fmtp_or (fmtp d1) 3 40 = (fmtp_or fs 3 40 :: u8)"
    by (simp_all add: fmtp_or_def d1_def alac_negotiate_def)
  have "ready (alac_configure d1 (alac_new 16 (uint (channels d1))))"
    "numchannels (alac_configure d1 (alac_new 16 (uint (channels d1)))) = uint (channels d1)"
    using ch len bd assms(3,4) f by (intro configured_ready; simp)+
  then show ?thesis
    using i alac_create_spec [OF i(1)] by (simp add: decoder_ready_def)
qed

lemma session_total:
  "decoder_ready d pool \<Longrightarrow> 2 * max_samples \<le> length out \<Longrightarrow>
   \<exists>rs. alac_session d pool out max_samples packets = Some rs \<and> list_all (report_ok d max_samples) rs"
proof (induction packets arbitrary: pool out)
  case (Cons p ps)
  obtain r out' pool' where r: "alac_decoder_decode_frame d pool p out max_samples = Some (r, out', pool')"
      "decoder_ready d pool'" "length out' = length out" "report_ok d max_samples r"
    using decode_packet_total [OF Cons.prems] by blast
  then obtain rs where "alac_session d pool' out' max_samples ps = Some rs" "list_all (report_ok d max_samples) rs"
    using Cons.IH [OF r(2), of out'] Cons.prems(2) by auto
  then show ?case using r by simp
qed simp

text \<open>
  A decoder initialised for 16-bit samples, with a Rice parameter of at most 24 bits and a
  history multiplier of at most 37, decodes any sequence of packets, whatever their bytes:
  no read leaves a packet, no access leaves a working buffer or an output buffer of
  \<open>max_samples\<close> 16-bit samples, every shift is by a legal amount, and each packet is refused or
  reports a positive number of samples that fits and is the same for every channel.
\<close>

theorem alac_session_safe:
  assumes "alac_decoder_init pool fs frames depth chans rate = (0, d, pool')" "depth \<noteq> 24"
    and "unat (fmtp_or fs 5 14 :: u8) \<le> 24" "unat (fmtp_or fs 3 40 :: u8) \<le> 37"
    and "2 * max_samples \<le> length out"
  shows "\<exists>rs. alac_session d pool' out max_samples packets = Some rs \<and>
              list_all (report_ok d max_samples) rs"
  by (rule session_total [OF init_ready [OF assms(1-4)] assms(5)])

lemma alac_session_safe_witness:
  "\<exists>d pool rs. alac_decoder_init [alac_zero] [352, 0, 16, 36, 10, 14] 352 16 2 44100 = (0, d, pool) \<and>
     alac_session d pool (replicate 1408 0) 704 [[0x20, 0, 1], [], [0xff]] = Some rs"
proof -
  have z: "\<not> in_use alac_zero" by (simp add: alac_zero_def Let_def)
  obtain d pool where i: "alac_decoder_init [alac_zero] [352, 0, 16, 36, 10, 14] 352 16 2 44100 = (0, d, pool)"
    using z by (simp add: alac_decoder_init_def alac_negotiate_def Let_def ALAC_MAX_SAMPLES_PER_FRAME_def)
  show ?thesis
    using alac_session_safe [OF i, of 704 "replicate 1408 0" "[[0x20, 0, 1], [], [0xff]]"] i
    by (auto simp: fmtp_or_def)
qed

end
