(* ===== verification/Alac_Coding.thy ===== *)
theory Alac_Coding
  imports Alac_Safety
begin

section \<open>What the ALAC decoder computes\<close>

text \<open>
  The bit reader against the list of bits of its input, the Rice decoder against an encoder
  of the code it reads, and frames of uncompressed samples against the samples.
\<close>

subsection \<open>Numbers as bits\<close>

definition bin :: "nat \<Rightarrow> nat \<Rightarrow> bool list" where
  "bin n v = map (\<lambda>i. odd (v div 2 ^ i)) (rev [0..<n])"

lemma length_bin [simp]: "length (bin n v) = n"
  by (simp add: bin_def)

lemma bin_Suc: "bin (Suc n) v = odd (v div 2 ^ n) # bin n v"
  by (simp add: bin_def)

lemma bits_nat_Cons: "bits_nat (x # bs) = of_bool x * 2 ^ length bs + bits_nat bs"
  using bits_nat_append [of "[x]" bs] by (simp add: bits_nat_def)

lemma bits_nat_bin: "bits_nat (bin n v) = v mod 2 ^ n"
proof (induction n)
  case (Suc n)
  have "v mod 2 ^ Suc n = 2 ^ n * (v div 2 ^ n mod 2) + v mod 2 ^ n"
    using mod_mult2_eq [of v "2 ^ n" 2] by (simp add: mult.commute)
  then show ?case
    using Suc by (cases "odd (v div 2 ^ n)") (simp_all add: bin_Suc bits_nat_Cons odd_iff_mod_2_eq_one)
qed (simp add: bin_def)

text \<open>
  The bit reader is the list of bits of its input: a read of up to 32 bits returns the
  number that the next bits denote, most significant first, and moves past exactly them.
\<close>

theorem alac_readbits_equivalence:
  assumes "placed b" "\<not> decode_error b" "n \<le> 32" "n \<le> length (rest b)"
  shows "readbits b (int n) = Some (of_nat (bits_nat (take n (rest b))), skip n b) \<and>
         rest (skip n b) = drop n (rest b) \<and> placed (skip n b)"
  using readbits_spec [OF assms] placed_skip [OF assms(4,1)] by simp

lemma alac_readbits_equivalence_witness:
  defines "b \<equiv> \<lparr>input = [0xa5, 0x0f, 0xf0], input_buffer = 0, bitaccumulator = 3, decode_error = False\<rparr>"
  shows "readbits b 18 = Some (of_nat (bits_nat (take 18 (rest b))), skip 18 b)"
  using alac_readbits_equivalence [of b 18]
  by (simp add: b_def placed_def length_rest offset_def)

text \<open>Reading a number that is next in the stream.\<close>

definition at_bits :: "bitstream \<Rightarrow> bool list \<Rightarrow> bool" where
  "at_bits b bs \<longleftrightarrow> placed b \<and> \<not> decode_error b \<and> rest b = bs"

lemma at_bits_skip: "at_bits b (xs @ ys) \<Longrightarrow> at_bits (skip (length xs) b) ys"
  using placed_skip [of "length xs" b] by (simp add: at_bits_def)

lemma readbits_bin:
  assumes "at_bits b (bin n v @ bs)" "n \<le> 32" "v < 2 ^ n"
  shows "readbits b (int n) = Some (of_nat v, skip n b)" "at_bits (skip n b) bs"
  using assms readbits_spec [of b n] placed_skip [of n b]
  by (simp_all add: at_bits_def bits_nat_bin)

lemma readbit_Cons:
  assumes "at_bits b (x # bs)"
  shows "readbit b = Some (x, skip 1 b)" "at_bits (skip 1 b) bs"
  using assms readbits_16_spec [of b 1] placed_skip [of 1 b]
  by (auto simp: at_bits_def readbit_def bits_nat_def)

subsection \<open>Rice codes\<close>

text \<open>
  The code of a value for \<open>k\<close> remainder bits: the quotient by \<open>2 ^ k - 1\<close> in unary, a zero, and
  the remainder: \<open>k - 1\<close> zero bits for 0, the \<open>k\<close> bits of its successor otherwise.  A quotient
  above the threshold is written as nine ones and the raw value.
\<close>

definition rice_code :: "nat \<Rightarrow> nat \<Rightarrow> nat \<Rightarrow> bool list" where
  "rice_code width k v =
     (let q = v div (2 ^ k - 1); r = v mod (2 ^ k - 1) in
      if q > RICE_THRESHOLD then replicate (Suc RICE_THRESHOLD) True @ bin width v
      else replicate q True @ [False] @
        (if k = 1 then [] else if r = 0 then bin (k - 1) 0 else bin k (Suc r)))"

lemma rice_prefix_zero:
  "at_bits b (replicate x True @ False # bs) \<Longrightarrow> x < n \<Longrightarrow>
   rice_prefix n b = Some (x, skip (Suc x) b) \<and> at_bits (skip (Suc x) b) bs"
proof (induction x arbitrary: b n)
  case 0
  then show ?case using readbit_Cons [of b False bs] by (cases n) auto
next
  case (Suc x)
  obtain m where m: "n = Suc m" "x < m" using Suc.prems by (cases n) auto
  note r = readbit_Cons [of b True "replicate x True @ False # bs"]
  show ?case
    using Suc.IH [of "skip 1 b" m] r Suc.prems m by simp
qed

lemma rice_prefix_ones:
  "at_bits b (replicate n True @ bs) \<Longrightarrow> rice_prefix n b = Some (n, skip n b) \<and> at_bits (skip n b) bs"
proof (induction n arbitrary: b)
  case 0
  then show ?case by (simp add: at_bits_def)
next
  case (Suc n)
  then show ?case
    using readbit_Cons [of b True "replicate n True @ bs"] Suc.IH [of "skip 1 b"] by simp
qed

lemma unread_skip: "n \<le> m \<Longrightarrow> unreadbits (skip m b) (int n) = skip (m - n) b"
  by (simp add: unreadbits_def Let_def skip_def offset_def)

lemma and_mask_low: "unat v < 2 ^ w \<Longrightarrow> w \<le> 32 \<Longrightarrow> v AND drop_bit (32 - w) (0xFFFFFFFF :: u32) = v"
proof -
  assume v: "unat v < 2 ^ w" and w: "w \<le> 32"
  have ff: "(0xFFFFFFFF :: u32) = mask 32" by (simp add: mask_eq_exp_minus_1)
  have "take_bit w v = v" using v by (simp only: unat_less_iff_take_bit)
  then have low: "bit v i \<Longrightarrow> i < w" for i by (metis bit_take_bit_iff)
  show ?thesis
    by (rule bit_word_eqI, unfold ff bit_and_iff bit_drop_bit_eq o_def bit_mask_iff)
      (use low w in fastforce)
qed

lemma of_nat_mersenne: "k < 32 \<Longrightarrow> push_bit k 1 - 1 = (of_nat (2 ^ k - 1) :: u32)"
  by (simp add: push_bit_eq_mult of_nat_diff)

lemma one_sless_of_nat: "n < 2 ^ 31 \<Longrightarrow> 1 <s (of_nat n :: u32) \<longleftrightarrow> 1 < n"
proof -
  assume n: "n < 2 ^ 31"
  then have u: "unat (of_nat n :: u32) = n" by (simp add: unat_of_nat)
  then have "sint (of_nat n :: u32) = int n"
    using n unat_small_sint [of "of_nat n"] by simp
  then show ?thesis by (simp add: word_sless_alt)
qed

text \<open>The four forms of a code.\<close>

lemma rice_raw:
  assumes "at_bits b (replicate 9 True @ bin w v @ bs)" "1 \<le> w" "w \<le> 32" "v < 2 ^ w"
  shows "entropy_decode_value b (int w) k m = Some (of_nat v, skip (9 + w) b) \<and> at_bits (skip (9 + w) b) bs"
proof -
  have b9: "rice_prefix 9 b = Some (9, skip 9 b)" "at_bits (skip 9 b) (bin w v @ bs)"
    using rice_prefix_ones [OF assms(1)] by simp_all
  note rb = readbits_bin [OF b9(2) assms(3,4)]
  have "(2::nat) ^ w \<le> 2 ^ 32" using assms(3) by (intro power_increasing) auto
  then have "unat (of_nat v :: u32) = v" using assms(4) by (simp add: unat_of_nat)
  then have "of_nat v AND drop_bit (32 - w) (0xFFFFFFFF :: u32) = of_nat v"
    using assms(3,4) by (intro and_mask_low) simp_all
  moreover have "nat (32 - int w) = 32 - w" by simp
  ultimately show ?thesis
    using b9 rb assms(2,3) by (simp add: entropy_decode_value_def RICE_THRESHOLD_def shr32_def)
qed

lemma rice_one:
  assumes "at_bits b (replicate q True @ False # bs)" "q \<le> 8"
  shows "entropy_decode_value b w 1 m = Some (of_nat q, skip (Suc q) b) \<and> at_bits (skip (Suc q) b) bs"
  using rice_prefix_zero [OF assms(1), of 9] assms(2)
  by (simp add: entropy_decode_value_def RICE_THRESHOLD_def)

lemma rice_zero:
  assumes "at_bits b (replicate q True @ False # bin (k - 1) 0 @ y # ys)" "q \<le> 8" "2 \<le> k" "k \<le> 16"
    and "of_nat (2 ^ k - 1) AND m = (of_nat (2 ^ k - 1) :: u32)"
  shows "entropy_decode_value b w (int k) m = Some (of_nat (q * (2 ^ k - 1)), skip (q + k) b) \<and>
         at_bits (skip (q + k) b) (y # ys)"
proof -
  have p: "rice_prefix 9 b = Some (q, skip (Suc q) b)" "at_bits (skip (Suc q) b) (bin (k - 1) 0 @ y # ys)"
    using rice_prefix_zero [OF assms(1), of 9] assms(2) by simp_all
  have "take k (bin (k - 1) 0 @ y # ys) = bin (k - 1) 0 @ [y]" "k \<le> length (bin (k - 1) 0 @ y # ys)"
    using assms(3) by (cases k; simp)+
  moreover have "bits_nat (bin (k - 1) 0 @ [y]) = of_bool y"
    by (simp add: bits_nat_append bits_nat_bin) (simp add: bits_nat_def)
  ultimately have e: "readbits (skip (Suc q) b) (int k) = Some (of_bool y, skip (Suc q + k) b)"
    using readbits_spec [of "skip (Suc q) b" k] p(2) assms(3,4)
    unfolding at_bits_def by (simp del: rest_skip)
  have "\<not> 1 <s (of_bool y :: u32)"
    using one_sless_of_nat [of "of_bool y"] by (cases y) simp_all
  moreover have "of_nat q * (push_bit k 1 - 1 AND m) = (of_nat (q * (2 ^ k - 1)) :: u32)"
    using assms(4,5) by (simp only: of_nat_mersenne of_nat_mult)
  moreover have "unreadbits (skip (Suc q + k) b) 1 = skip (q + k) b"
    using unread_skip [of 1 "Suc q + k" b] by simp
  moreover have "at_bits (skip (q + k) b) (y # ys)"
    using at_bits_skip [OF p(2)] assms(3) by simp
  ultimately show ?thesis
    using p(1) e assms(2-4)
    by (simp add: entropy_decode_value_def RICE_THRESHOLD_def shl32_def Let_def del: push_bit_of_1)
qed

lemma rice_more:
  assumes "at_bits b (replicate q True @ False # bin k (Suc r) @ bs)" "q \<le> 8" "2 \<le> k" "k \<le> 16"
    and "0 < r" "Suc r < 2 ^ k" "of_nat (2 ^ k - 1) AND m = (of_nat (2 ^ k - 1) :: u32)"
  shows "entropy_decode_value b w (int k) m = Some (of_nat (q * (2 ^ k - 1) + r), skip (Suc q + k) b) \<and>
         at_bits (skip (Suc q + k) b) bs"
proof -
  have p: "rice_prefix 9 b = Some (q, skip (Suc q) b)" "at_bits (skip (Suc q) b) (bin k (Suc r) @ bs)"
    using rice_prefix_zero [OF assms(1), of 9] assms(2) by simp_all
  note e = readbits_bin [OF p(2) _ assms(6)]
  have "(2::nat) ^ k \<le> 2 ^ 16" using assms(4) by (intro power_increasing) auto
  then have "1 <s (of_nat (Suc r) :: u32)"
    using one_sless_of_nat [of "Suc r"] assms(5,6) by simp
  moreover have "of_nat q * (push_bit k 1 - 1 AND m) + (of_nat (Suc r) - 1) = (of_nat (q * (2 ^ k - 1) + r) :: u32)"
    using assms(4,7) by (simp add: of_nat_mersenne del: push_bit_of_1)
  ultimately show ?thesis
    using p(1) e assms(2-4)
    by (simp add: entropy_decode_value_def RICE_THRESHOLD_def shl32_def Let_def del: push_bit_of_1 of_nat_Suc)
qed

text \<open>
  C36: the entropy decoder inverts the adaptive Rice code: on a stream that continues with the
  code of a value and at least one more bit it returns the value and stops right after the
  code, also when it had to put a bit back.
\<close>

theorem alac_rice_roundtrip:
  assumes "at_bits b (rice_code w k v @ bs)" "bs \<noteq> []" "1 \<le> k" "k \<le> 16" "1 \<le> w" "w \<le> 32" "v < 2 ^ w"
    and "of_nat (2 ^ k - 1) AND m = (of_nat (2 ^ k - 1) :: u32)"
  shows "entropy_decode_value b (int w) (int k) m = Some (of_nat v, skip (length (rice_code w k v)) b) \<and>
         at_bits (skip (length (rice_code w k v)) b) bs"
proof -
  define q r where "q = v div (2 ^ k - 1)" and "r = v mod (2 ^ k - 1)"
  have pk: "(2::nat) \<le> 2 ^ k" using power_increasing [of 1 k "2::nat"] assms(3) by simp
  have v: "v = q * (2 ^ k - 1) + r"
    by (simp only: q_def r_def div_mult_mod_eq)
  have r: "r < 2 ^ k - 1" unfolding r_def using pk by (intro mod_less_divisor) linarith
  have code: "rice_code w k v = (if q > 8 then replicate 9 True @ bin w v
      else replicate q True @ [False] @
        (if k = 1 then [] else if r = 0 then bin (k - 1) 0 else bin k (Suc r)))"
    by (simp only: rice_code_def Let_def q_def r_def RICE_THRESHOLD_def) simp
  obtain y ys where bs: "bs = y # ys" using assms(2) by (cases bs) auto
  consider (raw) "q > 8" | (one) "q \<le> 8" "k = 1" | (zero) "q \<le> 8" "2 \<le> k" "r = 0" | (more) "q \<le> 8" "2 \<le> k" "0 < r"
    using assms(3) by linarith
  then show ?thesis
  proof cases
    case raw
    then show ?thesis using rice_raw [of b w v bs] assms by (simp add: code)
  next
    case one
    then have c: "rice_code w k v = replicate q True @ [False]"
      unfolding code by simp
    have "q = v" using one v r by simp
    have "at_bits b (replicate q True @ False # bs)"
      using assms(1) unfolding c by simp
    then show ?thesis
      unfolding c using rice_one [OF _ one(1), of b bs "int w" m] one(2) \<open>q = v\<close> by simp
  next
    case zero
    have len: "Suc (q + (k - Suc 0)) = q + k" using zero by simp
    have "rice_code w k v = replicate q True @ False # bin (k - 1) 0"
      using zero by (simp add: code)
    then show ?thesis
      using rice_zero [of b q k y ys m] assms(1,4,8) zero bs v by (simp add: len)
  next
    case more
    have "rice_code w k v = replicate q True @ False # bin k (Suc r)"
      using more by (simp add: code)
    then show ?thesis
      using rice_more [of b q k r bs m] assms(1,4,8) more r v by simp
  qed
qed

lemma alac_rice_roundtrip_witness:
  defines "b \<equiv> \<lparr>input = [0xe5, 0x80], input_buffer = 0, bitaccumulator = 0, decode_error = False\<rparr>"
  shows "entropy_decode_value b 16 3 0xFFFFFFFF = Some (22, skip 7 b)"
proof -
  have c: "rice_code 16 3 22 = [True, True, True, False, False, True, False]"
    by code_simp
  have "rest b = rice_code 16 3 22 @ [True, True, False, False, False, False, False, False, False]"
    unfolding c b_def by code_simp
  then have "at_bits b (rice_code 16 3 22 @ [True, True, False, False, False, False, False, False, False])"
    by (simp add: at_bits_def b_def placed_def offset_def)
  moreover have len: "length (rice_code 16 3 22) = 7" by (simp add: c)
  ultimately show ?thesis
    using alac_rice_roundtrip [of b 16 3 22 "[True, True, False, False, False, False, False, False, False]" "0xFFFFFFFF"]
    by (simp add: and_all_ones)
qed

subsection \<open>Uncompressed frames\<close>

text \<open>
  A stereo frame of uncompressed 16-bit samples with the default number of samples: the tag,
  16 unused bits, no size, no split bytes, the flag, and the pairs of samples.
\<close>

definition raw_header :: "bool list" where
  "raw_header = bin 3 1 @ bin 4 0 @ bin 12 0 @ bin 1 0 @ bin 2 0 @ bin 1 1"

definition pair_bits :: "u16 \<times> u16 \<Rightarrow> bool list" where
  "pair_bits s = bin 16 (unat (fst s)) @ bin 16 (unat (snd s))"

definition raw_frame :: "(u16 \<times> u16) list \<Rightarrow> bool list" where
  "raw_frame samples = raw_header @ concat (map pair_bits samples)"

text \<open>The samples as they lie in the output buffer.\<close>

definition le16 :: "u16 \<Rightarrow> buf" where
  "le16 v = [ucast v, ucast (drop_bit 8 v)]"

definition pcm :: "(u16 \<times> u16) list \<Rightarrow> buf" where
  "pcm samples = concat (map (\<lambda>s. le16 (fst s) @ le16 (snd s)) samples)"

lemma length_pcm [simp]: "length (pcm samples) = 4 * length samples"
  by (induction samples) (simp_all add: pcm_def le16_def)

lemma take_bits_bin:
  assumes "at_bits (stream a) (bin n v @ bs)" "n \<le> 32" "v < 2 ^ n"
  shows "take_bits a (int n) = Some (of_nat v, a\<lparr>stream := skip n (stream a)\<rparr>)"
    "at_bits (skip n (stream a)) bs"
  using readbits_bin [OF assms] by (simp_all add: take_bits_def)

lemma sign_extend_16: "SIGN_EXTENDED32 (ucast (v :: u16)) 16 = Some (scast v)"
proof -
  have "signed_drop_bit 16 (push_bit 16 (ucast v)) = (scast v :: u32)"
    by (rule bit_word_eqI) (auto simp: bit_simps)
  then show ?thesis by (simp add: SIGN_EXTENDED32_def shl32_def sar32_def)
qed

lemma raw_sample_read:
  assumes "at_bits (stream a) (bin 16 (unat (v :: u16)) @ bs)" "setinfo_sample_size a = 16"
  shows "read_raw_sample a = Some (scast v, a\<lparr>stream := skip 16 (stream a)\<rparr>)"
    "at_bits (skip 16 (stream a)) bs"
proof -
  have "unat v < 2 ^ 16" using unat_u16_less [of v] by simp
  note t = take_bits_bin [OF assms(1) _ this]
  show "read_raw_sample a = Some (scast v, a\<lparr>stream := skip 16 (stream a)\<rparr>)"
    using t(1) assms(2) sign_extend_16 [of v] by (simp add: read_raw_sample_def)
  show "at_bits (skip 16 (stream a)) bs" using t(2) by simp
qed

text \<open>The loop over the pairs fills the two sample buffers.\<close>

lemma stereo_raw_sample_read:
  assumes "at_bits (stream a) (pair_bits s @ bs)" "setinfo_sample_size a = 16"
    and "i < length (outputsamples_buffer_a a)" "i < length (outputsamples_buffer_b a)"
  shows "stereo_raw_sample i a = Some (a\<lparr>stream := skip 32 (stream a),
      outputsamples_buffer_a := (outputsamples_buffer_a a)[i := scast (fst s)],
      outputsamples_buffer_b := (outputsamples_buffer_b a)[i := scast (snd s)]\<rparr>)"
    "at_bits (skip 32 (stream a)) bs"
proof -
  note l = raw_sample_read [of a "fst s" "bin 16 (unat (snd s)) @ bs"]
  note r = raw_sample_read [of "a\<lparr>stream := skip 16 (stream a)\<rparr>" "snd s" bs]
  show "stereo_raw_sample i a = Some (a\<lparr>stream := skip 32 (stream a),
      outputsamples_buffer_a := (outputsamples_buffer_a a)[i := scast (fst s)],
      outputsamples_buffer_b := (outputsamples_buffer_b a)[i := scast (snd s)]\<rparr>)"
    using l r assms by (simp add: stereo_raw_sample_def pair_bits_def wr_Some)
  show "at_bits (skip 32 (stream a)) bs"
    using l r assms by (simp add: pair_bits_def)
qed

definition overwrite :: "nat \<Rightarrow> 'a list \<Rightarrow> 'a list \<Rightarrow> 'a list" where
  "overwrite i xs ys = take i ys @ xs @ drop (i + length xs) ys"

lemma overwrite_step: "i < length ys \<Longrightarrow> overwrite (Suc i) xs (ys[i := x]) = overwrite i (x # xs) ys"
  by (simp add: overwrite_def take_Suc_conv_app_nth)

lemma overwrite_Nil [simp]: "overwrite i [] ys = ys"
  by (simp add: overwrite_def)

lemma raw_samples_read:
  "at_bits (stream a) (concat (map pair_bits ss) @ bs) \<Longrightarrow> setinfo_sample_size a = 16 \<Longrightarrow>
   i + length ss \<le> length (outputsamples_buffer_a a) \<Longrightarrow> i + length ss \<le> length (outputsamples_buffer_b a) \<Longrightarrow>
   for_loop (length ss) stereo_raw_sample i a = Some (a\<lparr>stream := skip (32 * length ss) (stream a),
     outputsamples_buffer_a := overwrite i (map (scast \<circ> fst) ss) (outputsamples_buffer_a a),
     outputsamples_buffer_b := overwrite i (map (scast \<circ> snd) ss) (outputsamples_buffer_b a)\<rparr>)"
proof (induction ss arbitrary: i a)
  case Nil
  then have "skip 0 (stream a) = stream a" by (simp add: at_bits_def)
  then show ?case by simp
next
  case (Cons s ss)
  let ?a = "a\<lparr>stream := skip 32 (stream a),
      outputsamples_buffer_a := (outputsamples_buffer_a a)[i := scast (fst s)],
      outputsamples_buffer_b := (outputsamples_buffer_b a)[i := scast (snd s)]\<rparr>"
  have step: "stereo_raw_sample i a = Some ?a" "at_bits (stream ?a) (concat (map pair_bits ss) @ bs)"
    using stereo_raw_sample_read [of a s "concat (map pair_bits ss) @ bs" i] Cons.prems by simp_all
  have "for_loop (length ss) stereo_raw_sample (Suc i) ?a = Some (?a\<lparr>stream := skip (32 * length ss) (stream ?a),
     outputsamples_buffer_a := overwrite (Suc i) (map (scast \<circ> fst) ss) (outputsamples_buffer_a ?a),
     outputsamples_buffer_b := overwrite (Suc i) (map (scast \<circ> snd) ss) (outputsamples_buffer_b ?a)\<rparr>)"
    by (rule Cons.IH [OF step(2)]) (use Cons.prems in simp_all)
  then show ?case
    using step(1) Cons.prems by (simp add: overwrite_step o_def)
qed

lemma store_pair:
  assumes "length done = 4 * i" "4 \<le> length todo"
  shows "do { out \<leftarrow> store16 (done @ todo) (i * 2) l; store16 out (i * 2 + 1) r }
       = Some ((done @ le16 l @ le16 r) @ drop 4 todo)"
  using assms by (simp add: store16_def wr_range_Some le16_def)

lemma scast_down [simp]: "ucast (scast (v :: u16) :: u32) = v"
  by (rule bit_word_eqI) (auto simp: bit_simps)

lemma deinterlace_plain:
  assumes "take (length ss) a = map (scast \<circ> fst) ss" "take (length ss) b = map (scast \<circ> snd) ss"
    and "4 * length ss \<le> length out"
  shows "deinterlace_16 a b out 2 (length ss) shift 0 = Some (pcm ss @ drop (4 * length ss) out)"
proof -
  have nth: "rd a i = Some (scast (fst (ss ! i)))" "rd b i = Some (scast (snd (ss ! i)))" if "i < length ss" for i
  proof -
    have "length ss \<le> length a" "length ss \<le> length b"
      using arg_cong [OF assms(1), of length] arg_cong [OF assms(2), of length] by simp_all
    then show "rd a i = Some (scast (fst (ss ! i)))" "rd b i = Some (scast (snd (ss ! i)))"
      using that nth_take [of i "length ss" a] nth_take [of i "length ss" b] assms(1,2) by (simp_all add: rd_Some)
  qed
  let ?f = "\<lambda>i out. do { a \<leftarrow> rd a i; b \<leftarrow> rd b i;
      (left, right) \<leftarrow> (if (0 :: u8) \<noteq> 0
        then do { s \<leftarrow> sar32 (b * ucast (0 :: u8)) (uint shift);
                  let right = (ucast (a - s) :: u16);
                  Some (ucast (scast right + b :: u32), right) }
        else Some (ucast a, ucast b));
      out \<leftarrow> store16 out (i * 2) left; store16 out (i * 2 + 1) right }"
  have "\<exists>s'. for_loop (length ss) ?f 0 out = Some s' \<and>
      s' = pcm (take (0 + length ss) ss) @ drop (4 * (0 + length ss)) out"
  proof (rule for_loop_inv [where P = "\<lambda>i s. s = pcm (take i ss) @ drop (4 * i) out"])
    fix i and s :: buf
    assume i: "i < 0 + length ss" and s: "s = pcm (take i ss) @ drop (4 * i) out"
    have "do { out \<leftarrow> store16 s (i * 2) (fst (ss ! i)); store16 out (i * 2 + 1) (snd (ss ! i)) } =
        Some ((pcm (take i ss) @ le16 (fst (ss ! i)) @ le16 (snd (ss ! i))) @ drop 4 (drop (4 * i) out))"
      unfolding s by (rule store_pair) (use i assms(3) in simp_all)
    moreover have "pcm (take i ss) @ le16 (fst (ss ! i)) @ le16 (snd (ss ! i)) = pcm (take (Suc i) ss)"
      using i by (simp add: pcm_def take_Suc_conv_app_nth)
    ultimately show "\<exists>s'. ?f i s = Some s' \<and> s' = pcm (take (Suc i) ss) @ drop (4 * Suc i) out"
      using i nth by (simp add: add.commute)
  qed (simp add: pcm_def)
  then show ?thesis
    by (simp add: deinterlace_16_def)
qed

lemma raw_prefix:
  assumes "at_bits (stream a) (bin 4 0 @ bin 12 0 @ bin 1 0 @ bin 2 0 @ bin 1 1 @ bs)"
    and "setinfo_sample_size a = 16"
  shows "stereo_prefix a n alloc sz = Some (Go (a\<lparr>stream := skip 20 (stream a)\<rparr>)
      \<lparr>outputsamples = nat n, frame_size = sz, uncompressed_bytes = 0, isnotcompressed = True,
       readsamplesize = 17\<rparr>)"
    "at_bits (skip 20 (stream a)) bs"
proof -
  note 1 = take_bits_bin [of a 4 0, OF assms(1), simplified]
  note 2 = take_bits_bin [of "a\<lparr>stream := skip 4 (stream a)\<rparr>" 12 0, simplified, OF 1(2)]
  note 3 = take_bits_bin [of "a\<lparr>stream := skip 16 (stream a)\<rparr>" 1 0, simplified, OF 2(2)]
  note 4 = take_bits_bin [of "a\<lparr>stream := skip 17 (stream a)\<rparr>" 2 0, simplified, OF 3(2)]
  note 5 = take_bits_bin [of "a\<lparr>stream := skip 19 (stream a)\<rparr>" 1 1, simplified, OF 4(2)]
  show "stereo_prefix a n alloc sz = Some (Go (a\<lparr>stream := skip 20 (stream a)\<rparr>)
      \<lparr>outputsamples = nat n, frame_size = sz, uncompressed_bytes = 0, isnotcompressed = True,
       readsamplesize = 17\<rparr>)"
    using 1 2 3 4 5 assms(2) by (simp add: stereo_prefix_def read_prefix_def)
  show "at_bits (skip 20 (stream a)) bs" using 5(2) by simp
qed

lemma decode_stereo_raw:
  assumes "at_bits (stream a) (bin 4 0 @ bin 12 0 @ bin 1 0 @ bin 2 0 @ bin 1 1 @
      concat (map pair_bits samples) @ padding)"
    and "setinfo_sample_size a = 16" "numchannels a = 2"
    and "length samples \<le> length (outputsamples_buffer_a a)" "length samples \<le> length (outputsamples_buffer_b a)"
    and "4 * length samples \<le> length out"
  shows "\<exists>a'. decode_stereo a (int (length samples)) alloc sz out =
           Some (a', pcm samples @ drop (4 * length samples) out, sz) \<and> \<not> decode_error (stream a')"
proof -
  let ?n = "length samples"
  let ?b = "a\<lparr>stream := skip 20 (stream a)\<rparr>"
  note pre = raw_prefix [OF assms(1,2)]
  define b where "b = ?b\<lparr>stream := skip (32 * ?n) (stream ?b),
     outputsamples_buffer_a := overwrite 0 (map (scast \<circ> fst) samples) (outputsamples_buffer_a a),
     outputsamples_buffer_b := overwrite 0 (map (scast \<circ> snd) samples) (outputsamples_buffer_b a)\<rparr>"
  have "for_loop ?n stereo_raw_sample 0 ?b = Some b"
    using raw_samples_read [of ?b samples padding 0] pre(2) assms(2,4,5) by (simp add: b_def)
  moreover have "deinterlace_16 (outputsamples_buffer_a b) (outputsamples_buffer_b b) out 2 ?n 0 0
      = Some (pcm samples @ drop (4 * ?n) out)"
    by (rule deinterlace_plain) (use assms(6) in \<open>simp_all add: b_def overwrite_def\<close>)
  moreover have "setinfo_sample_size b = 16" "numchannels b = 2" "\<not> decode_error (stream b)"
    using assms(2,3) pre(2) by (simp_all add: b_def at_bits_def)
  ultimately show ?thesis
    using pre(1) by (simp add: decode_stereo_def on_go_def stereo_raw_def stereo_output_def)
qed

text \<open>
  An uncompressed stereo frame decodes to its samples: whatever follows the frame in the
  packet, the output buffer begins with the pairs in order, left first, little endian, nothing
  after them is touched, and the size reported is four bytes a pair.
\<close>

theorem alac_uncompressed_roundtrip:
  assumes "ready a" "numchannels a = 2" "unat (setinfo_max_samples_per_frame a) = length samples"
    and "samples \<noteq> []" "bitlist packet = raw_frame samples @ padding"
    and "4 * length samples \<le> length out" "int (4 * length samples) \<le> alloc" "alloc \<le> 2147483647"
  shows "\<exists>a'. alac_decode_frame a packet out alloc =
           Some (a', pcm samples @ drop (4 * length samples) out, int (4 * length samples))"
proof -
  let ?n = "length samples"
  define b where "b = \<lparr>input = packet, input_buffer = 0, bitaccumulator = 0, decode_error = False\<rparr>"
  define a1 where "a1 = a\<lparr>stream := b\<rparr>"
  have start: "a\<lparr>stream := (stream a)\<lparr>input := packet, decode_error := False, input_buffer := 0, bitaccumulator := 0\<rparr>\<rparr> = a1"
    by (cases "stream a") (simp add: a1_def b_def)
  have "packet \<noteq> []"
  proof
    assume "packet = []"
    then have "raw_frame samples = []" using assms(5) by (simp add: bitlist_def)
    then show False by (simp add: raw_frame_def raw_header_def bin_def)
  qed
  have at: "at_bits (stream a1) (bin 3 1 @ bin 4 0 @ bin 12 0 @ bin 1 0 @ bin 2 0 @ bin 1 1 @
      concat (map pair_bits samples) @ padding)"
    using assms(5) by (simp add: at_bits_def placed_def offset_def rest_def a1_def b_def raw_frame_def raw_header_def)
  note t = take_bits_bin [OF at, simplified]
  define a2 where "a2 = a1\<lparr>stream := skip 3 (stream a1)\<rparr>"
  have cfg: "numchannels a2 = 2" "bytespersample a2 = 4" "setinfo_sample_size a2 = 16"
      "setinfo_max_samples_per_frame a2 = setinfo_max_samples_per_frame a"
      "length (outputsamples_buffer_a a2) = 352" "length (outputsamples_buffer_b a2) = 352"
    using assms(1,2) by (simp_all add: a2_def a1_def ready_def)
  have n352: "?n \<le> 352" using assms(1,3) by (simp add: ready_def)
  have mx: "sint (setinfo_max_samples_per_frame a) = int ?n"
    using unat_small_sint [of "setinfo_max_samples_per_frame a"] assms(3) n352 by simp
  have size: "set_output_size_checked a2 (int ?n) alloc = Inr (int (4 * ?n))"
    using assms(4,7,8) mx by (simp add: set_output_size_checked_def cfg Let_def)
  have "at_bits (stream a2) (bin 4 0 @ bin 12 0 @ bin 1 0 @ bin 2 0 @ bin 1 1 @ concat (map pair_bits samples) @ padding)"
    using t(2) by (simp add: a2_def)
  then obtain a' where "decode_stereo a2 (int ?n) alloc (int (4 * ?n)) out =
      Some (a', pcm samples @ drop (4 * ?n) out, int (4 * ?n))" "\<not> decode_error (stream a')"
    using decode_stereo_raw [of a2 samples padding out] cfg assms(6) n352 by auto
  then have "decode_frame (a\<lparr>stream := (stream a)\<lparr>input := packet, decode_error := False\<rparr>\<rparr>) out alloc
      = Some (a', pcm samples @ drop (4 * ?n) out, int (4 * ?n))"
    using t(1) size mx cfg by (simp add: decode_frame_def start a2_def [symmetric])
  then show ?thesis
    using \<open>packet \<noteq> []\<close> \<open>\<not> decode_error (stream a')\<close> assms(1) by (simp add: alac_decode_frame_def ready_def)
qed

lemma alac_uncompressed_roundtrip_witness:
  "\<exists>a a'. alac_decode_frame a [0x20, 0, 2, 0x02, 0x02, 0x06, 0x08, 0] (replicate 8 7) 8 =
     Some (a', [0x01, 0x01, 0x04, 0x03, 7, 7, 7, 7], 4)"
proof -
  define a where "a = (alac_new 16 2)\<lparr>setinfo_sample_size := 16, setinfo_max_samples_per_frame := 1\<rparr>"
  have "ready a" "numchannels a = 2" "unat (setinfo_max_samples_per_frame a) = 1"
    by (simp_all add: a_def ready_def alac_new_def alac_zero_def alac_allocate_buffers_def
      Let_def placed_def offset_def ALAC_MAX_SAMPLES_PER_FRAME_def cdiv_nonneg)
  moreover have "bitlist [0x20, 0, 2, 0x02, 0x02, 0x06, 0x08, 0] = raw_frame [(0x0101, 0x0304)] @ replicate 9 False"
    by code_simp
  moreover have "pcm [(0x0101, 0x0304)] = [0x01, 0x01, 0x04, 0x03]"
    by code_simp
  ultimately show ?thesis
    using alac_uncompressed_roundtrip [of a "[(0x0101, 0x0304)]" "[0x20, 0, 2, 0x02, 0x02, 0x06, 0x08, 0]" "replicate 9 False" "replicate 8 7" 8]
    by (auto simp: eval_nat_numeral)
qed

end
