(* ===== verification/C_Text.thy ===== *)
theory C_Text
  imports Prelude
begin

section \<open>C strings and the text functions of the standard library\<close>

text \<open>
  A C string is the list of its bytes before the terminating zero, so that a list in this
  role holds no zero byte and a read at its end sees the terminator.  \<open>lit\<close> turns the
  sources' string literals into bytes and \<open>dec\<close> is what the conversions \<open>%u\<close>, \<open>%zu\<close> and
  \<open>%d\<close> of \<open>snprintf\<close> print for a number that is not negative.

  Then what the sources use of \<open>sscanf\<close>, \<open>strstr\<close> and \<open>atoi\<close>, in the C locale.  The
  C standard leaves open what is stored for a number outside the range of its type and what
  \<open>isspace\<close> does with a negative \<open>char\<close>; a \<open>clib\<close> record says what the library at hand does
  with the numbers and whether \<open>char\<close> is signed, and the properties hold for every one.
\<close>

definition lit :: "string \<Rightarrow> buf" where
  "lit s = map of_char s"

lemma lit_simps [simp]: "lit [] = []" "lit (c # s) = of_char c # lit s"
  by (simp_all add: lit_def)

lemma lit_append: "lit (s @ t) = lit s @ lit t"
  by (simp add: lit_def)

lemma length_lit [simp]: "length (lit s) = length s"
  by (simp add: lit_def)

fun dec :: "nat \<Rightarrow> buf" where
  "dec n = (if n < 10 then [of_nat (48 + n)] else dec (n div 10) @ [of_nat (48 + n mod 10)])"

declare dec.simps [simp del]

definition digit :: "u8 \<Rightarrow> bool" where
  "digit c \<longleftrightarrow> 48 \<le> c \<and> c \<le> 57"

text \<open>The number that a list of decimal digits denotes.\<close>

definition dec_val :: "buf \<Rightarrow> nat" where
  "dec_val s = foldl (\<lambda>a c. a * 10 + (unat c - 48)) 0 s"

lemma dec_val_Nil [simp]: "dec_val [] = 0"
  by (simp add: dec_val_def)

lemma dec_val_snoc [simp]: "dec_val (s @ [c]) = dec_val s * 10 + (unat c - 48)"
  by (simp add: dec_val_def)

lemma digit_unat: "digit c \<longleftrightarrow> 48 \<le> unat c \<and> unat c \<le> 57"
  by (simp add: digit_def word_le_nat_alt)

lemma unat_digit [simp]: "n < 10 \<Longrightarrow> unat (of_nat (48 + n) :: u8) = 48 + n"
  by (simp only: unat_of_nat) simp

lemma digit_of_nat: "n < 10 \<Longrightarrow> digit (of_nat (48 + n))"
  by (simp only: digit_unat unat_digit) simp

lemma dec_digits: "list_all digit (dec n)"
proof (induction n rule: dec.induct)
  case (1 n)
  have d: "digit (of_nat (48 + n mod 10))" by (rule digit_of_nat) simp
  show ?case
    using 1 d digit_of_nat [of n] by (subst dec.simps) (simp del: of_nat_add)
qed

lemma dec_nonempty [simp]: "dec n \<noteq> []"
  by (subst dec.simps) simp

lemma dec_val_dec [simp]: "dec_val (dec n) = n"
proof (induction n rule: dec.induct)
  case (1 n)
  show ?case
  proof (cases "n < 10")
    case True
    then have "dec n = [] @ [of_nat (48 + n)]" by (subst dec.simps) simp
    then show ?thesis
      using True by (simp only: dec_val_snoc unat_digit) simp
  next
    case False
    then have "dec n = dec (n div 10) @ [of_nat (48 + n mod 10)]"
      by (subst dec.simps) (simp only: if_False)
    moreover have "unat (of_nat (48 + n mod 10) :: u8) = 48 + n mod 10"
      by (rule unat_digit) simp
    ultimately show ?thesis
      using 1 False by (simp only: dec_val_snoc) simp
  qed
qed

text \<open>Digits without a leading zero are what is printed of their value.\<close>

lemma dec_val_foldl: "foldl (\<lambda>a c. a * 10 + (unat c - 48)) k s = k * 10 ^ length s + dec_val s"
proof (induction s rule: rev_induct)
  case (snoc c s)
  then show ?case by (simp add: algebra_simps)
qed simp

lemma dec_val_Cons: "dec_val (c # s) = (unat c - 48) * 10 ^ length s + dec_val s"
  using dec_val_foldl [of "unat c - 48" s] by (simp add: dec_val_def)

lemma dec_small_length: "n < 1000 \<Longrightarrow> length (dec n) \<le> 3"
proof -
  assume n: "n < 1000"
  have one: "k < 10 \<Longrightarrow> length (dec k) = 1" for k by (subst dec.simps) simp
  have two: "k < 100 \<Longrightarrow> length (dec k) \<le> 2" for k
    using one [of "k div 10"] by (subst dec.simps) auto
  show ?thesis using two [of "n div 10"] n by (subst dec.simps) auto
qed

subsection \<open>Scanning\<close>

text \<open>The C string at the start of a buffer.\<close>

definition cut :: "buf \<Rightarrow> buf" where
  "cut b = takeWhile (\<lambda>c. c \<noteq> 0) b"

text \<open>\<open>isspace\<close>, and the conversion \<open>%ns\<close> with the width \<open>n\<close>.\<close>

definition is_space :: "u8 \<Rightarrow> bool" where
  "is_space c \<longleftrightarrow> c = 32 \<or> 9 \<le> c \<and> c \<le> 13"

definition scan_word :: "nat \<Rightarrow> buf \<Rightarrow> (buf \<times> buf) option" where
  "scan_word n s =
     (let s = dropWhile is_space s; w = takeWhile (\<lambda>c. \<not> is_space c) (take n s) in
      if w = [] then None else Some (w, drop (length w) s))"

record clib =
  wide_unsigned :: "int \<Rightarrow> u32"
  wide_signed :: "int \<Rightarrow> u32"
  char_signed :: bool

text \<open>A decimal number with an optional sign, after white space, as \<open>%u\<close>, \<open>%d\<close> and \<open>atoi\<close> read it.\<close>

definition scan_number :: "buf \<Rightarrow> (int \<times> buf) option" where
  "scan_number s =
     (let s = dropWhile is_space s;
          neg = (s \<noteq> [] \<and> hd s = 45);
          t = (if s \<noteq> [] \<and> (hd s = 43 \<or> hd s = 45) then tl s else s);
          ds = takeWhile digit t;
          n = int (dec_val ds) in
      if ds = [] then None else Some (if neg then - n else n, drop (length ds) t))"

definition scan_unsigned :: "clib \<Rightarrow> buf \<Rightarrow> (u32 \<times> buf) option" where
  "scan_unsigned lib s =
     (case scan_number s of
        None \<Rightarrow> None
      | Some (n, s) \<Rightarrow> Some (if 0 \<le> n \<and> n < 2 ^ 32 then of_int n else wide_unsigned lib n, s))"

definition atoi :: "clib \<Rightarrow> buf \<Rightarrow> u32" where
  "atoi lib s =
     (case scan_number s of
        None \<Rightarrow> 0
      | Some (n, _) \<Rightarrow> if - (2 ^ 31) \<le> n \<and> n < 2 ^ 31 then of_int n else wide_signed lib n)"

text \<open>The part of \<open>s\<close> from the first occurrence of \<open>key\<close>.\<close>

fun strstr :: "buf \<Rightarrow> buf \<Rightarrow> buf option" where
  "strstr [] key = (if key = [] then Some [] else None)"
| "strstr (c # s) key = (if take (length key) (c # s) = key then Some (c # s) else strstr s key)"

definition starts :: "string \<Rightarrow> buf \<Rightarrow> bool" where
  "starts p s \<longleftrightarrow> take (length p) s = lit p"

text \<open>The part after the first \<open>c\<close>, and after the last.\<close>

definition after_first :: "u8 \<Rightarrow> buf \<Rightarrow> buf option" where
  "after_first c s = (if c \<in> set s then Some (tl (dropWhile (\<lambda>x. x \<noteq> c) s)) else None)"

definition after_last :: "u8 \<Rightarrow> buf \<Rightarrow> buf option" where
  "after_last c s = (if c \<in> set s then Some (rev (takeWhile (\<lambda>x. x \<noteq> c) (rev s))) else None)"

end
