(* ===== verification/Net_Util.thy ===== *)
theory Net_Util
  imports C_Text
begin

section \<open>Text: \<open>src/shared/util/network_util.c\<close>\<close>

text \<open>
  The IPv4 address parser and printer and the case-insensitive comparisons.  An address is a
  \<open>uint32_t\<close> that both functions access through \<open>memcpy\<close>: it is represented by its four
  bytes in memory, which makes the model independent of the host's byte order.
\<close>

subsection \<open>IPv4 addresses\<close>

text \<open>
  \<open>ip_digits s value digits\<close> is the inner loop of \<open>net_str_to_ipv4\<close>: the value, the number of
  digits and the rest of the text.  The loop stops with a failure before \<open>value\<close> exceeds 2559.
\<close>

fun ip_digits :: "buf \<Rightarrow> nat \<Rightarrow> nat \<Rightarrow> errno + nat \<times> nat \<times> buf" where
  "ip_digits [] value digits = Inr (value, digits, [])"
| "ip_digits (c # s) value digits =
     (if digit c then
        let value = value * 10 + (unat c - 48); digits = digits + 1 in
        if digits > 3 \<or> value > 255 then Inl EFail else ip_digits s value digits
      else Inr (value, digits, c # s))"

text \<open>The outer loop from byte \<open>i\<close>, with the bytes stored so far.\<close>

fun ip_bytes :: "nat \<Rightarrow> buf \<Rightarrow> buf \<Rightarrow> errno + buf" where
  "ip_bytes 0 s bytes = Inr bytes"
| "ip_bytes (Suc left) s bytes =
     (case ip_digits s 0 0 of
        Inl e \<Rightarrow> Inl e
      | Inr (value, digits, s) \<Rightarrow>
          if digits = 0 \<or> (if left > 0 then s = [] \<or> hd s \<noteq> 46 else s \<noteq> []) then Inl EFail
          else ip_bytes left (if left > 0 then tl s else s) (bytes @ [of_nat value]))"

definition net_str_to_ipv4 :: "buf \<Rightarrow> errno + buf" where
  "net_str_to_ipv4 ip = ip_bytes 4 ip []"

definition dotted :: "buf \<Rightarrow> buf" where
  "dotted bytes = dec (unat (bytes ! 0)) @ [46] @ dec (unat (bytes ! 1)) @ [46]
     @ dec (unat (bytes ! 2)) @ [46] @ dec (unat (bytes ! 3))"

text \<open>An address has four bytes.\<close>

lemma ip_bytes_length: "ip_bytes n s bytes = Inr a \<Longrightarrow> length a = n + length bytes"
  by (induction n s bytes rule: ip_bytes.induct) (auto split: sum.splits list.splits if_splits)

lemma net_str_to_ipv4_length: "net_str_to_ipv4 s = Inr a \<Longrightarrow> length a = 4"
  by (auto simp: net_str_to_ipv4_def dest: ip_bytes_length)

text \<open>\<open>net_ipv4_to_str address capacity\<close>: the text, when it and its terminator fit.\<close>

definition net_ipv4_to_str :: "buf \<Rightarrow> nat \<Rightarrow> errno + buf" where
  "net_ipv4_to_str address capacity =
     (if capacity < 16 then Inl EFail
      else if 0 < length (dotted address) \<and> length (dotted address) < capacity
      then Inr (dotted address) else Inl EFail)"

subsection \<open>Comparison without case\<close>

definition ascii_lower :: "u8 \<Rightarrow> u8" where
  "ascii_lower c = (if 65 \<le> c \<and> c \<le> 90 then c + 32 else c)"

text \<open>The byte at the head of a C string, its terminator at the end.\<close>

definition peek :: "buf \<Rightarrow> u8" where
  "peek s = (case s of [] \<Rightarrow> 0 | c # _ \<Rightarrow> c)"

text \<open>At a zero on both sides the loop has ended, so \<open>tl\<close> never runs past a terminator.\<close>

function net_ascii_casecmp :: "buf \<Rightarrow> buf \<Rightarrow> int" where
  "net_ascii_casecmp a b =
     (let left = ascii_lower (peek a); right = ascii_lower (peek b) in
      if left \<noteq> right \<or> left = 0 then uint left - uint right
      else net_ascii_casecmp (tl a) (tl b))"
  by pat_completeness auto
termination
  by (relation "measure (\<lambda>(a, b). length a)") (auto simp: peek_def ascii_lower_def split: list.splits)

declare net_ascii_casecmp.simps [simp del]

fun net_ascii_ncasecmp :: "buf \<Rightarrow> buf \<Rightarrow> nat \<Rightarrow> int" where
  "net_ascii_ncasecmp a b 0 = 0"
| "net_ascii_ncasecmp a b (Suc count) =
     (let left = ascii_lower (peek a); right = ascii_lower (peek b) in
      if left \<noteq> right \<or> left = 0 then uint left - uint right
      else net_ascii_ncasecmp (tl a) (tl b) count)"

lemma ascii_lower_zero [simp]: "ascii_lower 0 = 0" "ascii_lower c = 0 \<longleftrightarrow> c = 0"
proof -
  have "c + 32 \<noteq> 0" if "65 \<le> c" "c \<le> 90"
  proof -
    have "unat (c + 32) = unat c + 32"
      using that by (simp add: unat_word_ariths word_le_nat_alt)
    then show ?thesis by fastforce
  qed
  then show "ascii_lower 0 = 0" "ascii_lower c = 0 \<longleftrightarrow> c = 0"
    by (auto simp: ascii_lower_def)
qed

text \<open>
  Of two strings without zeros the comparison says whether they agree up to the case of the
  letters.
\<close>

lemma casecmp_eq_iff:
  "0 \<notin> set a \<Longrightarrow> 0 \<notin> set b \<Longrightarrow> net_ascii_casecmp a b = 0 \<longleftrightarrow> map ascii_lower a = map ascii_lower b"
proof (induction a b rule: net_ascii_casecmp.induct)
  case (1 a b)
  show ?case
  proof (cases a)
    case Nil
    then show ?thesis
      using 1(3) by (cases b) (auto simp: net_ascii_casecmp.simps [of "[]"] peek_def uint_0_iff)
  next
    case (Cons c a')
    show ?thesis
    proof (cases b)
      case Nil
      then show ?thesis
        using \<open>a = c # a'\<close> 1(2)
        by (auto simp: net_ascii_casecmp.simps [of "c # a'"] peek_def uint_0_iff)
    next
      case (Cons d b')
      then show ?thesis
        using 1 \<open>a = c # a'\<close>
        by (subst net_ascii_casecmp.simps) (auto simp: peek_def Let_def split: if_splits dest: unsigned_word_eqI)
    qed
  qed
qed

text \<open>The bounded comparison is the comparison of the first bytes.\<close>

lemma ncasecmp_take: "net_ascii_ncasecmp a b n = net_ascii_casecmp (take n a) (take n b)"
proof (induction n arbitrary: a b)
  case (Suc n)
  show ?case
    by (subst net_ascii_casecmp.simps)
      (cases a; cases b; auto simp: peek_def Let_def Suc)
qed (simp add: net_ascii_casecmp.simps peek_def)

subsection \<open>Lemmas on addresses\<close>

lemma ip_digits_value:
  assumes "ip_digits s val digits = Inr (v, d, r)" and "val \<le> 255"
  shows "\<exists>p. s = p @ r \<and> list_all digit p \<and> d = digits + length p \<and>
    v = val * 10 ^ length p + dec_val p \<and> (r = [] \<or> \<not> digit (hd r)) \<and> v \<le> 255 \<and> (p \<noteq> [] \<longrightarrow> d \<le> 3)"
  using assms
proof (induction s val digits rule: ip_digits.induct)
  case (2 c s val digits)
  show ?case
  proof (cases "digit c")
    case True
    then have fine: "digits + 1 \<le> 3" "val * 10 + (unat c - 48) \<le> 255"
      and rec: "ip_digits s (val * 10 + (unat c - 48)) (digits + 1) = Inr (v, d, r)"
      using 2(2) by (auto simp: Let_def split: if_splits)
    obtain p where p: "s = p @ r" "list_all digit p" "d = digits + 1 + length p"
      "v = (val * 10 + (unat c - 48)) * 10 ^ length p + dec_val p" "r = [] \<or> \<not> digit (hd r)" "v \<le> 255" "p \<noteq> [] \<longrightarrow> d \<le> 3"
      using 2(1) [OF True refl refl _ rec] fine by auto
    show ?thesis
      using p True fine by (intro exI [of _ "c # p"]) (auto simp: dec_val_Cons algebra_simps)
  next
    case False
    then show ?thesis using 2(2,3) by (intro exI [of _ "[]"]) auto
  qed
qed simp

lemma dec_val_prefix_le: "dec_val p \<le> dec_val (p @ q)"
proof (induction q rule: rev_induct)
  case (snoc c q)
  have "dec_val (p @ q @ [c]) = dec_val (p @ q) * 10 + (unat c - 48)"
    using dec_val_snoc [of "p @ q" c] by simp
  with snoc show ?case by simp
qed simp

lemma ip_digits_run:
  assumes "list_all digit p" and "length p + digits \<le> 3"
    and "val * 10 ^ length p + dec_val p \<le> 255" and "r = [] \<or> \<not> digit (hd r)"
  shows "ip_digits (p @ r) val digits = Inr (val * 10 ^ length p + dec_val p, digits + length p, r)"
  using assms
proof (induction p arbitrary: val digits)
  case Nil
  then show ?case by (cases r) auto
next
  case (Cons c p)
  have e: "(val * 10 + (unat c - 48)) * 10 ^ length p + dec_val p = val * 10 ^ length (c # p) + dec_val (c # p)"
    by (simp add: dec_val_Cons algebra_simps)
  have "val * 10 + (unat c - 48) \<le> (val * 10 + (unat c - 48)) * 10 ^ length p"
    by simp
  then have le: "val * 10 + (unat c - 48) \<le> 255"
    using e Cons.prems(3) by linarith
  have "ip_digits (p @ r) (val * 10 + (unat c - 48)) (digits + 1)
      = Inr ((val * 10 + (unat c - 48)) * 10 ^ length p + dec_val p, digits + 1 + length p, r)"
    using Cons.prems e by (intro Cons.IH) auto
  then show ?case
    using Cons.prems le e by simp
qed

lemma ip_digits_dec:
  assumes "r = [] \<or> \<not> digit (hd r)"
  shows "ip_digits (dec (unat (x :: u8)) @ r) 0 0 = Inr (unat x, length (dec (unat x)), r)"
proof -
  have "unat x \<le> 255" using unat_u8_less [of x] by linarith
  then show ?thesis
    using ip_digits_run [OF dec_digits, of "unat x" 0 0 r] dec_small_length [of "unat x"] assms by simp
qed

text \<open>
  Text and addresses.  The text printed for an address fits in 16 bytes with its
  terminator and is parsed back to the address; and a text is accepted only when it consists of
  four numbers of one to three digits, none above 255, with dots between them, and then stands
  for those four bytes.
\<close>

theorem ipv4_text:
  "(\<forall>a b c d. \<exists>t. net_ipv4_to_str [a, b, c, d] 16 = Inr t \<and> net_str_to_ipv4 t = Inr [a, b, c, d]) \<and>
   (case net_str_to_ipv4 s of
      Inl _ \<Rightarrow> True
    | Inr bs \<Rightarrow> \<exists>p q r t. s = p @ [46] @ q @ [46] @ r @ [46] @ t \<and>
        list_all (\<lambda>x. list_all digit x \<and> x \<noteq> [] \<and> length x \<le> 3 \<and> dec_val x \<le> 255) [p, q, r, t] \<and>
        bs = map (of_nat \<circ> dec_val) [p, q, r, t])"
proof (intro conjI allI)
  fix a b c d :: u8
  have len: "length (dec (unat (x :: u8))) \<le> 3" for x
    using unat_u8_less [of x] by (intro dec_small_length) linarith
  have four: "ip_bytes 4 s bs = ip_bytes (Suc (Suc (Suc (Suc 0)))) s bs" for s bs
    by (simp add: eval_nat_numeral)
  let ?t = "dotted [a, b, c, d]"
  have t: "?t = dec (unat a) @ [46] @ dec (unat b) @ [46] @ dec (unat c) @ [46] @ dec (unat d) @ []"
    by (simp add: dotted_def)
  have "length ?t < 16"
    using len [of a] len [of b] len [of c] len [of d] by (simp add: t)
  then have "net_ipv4_to_str [a, b, c, d] 16 = Inr ?t"
    by (simp add: net_ipv4_to_str_def) (simp add: dotted_def)
  moreover have "net_str_to_ipv4 ?t = Inr [a, b, c, d]"
    by (simp add: net_str_to_ipv4_def t four ip_digits_dec ip_digits_dec [of "[]", simplified] digit_def)
  ultimately show "\<exists>t. net_ipv4_to_str [a, b, c, d] 16 = Inr t \<and> net_str_to_ipv4 t = Inr [a, b, c, d]"
    by blast
next
  show "case net_str_to_ipv4 s of Inl _ \<Rightarrow> True
    | Inr bs \<Rightarrow> \<exists>p q r t. s = p @ [46] @ q @ [46] @ r @ [46] @ t \<and>
        list_all (\<lambda>x. list_all digit x \<and> x \<noteq> [] \<and> length x \<le> 3 \<and> dec_val x \<le> 255) [p, q, r, t] \<and>
        bs = map (of_nat \<circ> dec_val) [p, q, r, t]"
  proof (cases "net_str_to_ipv4 s")
    case (Inr bs)
    have step: "\<exists>p u. s = p @ u \<and> list_all digit p \<and> p \<noteq> [] \<and> length p \<le> 3 \<and> dec_val p \<le> 255 \<and>
        (if left > 0 then u \<noteq> [] \<and> hd u = 46 \<and> ip_bytes left (tl u) (acc @ [of_nat (dec_val p)]) = Inr bs
         else u = [] \<and> bs = acc @ [of_nat (dec_val p)])"
      if run: "ip_bytes (Suc left) s acc = Inr bs" for left s acc
    proof -
      obtain v d u where dg: "ip_digits s 0 0 = Inr (v, d, u)"
        using run by (auto split: sum.splits)
      obtain p where p: "s = p @ u" "list_all digit p" "d = length p" "v = dec_val p" "v \<le> 255" "p \<noteq> [] \<longrightarrow> d \<le> 3"
        using ip_digits_value [OF dg] by auto
      have "p \<noteq> []" using run dg p(3) by (auto split: if_splits)
      then show ?thesis
        using run dg p by (cases "left > 0") (auto split: if_splits)
    qed
    have "ip_bytes (Suc 3) s [] = Inr bs"
      using Inr by (simp add: net_str_to_ipv4_def)
    from step [OF this] obtain p u where p: "s = p @ u" "list_all digit p" "p \<noteq> []" "length p \<le> 3" "dec_val p \<le> 255"
      "u \<noteq> []" "hd u = 46" "ip_bytes (Suc 2) (tl u) [of_nat (dec_val p)] = Inr bs"
      by (auto simp: eval_nat_numeral)
    from step [OF p(8)] obtain q w where q: "tl u = q @ w" "list_all digit q" "q \<noteq> []" "length q \<le> 3" "dec_val q \<le> 255"
      "w \<noteq> []" "hd w = 46" "ip_bytes (Suc 1) (tl w) [of_nat (dec_val p), of_nat (dec_val q)] = Inr bs"
      by (auto simp: eval_nat_numeral)
    from step [OF q(8)] obtain r z where r: "tl w = r @ z" "list_all digit r" "r \<noteq> []" "length r \<le> 3" "dec_val r \<le> 255"
      "z \<noteq> []" "hd z = 46" "ip_bytes (Suc 0) (tl z) [of_nat (dec_val p), of_nat (dec_val q), of_nat (dec_val r)] = Inr bs"
      by auto
    from step [OF r(8)] obtain t where t: "tl z = t" "list_all digit t" "t \<noteq> []" "length t \<le> 3" "dec_val t \<le> 255"
      "bs = [of_nat (dec_val p), of_nat (dec_val q), of_nat (dec_val r), of_nat (dec_val t)]"
      by auto
    have "u = 46 # tl u" "w = 46 # tl w" "z = 46 # tl z"
      using p(6,7) q(6,7) r(6,7) by (metis list.collapse)+
    then have "s = p @ [46] @ q @ [46] @ r @ [46] @ t"
      using p(1) q(1) r(1) t(1) by (metis append_Cons append_Nil)
    moreover have "list_all (\<lambda>x. list_all digit x \<and> x \<noteq> [] \<and> length x \<le> 3 \<and> dec_val x \<le> 255) [p, q, r, t]"
      using p(2-5) q(2-5) r(2-5) t(2-5) by simp
    moreover have "bs = map (of_nat \<circ> dec_val) [p, q, r, t]"
      using t(6) by simp
    ultimately show ?thesis
      unfolding Inr sum.case by blast
  qed simp
qed

end
