(* ===== verification/Rtsp_Request.thy ===== *)
theory Rtsp_Request
  imports Net_Util
begin

section \<open>RTSP requests: the parser of \<open>src/shared/protocol/rtsp.c\<close>\<close>

text \<open>
  \<open>parse_request\<close> looks for one request at the start of a connection's receive buffer.  The
  buffer is the list of the received bytes, at most \<open>rtsp_rx_buffer_size\<close> of them; the result
  is one of the three of the C function: 0 (\<open>Incomplete\<close>: wait for more bytes), -1 (\<open>Invalid\<close>)
  and 1 with the request and the bytes it occupies (\<open>Parsed\<close>).  Every read of the buffer is
  checked, and \<open>None\<close> would be a read outside.

  The request structure keeps its strings as lists without the terminator; \<open>header_count\<close> and
  \<open>body_len\<close> are the lengths of \<open>headers\<close> and \<open>req_body\<close>.  What a rejected request leaves in
  the structure is not represented: no caller reads it.
\<close>

definition rtsp_rx_buffer_size :: nat where "rtsp_rx_buffer_size = 262144"

datatype rtsp_method =
    METHOD_UNKNOWN | METHOD_GET | METHOD_POST | METHOD_OPTIONS | METHOD_ANNOUNCE | METHOD_DESCRIBE
  | METHOD_SETUP | METHOD_RECORD | METHOD_FLUSH | METHOD_FLUSHBUFFERED | METHOD_PLAY | METHOD_PAUSE
  | METHOD_TEARDOWN | METHOD_GET_PARAMETER | METHOD_SET_PARAMETER | METHOD_SETPEERS
  | METHOD_SETRATEANCHORTIME

record rtsp_header =
  name :: buf
  header_value :: buf

record rtsp_request =
  rmethod :: rtsp_method
  uri :: buf
  version :: buf
  cseq :: u32
  headers :: "rtsp_header list"
  req_body :: buf

datatype parsed = Incomplete | Invalid | Parsed rtsp_request nat

subsection \<open>Words of a line\<close>

definition method_table :: "(string \<times> rtsp_method) list" where
  "method_table =
     [(''GET'', METHOD_GET), (''POST'', METHOD_POST), (''OPTIONS'', METHOD_OPTIONS),
      (''ANNOUNCE'', METHOD_ANNOUNCE), (''DESCRIBE'', METHOD_DESCRIBE), (''SETUP'', METHOD_SETUP),
      (''RECORD'', METHOD_RECORD), (''FLUSH'', METHOD_FLUSH),
      (''FLUSHBUFFERED'', METHOD_FLUSHBUFFERED), (''PLAY'', METHOD_PLAY), (''PAUSE'', METHOD_PAUSE),
      (''TEARDOWN'', METHOD_TEARDOWN), (''GET_PARAMETER'', METHOD_GET_PARAMETER),
      (''SET_PARAMETER'', METHOD_SET_PARAMETER), (''SETPEERS'', METHOD_SETPEERS),
      (''SETPEERSX'', METHOD_SETPEERS), (''SETRATEANCHORTIME'', METHOD_SETRATEANCHORTIME)]"

definition parse_method :: "buf \<Rightarrow> rtsp_method" where
  "parse_method s =
     (case find (\<lambda>(n, v). net_ascii_casecmp s (lit n) = 0) method_table of
        Some (n, v) \<Rightarrow> v | None \<Rightarrow> METHOD_UNKNOWN)"

definition blank :: "u8 \<Rightarrow> bool" where
  "blank c \<longleftrightarrow> c = 32 \<or> c = 9"

definition trim :: "buf \<Rightarrow> buf" where
  "trim s = rev (dropWhile blank (rev (dropWhile blank s)))"

text \<open>The digits of a decimal \<open>uint32_t\<close>; what is not a digit wraps to a large number.\<close>

fun uint32_loop :: "buf \<Rightarrow> u32 \<Rightarrow> errno + u32" where
  "uint32_loop [] val = Inr val"
| "uint32_loop (c # s) val =
     (let dg = (ucast c :: u32) - 48 in
      if dg > 9 \<or> val > (0xFFFFFFFF - dg) div 10 then Inl EFail
      else uint32_loop s (val * 10 + dg))"

definition parse_uint32 :: "buf \<Rightarrow> errno + u32" where
  "parse_uint32 s = (if s = [] then Inl EFail else uint32_loop s 0)"

text \<open>
  \<open>sscanf(line, "%63s %255s %31s %c", \<dots>) == 3\<close>: white space in the C locale is skipped before
  each word, a word of more than the given bytes is cut there (and goes on as the next word), and
  \<open>%c\<close> finds nothing but white space after the third.
\<close>

definition scan_request_line :: "buf \<Rightarrow> (buf \<times> buf \<times> buf) option" where
  "scan_request_line line = do {
     (m, s) \<leftarrow> scan_word 63 line;
     (u, s) \<leftarrow> scan_word 255 s;
     (v, s) \<leftarrow> scan_word 31 s;
     if dropWhile is_space s = [] then Some (m, u, v) else None }"

definition known_version :: "buf \<Rightarrow> bool" where
  "known_version v \<longleftrightarrow> take 5 v = lit ''RTSP/'' \<or> v = lit ''HTTP/1.1''"

subsection \<open>Lines and headers\<close>

text \<open>The variables of the loop over the lines.\<close>

record line_state =
  request :: rtsp_request
  content_length :: u32
  first_line :: bool
  has_length :: bool

definition parse_first_line :: "buf \<Rightarrow> line_state \<Rightarrow> errno + line_state" where
  "parse_first_line line st =
     (case scan_request_line line of
        None \<Rightarrow> Inl EFail
      | Some (m, u, v) \<Rightarrow>
          if \<not> known_version v then Inl EFail
          else Inr (st\<lparr>request := (request st)\<lparr>uri := u, version := v, rmethod := parse_method m\<rparr>,
                      first_line := False\<rparr>))"

definition parse_header_line :: "buf \<Rightarrow> line_state \<Rightarrow> errno + line_state" where
  "parse_header_line line st =
     (if 58 \<notin> set line \<or> length (headers (request st)) = 32 then Inl EFail
      else
        let n = trim (takeWhile (\<lambda>c. c \<noteq> 58) line);
            v = trim (tl (dropWhile (\<lambda>c. c \<noteq> 58) line)) in
        if n = [] \<or> length n \<ge> 128 \<or> length v \<ge> 256 then Inl EFail
        else
          let st = st\<lparr>request := (request st)
                       \<lparr>headers := headers (request st) @ [\<lparr>name = n, header_value = v\<rparr>]\<rparr>\<rparr> in
          if net_ascii_casecmp n (lit ''CSeq'') = 0 then
            (case parse_uint32 v of
               Inl e \<Rightarrow> Inl e
             | Inr x \<Rightarrow> Inr (st\<lparr>request := (request st)\<lparr>cseq := x\<rparr>\<rparr>))
          else if net_ascii_casecmp n (lit ''Content-Length'') = 0 then
            (if has_length st then Inl EFail
             else
               (case parse_uint32 v of
                  Inl e \<Rightarrow> Inl e
                | Inr x \<Rightarrow> Inr (st\<lparr>content_length := x, has_length := True\<rparr>)))
          else Inr st)"

definition parse_line :: "buf \<Rightarrow> line_state \<Rightarrow> errno + line_state" where
  "parse_line line st =
     (if first_line st then parse_first_line line st else parse_header_line line st)"

text \<open>The end of the headers: the position after the first empty line, or 0.\<close>

definition blank_line :: buf where "blank_line = [13, 10, 13, 10]"

function find_headers_end :: "buf \<Rightarrow> nat \<Rightarrow> nat option" where
  "find_headers_end b i =
     (if i + 3 < length b then do {
        w \<leftarrow> rd_range b i 4;
        if w = blank_line then Some (i + 4) else find_headers_end b (i + 1) }
      else Some 0)"
  by pat_completeness auto
termination by (relation "measure (\<lambda>(b, i). length b - i)") auto

declare find_headers_end.simps [simp del]

function find_line_end :: "buf \<Rightarrow> nat \<Rightarrow> nat \<Rightarrow> nat option" where
  "find_line_end b headers_end e =
     (if e + 1 < headers_end then do {
        x \<leftarrow> rd b e;
        crlf \<leftarrow> (if x = 13 then do { y \<leftarrow> rd b (e + 1); Some (y = 10) } else Some False);
        if crlf then Some e else find_line_end b headers_end (e + 1) }
      else Some e)"
  by pat_completeness auto
termination by (relation "measure (\<lambda>(b, headers_end, e). headers_end - e)") auto

declare find_line_end.simps [simp del]

lemma find_line_end_ge: "find_line_end b h e = Some r \<Longrightarrow> e \<le> r"
proof (induction b h e rule: find_line_end.induct)
  case (1 b h e)
  show ?case
    using 1(2) 1(1)
    by (subst (asm) find_line_end.simps)
      (fastforce simp: bind_eq_Some_conv split: if_splits)
qed

function parse_lines :: "buf \<Rightarrow> nat \<Rightarrow> nat \<Rightarrow> line_state \<Rightarrow> line_state ret option" where
  "parse_lines b headers_end pos st =
     (if pos < headers_end then
        (case find_line_end b headers_end pos of
           None \<Rightarrow> None
         | Some e \<Rightarrow>
             if e + 1 \<ge> headers_end \<or> e - pos \<ge> 1024 then fail
             else do {
               line \<leftarrow> rd_range b pos (e - pos);
               if line = [] then ok st
               else
                 (case parse_line line st of
                    Inl _ \<Rightarrow> fail
                  | Inr st \<Rightarrow> parse_lines b headers_end (e + 2) st) })
      else ok st)"
  by pat_completeness auto
termination
  by (relation "measure (\<lambda>(b, headers_end, pos, st). headers_end - pos)")
    (auto dest: find_line_end_ge)

declare parse_lines.simps [simp del]

definition request_zero :: rtsp_request where
  "request_zero =
     \<lparr>rmethod = METHOD_UNKNOWN, uri = [], version = [], cseq = 0, headers = [], req_body = []\<rparr>"

definition parse_request :: "buf \<Rightarrow> parsed option" where
  "parse_request b = do {
     headers_end \<leftarrow> find_headers_end b 0;
     if headers_end = 0 then
       Some (if length b = rtsp_rx_buffer_size then Invalid else Incomplete)
     else do {
       h \<leftarrow> rd_range b 0 headers_end;
       if 0 \<in> set h then Some Invalid
       else do {
         r \<leftarrow> parse_lines b headers_end 0
                \<lparr>request = request_zero, content_length = 0, first_line = True, has_length = False\<rparr>;
         (case r of
            Inl _ \<Rightarrow> Some Invalid
          | Inr st \<Rightarrow>
              let n = unat (content_length st) in
              if first_line st \<or> n > rtsp_rx_buffer_size - headers_end then Some Invalid
              else if length b - headers_end < n then Some Incomplete
              else do {
                body \<leftarrow> rd_range b headers_end n;
                Some (Parsed ((request st)\<lparr>req_body := body\<rparr>) (headers_end + n)) }) } } }"

subsection \<open>What the scans read\<close>

lemma rd_range_append [simp]: "p + n \<le> length b \<Longrightarrow> rd_range (b @ m) p n = rd_range b p n"
  by (simp add: rd_range_def)

lemma headers_end_total: "\<exists>h. find_headers_end b i = Some h \<and> (h = 0 \<or> i + 4 \<le> h \<and> h \<le> length b)"
proof (induction b i rule: find_headers_end.induct)
  case (1 b i)
  show ?case
  proof (cases "i + 3 < length b")
    case True
    then have r: "rd_range b i 4 = Some (take 4 (drop i b))" by (simp add: mem)
    show ?thesis
    proof (cases "take 4 (drop i b) = blank_line")
      case False
      then obtain h where h: "find_headers_end b (i + 1) = Some h" "h = 0 \<or> i + 1 + 4 \<le> h \<and> h \<le> length b"
        using 1 [OF True r] by blast
      have "find_headers_end b i = Some h"
        using True r False h(1) by (subst find_headers_end.simps) simp
      then show ?thesis using h(2) by auto
    qed (use True r in \<open>auto simp: find_headers_end.simps [of b i]\<close>)
  qed (simp add: find_headers_end.simps [of b i])
qed

lemma headers_end_append:
  "find_headers_end b i = Some h \<Longrightarrow> h \<noteq> 0 \<Longrightarrow> find_headers_end (b @ m) i = Some h"
proof (induction b i rule: find_headers_end.induct)
  case (1 b i)
  then have i: "i + 3 < length b"
    by (subst (asm) (2) find_headers_end.simps) (auto split: if_splits)
  then have r: "rd_range b i 4 = Some (take 4 (drop i b))" "rd_range (b @ m) i 4 = rd_range b i 4"
    by (simp_all add: mem)
  show ?case
    using 1(1) [OF i r(1)] 1(2,3) i r
    by (simp add: find_headers_end.simps [of b i] find_headers_end.simps [of "b @ m" i] split: if_splits)
qed

lemma headers_end_prefix:
  assumes "find_headers_end b 0 = Some h" and "h \<noteq> 0" and "k < h"
  shows "find_headers_end (take k b) 0 = Some 0"
proof -
  obtain h' where h': "find_headers_end (take k b) 0 = Some h'" "h' = 0 \<or> h' \<le> length (take k b)"
    using headers_end_total [of "take k b" 0] by auto
  have "h' = 0"
  proof (rule ccontr)
    assume "h' \<noteq> 0"
    then have "find_headers_end (take k b @ drop k b) 0 = Some h'"
      using h'(1) headers_end_append by blast
    then show False using assms h'(2) \<open>h' \<noteq> 0\<close> by simp
  qed
  with h'(1) show ?thesis by simp
qed

lemma headers_end_take:
  "find_headers_end b i = Some h \<Longrightarrow> h \<noteq> 0 \<Longrightarrow> h \<le> k \<Longrightarrow> find_headers_end (take k b) i = Some h"
proof (induction b i rule: find_headers_end.induct)
  case (1 b i)
  then have i: "i + 3 < length b"
    by (subst (asm) (2) find_headers_end.simps) (auto split: if_splits)
  have "i + 4 \<le> h"
    using headers_end_total [of b i] 1(2,3) by simp
  then have r: "rd_range b i 4 = Some (take 4 (drop i b))" "rd_range (take k b) i 4 = Some (take 4 (drop i b))"
    "i + 3 < length (take k b)"
    using i 1(4) by (simp_all add: rd_range_def drop_take min_def)
  show ?case
    using 1(1) [OF i r(1)] 1(2-4) i r
    by (simp add: find_headers_end.simps [of b i] find_headers_end.simps [of "take k b" i] split: if_splits)
qed

lemma line_end_total:
  "h \<le> length b \<Longrightarrow> \<exists>r. find_line_end b h e = Some r \<and> (\<forall>m. find_line_end (b @ m) h e = Some r)"
proof (induction b h e rule: find_line_end.induct)
  case (1 b h e)
  show ?case
  proof (cases "e + 1 < h")
    case True
    then have r: "rd b e = Some (b ! e)" "rd b (e + 1) = Some (b ! (e + 1))"
      using 1(2) by (simp_all add: mem)
    have a: "rd (b @ m) e = rd b e" "rd (b @ m) (e + 1) = rd b (e + 1)" for m
      using True 1(2) by simp_all
    show ?thesis
      using 1(1) [OF True r(1) _ _ 1(2)] True
      by (auto simp: find_line_end.simps [of b h e] find_line_end.simps [of "b @ m" h e for m] r a
        simp del: One_nat_def)
  qed (simp add: find_line_end.simps [of b h e] find_line_end.simps [of "b @ m" h e for m])
qed

lemma parse_lines_total:
  "h \<le> length b \<Longrightarrow> \<exists>r. parse_lines b h pos st = Some r \<and> (\<forall>m. parse_lines (b @ m) h pos st = Some r)"
proof (induction b h pos st rule: parse_lines.induct)
  case (1 b h pos st)
  show ?case
  proof (cases "pos < h")
    case True
    obtain e where e: "find_line_end b h pos = Some e" "\<And>m. find_line_end (b @ m) h pos = Some e"
      using line_end_total [OF 1(2)] by blast
    show ?thesis
    proof (cases "e + 1 \<ge> h \<or> e - pos \<ge> 1024")
      case False
      then have r: "rd_range b pos (e - pos) = Some (take (e - pos) (drop pos b))"
        "rd_range (b @ m) pos (e - pos) = rd_range b pos (e - pos)" for m
        using 1(2) find_line_end_ge [OF e(1)] by (simp_all add: mem)
      show ?thesis
      proof (cases "take (e - pos) (drop pos b) = []")
        case False
        then show ?thesis
          using 1(1) [OF True e(1) \<open>\<not> (e + 1 \<ge> h \<or> e - pos \<ge> 1024)\<close> r(1) False _ 1(2)] True
            \<open>\<not> (e + 1 \<ge> h \<or> e - pos \<ge> 1024)\<close>
          by (cases "parse_line (take (e - pos) (drop pos b)) st")
            (auto simp: parse_lines.simps [of b h pos st] parse_lines.simps [of "b @ m" h pos st for m] e r)
      qed (use True \<open>\<not> (e + 1 \<ge> h \<or> e - pos \<ge> 1024)\<close> in
        \<open>simp add: parse_lines.simps [of b h pos st] parse_lines.simps [of "b @ m" h pos st for m] e r\<close>)
    qed (use True in \<open>auto simp: parse_lines.simps [of b h pos st] parse_lines.simps [of "b @ m" h pos st for m] e\<close>)
  qed (simp add: parse_lines.simps [of b h pos st] parse_lines.simps [of "b @ m" h pos st for m])
qed

text \<open>
  The header section decides everything but whether the body has arrived: \<open>head h\<close> is the
  verdict on the first \<open>h\<close> bytes, none when it is malformed.
\<close>

definition head :: "buf \<Rightarrow> (rtsp_request \<times> nat) option" where
  "head hs =
     (if 0 \<in> set hs then None
      else
        (case parse_lines hs (length hs) 0
                \<lparr>request = request_zero, content_length = 0, first_line = True, has_length = False\<rparr> of
           Some (Inr st) \<Rightarrow>
             if first_line st \<or> unat (content_length st) > rtsp_rx_buffer_size - length hs then None
             else Some (request st, unat (content_length st))
         | _ \<Rightarrow> None))"

lemma parse_request_head:
  assumes "find_headers_end b 0 = Some h" and "h \<noteq> 0"
  shows "h \<le> length b" and
    "parse_request b = Some (case head (take h b) of
       None \<Rightarrow> Invalid
     | Some (r, n) \<Rightarrow>
         if length b < h + n then Incomplete
         else Parsed (r\<lparr>req_body := take n (drop h b)\<rparr>) (h + n))"
proof -
  show le: "h \<le> length b"
    using assms headers_end_total [of b 0] by auto
  let ?st = "\<lparr>request = request_zero, content_length = 0, first_line = True, has_length = False\<rparr>"
  have len: "length (take h b) = h" using le by simp
  obtain r where r: "parse_lines (take h b) h 0 ?st = Some r"
    and "\<And>m. parse_lines (take h b @ m) h 0 ?st = Some r"
    using parse_lines_total [of h "take h b" 0 ?st] unfolding len by blast
  from this(2) [of "drop h b"] have r': "parse_lines b h 0 ?st = Some r" by simp
  have hd: "rd_range b 0 h = Some (take h b)" using le by (simp add: rd_range_def)
  show "parse_request b = Some (case head (take h b) of
       None \<Rightarrow> Invalid
     | Some (r, n) \<Rightarrow>
         if length b < h + n then Incomplete
         else Parsed (r\<lparr>req_body := take n (drop h b)\<rparr>) (h + n))"
    using le assms
    by (cases r)
      (auto simp: parse_request_def head_def len r r' hd Let_def rd_range_def less_diff_conv2 split: if_splits)
qed

lemma head_length: "head hs = Some (r, n) \<Longrightarrow> length hs \<le> rtsp_rx_buffer_size \<Longrightarrow> length hs + n \<le> rtsp_rx_buffer_size"
  by (auto simp: head_def split: option.splits sum.splits if_splits)

lemma parse_request_no_end:
  "find_headers_end b 0 = Some 0 \<Longrightarrow>
   parse_request b = Some (if length b = rtsp_rx_buffer_size then Invalid else Incomplete)"
  by (simp add: parse_request_def)

lemma rtsp_frame_step:
  assumes "length b \<le> rtsp_rx_buffer_size"
  shows "\<exists>p. parse_request b = Some p \<and>
    (p \<noteq> Incomplete \<longrightarrow> (\<forall>more. length (b @ more) \<le> rtsp_rx_buffer_size \<longrightarrow> parse_request (b @ more) = Some p)) \<and>
    (case p of
       Parsed r c \<Rightarrow> 4 \<le> c \<and> c \<le> length b \<and> req_body r = drop (c - length (req_body r)) (take c b) \<and>
         length (req_body r) + 4 \<le> c \<and> (\<forall>k<c. parse_request (take k b) = Some Incomplete)
     | Incomplete \<Rightarrow> length b < rtsp_rx_buffer_size
     | Invalid \<Rightarrow> True)"
proof -
  obtain h where h: "find_headers_end b 0 = Some h" "h = 0 \<or> 4 \<le> h \<and> h \<le> length b"
    using headers_end_total [of b 0] by auto
  show ?thesis
  proof (cases "h = 0")
    case True
    then show ?thesis
      using assms h(1) by (auto simp: parse_request_no_end)
  next
    case False
    then have h4: "4 \<le> h" "h \<le> length b" using h(2) by auto
    note pb = parse_request_head(2) [OF h(1) False]
    have more: "parse_request (b @ m) = Some (case head (take h b) of
       None \<Rightarrow> Invalid
     | Some (r, n) \<Rightarrow>
         if length (b @ m) < h + n then Incomplete
         else Parsed (r\<lparr>req_body := take n (drop h (b @ m))\<rparr>) (h + n))" for m
      using parse_request_head(2) [OF headers_end_append [OF h(1) False] False, of m] h4(2) by simp
    show ?thesis
    proof (cases "head (take h b)")
      case None
      then show ?thesis using pb more by simp
    next
      case (Some rn)
      obtain r n where rn: "rn = (r, n)" by (cases rn)
      have fits: "h + n \<le> rtsp_rx_buffer_size"
        using head_length [of "take h b" r n] Some rn assms h4(2) by simp
      show ?thesis
      proof (cases "length b < h + n")
        case True
        then show ?thesis using pb Some rn fits by simp
      next
        case False
        have pre: "parse_request (take k b) = Some Incomplete" if "k < h + n" for k
        proof (cases "k < h")
          case True
          then show ?thesis
            using headers_end_prefix [OF h(1) \<open>h \<noteq> 0\<close> True] h4 assms
            by (simp add: parse_request_no_end)
        next
          case False
          then have "find_headers_end (take k b) 0 = Some h"
            using headers_end_take [OF h(1) \<open>h \<noteq> 0\<close>, of k] by simp
          then show ?thesis
            using parse_request_head(2) [of "take k b" h] \<open>h \<noteq> 0\<close> Some rn that False
              \<open>\<not> length b < h + n\<close> by (simp add: min_def)
        qed
        define x where "x = take n (drop h b)"
        have x: "length x = n" "x = drop h (take (h + n) b)" "take n (drop h b @ drop (length b - h) m) = x" for m
          using False by (simp_all add: x_def drop_take)
        have p: "parse_request b = Some (Parsed (r\<lparr>req_body := x\<rparr>) (h + n))"
          using pb Some rn False by (simp add: x_def)
        moreover have "parse_request (b @ m) = parse_request b" for m
          unfolding p using more [of m] Some rn False h4(2) by (simp add: x_def)
        ultimately show ?thesis
          using pre h4 x False by auto
      qed
    qed
  qed
qed


text \<open>
  C37: framing of requests.  On any receive buffer the parser reads only received bytes; a
  verdict, once given, does not change when more bytes arrive behind; a parsed request occupies
  at least four and at most all received bytes, holds the body that its length announces, and no
  proper prefix of it was taken for a request or refused; and a full buffer always gets a
  verdict, so that the next receive has room.
\<close>

theorem rtsp_framing:
  assumes "length b \<le> rtsp_rx_buffer_size"
  shows "\<exists>p. parse_request b = Some p \<and>
    (p \<noteq> Incomplete \<longrightarrow> (\<forall>more. length (b @ more) \<le> rtsp_rx_buffer_size \<longrightarrow> parse_request (b @ more) = Some p)) \<and>
    (case p of
       Parsed r c \<Rightarrow> 4 \<le> c \<and> c \<le> length b \<and> req_body r = drop (c - length (req_body r)) (take c b) \<and>
         length (req_body r) + 4 \<le> c \<and> (\<forall>k<c. parse_request (take k b) = Some Incomplete)
     | Incomplete \<Rightarrow> length b < rtsp_rx_buffer_size
     | Invalid \<Rightarrow> True)"
  using assms by (rule rtsp_frame_step)

text \<open>
  The receive loop appends what arrives and takes requests off the front until one is
  incomplete: \<open>buffered_requests\<close> is that loop on the buffered bytes with a handler that accepts everything,
  and gives the requests and the bytes kept, or no bytes when an invalid request ends the
  connection.
\<close>

lemma parsed_consumes: "parse_request b = Some (Parsed r c) \<Longrightarrow> 4 \<le> c \<and> c \<le> length b"
proof -
  assume p: "parse_request b = Some (Parsed r c)"
  obtain h where h: "find_headers_end b 0 = Some h" "h = 0 \<or> 0 + 4 \<le> h \<and> h \<le> length b"
    using headers_end_total by blast
  have "h \<noteq> 0"
  proof
    assume "h = 0"
    then show False using p h(1) parse_request_no_end [of b] by (simp split: if_splits)
  qed
  then show ?thesis
    using p parse_request_head(2) [OF h(1)] h(2) by (auto split: option.splits if_splits)
qed

function buffered_requests :: "buf \<Rightarrow> rtsp_request list \<times> buf option" where
  "buffered_requests b =
     (if b = [] then ([], Some [])
      else
        (case parse_request b of
           Some Incomplete \<Rightarrow> ([], Some b)
         | Some (Parsed r c) \<Rightarrow> (let (rs, rest) = buffered_requests (drop c b) in (r # rs, rest))
         | _ \<Rightarrow> ([], None)))"
  by pat_completeness auto
termination by (relation "measure length") (auto dest: parsed_consumes)

declare buffered_requests.simps [simp del]

definition receive :: "rtsp_request list \<times> buf option \<Rightarrow> buf \<Rightarrow> rtsp_request list \<times> buf option" where
  "receive st seg =
     (case st of
        (rs, None) \<Rightarrow> (rs, None)
      | (rs, Some b) \<Rightarrow> (let (rs', st) = buffered_requests (b @ seg) in (rs @ rs', st)))"

text \<open>A receive never asks for more bytes than the buffer has room for.\<close>

fun in_capacity :: "rtsp_request list \<times> buf option \<Rightarrow> buf list \<Rightarrow> bool" where
  "in_capacity st [] = True"
| "in_capacity st (seg # segs) =
     ((case snd st of None \<Rightarrow> True | Some b \<Rightarrow> length b + length seg \<le> rtsp_rx_buffer_size) \<and>
      in_capacity (receive st seg) segs)"

lemma frames_append:
  assumes "length (b @ m) \<le> rtsp_rx_buffer_size"
  shows "buffered_requests (b @ m) = receive (buffered_requests b) m"
  using assms
proof (induction b rule: buffered_requests.induct)
  case (1 b)
  show ?case
  proof (cases "b = []")
    case False
    have "length b \<le> rtsp_rx_buffer_size" using 1(2) by simp
    from rtsp_frame_step [OF this] obtain p where p: "parse_request b = Some p"
      and s: "p \<noteq> Incomplete \<longrightarrow> (\<forall>more. length (b @ more) \<le> rtsp_rx_buffer_size \<longrightarrow> parse_request (b @ more) = Some p)"
      and k: "case p of
         Parsed r c \<Rightarrow> 4 \<le> c \<and> c \<le> length b \<and> req_body r = drop (c - length (req_body r)) (take c b) \<and>
           length (req_body r) + 4 \<le> c \<and> (\<forall>k<c. parse_request (take k b) = Some Incomplete)
       | Incomplete \<Rightarrow> length b < rtsp_rx_buffer_size
       | Invalid \<Rightarrow> True"
      by blast
    have stable: "p \<noteq> Incomplete \<Longrightarrow> parse_request (b @ m) = Some p" using s 1(2) by blast
    have c: "case p of Parsed r c \<Rightarrow> 4 \<le> c \<and> c \<le> length b | _ \<Rightarrow> True"
      using k by (cases p) auto
    show ?thesis
    proof (cases p)
      case (Parsed r c)
      then have cb: "c \<le> length b" using c by auto
      have "buffered_requests (drop c (b @ m)) = receive (buffered_requests (drop c b)) m"
        using 1(1) [OF False p Parsed] 1(2) cb by simp
      then show ?thesis
        using False p stable Parsed cb
        by (auto simp: buffered_requests.simps [of b] buffered_requests.simps [of "b @ m"] receive_def split: prod.splits option.splits)
    qed (use False p stable in
      \<open>auto simp: buffered_requests.simps [of b] buffered_requests.simps [of "b @ m"] receive_def split: prod.splits\<close>)
  qed (auto simp: receive_def buffered_requests.simps [of "[]"] split: prod.splits)
qed

lemma receive_None [simp]: "receive (rs, None) seg = (rs, None)"
  by (simp add: receive_def)

lemma receive_append:
  assumes "case snd st of None \<Rightarrow> True | Some b \<Rightarrow> length b + length (s @ t) \<le> rtsp_rx_buffer_size"
  shows "receive st (s @ t) = receive (receive st s) t"
proof (cases st)
  case (Pair rs rest)
  show ?thesis
  proof (cases rest)
    case (Some b)
    then show ?thesis
      using frames_append [of "b @ s" t] assms Pair
      by (auto simp: receive_def split: prod.splits option.splits)
  qed (simp add: Pair)
qed

text \<open>After a receive, the bytes kept are the start of an incomplete request.\<close>

definition settled :: "rtsp_request list \<times> buf option \<Rightarrow> bool" where
  "settled st \<longleftrightarrow> (case snd st of None \<Rightarrow> True | Some b \<Rightarrow> buffered_requests b = ([], Some b))"

lemma frames_settled: "buffered_requests b = (rs, Some b') \<Longrightarrow> buffered_requests b' = ([], Some b')"
proof (induction b arbitrary: rs rule: buffered_requests.induct)
  case (1 b)
  show ?case
  proof (cases "b = []")
    case False
    show ?thesis
    proof (cases "parse_request b")
      case (Some p)
      show ?thesis
      proof (cases p)
        case (Parsed r c)
        then show ?thesis
          using 1(1) [OF False Some Parsed] 1(2) False Some
          by (auto simp: buffered_requests.simps [of b] split: prod.splits if_splits)
      qed (use False Some 1(2) in \<open>auto simp: buffered_requests.simps [of b] buffered_requests.simps [of b']\<close>)
    qed (use False 1(2) in \<open>auto simp: buffered_requests.simps [of b]\<close>)
  qed (use 1(2) in \<open>auto simp: buffered_requests.simps [of "[]"]\<close>)
qed

lemma receive_settled: "settled (receive st seg)"
  by (auto simp: settled_def receive_def dest: frames_settled split: prod.splits option.splits)

lemma receive_Nil: "settled st \<Longrightarrow> receive st [] = st"
  by (cases st) (auto simp: settled_def receive_def split: option.splits)

lemma receive_bytes:
  assumes "settled st"
    and "case snd st of None \<Rightarrow> True | Some b \<Rightarrow> length b + length seg \<le> rtsp_rx_buffer_size"
  shows "receive st seg = foldl receive st (map (\<lambda>x. [x]) seg)"
  using assms(2)
proof (induction seg rule: rev_induct)
  case (snoc x seg)
  then have "receive st (seg @ [x]) = receive (receive st seg) [x]"
    by (intro receive_append) simp
  with snoc show ?case by (auto split: option.splits)
qed (simp add: receive_Nil assms(1))


subsection \<open>Numbers\<close>

lemma uint32_step:
  fixes v :: u32
  assumes d: "digit c"
  defines "dg \<equiv> (ucast c :: u32) - 48"
  shows "unat dg = unat c - 48" "\<not> dg > 9"
    "v > (0xFFFFFFFF - dg) div 10 \<longleftrightarrow> unat v * 10 + (unat c - 48) \<ge> 2 ^ 32"
    "unat v * 10 + (unat c - 48) < 2 ^ 32 \<Longrightarrow> unat (v * 10 + dg) = unat v * 10 + (unat c - 48)"
proof -
  have u: "unat (ucast c :: u32) = unat c" by simp
  have "(48 :: u32) \<le> ucast c" using d by (simp add: word_le_nat_alt digit_unat)
  then show dg: "unat dg = unat c - 48" by (simp add: dg_def unat_sub)
  then have le: "unat dg \<le> 9" using d unfolding digit_unat by linarith
  then show "\<not> dg > 9" by (simp add: word_less_nat_alt)
  have "(dg :: u32) \<le> 0xFFFFFFFF" using le by (simp add: word_le_nat_alt)
  then have "unat ((0xFFFFFFFF - dg) div 10) = (4294967295 - unat dg) div 10"
    by (simp add: unat_div unat_sub)
  then show "v > (0xFFFFFFFF - dg) div 10 \<longleftrightarrow> unat v * 10 + (unat c - 48) \<ge> 2 ^ 32"
    using le dg by (simp add: word_less_nat_alt) linarith
  show "unat v * 10 + (unat c - 48) < 2 ^ 32 \<Longrightarrow> unat (v * 10 + dg) = unat v * 10 + (unat c - 48)"
    by (simp add: unat_word_ariths dg)
qed

lemma uint32_not_digit:
  assumes "\<not> digit c" shows "(ucast c :: u32) - 48 > 9"
proof (cases "48 \<le> unat c")
  case True
  then have "unat ((ucast c :: u32) - 48) = unat c - 48"
    by (subst unat_sub) (simp_all add: word_le_nat_alt)
  then show ?thesis using assms True by (simp add: word_less_nat_alt digit_unat)
next
  case False
  have "unat ((ucast c :: u32) - 48) = unat c + 2 ^ 32 - 48"
    using False by (subst unat_sub_if_size) (simp add: word_le_nat_alt word_size)
  then show ?thesis by (simp add: word_less_nat_alt)
qed

lemma uint32_loop_spec:
  "uint32_loop s v = Inr w \<longleftrightarrow>
   list_all digit s \<and> unat v * 10 ^ length s + dec_val s < 2 ^ 32 \<and> unat w = unat v * 10 ^ length s + dec_val s"
proof (induction s arbitrary: v)
  case (Cons c s)
  show ?case
  proof (cases "digit c")
    case True
    note st = uint32_step(1,2) [OF True] uint32_step(3,4) [OF True, of v]
    show ?thesis
    proof (cases "unat v * 10 + (unat c - 48) < 2 ^ 32")
      case less: True
      show ?thesis
        using True less st by (auto simp: Let_def Cons.IH dec_val_Cons algebra_simps)
    next
      case False
      have "unat v * 10 + (unat c - 48) \<le> (unat v * 10 + (unat c - 48)) * 10 ^ length s" by simp
      with False have "\<not> (unat v * 10 + (unat c - 48)) * 10 ^ length s + dec_val s < 2 ^ 32"
        by linarith
      then show ?thesis
        using True False st by (auto simp: Let_def dec_val_Cons algebra_simps)
    qed
  qed (simp add: uint32_not_digit Let_def)
qed (auto simp: word_unat_eq_iff)

text \<open>
  The numbers of a request: exactly the nonempty strings of digits whose value fits in 32
  bits are accepted, with that value, so that a length or sequence number is never a wrapped one.
\<close>

lemma parse_uint32_exact:
  "parse_uint32 s = Inr v \<longleftrightarrow> s \<noteq> [] \<and> list_all digit s \<and> dec_val s = unat v"
  using uint32_loop_spec [of s 0 v] unat_u32_less [of v] by (auto simp: parse_uint32_def)

subsection \<open>Well-formed requests\<close>

text \<open>A request as senders write it, and the conditions on its words, names and values.\<close>

definition crlf :: buf where "crlf = [13, 10]"

definition header_text :: "rtsp_header \<Rightarrow> buf" where
  "header_text x = name x @ [58, 32] @ header_value x"

definition request_text :: "buf \<Rightarrow> buf \<Rightarrow> buf \<Rightarrow> rtsp_header list \<Rightarrow> buf \<Rightarrow> buf" where
  "request_text m u v hs bd =
     concat (map (\<lambda>l. l @ crlf) ((m @ [32] @ u @ [32] @ v) # map header_text hs)) @ crlf @ bd"

definition word_ok :: "nat \<Rightarrow> buf \<Rightarrow> bool" where
  "word_ok n w \<longleftrightarrow> w \<noteq> [] \<and> length w \<le> n \<and> (\<forall>c\<in>set w. \<not> is_space c \<and> c \<noteq> 0)"

definition field_ok :: "nat \<Rightarrow> buf \<Rightarrow> bool" where
  "field_ok n x \<longleftrightarrow> length x < n \<and> 0 \<notin> set x \<and> 13 \<notin> set x \<and>
     (x = [] \<or> \<not> blank (hd x) \<and> \<not> blank (last x))"

definition header_ok :: "rtsp_header \<Rightarrow> bool" where
  "header_ok x \<longleftrightarrow> name x \<noteq> [] \<and> field_ok 128 (name x) \<and> 58 \<notin> set (name x) \<and>
     field_ok 256 (header_value x)"

definition named :: "string \<Rightarrow> rtsp_header \<Rightarrow> bool" where
  "named s x \<longleftrightarrow> net_ascii_casecmp (name x) (lit s) = 0"

text \<open>The effect of a list of lines.\<close>

fun parse_all :: "buf list \<Rightarrow> line_state \<Rightarrow> errno + line_state" where
  "parse_all [] st = Inr st"
| "parse_all (l # ls) st = (case parse_line l st of Inl e \<Rightarrow> Inl e | Inr st \<Rightarrow> parse_all ls st)"

definition line_ok :: "buf \<Rightarrow> bool" where
  "line_ok l \<longleftrightarrow> l \<noteq> [] \<and> length l < 1024 \<and> 13 \<notin> set l \<and> 0 \<notin> set l"

lemma find_line_end_at:
  assumes "13 \<notin> set l" and "length pre + length l + 1 < h"
  shows "find_line_end (pre @ l @ crlf @ r) h (length pre) = Some (length pre + length l)"
  using assms
proof (induction l arbitrary: pre)
  case Nil
  then show ?case by (subst find_line_end.simps) (simp add: crlf_def rd_def nth_append)
next
  case (Cons c l)
  have "find_line_end (pre @ (c # l) @ crlf @ r) h (length pre) =
      find_line_end ((pre @ [c]) @ l @ crlf @ r) h (length (pre @ [c]))"
    using Cons.prems by (subst find_line_end.simps) (auto simp: rd_def nth_append)
  also have "\<dots> = Some (length (pre @ [c]) + length l)"
    using Cons.prems by (intro Cons.IH) auto
  finally show ?case by simp
qed

lemma parse_lines_text:
  assumes "\<forall>l\<in>set ls. line_ok l"
    and "h = length pre + length (concat (map (\<lambda>l. l @ crlf) ls)) + 2"
  shows "parse_lines (pre @ concat (map (\<lambda>l. l @ crlf) ls) @ crlf @ r) h (length pre) st =
    Some (case parse_all ls st of Inl e \<Rightarrow> Inl EFail | Inr st \<Rightarrow> Inr st)"
  using assms
proof (induction ls arbitrary: pre st)
  case Nil
  then show ?case
    using find_line_end_at [of "[]" pre h r]
    by (subst parse_lines.simps) (simp add: rd_range_def)
next
  case (Cons l ls)
  define t where "t = concat (map (\<lambda>l. l @ crlf) ls) @ crlf @ r"
  have l: "l \<noteq> []" "length l < 1024" "13 \<notin> set l" using Cons.prems by (auto simp: line_ok_def)
  have h: "length pre + length l + 1 < h" using Cons.prems(2) by (simp add: crlf_def)
  have e: "find_line_end (pre @ l @ crlf @ t) h (length pre) = Some (length pre + length l)"
    by (rule find_line_end_at [OF l(3) h])
  have next_lines: "parse_lines (pre @ l @ crlf @ t) h (length pre + length l + 2) st' =
      Some (case parse_all ls st' of Inl e \<Rightarrow> Inl EFail | Inr st \<Rightarrow> Inr st)" for st'
    using Cons.IH [of "pre @ l @ crlf" st'] Cons.prems by (simp add: t_def crlf_def)
  have "parse_lines (pre @ l @ crlf @ t) h (length pre) st =
      Some (case parse_all (l # ls) st of Inl e \<Rightarrow> Inl EFail | Inr st \<Rightarrow> Inr st)"
    using l h next_lines e by (subst parse_lines.simps) (auto simp: rd_range_def split: sum.splits)
  then show ?case by (simp add: t_def)
qed

lemma headers_end_skip:
  "13 \<notin> set l \<Longrightarrow> 3 \<le> length r \<Longrightarrow>
   find_headers_end (pre @ l @ r) (length pre) = find_headers_end (pre @ l @ r) (length pre + length l)"
proof (induction l arbitrary: pre)
  case (Cons c l)
  have "find_headers_end (pre @ (c # l) @ r) (length pre) =
      find_headers_end ((pre @ [c]) @ l @ r) (length (pre @ [c]))"
    using Cons.prems by (subst find_headers_end.simps) (auto simp: rd_range_def blank_line_def)
  also have "\<dots> = find_headers_end ((pre @ [c]) @ l @ r) (length (pre @ [c]) + length l)"
    using Cons.prems by (intro Cons.IH) auto
  finally show ?case by simp
qed simp

lemma headers_end_text:
  assumes "\<forall>l\<in>set ls. line_ok l" and "ls \<noteq> []"
  shows "find_headers_end (pre @ concat (map (\<lambda>l. l @ crlf) ls) @ crlf @ r) (length pre) =
    Some (length pre + length (concat (map (\<lambda>l. l @ crlf) ls)) + 2)"
  using assms
proof (induction ls arbitrary: pre)
  case (Cons l ls)
  define t where "t = concat (map (\<lambda>l. l @ crlf) ls) @ crlf @ r"
  define p where "p = length pre + length l"
  have l: "13 \<notin> set l" using Cons.prems by (simp add: line_ok_def)
  have t2: "2 \<le> length t" by (simp add: t_def crlf_def)
  have s: "find_headers_end (pre @ l @ crlf @ t) (length pre) = find_headers_end (pre @ l @ crlf @ t) p"
    unfolding p_def using t2 by (intro headers_end_skip [OF l]) (simp add: crlf_def)
  have w: "rd_range (pre @ l @ crlf @ t) p 4 = Some (crlf @ take 2 t)" "p + 3 < length (pre @ l @ crlf @ t)"
    using t2 by (simp_all add: rd_range_def p_def crlf_def)
  show ?case
  proof (cases ls)
    case Nil
    then have "take 2 t = crlf" by (simp add: t_def crlf_def)
    then have "find_headers_end (pre @ l @ crlf @ t) p = Some (p + 4)"
      using w by (subst find_headers_end.simps) (simp add: blank_line_def crlf_def)
    then show ?thesis using s Nil by (simp add: t_def p_def crlf_def)
  next
    case (Cons l' ls')
    then have "line_ok l'" "3 \<le> length t"
      using Cons.prems by (auto simp: t_def crlf_def line_ok_def neq_Nil_conv)
    moreover from this have "hd t \<noteq> 13" "t \<noteq> []"
      by (auto simp: t_def Cons line_ok_def neq_Nil_conv)
    ultimately have "crlf @ take 2 t \<noteq> blank_line"
      by (cases t) (auto simp: crlf_def blank_line_def)
    then have "find_headers_end (pre @ l @ crlf @ t) p = find_headers_end (pre @ l @ crlf @ t) (p + 1)"
      using w by (subst find_headers_end.simps) simp
    also have "\<dots> = find_headers_end ((pre @ l @ [13]) @ [10] @ t) (length (pre @ l @ [13]))"
      by (simp add: crlf_def p_def)
    also have "\<dots> = find_headers_end ((pre @ l @ crlf) @ t) (length (pre @ l @ crlf))"
      using headers_end_skip [of "[10]" t "pre @ l @ [13]"] \<open>3 \<le> length t\<close> by (simp add: crlf_def)
    also have "\<dots> = Some (length (pre @ l @ crlf) + length (concat (map (\<lambda>l. l @ crlf) ls)) + 2)"
      using Cons.IH [of "pre @ l @ crlf"] Cons Cons.prems by (simp add: t_def)
    finally show ?thesis
      using s by (simp add: t_def)
  qed
qed simp

lemma dropWhile_head: "w \<noteq> [] \<Longrightarrow> \<not> P (hd w) \<Longrightarrow> dropWhile P (w @ s) = w @ s"
  by (cases w) auto

lemma scan_word_at:
  assumes w: "word_ok n w" and s: "s = [] \<or> is_space (hd s)"
  shows "scan_word n (w @ s) = Some (w, s)" and "scan_word n (32 # w @ s) = Some (w, s)"
proof -
  have hd: "w \<noteq> []" "\<not> is_space (hd w)" using w by (auto simp: word_ok_def)
  have tw: "takeWhile (\<lambda>c. \<not> is_space c) (take n (w @ s)) = w"
  proof -
    have "take n (w @ s) = w @ take (n - length w) s" using w by (simp add: word_ok_def)
    moreover have "takeWhile (\<lambda>c. \<not> is_space c) (take (n - length w) s) = []"
      using s by (cases s) (auto simp: take_Cons')
    ultimately show ?thesis using w by (simp add: word_ok_def takeWhile_append2)
  qed
  show "scan_word n (w @ s) = Some (w, s)" "scan_word n (32 # w @ s) = Some (w, s)"
    using hd tw by (simp_all add: scan_word_def dropWhile_head Let_def is_space_def [of 32])
qed

lemma first_line_text:
  assumes "word_ok 63 m" "word_ok 255 u" "word_ok 31 v" "known_version v" "first_line st"
  shows "parse_line (m @ [32] @ u @ [32] @ v) st =
    Inr (st\<lparr>request := (request st)\<lparr>uri := u, version := v, rmethod := parse_method m\<rparr>, first_line := False\<rparr>)"
proof -
  have "scan_request_line (m @ [32] @ u @ [32] @ v) = Some (m, u, v)"
    using scan_word_at(1) [OF assms(1), of "32 # u @ 32 # v"] scan_word_at(2) [OF assms(2), of "32 # v"]
      scan_word_at(2) [OF assms(3), of "[]"]
    by (simp add: scan_request_line_def is_space_def [of 32])
  then show ?thesis using assms by (simp add: parse_line_def parse_first_line_def)
qed

lemma trim_field:
  assumes "field_ok n x"
  shows "trim x = x" and "trim (32 # x) = x"
proof -
  have "dropWhile blank x = x" "dropWhile blank (rev x) = rev x"
    using assms dropWhile_head [of x blank "[]"] dropWhile_head [of "rev x" blank "[]"]
    by (cases "x = []"; simp add: field_ok_def hd_rev)+
  then show "trim x = x" "trim (32 # x) = x"
    by (simp_all add: trim_def blank_def [of 32])
qed

lemma header_line_text:
  assumes x: "header_ok x" and st: "\<not> first_line st" "length (headers (request st)) < 32"
  shows "parse_line (header_text x) st =
    (let st = st\<lparr>request := (request st)\<lparr>headers := headers (request st) @ [x]\<rparr>\<rparr> in
      if named ''CSeq'' x then
        (case parse_uint32 (header_value x) of
           Inl e \<Rightarrow> Inl e
         | Inr n \<Rightarrow> Inr (st\<lparr>request := (request st)\<lparr>cseq := n\<rparr>\<rparr>))
      else if named ''Content-Length'' x then
        (if has_length st then Inl EFail
         else
           (case parse_uint32 (header_value x) of
              Inl e \<Rightarrow> Inl e
            | Inr n \<Rightarrow> Inr (st\<lparr>content_length := n, has_length := True\<rparr>)))
      else Inr st)"
proof -
  have "takeWhile (\<lambda>c. c \<noteq> 58) (header_text x) = name x"
    "dropWhile (\<lambda>c. c \<noteq> 58) (header_text x) = 58 # 32 # header_value x" "58 \<in> set (header_text x)"
    using x by (auto simp: header_text_def header_ok_def takeWhile_append dropWhile_append
        takeWhile_eq_all_conv dropWhile_eq_Nil_conv)
  moreover have "trim (name x) = name x" "trim (32 # header_value x) = header_value x"
    using x trim_field by (auto simp: header_ok_def)
  moreover have "\<lparr>name = name x, header_value = header_value x\<rparr> = x" by simp
  ultimately show ?thesis
    using x st
    by (simp only: parse_line_def parse_header_line_def header_ok_def field_ok_def named_def Let_def list.sel if_False simp_thms)
      simp
qed

lemma named_once: "0 \<notin> set (name x) \<Longrightarrow> named ''CSeq'' x \<Longrightarrow> \<not> named ''Content-Length'' x"
proof
  assume "0 \<notin> set (name x)" "named ''CSeq'' x" "named ''Content-Length'' x"
  moreover have "0 \<notin> set (lit ''CSeq'')" "0 \<notin> set (lit ''Content-Length'')" by simp_all
  ultimately have "map ascii_lower (lit ''CSeq'') = map ascii_lower (lit ''Content-Length'')"
    unfolding named_def using casecmp_eq_iff by metis
  from arg_cong [OF this, of length] show False by (simp del: lit_simps)
qed

lemma parse_uint32_dec: "n < 2 ^ 32 \<Longrightarrow> parse_uint32 (dec n) = Inr (of_nat n)"
  using uint32_loop_spec [of "dec n" 0 "of_nat n"] dec_digits [of n]
  by (simp add: parse_uint32_def unat_of_nat)

lemma header_lines_text:
  assumes "\<forall>x\<in>set hs. header_ok x" and "\<not> first_line st"
    and "length (headers (request st)) + length hs \<le> 32"
    and "\<forall>x\<in>set hs. named ''CSeq'' x \<longrightarrow> header_value x = dec (unat c)"
    and "\<forall>x\<in>set hs. named ''Content-Length'' x \<longrightarrow> header_value x = dec n" and "n < 2 ^ 32"
    and "length (filter (named ''Content-Length'') hs) \<le> (if has_length st then 0 else 1)"
  shows "parse_all (map header_text hs) st = Inr (st\<lparr>
    request := (request st)\<lparr>headers := headers (request st) @ hs,
      cseq := (if \<exists>x\<in>set hs. named ''CSeq'' x then c else cseq (request st))\<rparr>,
    content_length := (if \<exists>x\<in>set hs. named ''Content-Length'' x then of_nat n else content_length st),
    has_length := (has_length st \<or> (\<exists>x\<in>set hs. named ''Content-Length'' x))\<rparr>)"
  using assms
proof (induction hs arbitrary: st)
  case (Cons x hs)
  have x: "header_ok x" "0 \<notin> set (name x)" using Cons.prems(1) by (auto simp: header_ok_def field_ok_def)
  define q where "q = (request st)\<lparr>headers := headers (request st) @ [x]\<rparr>"
  define st' where "st' = st\<lparr>
    request := q\<lparr>cseq := (if named ''CSeq'' x then c else cseq (request st))\<rparr>,
    content_length := (if named ''Content-Length'' x then of_nat n else content_length st),
    has_length := (has_length st \<or> named ''Content-Length'' x)\<rparr>"
  have "parse_line (header_text x) st = Inr st'"
    using header_line_text [OF x(1), of st] named_once [OF x(2)] Cons.prems
    by (cases st) (auto simp: st'_def q_def Let_def parse_uint32_dec split: if_splits)
  moreover have "parse_all (map header_text hs) st' = Inr (st'\<lparr>
    request := (request st')\<lparr>headers := headers (request st') @ hs,
      cseq := (if \<exists>x\<in>set hs. named ''CSeq'' x then c else cseq (request st'))\<rparr>,
    content_length := (if \<exists>x\<in>set hs. named ''Content-Length'' x then of_nat n else content_length st'),
    has_length := (has_length st' \<or> (\<exists>x\<in>set hs. named ''Content-Length'' x))\<rparr>)"
    using Cons.prems
    by (intro Cons.IH) (auto simp: st'_def q_def split: if_splits)
  ultimately show ?case by (auto simp: st'_def q_def)
qed (cases st, auto)

text \<open>
  C39: well-formed requests are understood.  A request written as method, target, version, at
  most 32 headers and body, behind whatever precedes it nothing and before whatever follows it,
  is parsed as exactly that: its method by the table, its headers in order, its sequence number,
  the body that its length header announces, and the number of its bytes.
\<close>

theorem rtsp_request_roundtrip:
  assumes words: "word_ok 63 m" "word_ok 255 u" "word_ok 31 v" "known_version v"
    and hs: "\<forall>x\<in>set hs. header_ok x" "length hs \<le> 32"
    and cs: "\<forall>x\<in>set hs. named ''CSeq'' x \<longrightarrow> header_value x = dec (unat c)" "\<exists>x\<in>set hs. named ''CSeq'' x"
    and cl: "\<forall>x\<in>set hs. named ''Content-Length'' x \<longrightarrow> header_value x = dec (length bd)"
      "length (filter (named ''Content-Length'') hs) = (if bd = [] then 0 else 1)"
    and size: "length (request_text m u v hs bd) \<le> rtsp_rx_buffer_size"
  shows "parse_request (request_text m u v hs bd @ rest) =
    Some (Parsed \<lparr>rmethod = parse_method m, uri = u, version = v, cseq = c, headers = hs, req_body = bd\<rparr>
            (length (request_text m u v hs bd)))"
proof -
  define ls where "ls = (m @ [32] @ u @ [32] @ v) # map header_text hs"
  define tx where "tx = concat (map (\<lambda>l. l @ crlf) ls)"
  define h where "h = length tx + 2"
  let ?b = "tx @ crlf @ bd @ rest"
  have b: "request_text m u v hs bd @ rest = ?b" and len: "length (request_text m u v hs bd) = h + length bd"
    by (simp_all add: request_text_def tx_def ls_def h_def crlf_def)
  have "line_ok (m @ [32] @ u @ [32] @ v)"
    using words(1-3) by (auto simp: line_ok_def word_ok_def is_space_def)
  moreover have "line_ok (header_text x)" if "header_ok x" for x
    using that by (auto simp: line_ok_def header_text_def header_ok_def field_ok_def)
  ultimately have ok: "\<forall>l\<in>set ls. line_ok l" "ls \<noteq> []" using hs(1) by (auto simp: ls_def)
  have end_at: "find_headers_end ?b 0 = Some h"
    using headers_end_text [OF ok, of "[]" "bd @ rest"] by (simp add: h_def tx_def)
  have hb: "take h ?b = tx @ crlf" "drop h ?b = bd @ rest" by (simp_all add: h_def crlf_def)
  let ?st = "\<lparr>request = request_zero, content_length = 0, first_line = True, has_length = False\<rparr>"
  let ?n = "if \<exists>x\<in>set hs. named ''Content-Length'' x then of_nat (length bd) else (0 :: u32)"
  have n: "length bd < 2 ^ 32" using size by (simp add: len rtsp_rx_buffer_size_def)
  have "parse_all ls ?st = Inr \<lparr>request = request_zero\<lparr>uri := u, version := v, rmethod := parse_method m,
      headers := hs, cseq := c\<rparr>, content_length = ?n, first_line = False,
      has_length = (\<exists>x\<in>set hs. named ''Content-Length'' x)\<rparr>"
    using header_lines_text [OF hs(1), of "\<lparr>request = request_zero\<lparr>uri := u, version := v,
        rmethod := parse_method m\<rparr>, content_length = 0, first_line = False, has_length = False\<rparr>" c "length bd"]
      hs(2) cs cl n first_line_text [OF words, of ?st]
    by (auto simp: ls_def request_zero_def)
  then have all: "parse_lines (tx @ crlf) h 0 ?st = Some (Inr \<lparr>request = request_zero\<lparr>uri := u, version := v,
      rmethod := parse_method m, headers := hs, cseq := c\<rparr>, content_length = ?n, first_line = False,
      has_length = (\<exists>x\<in>set hs. named ''Content-Length'' x)\<rparr>)"
    using parse_lines_text [OF ok(1), of h "[]" "[]" ?st] by (simp add: tx_def h_def)
  have "(\<exists>x\<in>set hs. named ''Content-Length'' x) \<or> bd = []"
    using cl(2) by (cases "bd = []") (auto simp: length_Suc_conv filter_eq_Cons_iff)
  then have bl: "unat ?n = length bd" using n by (auto simp: unat_of_nat)
  have "0 \<notin> set (tx @ crlf)"
    using ok(1) by (auto simp: tx_def crlf_def line_ok_def)
  then have "head (tx @ crlf) = Some (request_zero\<lparr>uri := u, version := v, rmethod := parse_method m,
      headers := hs, cseq := c\<rparr>, length bd)"
    using all size bl by (simp add: head_def h_def len crlf_def)
  then show ?thesis
    unfolding b using parse_request_head(2) [OF end_at] hb
    by (simp add: len h_def request_zero_def crlf_def)
qed

text \<open>The request \<open>OPTIONS * RTSP/1.0\<close> with sequence number 7, alone and followed by a byte.\<close>

definition sample_request :: buf where
  "sample_request = request_text (lit ''OPTIONS'') (lit ''*'') (lit ''RTSP/1.0'')
     [\<lparr>name = lit ''CSeq'', header_value = lit ''7''\<rparr>] []"

theorem rtsp_request_roundtrip_witness:
  "\<exists>r. parse_request (sample_request @ [79]) = Some (Parsed r 31) \<and> rmethod r = METHOD_OPTIONS \<and> cseq r = 7"
proof -
  have seven: "dec 7 = lit ''7''" by (simp add: dec.simps)
  have names: "named ''CSeq'' \<lparr>name = lit ''CSeq'', header_value = lit ''7''\<rparr>"
    "\<not> named ''Content-Length'' \<lparr>name = lit ''CSeq'', header_value = lit ''7''\<rparr>"
    unfolding named_def by code_simp+
  have post: "parse_method (lit ''OPTIONS'') = METHOD_OPTIONS" by code_simp
  have len: "length sample_request = 31" by (simp add: sample_request_def request_text_def header_text_def crlf_def)
  have "parse_request (sample_request @ [79]) =
    Some (Parsed \<lparr>rmethod = parse_method (lit ''OPTIONS''), uri = lit ''*'', version = lit ''RTSP/1.0'', cseq = 7,
      headers = [\<lparr>name = lit ''CSeq'', header_value = lit ''7''\<rparr>], req_body = []\<rparr> (length sample_request))"
    unfolding sample_request_def
  proof (rule rtsp_request_roundtrip)
    show "word_ok 63 (lit ''OPTIONS'')" "word_ok 255 (lit ''*'')" "word_ok 31 (lit ''RTSP/1.0'')"
      by (simp_all add: word_ok_def is_space_def)
  qed (use names len in \<open>simp_all add: known_version_def header_ok_def field_ok_def blank_def seven
      rtsp_rx_buffer_size_def request_text_def header_text_def crlf_def\<close>)
  then show ?thesis by (simp only: post len) auto
qed

theorem rtsp_framing_witness: "\<exists>p. parse_request (take 30 sample_request) = Some p"
proof -
  have "length (take 30 sample_request) \<le> rtsp_rx_buffer_size" by (simp add: rtsp_rx_buffer_size_def)
  from rtsp_framing [OF this] show ?thesis by blast
qed


end
