(* ===== verification/Sdp.thy ===== *)
theory Sdp
  imports C_Text Net_Util
begin

section \<open>Session descriptions: \<open>src/shared/protocol/sdp.c\<close>\<close>

text \<open>
  The parser of the body of ANNOUNCE.  \<open>sdp_session\<close> is the structure of the same name with its
  arrays as lists of their lengths; \<open>sdp_parse\<close> gets the bytes of the body and the size of the
  scratch buffer.  Lines are what \<open>strtok\<close> finds between carriage returns and line feeds in the
  body up to its first zero byte.  \<open>None\<close> is undefined behaviour: a store outside an array of the
  session, or \<open>isspace\<close> of a negative \<open>char\<close>.
\<close>

datatype sdp_codec = CODEC_UNKNOWN | CODEC_ALAC | CODEC_AAC | CODEC_PCM

record sdp_session =
  codec :: sdp_codec
  session_rate :: u32
  session_channels :: u16
  bits_per_sample :: u16
  frames_per_packet :: u32
  alac_fmtp :: "u32 list"
  alac_fmtp_count :: nat
  aac_config :: buf
  aac_config_len :: nat
  aac_size_length :: u8
  aac_index_length :: u8
  aac_index_delta_length :: u8
  aes_key_encrypted :: buf
  aes_key_encrypted_len :: nat
  aes_iv :: buf
  has_encryption :: bool
  session_payload_type :: u8
  stream_type :: u16
  audio_key :: buf
  latency_frames :: u32

text \<open>The session after \<open>memset\<close>.\<close>

definition session_zero :: sdp_session where
  "session_zero =
     \<lparr>codec = CODEC_UNKNOWN, session_rate = 0, session_channels = 0, bits_per_sample = 0,
      frames_per_packet = 0, alac_fmtp = replicate 12 0, alac_fmtp_count = 0,
      aac_config = replicate 64 0, aac_config_len = 0, aac_size_length = 0, aac_index_length = 0,
      aac_index_delta_length = 0, aes_key_encrypted = replicate 512 0, aes_key_encrypted_len = 0,
      aes_iv = replicate 16 0, has_encryption = False, session_payload_type = 0, stream_type = 0,
      audio_key = replicate 32 0, latency_frames = 0\<rparr>"

subsection \<open>Hexadecimal and base64\<close>

definition hex_digit :: "u8 \<Rightarrow> u32 option" where
  "hex_digit c =
     (if 48 \<le> c \<and> c \<le> 57 then Some (ucast c - 48)
      else if 97 \<le> c \<and> c \<le> 102 then Some (ucast c - 97 + 10)
      else if 65 \<le> c \<and> c \<le> 70 then Some (ucast c - 65 + 10)
      else None)"

text \<open>The loop of \<open>parse_hex_bytes\<close>: the length or -1, and the output buffer.\<close>

fun hex_loop :: "buf \<Rightarrow> buf \<Rightarrow> nat \<Rightarrow> (int \<times> buf) option" where
  "hex_loop (a # b # s) out n =
     (if a = 59 \<or> b = 59 then Some (if n > 0 then int n else -1, out)
      else
        (case (hex_digit a, hex_digit b) of
           (Some high, Some low) \<Rightarrow>
             if n \<ge> length out then Some (-1, out)
             else do {
               out \<leftarrow> wr out n (ucast (push_bit 4 high OR low));
               hex_loop s out (n + 1) }
         | _ \<Rightarrow> Some (if n > 0 then int n else -1, out)))"
| "hex_loop _ out n = Some (if n > 0 then int n else -1, out)"

definition parse_hex_bytes :: "buf \<Rightarrow> buf \<Rightarrow> (int \<times> buf) option" where
  "parse_hex_bytes text out = hex_loop text out 0"

definition base64_chars :: buf where
  "base64_chars = lit ''ABCDEFGHIJKLMNOPQRSTUVWXYZabcdefghijklmnopqrstuvwxyz0123456789+/''"

text \<open>
  The loop of \<open>sdp_base64_decode\<close>, with its output buffer, \<open>output_len\<close>, \<open>buffer\<close> and \<open>bits\<close>.
  \<open>isspace(c)\<close> is applied to a plain \<open>char\<close>.
\<close>

fun base64_loop :: "clib \<Rightarrow> buf \<Rightarrow> buf \<Rightarrow> nat \<Rightarrow> u32 \<Rightarrow> nat \<Rightarrow> (int \<times> buf) option" where
  "base64_loop lib [] out n buffer bits = Some (int n, out)"
| "base64_loop lib (c # s) out n buffer bits =
     (if char_signed lib \<and> c \<ge> 128 then None
      else if is_space c then base64_loop lib s out n buffer bits
      else if c = 61 then Some (int n, out)
      else if c \<notin> set base64_chars then Some (-1, out)
      else
        let buffer = push_bit 6 buffer OR of_nat (length (takeWhile (\<lambda>x. x \<noteq> c) base64_chars));
            bits = bits + 6 in
        if bits \<ge> 8 then
          (let bits = bits - 8 in
           if n \<ge> length out then Some (-1, out)
           else do {
             out \<leftarrow> wr out n (ucast (drop_bit bits buffer));
             base64_loop lib s out (n + 1) (buffer AND (push_bit bits 1 - 1)) bits })
        else base64_loop lib s out n buffer bits)"

definition sdp_base64_decode :: "clib \<Rightarrow> buf \<Rightarrow> buf \<Rightarrow> (int \<times> buf) option" where
  "sdp_base64_decode lib input out =
     (if length out = 0 then Some (-1, out) else base64_loop lib input out 0 0 0)"

subsection \<open>Lines\<close>

definition line_value :: "buf \<Rightarrow> buf" where
  "line_value line =
     (case after_first 61 line of
        Some v \<Rightarrow> v
      | None \<Rightarrow> (case after_first 58 line of Some v \<Rightarrow> v | None \<Rightarrow> line))"

text \<open>\<open>m=audio 0 RTP/AVP 96\<close>.\<close>

definition sdp_media :: "clib \<Rightarrow> buf \<Rightarrow> sdp_session \<Rightarrow> sdp_session" where
  "sdp_media lib val s =
     (case scan_word 31 val of
        None \<Rightarrow> s
      | Some (media_type, r) \<Rightarrow>
          (case scan_unsigned lib r of
             None \<Rightarrow> s
           | Some _ \<Rightarrow>
               if media_type \<noteq> lit ''audio'' then s
               else
                 (case after_last 32 val of
                    None \<Rightarrow> s
                  | Some pt \<Rightarrow> s\<lparr>session_payload_type := ucast (atoi lib pt)\<rparr>)))"

text \<open>
  \<open>sscanf(\<dots>, "%*d %63[^/]/%u/%u", \<dots>)\<close>: the fields stored, in order, as far as the scan gets.
  The second scan of the code, without the last field, repeats the first.
\<close>

definition scan_rtpmap :: "clib \<Rightarrow> buf \<Rightarrow> buf option \<times> u32 option \<times> u32 option" where
  "scan_rtpmap lib s =
     (case scan_number s of
        None \<Rightarrow> (None, None, None)
      | Some (_, s) \<Rightarrow>
          let s = dropWhile is_space s; nm = takeWhile (\<lambda>c. c \<noteq> 47) (take 63 s) in
          if nm = [] then (None, None, None)
          else
            (case drop (length nm) s of
               c # s \<Rightarrow>
                 if c \<noteq> 47 then (Some nm, None, None)
                 else
                   (case scan_unsigned lib s of
                      None \<Rightarrow> (Some nm, None, None)
                    | Some (rate, s) \<Rightarrow>
                        (Some nm, Some rate,
                         case s of
                           c # s \<Rightarrow>
                             if c \<noteq> 47 then None
                             else (case scan_unsigned lib s of None \<Rightarrow> None | Some (ch, _) \<Rightarrow> Some ch)
                         | [] \<Rightarrow> None))
             | [] \<Rightarrow> (Some nm, None, None)))"

definition with_channels :: "u32 option \<Rightarrow> sdp_session \<Rightarrow> sdp_session" where
  "with_channels ch s = (case ch of None \<Rightarrow> s | Some n \<Rightarrow> s\<lparr>session_channels := ucast n\<rparr>)"

definition mentions :: "string \<Rightarrow> buf \<Rightarrow> bool" where
  "mentions k s \<longleftrightarrow> strstr s (lit k) \<noteq> None"

definition sdp_rtpmap :: "clib \<Rightarrow> buf \<Rightarrow> sdp_session \<Rightarrow> sdp_session" where
  "sdp_rtpmap lib val s =
     (case scan_rtpmap lib (drop 7 val) of
        (Some nm, Some rate, ch) \<Rightarrow>
          let nm = map ascii_lower nm in
          if mentions ''applelossless'' nm \<or> mentions ''alac'' nm then
            with_channels ch (s\<lparr>codec := CODEC_ALAC, session_rate := rate\<rparr>)
          else if mentions ''aac'' nm \<or> mentions ''mpeg4-generic'' nm \<or> mentions ''mp4a'' nm then
            with_channels ch (s\<lparr>codec := CODEC_AAC, session_rate := rate, frames_per_packet := 1024\<rparr>)
          else if mentions ''l16'' nm \<or> mentions ''pcm'' nm then
            (with_channels ch (s\<lparr>codec := CODEC_PCM, session_rate := rate\<rparr>))\<lparr>bits_per_sample := 16\<rparr>
          else s
      | _ \<Rightarrow> s)"

text \<open>\<open>key ? (uint8_t)atoi(key + strlen(key)) : d\<close>.\<close>

definition parameter_u8 :: "clib \<Rightarrow> buf \<Rightarrow> string \<Rightarrow> u8 \<Rightarrow> u8" where
  "parameter_u8 lib params key d =
     (case strstr params (lit key) of
        None \<Rightarrow> d | Some t \<Rightarrow> ucast (atoi lib (drop (length key) t)))"

definition sdp_aac_fmtp :: "clib \<Rightarrow> buf \<Rightarrow> sdp_session \<Rightarrow> sdp_session option" where
  "sdp_aac_fmtp lib params s = do {
     s \<leftarrow>
       (case strstr params (lit ''config='') of
          None \<Rightarrow> Some s
        | Some t \<Rightarrow> do {
            (n, config) \<leftarrow> parse_hex_bytes (drop 7 t) (aac_config s);
            Some (s\<lparr>aac_config := config, aac_config_len := (if n > 0 then nat n else 0)\<rparr>) });
     Some (s\<lparr>aac_size_length := parameter_u8 lib params ''sizelength='' 13,
             aac_index_length := parameter_u8 lib params ''indexlength='' 3,
             aac_index_delta_length := parameter_u8 lib params ''indexdeltalength='' 3\<rparr>) }"

text \<open>Up to \<open>n\<close> conversions \<open>%u\<close>.\<close>

fun scan_unsigneds :: "clib \<Rightarrow> nat \<Rightarrow> buf \<Rightarrow> u32 list" where
  "scan_unsigneds lib 0 s = []"
| "scan_unsigneds lib (Suc n) s =
     (case scan_unsigned lib s of None \<Rightarrow> [] | Some (v, s) \<Rightarrow> v # scan_unsigneds lib n s)"

definition sdp_alac_fmtp :: "clib \<Rightarrow> buf \<Rightarrow> sdp_session \<Rightarrow> sdp_session option" where
  "sdp_alac_fmtp lib params s =
     (let vals = scan_unsigneds lib 11 params; count = length vals in
      if count < 3 then Some s
      else do {
        fmtp \<leftarrow> wr_range (alac_fmtp s) 0 vals;
        let s = s\<lparr>alac_fmtp := fmtp, alac_fmtp_count := count,
                  frames_per_packet := vals ! 0, bits_per_sample := ucast (vals ! 2)\<rparr>;
        let s = (if count \<ge> 7 then s\<lparr>session_channels := ucast (vals ! 6)\<rparr> else s);
        Some (if count \<ge> 11 then s\<lparr>session_rate := vals ! 10\<rparr> else s) })"

definition sdp_fmtp :: "clib \<Rightarrow> buf \<Rightarrow> sdp_session \<Rightarrow> sdp_session option" where
  "sdp_fmtp lib val s =
     (case after_first 32 (drop 5 val) of
        None \<Rightarrow> Some s
      | Some params \<Rightarrow> if codec s = CODEC_AAC then sdp_aac_fmtp lib params s else sdp_alac_fmtp lib params s)"

definition sdp_attribute :: "clib \<Rightarrow> buf \<Rightarrow> sdp_session \<Rightarrow> sdp_session option" where
  "sdp_attribute lib val s =
     (if starts ''rtpmap:'' val then Some (sdp_rtpmap lib val s)
      else if starts ''fmtp:'' val then sdp_fmtp lib val s
      else if starts ''rsaaeskey:'' val then do {
        (n, key) \<leftarrow> sdp_base64_decode lib (drop 10 val) (aes_key_encrypted s);
        let s = s\<lparr>aes_key_encrypted := key\<rparr>;
        Some ((if n > 0 then s\<lparr>aes_key_encrypted_len := nat n\<rparr> else s)\<lparr>has_encryption := True\<rparr>) }
      else if starts ''aesiv:'' val then do {
        (n, iv) \<leftarrow> sdp_base64_decode lib (drop 6 val) (aes_iv s);
        Some (s\<lparr>aes_iv := iv, has_encryption := True\<rparr>) }
      else Some s)"

definition sdp_line :: "clib \<Rightarrow> buf \<Rightarrow> sdp_session \<Rightarrow> sdp_session option" where
  "sdp_line lib line s =
     (if length line < 2 then Some s
      else
        let val = line_value line in
        if line ! 0 = 109 then Some (sdp_media lib val s)
        else if line ! 0 = 97 then sdp_attribute lib val s
        else Some s)"

text \<open>The tokens of \<open>strtok(scratch, "\\r\\n")\<close>.\<close>

definition line_break :: "u8 \<Rightarrow> bool" where
  "line_break c \<longleftrightarrow> c = 13 \<or> c = 10"

function tokens :: "buf \<Rightarrow> buf list" where
  "tokens s =
     (let s = dropWhile line_break s in
      if s = [] then []
      else takeWhile (\<lambda>c. \<not> line_break c) s # tokens (dropWhile (\<lambda>c. \<not> line_break c) s))"
  by pat_completeness auto
termination
proof (relation "measure length")
  fix s t :: buf
  assume t: "t = dropWhile line_break s" "t \<noteq> []"
  then have "\<not> line_break (hd t)" by (auto simp: hd_dropWhile)
  then have "length (dropWhile (\<lambda>c. \<not> line_break c) t) < length t"
    using t(2) by (cases t) (auto intro: le_less_trans [OF length_dropWhile_le])
  also have "\<dots> \<le> length s" unfolding t(1) by (rule length_dropWhile_le)
  finally show "(dropWhile (\<lambda>c. \<not> line_break c) t, s) \<in> measure length" by simp
qed simp

declare tokens.simps [simp del]

fun sdp_lines :: "clib \<Rightarrow> buf list \<Rightarrow> sdp_session \<Rightarrow> sdp_session option" where
  "sdp_lines lib [] s = Some s"
| "sdp_lines lib (l # ls) s = do { s \<leftarrow> sdp_line lib l s; sdp_lines lib ls s }"

text \<open>The inference of the codec, and the ranges enforced at the end.\<close>

definition sdp_infer :: "sdp_session \<Rightarrow> sdp_session option" where
  "sdp_infer s =
     (if codec s = CODEC_UNKNOWN \<and> alac_fmtp_count s \<ge> 3 then do {
        v0 \<leftarrow> rd (alac_fmtp s) 0;
        v2 \<leftarrow> rd (alac_fmtp s) 2;
        v6 \<leftarrow> rd (alac_fmtp s) 6;
        v10 \<leftarrow> rd (alac_fmtp s) 10;
        let s = s\<lparr>codec := CODEC_ALAC\<rparr>;
        let s = (if frames_per_packet s = 0 then s\<lparr>frames_per_packet := v0\<rparr> else s);
        let s = (if bits_per_sample s = 0 then s\<lparr>bits_per_sample := ucast v2\<rparr> else s);
        let s = (if alac_fmtp_count s \<ge> 7 \<and> session_channels s = 0
                 then s\<lparr>session_channels := ucast v6\<rparr> else s);
        Some (if alac_fmtp_count s \<ge> 11 \<and> session_rate s = 0 then s\<lparr>session_rate := v10\<rparr> else s) }
      else Some s)"

definition sdp_sanitize :: "sdp_session \<Rightarrow> sdp_session" where
  "sdp_sanitize s =
     (let s = (if frames_per_packet s = 0 \<or> frames_per_packet s > 8192
               then s\<lparr>frames_per_packet := 352\<rparr> else s);
          s = (if session_rate s < 8000 \<or> session_rate s > 192000
               then s\<lparr>session_rate := 44100\<rparr> else s);
          s = (if session_channels s = 0 \<or> session_channels s > 2
               then s\<lparr>session_channels := 2\<rparr> else s) in
      if bits_per_sample s \<noteq> 16 \<and> bits_per_sample s \<noteq> 24 then s\<lparr>bits_per_sample := 16\<rparr> else s)"

definition sdp_parse :: "clib \<Rightarrow> buf \<Rightarrow> nat \<Rightarrow> sdp_session ret option" where
  "sdp_parse lib sdp_data scratch_len =
     (if sdp_data = [] \<or> scratch_len = 0 \<or> scratch_len < length sdp_data + 1 then fail
      else do {
        s \<leftarrow> sdp_lines lib (tokens (cut sdp_data))
               (session_zero\<lparr>session_rate := 44100, session_channels := 2, bits_per_sample := 16,
                             session_payload_type := 96\<rparr>);
        s \<leftarrow> sdp_infer s;
        ok (sdp_sanitize s) })"

subsection \<open>The parser stays inside the session\<close>

text \<open>Where \<open>char\<close> is signed, text without negative characters.\<close>

definition plain :: "clib \<Rightarrow> buf \<Rightarrow> bool" where
  "plain lib s \<longleftrightarrow> char_signed lib \<longrightarrow> (\<forall>c\<in>set s. c < 128)"

lemma plain_subset: "plain lib s \<Longrightarrow> set t \<subseteq> set s \<Longrightarrow> plain lib t"
  by (auto simp: plain_def)

lemma plain_drop: "plain lib s \<Longrightarrow> plain lib (drop n s)"
  by (erule plain_subset) (rule set_drop_subset)

lemma after_first_subset: "after_first c s = Some t \<Longrightarrow> set t \<subseteq> set s"
proof -
  assume "after_first c s = Some t"
  then have "t = tl (dropWhile (\<lambda>x. x \<noteq> c) s)" by (simp add: after_first_def split: if_splits)
  then show ?thesis
    by (metis list.sel(2) list.set_sel(2) set_dropWhileD subsetI)
qed

lemma plain_line_value: "plain lib s \<Longrightarrow> plain lib (line_value s)"
  by (auto simp: line_value_def split: option.splits intro: plain_subset dest: after_first_subset)

lemma tokens_subset: "l \<in> set (tokens s) \<Longrightarrow> set l \<subseteq> set s"
proof (induction s rule: tokens.induct)
  case (1 s)
  define t where "t = dropWhile line_break s"
  define r where "r = dropWhile (\<lambda>c. \<not> line_break c) t"
  have e: "tokens s = (if t = [] then [] else takeWhile (\<lambda>c. \<not> line_break c) t # tokens r)"
    unfolding t_def r_def by (subst tokens.simps) (simp only: Let_def)
  have sub: "set t \<subseteq> set s" "set r \<subseteq> set t" "set (takeWhile (\<lambda>c. \<not> line_break c) t) \<subseteq> set t"
    unfolding t_def r_def by (auto dest: set_dropWhileD set_takeWhileD)
  show ?case
  proof (cases "t = []")
    case False
    then have "l = takeWhile (\<lambda>c. \<not> line_break c) t \<or> l \<in> set (tokens r)"
      using 1(2) unfolding e by (simp only: if_False list.set insert_iff)
    then show ?thesis
      using 1(1) [OF t_def False] sub unfolding r_def by blast
  qed (use 1(2) in \<open>simp add: e\<close>)
qed

lemma plain_tokens: "plain lib s \<Longrightarrow> \<forall>l\<in>set (tokens s). plain lib l"
  by (auto intro: plain_subset dest: tokens_subset)

text \<open>The array sizes, and the lengths that the session states of them.\<close>

definition session_ok :: "sdp_session \<Rightarrow> bool" where
  "session_ok s \<longleftrightarrow> length (alac_fmtp s) = 12 \<and> length (aac_config s) = 64 \<and>
     length (aes_key_encrypted s) = 512 \<and> length (aes_iv s) = 16 \<and> length (audio_key s) = 32 \<and>
     (alac_fmtp_count s = 0 \<or> 3 \<le> alac_fmtp_count s \<and> alac_fmtp_count s \<le> 11) \<and>
     aac_config_len s \<le> 64 \<and> aes_key_encrypted_len s \<le> 512"

lemma hex_loop_ok:
  "n \<le> length out \<Longrightarrow>
   \<exists>r out'. hex_loop s out n = Some (r, out') \<and> length out' = length out \<and> r \<le> int (length out)"
proof (induction s out n rule: hex_loop.induct)
  case (1 a b s out n)
  show ?case
  proof (cases "a = 59 \<or> b = 59 \<or> hex_digit a = None \<or> hex_digit b = None \<or> n \<ge> length out")
    case False
    then obtain h l where d: "hex_digit a = Some h" "hex_digit b = Some l" by auto
    have w: "wr out n (ucast (push_bit 4 h OR l)) = Some (out[n := ucast (push_bit 4 h OR l)])"
      using False by (simp add: mem)
    show ?thesis
      using 1(1) False d w by fastforce
  qed (use 1(2) in \<open>auto split: option.splits\<close>)
qed auto

lemma base64_loop_ok:
  "plain lib s \<Longrightarrow> n \<le> length out \<Longrightarrow>
   \<exists>r out'. base64_loop lib s out n b k = Some (r, out') \<and> length out' = length out \<and> r \<le> int (length out)"
proof (induction s arbitrary: out n b k)
  case (Cons c s)
  have pl: "plain lib s" "\<not> (char_signed lib \<and> c \<ge> 128)"
    using Cons.prems by (auto simp: plain_def not_le)
  have "\<exists>r out'. base64_loop lib s (out[n := x]) m b k = Some (r, out') \<and> length out' = length out \<and>
      r \<le> int (length out)" if "m \<le> length out" for x m b k
    using Cons.IH [OF pl(1), of m "out[n := x]" b k] that by simp
  then show ?case
    using Cons.IH [OF pl(1)] Cons.prems(2) pl(2) by (auto simp: Let_def mem)
qed simp

lemma base64_decode_ok:
  "plain lib s \<Longrightarrow>
   \<exists>r out'. sdp_base64_decode lib s out = Some (r, out') \<and> length out' = length out \<and> r \<le> int (length out)"
  using base64_loop_ok [of lib s 0 out 0 0] by (auto simp: sdp_base64_decode_def)

lemma scan_unsigneds_length: "length (scan_unsigneds lib n s) \<le> n"
  by (induction n arbitrary: s) (auto split: option.splits)

lemma sdp_media_ok: "session_ok s \<Longrightarrow> session_ok (sdp_media lib v s)"
  by (auto simp: sdp_media_def session_ok_def split: option.splits)

lemma sdp_rtpmap_ok: "session_ok s \<Longrightarrow> session_ok (sdp_rtpmap lib v s)"
  by (auto simp: sdp_rtpmap_def session_ok_def with_channels_def Let_def split: option.splits prod.splits)

lemma sdp_fmtp_ok: "session_ok s \<Longrightarrow> \<exists>s'. sdp_fmtp lib v s = Some s' \<and> session_ok s'"
proof (cases "after_first 32 (drop 5 v)")
  case (Some params)
  assume s: "session_ok s"
  have aac: "\<exists>s'. sdp_aac_fmtp lib params s = Some s' \<and> session_ok s'"
  proof (cases "strstr params (lit ''config='')")
    case (Some t)
    obtain r out where "hex_loop (drop 7 t) (aac_config s) 0 = Some (r, out)"
      "length out = length (aac_config s)" "r \<le> int (length (aac_config s))"
      using hex_loop_ok [of 0 "aac_config s" "drop 7 t"] by auto
    then show ?thesis
      using s Some by (auto simp: sdp_aac_fmtp_def parse_hex_bytes_def session_ok_def)
  qed (use s in \<open>auto simp: sdp_aac_fmtp_def session_ok_def\<close>)
  have "\<exists>s'. sdp_alac_fmtp lib params s = Some s' \<and> session_ok s'"
    using s scan_unsigneds_length [of lib 11 params]
    by (auto simp: sdp_alac_fmtp_def session_ok_def Let_def wr_range_def)
  with aac Some show ?thesis by (simp add: sdp_fmtp_def)
qed (auto simp: sdp_fmtp_def)

lemma sdp_attribute_ok:
  assumes "session_ok s" and "plain lib v"
  shows "\<exists>s'. sdp_attribute lib v s = Some s' \<and> session_ok s'"
proof -
  obtain r1 o1 where 1: "sdp_base64_decode lib (drop 10 v) (aes_key_encrypted s) = Some (r1, o1)"
    "length o1 = length (aes_key_encrypted s)" "r1 \<le> int (length (aes_key_encrypted s))"
    using base64_decode_ok [OF plain_drop [OF assms(2)]] by blast
  obtain r2 o2 where 2: "sdp_base64_decode lib (drop 6 v) (aes_iv s) = Some (r2, o2)" "length o2 = length (aes_iv s)"
    using base64_decode_ok [OF plain_drop [OF assms(2)]] by blast
  show ?thesis
    using assms(1) 1 2 sdp_rtpmap_ok [OF assms(1)] sdp_fmtp_ok [OF assms(1)]
    by (auto simp: sdp_attribute_def session_ok_def Let_def)
qed

lemma sdp_line_ok:
  "session_ok s \<Longrightarrow> plain lib l \<Longrightarrow> \<exists>s'. sdp_line lib l s = Some s' \<and> session_ok s'"
  using sdp_media_ok sdp_attribute_ok plain_line_value by (auto simp: sdp_line_def Let_def)

lemma sdp_lines_ok:
  "session_ok s \<Longrightarrow> \<forall>l\<in>set ls. plain lib l \<Longrightarrow> \<exists>s'. sdp_lines lib ls s = Some s' \<and> session_ok s'"
proof (induction ls arbitrary: s)
  case (Cons l ls)
  obtain s1 where "sdp_line lib l s = Some s1" "session_ok s1"
    using sdp_line_ok [OF Cons.prems(1), of lib l] Cons.prems(2) by auto
  with Cons show ?case by auto
qed simp

lemma sdp_infer_ok: "session_ok s \<Longrightarrow> \<exists>s'. sdp_infer s = Some s' \<and> session_ok s'"
  by (auto simp: sdp_infer_def session_ok_def Let_def rd_def)

definition session_sane :: "sdp_session \<Rightarrow> bool" where
  "session_sane s \<longleftrightarrow> 1 \<le> unat (frames_per_packet s) \<and> unat (frames_per_packet s) \<le> 8192 \<and>
     8000 \<le> unat (session_rate s) \<and> unat (session_rate s) \<le> 192000 \<and>
     (session_channels s = 1 \<or> session_channels s = 2) \<and> (bits_per_sample s = 16 \<or> bits_per_sample s = 24)"

lemma u16_one_or_two: "\<not> (c = 0 \<or> c > 2) \<Longrightarrow> c = 1 \<or> (c :: u16) = 2"
proof -
  assume "\<not> (c = 0 \<or> c > 2)"
  then have "unat c \<noteq> 0" "unat c \<le> 2" by (auto simp: word_less_nat_alt unat_eq_0)
  then have "unat c = 1 \<or> unat c = 2" by linarith
  then show ?thesis by (auto simp: word_unat_eq_iff)
qed

lemma sdp_sanitize_sane: "session_ok s \<Longrightarrow> session_ok (sdp_sanitize s) \<and> session_sane (sdp_sanitize s)"
  using u16_one_or_two [of "session_channels s"]
  by (auto simp: sdp_sanitize_def session_ok_def session_sane_def Let_def word_less_nat_alt unat_eq_0
      Suc_le_eq intro: gr0I)

lemma sdp_parse_result:
  assumes "plain lib b"
  shows "\<exists>r. sdp_parse lib b n = Some r \<and>
    (case r of
       Inl _ \<Rightarrow> b = [] \<or> n \<le> length b
     | Inr s \<Rightarrow> b \<noteq> [] \<and> length b < n \<and> session_ok s \<and> session_sane s)"
proof (cases "b = [] \<or> n \<le> length b")
  case False
  let ?s = "session_zero\<lparr>session_rate := 44100, session_channels := 2, bits_per_sample := 16, session_payload_type := 96\<rparr>"
  have "plain lib (cut b)"
    using assms by (auto simp: plain_def cut_def dest: set_takeWhileD)
  moreover have "session_ok ?s" by (simp add: session_ok_def session_zero_def)
  ultimately obtain s1 where s1: "sdp_lines lib (tokens (cut b)) ?s = Some s1" "session_ok s1"
    using sdp_lines_ok plain_tokens by blast
  obtain s2 where "sdp_infer s1 = Some s2" "session_ok s2"
    using sdp_infer_ok [OF s1(2)] by blast
  with s1(1) False sdp_sanitize_sane show ?thesis by (auto simp: sdp_parse_def)
qed (auto simp: sdp_parse_def)


subsection \<open>Base64 decodes what it encodes\<close>

text \<open>The encoding of RFC 4648, as a reference.\<close>

definition b64 :: "nat \<Rightarrow> u8" where
  "b64 i = base64_chars ! i"

fun base64_encode :: "buf \<Rightarrow> buf" where
  "base64_encode [] = []"
| "base64_encode [a] = [b64 (unat a div 4), b64 (unat a mod 4 * 16), 61, 61]"
| "base64_encode [a, b] =
     [b64 (unat a div 4), b64 (unat a mod 4 * 16 + unat b div 16), b64 (unat b mod 16 * 4), 61]"
| "base64_encode (a # b # c # s) =
     [b64 (unat a div 4), b64 (unat a mod 4 * 16 + unat b div 16),
      b64 (unat b mod 16 * 4 + unat c div 64), b64 (unat c mod 64)] @ base64_encode s"

lemma base64_chars_facts:
  "length base64_chars = 64" "distinct base64_chars"
  "\<forall>c\<in>set base64_chars. \<not> is_space c \<and> c \<noteq> 61 \<and> c < 128"
proof -
  show "length base64_chars = 64" by (simp add: base64_chars_def)
  show "distinct base64_chars" by code_simp
  show "\<forall>c\<in>set base64_chars. \<not> is_space c \<and> c \<noteq> 61 \<and> c < 128" by code_simp
qed

lemma b64_char:
  assumes "i < 64"
  shows "b64 i \<in> set base64_chars" "\<not> is_space (b64 i)" "b64 i \<noteq> 61" "b64 i < 128"
    "length (takeWhile (\<lambda>x. x \<noteq> b64 i) base64_chars) = i"
proof -
  show m: "b64 i \<in> set base64_chars"
    using assms base64_chars_facts(1) by (auto simp: b64_def)
  then show "\<not> is_space (b64 i)" "b64 i \<noteq> 61" "b64 i < 128"
    using base64_chars_facts(3) by blast+
  have "takeWhile (\<lambda>x. x \<noteq> b64 i) base64_chars = take i base64_chars"
    using assms base64_chars_facts(1,2)
    by (intro takeWhile_eq_take_P_nth) (auto simp: b64_def nth_eq_iff_index_eq)
  then show "length (takeWhile (\<lambda>x. x \<noteq> b64 i) base64_chars) = i"
    using assms base64_chars_facts(1) by simp
qed

lemma push_or_sextet:
  assumes "i < 64"
  shows "push_bit 6 (of_nat v) OR of_nat i = (of_nat (v * 64 + i) :: u32)"
proof -
  have "\<not> bit (of_nat i :: u32) n" if "6 \<le> n" for n
  proof -
    have "i < 2 ^ n" using assms power_increasing [OF that, of "2 :: nat"] by simp
    then show ?thesis by (simp add: bit_simps) (simp add: bit_iff_odd)
  qed
  then have "push_bit 6 (of_nat v) OR of_nat i = push_bit 6 (of_nat v) + (of_nat i :: u32)"
    by (intro disjunctive_add [symmetric]) (auto simp: bit_simps not_le)
  then show ?thesis by (simp add: push_bit_eq_mult)
qed

lemma base64_step:
  assumes i: "i < 64" and v: "v < 2 ^ bits" "bits < 8"
  shows "base64_loop lib (b64 i # s) out n (of_nat v) bits =
    (if bits + 6 \<ge> 8 then
       if n \<ge> length out then Some (-1, out)
       else base64_loop lib s (out[n := of_nat ((v * 64 + i) div 2 ^ (bits - 2))]) (n + 1)
              (of_nat ((v * 64 + i) mod 2 ^ (bits - 2))) (bits - 2)
     else base64_loop lib s out n (of_nat (v * 64 + i)) (bits + 6))"
proof -
  let ?w = "of_nat (v * 64 + i) :: u32"
  have "(2 :: nat) ^ bits \<le> 2 ^ 7" using v(2) by (intro power_increasing) auto
  then have small: "v * 64 + i < 2 ^ 32" using i v(1) by simp
  have u: "unat ?w = v * 64 + i" using small by (simp only: unat_of_nat) simp
  have "(ucast (drop_bit k ?w) :: u8) = of_nat ((v * 64 + i) div 2 ^ k)" for k
    by (intro word_unat_eq_iff [THEN iffD2])
      (simp only: unsigned_ucast_eq take_bit_eq_mod unat_drop_bit u, simp only: unat_of_nat)
  moreover have "?w AND (push_bit k 1 - 1) = of_nat ((v * 64 + i) mod 2 ^ k)" if "k < 32" for k
  proof -
    have "?w AND (push_bit k 1 - 1) = take_bit k ?w"
      by (simp add: take_bit_eq_mask mask_eq_exp_minus_1 del: of_nat_add of_nat_mult)
    moreover have "unat (take_bit k ?w) = (v * 64 + i) mod 2 ^ k"
      unfolding unsigned_take_bit_eq u by (rule take_bit_eq_mod)
    moreover have "(v * 64 + i) mod 2 ^ k < 2 ^ 32"
      using small by (meson le_less_trans mod_less_eq_dividend)
    ultimately show ?thesis
      by (intro word_unat_eq_iff [THEN iffD2]) (simp add: unat_of_nat del: of_nat_add of_nat_mult)
  qed
  moreover have "\<not> b64 i \<ge> 128" using b64_char(4) [OF i] by simp
  ultimately show ?thesis
    using b64_char [OF i] v(2)
    by (simp add: Let_def push_or_sextet [OF i] mem del: of_nat_add of_nat_mult)
qed

lemma sextets:
  fixes a b c :: u8
  defines "A \<equiv> unat a" and "B \<equiv> unat b" and "C \<equiv> unat c"
  shows "A div 4 < 64" "A mod 4 * 16 + B div 16 < 64" "B mod 16 * 4 + C div 64 < 64" "C mod 64 < 64"
    "A div 4 < 2 ^ 6" "B div 16 < 2 ^ 4" "C div 64 < 2 ^ 2"
    "A div 4 * 64 + (A mod 4 * 16 + B div 16) = A * 16 + B div 16"
    "B div 16 * 64 + (B mod 16 * 4 + C div 64) = B * 4 + C div 64" "C div 64 * 64 + C mod 64 = C"
    "(A * 16 + B div 16) div 2 ^ 4 = A" "(A * 16 + B div 16) mod 2 ^ 4 = B div 16"
    "(B * 4 + C div 64) div 2 ^ 2 = B" "(B * 4 + C div 64) mod 2 ^ 2 = C div 64"
    "(of_nat A :: u8) = a" "(of_nat B :: u8) = b" "(of_nat C :: u8) = c"
proof -
  have r: "A < 256" "B < 256" "C < 256" by (simp_all add: A_def B_def C_def)
  then have q: "A div 4 < 64" "B div 16 < 16" "C div 64 < 4" by (simp_all add: less_mult_imp_div_less)
  have m: "A mod 4 < 4" "B mod 16 < 16" "C mod 64 < 64" by simp_all
  show "A div 4 < 64" "C mod 64 < 64" using q m by simp_all
  show "A mod 4 * 16 + B div 16 < 64" "B mod 16 * 4 + C div 64 < 64" using q m by linarith+
  show "A div 4 < 2 ^ 6" "B div 16 < 2 ^ 4" "C div 64 < 2 ^ 2" using q by simp_all
  show "A div 4 * 64 + (A mod 4 * 16 + B div 16) = A * 16 + B div 16"
    using div_mult_mod_eq [of A 4] by linarith
  show "B div 16 * 64 + (B mod 16 * 4 + C div 64) = B * 4 + C div 64"
    using div_mult_mod_eq [of B 16] by linarith
  show "C div 64 * 64 + C mod 64 = C" by (rule div_mult_mod_eq)
  show "(A * 16 + B div 16) div 2 ^ 4 = A" "(A * 16 + B div 16) mod 2 ^ 4 = B div 16" using q by simp_all
  show "(B * 4 + C div 64) div 2 ^ 2 = B" "(B * 4 + C div 64) mod 2 ^ 2 = C div 64" using q by simp_all
  show "(of_nat A :: u8) = a" "(of_nat B :: u8) = b" "(of_nat C :: u8) = c"
    by (simp_all add: A_def B_def C_def)
qed

text \<open>One, two, three and four characters of a group, by the bytes they complete.\<close>

lemma base64_sextet1:
  "base64_loop lib (b64 (unat (a :: u8) div 4) # s) out n 0 0 = base64_loop lib s out n (of_nat (unat a div 4)) 6"
  using base64_step [of "unat a div 4" 0 0 lib s out n] sextets(1) [of a] by simp

lemma base64_store:
  assumes "i < 64" and "v < 2 ^ bits" and "bits = k + 2" and "k \<le> 4"
    and "v * 64 + i = w" and "w div 2 ^ k = q" and "w mod 2 ^ k = r" and "of_nat q = x"
  shows "base64_loop lib (b64 i # s) out n (of_nat v) bits =
    (if n \<ge> length out then Some (-1, out) else base64_loop lib s (out[n := x]) (n + 1) (of_nat r) k)"
  using base64_step [OF assms(1,2), of lib s out n] assms(3-)
  by (simp del: of_nat_add of_nat_mult base64_loop.simps)

lemma base64_sextet2:
  "base64_loop lib (b64 (unat (a :: u8) mod 4 * 16 + unat (b :: u8) div 16) # s) out n (of_nat (unat a div 4)) 6 =
   (if n \<ge> length out then Some (-1, out)
    else base64_loop lib s (out[n := a]) (n + 1) (of_nat (unat b div 16)) 4)"
  by (rule base64_store [OF sextets(2) sextets(5) _ _ sextets(8) sextets(11) sextets(12) sextets(15)]) simp_all

lemma base64_sextet3:
  "base64_loop lib (b64 (unat (b :: u8) mod 16 * 4 + unat (c :: u8) div 64) # s) out n (of_nat (unat b div 16)) 4 =
   (if n \<ge> length out then Some (-1, out)
    else base64_loop lib s (out[n := b]) (n + 1) (of_nat (unat c div 64)) 2)"
  by (rule base64_store [OF sextets(3) sextets(6) _ _ sextets(9) sextets(13) sextets(14) sextets(15)]) simp_all

lemma base64_sextet4:
  "base64_loop lib (b64 (unat (c :: u8) mod 64) # s) out n (of_nat (unat c div 64)) 2 =
   (if n \<ge> length out then Some (-1, out) else base64_loop lib s (out[n := c]) (n + 1) 0 0)"
proof -
  have "base64_loop lib (b64 (unat c mod 64) # s) out n (of_nat (unat c div 64)) 2 =
    (if n \<ge> length out then Some (-1, out) else base64_loop lib s (out[n := c]) (n + 1) (of_nat 0) 0)"
    by (rule base64_store [OF sextets(4) sextets(7) _ _ sextets(10) _ _ sextets(15)]) simp_all
  then show ?thesis by simp
qed

lemma base64_end: "base64_loop lib (61 # s) out n v k = Some (int n, out)"
  by (simp add: is_space_def)

lemma update_take: "n < length xs \<Longrightarrow> take (Suc n) (xs[n := x]) = take n xs @ [x]"
  by (simp add: take_Suc_conv_app_nth)

lemma base64_loop_encode:
  "n \<le> length out \<Longrightarrow>
   base64_loop lib (base64_encode bs) out n 0 0 =
     (if n + length bs \<le> length out
      then Some (int (n + length bs), take n out @ bs @ drop (n + length bs) out)
      else Some (-1, take n out @ take (length out - n) bs))"
proof (induction bs arbitrary: out n rule: base64_encode.induct)
  case (2 a)
  then show ?case
    using base64_sextet2 [of lib a 0 "[61, 61]" out n]
    by (auto simp: base64_sextet1 base64_end upd_conv_take_nth_drop Suc_le_eq simp del: base64_loop.simps)
next
  case (3 a b)
  have 4: "base64_loop lib (b64 (unat (b :: u8) mod 16 * 4) # s) out n (of_nat (unat b div 16)) 4 =
     (if n \<ge> length out then Some (-1, out) else base64_loop lib s (out[n := b]) (n + 1) 0 2)" for s out n
    using base64_sextet3 [of lib b 0 s out n] by simp
  consider "n = length out" | "length out = n + 1" | "n + 2 \<le> length out"
    using 3 by linarith
  then show ?case
    by cases
      (auto simp: base64_sextet1 base64_sextet2 4 base64_end list_eq_iff_nth_eq nth_append nth_list_update
        less_Suc_eq intro: arg_cong [of _ _ "(!) out"] simp del: base64_loop.simps)
next
  case (4 a b c s)
  consider "n = length out" | "length out = n + 1" | "length out = n + 2" | "n + 3 \<le> length out"
    using 4 by linarith
  then show ?case
  proof cases
    case fits: 4
    let ?o = "out[n := a, n + 1 := b, n + 2 := c]"
    have "base64_loop lib (base64_encode (a # b # c # s)) out n 0 0 = base64_loop lib (base64_encode s) ?o (n + 3) 0 0"
      using fits by (simp add: base64_sextet1 base64_sextet2 base64_sextet3 base64_sextet4 numeral_3_eq_3 del: base64_loop.simps)
    moreover have "take (n + 3) ?o = take n out @ [a, b, c]"
      using fits by (auto simp: list_eq_iff_nth_eq nth_append nth_list_update less_Suc_eq numeral_3_eq_3)
    moreover have "drop k ?o = drop k out" if "n + 3 \<le> k" for k
      using that by simp
    moreover have "take (length out - n) (a # b # c # s) = a # b # c # take (length out - (n + 3)) s"
    proof -
      have "length out - n = Suc (Suc (Suc (length out - (n + 3))))" using fits by simp
      then show ?thesis by (simp only: take_Suc_Cons)
    qed
    ultimately show ?thesis
      using 4(1) [of "n + 3" ?o] fits by (simp add: numeral_3_eq_3 del: base64_loop.simps)
  next
    case 1
    then show ?thesis by (simp add: base64_sextet1 base64_sextet2 del: base64_loop.simps)
  next
    case 2
    then obtain o' x where "out = o' @ [x]" "n = length o'"
      by (cases out rule: rev_cases) auto
    then show ?thesis
      by (simp add: base64_sextet1 base64_sextet2 base64_sextet3 del: base64_loop.simps)
  next
    case 3
    define o' where "o' = take n out"
    have "out = o' @ [out ! n, out ! (n + 1)]" "n = length o'"
      using 3 by (auto simp: o'_def list_eq_iff_nth_eq nth_append less_Suc_eq)
    then obtain x y where "out = o' @ [x, y]" "n = length o'" by blast
    then show ?thesis
      by (simp add: base64_sextet1 base64_sextet2 base64_sextet3 base64_sextet4 list_update_append
          del: base64_loop.simps)
  qed
qed simp

text \<open>
  Base64 material.  Decoding what RFC 4648 encodes gives the bytes back, at the start of the
  array and without a change behind them; an encoding of more bytes than the array has is refused.
\<close>

theorem sdp_base64_roundtrip:
  "sdp_base64_decode lib (base64_encode bs) out =
     (if out = [] then Some (-1, out)
      else if length bs \<le> length out then Some (int (length bs), bs @ drop (length bs) out)
      else Some (-1, take (length out) bs))"
  using base64_loop_encode [of 0 out lib bs] by (simp add: sdp_base64_decode_def)

text \<open>
  A byte above 127 is a negative \<open>char\<close> on platforms where \<open>char\<close> is signed, and the call of
  \<open>isspace\<close> is then undefined.
\<close>

lemma sdp_high_char: "char_signed lib \<Longrightarrow> sdp_base64_decode lib [0x80] (replicate 16 0) = None"
  by (simp add: sdp_base64_decode_def)

text \<open>A library that wraps numbers, and the session of a RAOP sender.\<close>

definition wrap_lib :: clib where
  "wrap_lib = \<lparr>wide_unsigned = of_int, wide_signed = of_int, char_signed = True\<rparr>"


end
