(* ===== verification/Fairplay.thy ===== *)
theory Fairplay
  imports C_Text
begin

section \<open>FairPlay setup: \<open>src/shared/airplay/fairplay.c\<close>\<close>

text \<open>
  The two-message exchange of FairPlay version 3.  The first message selects one of four fixed
  responses; the second is answered with its own last 20 bytes.  \<open>fairplay_setup stage request
  capacity\<close> is the response or the failure, and the new stage; \<open>None\<close> would be a read outside the
  request.
\<close>

definition fairplay_response_max :: nat where
  "fairplay_response_max = 142"

definition setup_responses :: "buf list" where
  "setup_responses =
     [
      [0x46, 0x50, 0x4c, 0x59, 0x03, 0x01, 0x02, 0x00, 0x00, 0x00, 0x00, 0x82, 0x02, 0x00, 0x0f,
       0x9f, 0x3f, 0x9e, 0x0a, 0x25, 0x21, 0xdb, 0xdf, 0x31, 0x2a, 0xb2, 0xbf, 0xb2, 0x9e, 0x8d,
       0x23, 0x2b, 0x63, 0x76, 0xa8, 0xc8, 0x18, 0x70, 0x1d, 0x22, 0xae, 0x93, 0xd8, 0x27, 0x37,
       0xfe, 0xaf, 0x9d, 0xb4, 0xfd, 0xf4, 0x1c, 0x2d, 0xba, 0x9d, 0x1f, 0x49, 0xca, 0xaa, 0xbf,
       0x65, 0x91, 0xac, 0x1f, 0x7b, 0xc6, 0xf7, 0xe0, 0x66, 0x3d, 0x21, 0xaf, 0xe0, 0x15, 0x65,
       0x95, 0x3e, 0xab, 0x81, 0xf4, 0x18, 0xce, 0xed, 0x09, 0x5a, 0xdb, 0x7c, 0x3d, 0x0e, 0x25,
       0x49, 0x09, 0xa7, 0x98, 0x31, 0xd4, 0x9c, 0x39, 0x82, 0x97, 0x34, 0x34, 0xfa, 0xcb, 0x42,
       0xc6, 0x3a, 0x1c, 0xd9, 0x11, 0xa6, 0xfe, 0x94, 0x1a, 0x8a, 0x6d, 0x4a, 0x74, 0x3b, 0x46,
       0xc3, 0xa7, 0x64, 0x9e, 0x44, 0xc7, 0x89, 0x55, 0xe4, 0x9d, 0x81, 0x55, 0x00, 0x95, 0x49,
       0xc4, 0xe2, 0xf7, 0xa3, 0xf6, 0xd5, 0xba],
      [0x46, 0x50, 0x4c, 0x59, 0x03, 0x01, 0x02, 0x00, 0x00, 0x00, 0x00, 0x82, 0x02, 0x01, 0xcf,
       0x32, 0xa2, 0x57, 0x14, 0xb2, 0x52, 0x4f, 0x8a, 0xa0, 0xad, 0x7a, 0xf1, 0x64, 0xe3, 0x7b,
       0xcf, 0x44, 0x24, 0xe2, 0x00, 0x04, 0x7e, 0xfc, 0x0a, 0xd6, 0x7a, 0xfc, 0xd9, 0x5d, 0xed,
       0x1c, 0x27, 0x30, 0xbb, 0x59, 0x1b, 0x96, 0x2e, 0xd6, 0x3a, 0x9c, 0x4d, 0xed, 0x88, 0xba,
       0x8f, 0xc7, 0x8d, 0xe6, 0x4d, 0x91, 0xcc, 0xfd, 0x5c, 0x7b, 0x56, 0xda, 0x88, 0xe3, 0x1f,
       0x5c, 0xce, 0xaf, 0xc7, 0x43, 0x19, 0x95, 0xa0, 0x16, 0x65, 0xa5, 0x4e, 0x19, 0x39, 0xd2,
       0x5b, 0x94, 0xdb, 0x64, 0xb9, 0xe4, 0x5d, 0x8d, 0x06, 0x3e, 0x1e, 0x6a, 0xf0, 0x7e, 0x96,
       0x56, 0x16, 0x2b, 0x0e, 0xfa, 0x40, 0x42, 0x75, 0xea, 0x5a, 0x44, 0xd9, 0x59, 0x1c, 0x72,
       0x56, 0xb9, 0xfb, 0xe6, 0x51, 0x38, 0x98, 0xb8, 0x02, 0x27, 0x72, 0x19, 0x88, 0x57, 0x16,
       0x50, 0x94, 0x2a, 0xd9, 0x46, 0x68, 0x8a],
      [0x46, 0x50, 0x4c, 0x59, 0x03, 0x01, 0x02, 0x00, 0x00, 0x00, 0x00, 0x82, 0x02, 0x02, 0xc1,
       0x69, 0xa3, 0x52, 0xee, 0xed, 0x35, 0xb1, 0x8c, 0xdd, 0x9c, 0x58, 0xd6, 0x4f, 0x16, 0xc1,
       0x51, 0x9a, 0x89, 0xeb, 0x53, 0x17, 0xbd, 0x0d, 0x43, 0x36, 0xcd, 0x68, 0xf6, 0x38, 0xff,
       0x9d, 0x01, 0x6a, 0x5b, 0x52, 0xb7, 0xfa, 0x92, 0x16, 0xb2, 0xb6, 0x54, 0x82, 0xc7, 0x84,
       0x44, 0x11, 0x81, 0x21, 0xa2, 0xc7, 0xfe, 0xd8, 0x3d, 0xb7, 0x11, 0x9e, 0x91, 0x82, 0xaa,
       0xd7, 0xd1, 0x8c, 0x70, 0x63, 0xe2, 0xa4, 0x57, 0x55, 0x59, 0x10, 0xaf, 0x9e, 0x0e, 0xfc,
       0x76, 0x34, 0x7d, 0x16, 0x40, 0x43, 0x80, 0x7f, 0x58, 0x1e, 0xe4, 0xfb, 0xe4, 0x2c, 0xa9,
       0xde, 0xdc, 0x1b, 0x5e, 0xb2, 0xa3, 0xaa, 0x3d, 0x2e, 0xcd, 0x59, 0xe7, 0xee, 0xe7, 0x0b,
       0x36, 0x29, 0xf2, 0x2a, 0xfd, 0x16, 0x1d, 0x87, 0x73, 0x53, 0xdd, 0xb9, 0x9a, 0xdc, 0x8e,
       0x07, 0x00, 0x6e, 0x56, 0xf8, 0x50, 0xce],
      [0x46, 0x50, 0x4c, 0x59, 0x03, 0x01, 0x02, 0x00, 0x00, 0x00, 0x00, 0x82, 0x02, 0x03, 0x90,
       0x01, 0xe1, 0x72, 0x7e, 0x0f, 0x57, 0xf9, 0xf5, 0x88, 0x0d, 0xb1, 0x04, 0xa6, 0x25, 0x7a,
       0x23, 0xf5, 0xcf, 0xff, 0x1a, 0xbb, 0xe1, 0xe9, 0x30, 0x45, 0x25, 0x1a, 0xfb, 0x97, 0xeb,
       0x9f, 0xc0, 0x01, 0x1e, 0xbe, 0x0f, 0x3a, 0x81, 0xdf, 0x5b, 0x69, 0x1d, 0x76, 0xac, 0xb2,
       0xf7, 0xa5, 0xc7, 0x08, 0xe3, 0xd3, 0x28, 0xf5, 0x6b, 0xb3, 0x9d, 0xbd, 0xe5, 0xf2, 0x9c,
       0x8a, 0x17, 0xf4, 0x81, 0x48, 0x7e, 0x3a, 0xe8, 0x63, 0xc6, 0x78, 0x32, 0x54, 0x22, 0xe6,
       0xf7, 0x8e, 0x16, 0x6d, 0x18, 0xaa, 0x7f, 0xd6, 0x36, 0x25, 0x8b, 0xce, 0x28, 0x72, 0x6f,
       0x66, 0x1f, 0x73, 0x88, 0x93, 0xce, 0x44, 0x31, 0x1e, 0x4b, 0xe6, 0xc0, 0x53, 0x51, 0x93,
       0xe5, 0xef, 0x72, 0xe8, 0x68, 0x62, 0x33, 0x72, 0x9c, 0x22, 0x7d, 0x82, 0x0c, 0x99, 0x94,
       0x45, 0xd8, 0x92, 0x46, 0xc8, 0xc3, 0x59]
     ]"

definition fairplay_setup :: "u8 \<Rightarrow> buf \<Rightarrow> nat \<Rightarrow> ((errno + buf) \<times> u8) option" where
  "fairplay_setup stage request capacity =
     (let size = length request in
      if size < 12 then Some (Inl EFail, stage)
      else do {
        magic \<leftarrow> rd_range request 0 4;
        major \<leftarrow> rd request 4;
        minor \<leftarrow> rd request 5;
        kind \<leftarrow> rd request 6;
        flag \<leftarrow> rd request 7;
        if magic \<noteq> lit ''FPLY'' \<or> major \<noteq> 3 \<or> minor \<noteq> 1 \<or> flag \<noteq> 0 then Some (Inl EFail, stage)
        else do {
          b8 \<leftarrow> rd request 8;
          b9 \<leftarrow> rd request 9;
          b10 \<leftarrow> rd request 10;
          b11 \<leftarrow> rd request 11;
          if unat (be32 b8 b9 b10 b11) \<noteq> size - 12 then Some (Inl EFail, stage)
          else if kind = 1 then
            (if size \<noteq> 16 then Some (Inl EFail, stage)
             else do {
               m \<leftarrow> rd request 14;
               if m > 3 \<or> capacity < fairplay_response_max then Some (Inl EFail, stage)
               else do {
                 response \<leftarrow> rd setup_responses (unat m);
                 Some (Inr response, 1) } })
          else if kind = 3 then
            (if stage \<noteq> 1 \<or> size \<noteq> 164 \<or> capacity < 32 then Some (Inl EFail, stage)
             else do {
               t \<leftarrow> rd_range request (size - 20) 20;
               Some (Inr (lit ''FPLY'' @ [3, 1, 4, 0, 0, 0, 0, 0x14] @ t), 2) })
          else Some (Inl EFail, stage) } })"

lemma setup_responses_length: "length setup_responses = 4" "\<forall>r\<in>set setup_responses. length r = fairplay_response_max"
  by (simp_all add: setup_responses_def fairplay_response_max_def)

text \<open>
  Every outcome: no read leaves the request, a response fits its buffer, the stage moves to 1 only
  by a first message and to 2 only by a second one at stage 1, and a refused message changes
  nothing.
\<close>

lemma fairplay_setup_outcome:
  "\<exists>r stage'. fairplay_setup stage request capacity = Some (r, stage') \<and>
     (case r of
        Inl _ \<Rightarrow> stage' = stage
      | Inr response \<Rightarrow> length response \<le> capacity \<and>
          (stage' = 1 \<and> length response = 142 \<or>
           stage = 1 \<and> stage' = 2 \<and> length response = 32 \<and> drop 12 response = drop (length request - 20) request))"
proof (cases "12 \<le> length request")
  case True
  have m: "m \<le> 3 \<Longrightarrow> rd setup_responses (unat m) = Some (setup_responses ! unat m) \<and>
      length (setup_responses ! unat m) = 142" for m :: u8
    using setup_responses_length by (auto simp: rd_def word_le_nat_alt fairplay_response_max_def)
  show ?thesis
    using True m
    by (auto simp: fairplay_setup_def Let_def rd_within [OF True] rd_def rd_range_def not_le
        fairplay_response_max_def linorder_not_less)
qed (auto simp: fairplay_setup_def)

end
