(* ===== verification/Rtsp_State.thy ===== *)
theory Rtsp_State
  imports Complex_Main Ptp_Sync Pairing Fairplay Sdp Rtsp_Request
begin

section \<open>The RTSP server: state and connection layer\<close>

text \<open>
  The data of \<open>src/shared/protocol/rtsp.h\<close> and the functions of \<open>rtsp.c\<close> that send and receive on
  one connection.

  A pointer to a client is its index in \<open>clients\<close>; \<open>stream_owner\<close> is such a pointer or none.  A
  socket's \<open>handle\<close> is none where the code stores \<open>UINTPTR_MAX\<close>.  \<open>rx\<close> is, per client, the
  received bytes \<open>rx_buffers[i][0 .. rx_lengths[i])\<close>.  The mutex is not represented: the functions
  of one instance run one after the other.  A volume is a rational number.

  The operations of the platform and of the libraries are fields of an \<open>env\<close> record, over a world
  of any type \<open>'w\<close> in which they may read and change whatever they like.
\<close>

subsection \<open>The environment\<close>

record net_socket =
  handle :: "nat option"
  socket_port :: u16

definition closed_socket :: net_socket where
  "closed_socket = \<lparr>handle = None, socket_port = 0\<rparr>"

text \<open>
  \<open>net_tcp_recv\<close> gives bytes (none when the peer has closed), a timeout or an error, and
  \<open>net_tcp_accept\<close> a socket with its peer's address, a timeout or an error.
\<close>

datatype received = Received buf | Receive_Timeout | Receive_Error

datatype accepted = Accepted net_socket net_addr | Accept_Timeout | Accept_Error

text \<open>
  \<open>send_all\<close> is \<open>net_tcp_send_all\<close> (true when it returns 0), \<open>wait_ready\<close> is \<open>net_wait\<close> (a
  negative result is none; no socket is ready on a timeout), \<open>entropy\<close> what \<open>pairing_setup\<close> gets:
  whether the crypto memory is available and its random bytes; \<open>challenge\<close> is
  \<open>apple_challenge_response\<close> of \<open>airplay_auth.c\<close> on the challenge, the address and the hardware
  address; \<open>scan_float\<close> is \<open>strtof\<close>: how many characters it reads, and the value when it is finite;
  \<open>show_volume\<close> is \<open>snprintf\<close> with \<open>volume: %.6f\<close>.
\<close>

record 'w env =
  send_all :: "net_socket \<Rightarrow> buf \<Rightarrow> 'w \<Rightarrow> bool \<times> 'w"
  receive_from :: "net_socket \<Rightarrow> nat \<Rightarrow> 'w \<Rightarrow> received \<times> 'w"
  accept_on :: "net_socket \<Rightarrow> 'w \<Rightarrow> accepted \<times> 'w"
  listen_on :: "buf \<Rightarrow> u16 \<Rightarrow> 'w \<Rightarrow> net_socket option \<times> 'w"
  wait_ready :: "net_socket list \<Rightarrow> int \<Rightarrow> 'w \<Rightarrow> bool list option \<times> 'w"
  close_socket :: "net_socket \<Rightarrow> 'w \<Rightarrow> 'w"
  entropy :: "'w \<Rightarrow> (bool \<times> (buf \<times> buf) option) \<times> 'w"
  pair_primitives :: pair_crypto
  challenge :: "buf \<Rightarrow> buf \<Rightarrow> buf \<Rightarrow> 'w \<Rightarrow> buf option \<times> 'w"
  scan_float :: "buf \<Rightarrow> nat \<times> rat option"
  show_volume :: "rat \<Rightarrow> buf"
  libc :: clib

subsection \<open>Server state\<close>

record rtsp_client =
  socket :: net_socket
  peer :: net_addr
  pairing_state :: pairing
  fairplay_stage :: u8
  encrypted :: bool
  http :: bool
  control_record :: buf
  record_used :: nat
  event_listener :: net_socket
  event_client :: net_socket

record rtsp_stream =
  session :: sdp_session
  has_session :: bool
  recording :: bool
  volume_db :: rat
  generation :: u32
  flush_generation :: u32
  timing_peer :: net_addr
  timestamp_floor :: u32
  has_timestamp_floor :: bool
  floor_exclusive :: bool
  buffered_flush_sequence :: u32
  has_buffered_flush_sequence :: bool
  anchor :: airplay_anchor

record rtsp_instance =
  listener :: net_socket
  clients :: "rtsp_client list"
  rx :: "buf list"
  stream :: rtsp_stream
  stream_owner :: "nat option"
  local_ip :: buf
  local_mac_hex :: buf
  device_name :: buf

definition rtsp_max_clients :: nat where "rtsp_max_clients = 2"

definition addr_zero :: net_addr where
  "addr_zero = \<lparr>ip = [], port = 0\<rparr>"

definition anchor_zero :: airplay_anchor where
  "anchor_zero = \<lparr>anchor_clock_id = 0, network_us = 0, rtp_time = 0, anchor_valid = False,
     anchor_playing = False\<rparr>"

definition client_zero :: rtsp_client where
  "client_zero =
     \<lparr>socket = closed_socket, peer = addr_zero, pairing_state = pairing_zero, fairplay_stage = 0,
      encrypted = False, http = False, control_record = replicate 1042 0, record_used = 0,
      event_listener = closed_socket, event_client = closed_socket\<rparr>"

definition stream_zero :: rtsp_stream where
  "stream_zero =
     \<lparr>session = session_zero, has_session = False, recording = False, volume_db = 0, generation = 0,
      flush_generation = 0, timing_peer = addr_zero, timestamp_floor = 0, has_timestamp_floor = False,
      floor_exclusive = False, buffered_flush_sequence = 0, has_buffered_flush_sequence = False,
      anchor = anchor_zero\<rparr>"

definition instance_zero :: rtsp_instance where
  "instance_zero =
     \<lparr>listener = closed_socket, clients = replicate rtsp_max_clients client_zero,
      rx = replicate rtsp_max_clients [], stream = stream_zero, stream_owner = None,
      local_ip = [], local_mac_hex = [], device_name = []\<rparr>"

abbreviation client :: "rtsp_instance \<Rightarrow> nat \<Rightarrow> rtsp_client" where
  "client s i \<equiv> clients s ! i"

abbreviation set_client :: "rtsp_instance \<Rightarrow> nat \<Rightarrow> rtsp_client \<Rightarrow> rtsp_instance" where
  "set_client s i c \<equiv> s\<lparr>clients := (clients s)[i := c]\<rparr>"

subsection \<open>Sending\<close>

text \<open>On a paired connection the bytes go out in records of at most 1024 bytes.\<close>

function send_records ::
  "'w env \<Rightarrow> rtsp_client \<Rightarrow> buf \<Rightarrow> 'w \<Rightarrow> bool \<times> rtsp_client \<times> 'w" where
  "send_records env c data w =
     (if data = [] then (True, c, w)
      else
        let n = (if length data > pair_record_max then pair_record_max else length data) in
        (case pairing_seal (pair_primitives env) (pairing_state c) (take n data) of
           None \<Rightarrow> (False, c, w)
         | Some (record, p) \<Rightarrow>
             let c = c\<lparr>pairing_state := p\<rparr>; (sent, w) = send_all env (socket c) record w in
             if \<not> sent then (False, c, w) else send_records env c (drop n data) w))"
  by pat_completeness auto
termination
  by (relation "measure (\<lambda>(env, c, data, w). length data)") (auto simp: pair_record_max_def split: if_splits)

declare send_records.simps [simp del]

definition send_client :: "'w env \<Rightarrow> rtsp_client \<Rightarrow> buf \<Rightarrow> 'w \<Rightarrow> bool \<times> rtsp_client \<times> 'w" where
  "send_client env c data w =
     (if \<not> encrypted c then (let (sent, w) = send_all env (socket c) data w in (sent, c, w))
      else send_records env c data w)"

text \<open>
  The head of a response as \<open>snprintf\<close> writes it into 2048 bytes, when it fits; a header line that
  the caller adds follows the server's.
\<close>

definition crlf_text :: buf where "crlf_text = [13, 10]"

definition response_head :: "rtsp_client \<Rightarrow> nat \<Rightarrow> buf \<Rightarrow> u32 \<Rightarrow> buf \<Rightarrow> nat \<Rightarrow> buf option" where
  "response_head c status status_text seq extra_headers body_len =
     (let t = (if http c then lit ''HTTP/1.1'' else lit ''RTSP/1.0'') @ lit '' '' @ dec status @ lit '' '' @
              status_text @ crlf_text @ lit ''CSeq: '' @ dec (unat seq) @ crlf_text @
              lit ''Server: AirTunes/130.14'' @ crlf_text @ extra_headers in
      if length t \<ge> 2048 then None
      else
        let l = lit ''Content-Length: '' @ dec body_len @ crlf_text in
        if body_len > 0 \<or> http c then
          (if length l \<ge> 2048 - length t then None
           else if length t + length l + 2 > 2048 then None
           else Some (t @ l @ crlf_text))
        else if length t + 2 > 2048 then None
        else Some (t @ crlf_text))"

definition rtsp_send_response ::
  "'w env \<Rightarrow> rtsp_client \<Rightarrow> nat \<Rightarrow> buf \<Rightarrow> u32 \<Rightarrow> buf \<Rightarrow> buf \<Rightarrow> 'w \<Rightarrow> bool \<times> rtsp_client \<times> 'w" where
  "rtsp_send_response env c status status_text seq extra_headers body w =
     (case response_head c status status_text seq extra_headers (length body) of
        None \<Rightarrow> (False, c, w)
      | Some h \<Rightarrow>
          let (sent, c, w) = send_client env c h w in
          if \<not> sent then (False, c, w)
          else if body \<noteq> [] then send_client env c body w
          else (True, c, w))"

subsection \<open>Receiving\<close>

text \<open>
  \<open>receive_client env c capacity w\<close>: plain bytes come straight from the socket; a record is
  collected in \<open>control_record\<close>, its length first, and opened when it is complete.  The result is
  that of the C function with the bytes it stores, at most \<open>capacity\<close> of them by the length check;
  the outer option is a store outside the record buffer.
\<close>

definition receive_record ::
  "'w env \<Rightarrow> rtsp_client \<Rightarrow> nat \<Rightarrow> 'w \<Rightarrow> (received \<times> rtsp_client \<times> 'w) option" where
  "receive_record env c need w =
     (case receive_from env (socket c) (need - record_used c) w of
        (Receive_Timeout, w) \<Rightarrow> Some (Receive_Timeout, c, w)
      | (Receive_Error, w) \<Rightarrow> Some (Receive_Error, c, w)
      | (Received bytes, w) \<Rightarrow>
          if bytes = [] then Some (Received [], c, w)
          else do {
            r \<leftarrow> wr_range (control_record c) (record_used c) bytes;
            let c = c\<lparr>control_record := r, record_used := record_used c + length bytes\<rparr>;
            if need = 2 \<or> record_used c < need then Some (Receive_Timeout, c, w)
            else do {
              record \<leftarrow> rd_range (control_record c) 0 need;
              (plain, p) \<leftarrow> pairing_open (pair_primitives env) (pairing_state c) record;
              let c = c\<lparr>pairing_state := p, record_used := 0\<rparr>;
              (case plain of
                 Inl _ \<Rightarrow> Some (Receive_Error, c, w)
               | Inr bytes \<Rightarrow> Some (Received bytes, c, w)) } })"

definition receive_client ::
  "'w env \<Rightarrow> rtsp_client \<Rightarrow> nat \<Rightarrow> 'w \<Rightarrow> (received \<times> rtsp_client \<times> 'w) option" where
  "receive_client env c capacity w =
     (if \<not> encrypted c then
        (let (r, w) = receive_from env (socket c) capacity w in Some (r, c, w))
      else if record_used c \<ge> 2 then do {
        r0 \<leftarrow> rd (control_record c) 0;
        r1 \<leftarrow> rd (control_record c) 1;
        let n = unat r0 + unat r1 * 256;
        if n = 0 \<or> n > pair_record_max \<or> n > capacity then Some (Receive_Error, c, w)
        else receive_record env c (n + 18) w }
      else receive_record env c 2 w)"

subsection \<open>Opening and closing\<close>

text \<open>The part of \<open>close_client\<close> and of TEARDOWN under the lock.\<close>

definition release_stream :: "rtsp_instance \<Rightarrow> rtsp_instance" where
  "release_stream s =
     s\<lparr>stream := (stream s)\<lparr>recording := False, has_session := False, session := session_zero,
                  generation := generation (stream s) + 1\<rparr>,
       stream_owner := None\<rparr>"

definition close_client :: "'w env \<Rightarrow> rtsp_instance \<Rightarrow> nat \<Rightarrow> 'w \<Rightarrow> rtsp_instance \<times> 'w" where
  "close_client env s i w =
     (let c = client s i;
          s = (if stream_owner s = Some i then release_stream s else s);
          w = close_socket env (socket c) w;
          w = close_socket env (event_client c) w;
          w = close_socket env (event_listener c) w;
          c = c\<lparr>socket := closed_socket, event_client := closed_socket, event_listener := closed_socket,
                pairing_state := pairing_close (pairing_state c), fairplay_stage := 0, encrypted := False,
                record_used := 0, peer := addr_zero\<rparr> in
      ((set_client s i c)\<lparr>rx := (rx s)[i := []]\<rparr>, w))"

text \<open>\<open>lock_ok\<close> is the result of \<open>os_mutex_init\<close>.\<close>

definition rtsp_server_create ::
  "'w env \<Rightarrow> bool \<Rightarrow> u16 \<Rightarrow> 'w \<Rightarrow> bool \<times> rtsp_instance \<times> 'w" where
  "rtsp_server_create env lock_ok p w =
     (let s = instance_zero\<lparr>stream := stream_zero\<lparr>volume_db := - 20\<rparr>\<rparr> in
      if \<not> lock_ok then (False, s, w)
      else
        (case listen_on env [] p w of
           (None, w) \<Rightarrow> (False, s, w)
         | (Some l, w) \<Rightarrow> (True, s\<lparr>listener := l\<rparr>, w)))"

definition hex_char :: "u8 \<Rightarrow> bool" where
  "hex_char c \<longleftrightarrow> 48 \<le> c \<and> c \<le> 57 \<or> 97 \<le> c \<and> c \<le> 102 \<or> 65 \<le> c \<and> c \<le> 70"

definition rtsp_set_identity :: "rtsp_instance \<Rightarrow> buf \<Rightarrow> buf \<Rightarrow> bool \<times> rtsp_instance" where
  "rtsp_set_identity s lip mac =
     (if length lip \<ge> 16 \<or> length mac \<noteq> 12 \<or> (case net_str_to_ipv4 lip of Inl _ \<Rightarrow> True | Inr _ \<Rightarrow> False) \<or>
         \<not> list_all hex_char mac
      then (False, s)
      else (True, s\<lparr>local_ip := lip, local_mac_hex := mac\<rparr>))"

definition rtsp_get_stream_state :: "rtsp_instance \<Rightarrow> rtsp_stream" where
  "rtsp_get_stream_state s = stream s"

end
