(* ===== verification/Airplay_Rtsp.thy ===== *)
theory Airplay_Rtsp
  imports Rtsp_State
begin

section \<open>AirPlay 1 requests: \<open>src/shared/airplay/airplay_rtsp.c\<close>\<close>

text \<open>
  One definition per handler.  A handler gets the instance, the index of the client that sent the
  request, the request and the world, and gives whether it returns 0 (a handler fails when its
  response cannot be sent), the instance and the world; where it may reach undefined behaviour of
  the session parser, an option of that.
\<close>

type_synonym 'w handled = "bool \<times> rtsp_instance \<times> 'w"

definition reply ::
  "'w env \<Rightarrow> rtsp_instance \<Rightarrow> nat \<Rightarrow> rtsp_request \<Rightarrow> nat \<Rightarrow> string \<Rightarrow> buf \<Rightarrow> buf \<Rightarrow> 'w \<Rightarrow> 'w handled" where
  "reply env s i r status text extra_headers body w =
     (let (sent, c, w) = rtsp_send_response env (client s i) status (lit text) (cseq r) extra_headers body w in
      (sent, set_client s i c, w))"

abbreviation accept_request :: "'w env \<Rightarrow> rtsp_instance \<Rightarrow> nat \<Rightarrow> rtsp_request \<Rightarrow> 'w \<Rightarrow> 'w handled" where
  "accept_request env s i r w \<equiv> reply env s i r 200 ''OK'' [] [] w"

abbreviation bad_request :: "'w env \<Rightarrow> rtsp_instance \<Rightarrow> nat \<Rightarrow> rtsp_request \<Rightarrow> 'w \<Rightarrow> 'w handled" where
  "bad_request env s i r w \<equiv> reply env s i r 400 ''Bad Request'' [] [] w"

abbreviation owns :: "rtsp_instance \<Rightarrow> nat \<Rightarrow> bool" where
  "owns s i \<equiv> stream_owner s = Some i"

subsection \<open>Reading the request\<close>

text \<open>The first 255 bytes of the body as a C string.\<close>

definition body_text :: "rtsp_request \<Rightarrow> buf" where
  "body_text r = cut (take 255 (req_body r))"

definition request_body_contains_key :: "rtsp_request \<Rightarrow> buf \<Rightarrow> bool" where
  "request_body_contains_key r key \<longleftrightarrow> req_body r \<noteq> [] \<and> strstr (body_text r) key \<noteq> None"

definition parse_body_volume_db :: "'w env \<Rightarrow> rtsp_request \<Rightarrow> rat option" where
  "parse_body_volume_db env r =
     (if req_body r = [] then None
      else
        (case strstr (body_text r) (lit ''volume:'') of
           None \<Rightarrow> None
         | Some t \<Rightarrow>
             (case scan_float env (drop 7 t) of
                (n, Some v) \<Rightarrow>
                  if n = 0 then None
                  else
                    let v = (if v > 0 then 0 else v) in
                    Some (if v < - 144 then - 144 else v)
              | (n, None) \<Rightarrow> None)))"

definition get_header_value :: "rtsp_request \<Rightarrow> string \<Rightarrow> buf option" where
  "get_header_value r n =
     (case find (\<lambda>h. net_ascii_casecmp (name h) (lit n) = 0) (headers r) of
        None \<Rightarrow> None | Some h \<Rightarrow> Some (header_value h))"

text \<open>The hardware address, of a text that \<open>rtsp_set_identity\<close> has accepted or the empty one.\<close>

fun hex_pairs :: "buf \<Rightarrow> buf option" where
  "hex_pairs (a # b # s) = do {
     high \<leftarrow> hex_digit a;
     low \<leftarrow> hex_digit b;
     t \<leftarrow> hex_pairs s;
     Some (ucast (push_bit 4 high OR low) # t) }"
| "hex_pairs _ = Some []"

definition parse_mac_hex :: "buf \<Rightarrow> buf option" where
  "parse_mac_hex hex = (if length hex \<noteq> 12 then None else hex_pairs hex)"

text \<open>
  \<open>parameter_u32\<close>: -1, 0, and 1 with the value.  \<open>prev\<close> is the character before the remaining text,
  none at its start.  The search for an empty key, which would not end, has no caller.
\<close>

datatype parameter = Bad_Parameter | No_Parameter | Parameter u32

definition separator :: "u8 \<Rightarrow> bool" where
  "separator c \<longleftrightarrow> c = 59 \<or> c = 44 \<or> c = 32"

definition parameter_value :: "buf \<Rightarrow> parameter" where
  "parameter_value s =
     (let ds = takeWhile digit s; rest = dropWhile digit s in
      if ds = [] then Bad_Parameter
      else
        (case uint32_loop ds 0 of
           Inl _ \<Rightarrow> Bad_Parameter
         | Inr v \<Rightarrow> if rest \<noteq> [] \<and> \<not> separator (hd rest) then Bad_Parameter else Parameter v))"

lemma strstr_length: "strstr s key = Some t \<Longrightarrow> length key \<le> length t \<and> length t \<le> length s"
  by (induction s key rule: strstr.induct) (auto split: if_splits dest: arg_cong [of _ _ length])

function parameter_loop :: "u8 option \<Rightarrow> buf \<Rightarrow> buf \<Rightarrow> parameter" where
  "parameter_loop prev s key =
     (if key = [] then No_Parameter
      else
        (case strstr s key of
           None \<Rightarrow> No_Parameter
         | Some t \<Rightarrow>
             let prev = (if length t = length s then prev else Some (s ! (length s - length t - 1))) in
             if prev \<noteq> None \<and> \<not> separator (the prev) then parameter_loop (Some (hd t)) (tl t) key
             else
               let u = drop (length key) t in
               if u = [] \<or> hd u \<noteq> 61 then parameter_loop (Some (last key)) u key
               else parameter_value (tl u)))"
  by pat_completeness auto
termination
  by (relation "measure (\<lambda>(prev, s, key). length s)") (auto dest!: strstr_length simp: Suc_le_eq length_greater_0_conv [symmetric] simp del: length_greater_0_conv)

declare parameter_loop.simps [simp del]

definition parameter_u32 :: "buf option \<Rightarrow> string \<Rightarrow> parameter" where
  "parameter_u32 text key =
     (case text of None \<Rightarrow> No_Parameter | Some s \<Rightarrow> parameter_loop None s (lit key))"

subsection \<open>Handlers\<close>

definition public_methods :: buf where
  "public_methods =
     lit ''Public: ANNOUNCE, SETUP, RECORD, PAUSE, FLUSH, FLUSHBUFFERED, TEARDOWN, OPTIONS, '' @
     lit ''GET_PARAMETER, SET_PARAMETER, POST, GET, SETPEERS, SETRATEANCHORTIME'' @ crlf_text"

definition airplay_rtsp_options :: "'w env \<Rightarrow> rtsp_instance \<Rightarrow> nat \<Rightarrow> rtsp_request \<Rightarrow> 'w \<Rightarrow> 'w handled" where
  "airplay_rtsp_options env s i r w =
     (let (extra, w) =
        (case get_header_value r ''Apple-Challenge'' of
           None \<Rightarrow> (public_methods, w)
         | Some ch \<Rightarrow>
             if ch = [] then (public_methods, w)
             else
               (case (net_str_to_ipv4 (local_ip s), parse_mac_hex (local_mac_hex s)) of
                  (Inr address, Some mac) \<Rightarrow>
                    (case challenge env ch address mac w of
                       (None, w) \<Rightarrow> (public_methods, w)
                     | (Some response, w) \<Rightarrow>
                         (take 767 (public_methods @ lit ''Apple-Response: '' @ response @ crlf_text), w))
                | _ \<Rightarrow> (public_methods, w))) in
      reply env s i r 200 ''OK'' extra [] w)"

definition airplay_rtsp_describe :: "'w env \<Rightarrow> rtsp_instance \<Rightarrow> nat \<Rightarrow> rtsp_request \<Rightarrow> 'w \<Rightarrow> 'w handled" where
  "airplay_rtsp_describe env s i r w = accept_request env s i r w"

text \<open>The part of ANNOUNCE under the lock: the client takes the stream over.\<close>

definition announce_stream :: "rtsp_instance \<Rightarrow> nat \<Rightarrow> sdp_session \<Rightarrow> rtsp_instance" where
  "announce_stream s i parsed =
     s\<lparr>stream := (stream s)\<lparr>session := parsed, has_session := True, recording := False,
                  timing_peer := addr_zero, has_timestamp_floor := False,
                  generation := generation (stream s) + 1\<rparr>,
       stream_owner := Some i\<rparr>"

definition airplay_rtsp_announce ::
  "'w env \<Rightarrow> rtsp_instance \<Rightarrow> nat \<Rightarrow> rtsp_request \<Rightarrow> 'w \<Rightarrow> 'w handled option" where
  "airplay_rtsp_announce env s i r w =
     (if req_body r = [] then Some (bad_request env s i r w)
      else do {
        parsed \<leftarrow> sdp_parse (libc env) (req_body r) 4096;
        Some (case parsed of
            Inl _ \<Rightarrow> bad_request env s i r w
          | Inr parsed \<Rightarrow>
              if codec parsed = CODEC_UNKNOWN then bad_request env s i r w
              else accept_request env (announce_stream s i parsed) i r w) })"

definition airplay_rtsp_post :: "'w env \<Rightarrow> rtsp_instance \<Rightarrow> nat \<Rightarrow> rtsp_request \<Rightarrow> 'w \<Rightarrow> 'w handled" where
  "airplay_rtsp_post env s i r w = accept_request env s i r w"

definition transport_headers :: buf where
  "transport_headers =
     lit ''Session: 00000001'' @ crlf_text @
     lit ''Transport: RTP/AVP/UDP;unicast;mode=record;server_port=6000;control_port=6001;timing_port=6002'' @
     crlf_text @ lit ''Audio-Jack-Status: connected'' @ crlf_text"

definition airplay_rtsp_setup :: "'w env \<Rightarrow> rtsp_instance \<Rightarrow> nat \<Rightarrow> rtsp_request \<Rightarrow> 'w \<Rightarrow> 'w handled" where
  "airplay_rtsp_setup env s i r w =
     (let timing_port =
        (case get_header_value r ''Transport'' of
           None \<Rightarrow> Some 0
         | Some t \<Rightarrow>
             if strstr t (lit ''RTP/AVP/UDP'') = None then None
             else
               (case parameter_u32 (Some t) ''timing_port'' of
                  Bad_Parameter \<Rightarrow> None
                | No_Parameter \<Rightarrow> Some 0
                | Parameter p \<Rightarrow> if p > 65535 then None else Some p)) in
      case timing_port of
        None \<Rightarrow> reply env s i r 461 ''Unsupported Transport'' [] [] w
      | Some p \<Rightarrow>
          let s = (if owns s i
                   then s\<lparr>stream := (stream s)\<lparr>timing_peer := (peer (client s i))\<lparr>port := ucast p\<rparr>,
                                   generation := generation (stream s) + 1\<rparr>\<rparr>
                   else s) in
          reply env s i r 200 ''OK'' transport_headers [] w)"

definition airplay_rtsp_get_parameter :: "'w env \<Rightarrow> rtsp_instance \<Rightarrow> nat \<Rightarrow> rtsp_request \<Rightarrow> 'w \<Rightarrow> 'w handled" where
  "airplay_rtsp_get_parameter env s i r w =
     reply env s i r 200 ''OK'' (lit ''Content-Type: text/parameters'' @ crlf_text)
       (if request_body_contains_key r (lit ''volume'')
        then take 63 (show_volume env (volume_db (stream s)) @ crlf_text) else []) w"

definition airplay_rtsp_set_parameter :: "'w env \<Rightarrow> rtsp_instance \<Rightarrow> nat \<Rightarrow> rtsp_request \<Rightarrow> 'w \<Rightarrow> 'w handled" where
  "airplay_rtsp_set_parameter env s i r w =
     (let s =
        (case get_header_value r ''Content-Type'' of
           None \<Rightarrow> s
         | Some t \<Rightarrow>
             if strstr t (lit ''text/parameters'') = None then s
             else
               (case parse_body_volume_db env r of
                  None \<Rightarrow> s
                | Some v \<Rightarrow> s\<lparr>stream := (stream s)\<lparr>volume_db := v\<rparr>\<rparr>)) in
      accept_request env s i r w)"

definition airplay_rtsp_flush :: "'w env \<Rightarrow> rtsp_instance \<Rightarrow> nat \<Rightarrow> rtsp_request \<Rightarrow> 'w \<Rightarrow> 'w handled" where
  "airplay_rtsp_flush env s i r w =
     (let flush = (\<lambda>has timestamp.
        (if owns s i
         then s\<lparr>stream := (stream s)\<lparr>flush_generation := flush_generation (stream s) + 1,
                         has_timestamp_floor := has, timestamp_floor := timestamp,
                         floor_exclusive := True\<rparr>\<rparr>
         else s)) in
      case parameter_u32 (get_header_value r ''RTP-Info'') ''rtptime'' of
        Bad_Parameter \<Rightarrow> bad_request env s i r w
      | No_Parameter \<Rightarrow> accept_request env (flush False 0) i r w
      | Parameter t \<Rightarrow> accept_request env (flush True t) i r w)"

definition airplay_rtsp_flushbuffered :: "'w env \<Rightarrow> rtsp_instance \<Rightarrow> nat \<Rightarrow> rtsp_request \<Rightarrow> 'w \<Rightarrow> 'w handled" where
  "airplay_rtsp_flushbuffered env s i r w = airplay_rtsp_flush env s i r w"

definition airplay_rtsp_teardown :: "'w env \<Rightarrow> rtsp_instance \<Rightarrow> nat \<Rightarrow> rtsp_request \<Rightarrow> 'w \<Rightarrow> 'w handled" where
  "airplay_rtsp_teardown env s i r w =
     accept_request env (if owns s i then release_stream s else s) i r w"

definition airplay_rtsp_pause :: "'w env \<Rightarrow> rtsp_instance \<Rightarrow> nat \<Rightarrow> rtsp_request \<Rightarrow> 'w \<Rightarrow> 'w handled" where
  "airplay_rtsp_pause env s i r w =
     accept_request env
       (if owns s i then s\<lparr>stream := (stream s)\<lparr>recording := False\<rparr>\<rparr> else s) i r w"

definition record_stream :: "rtsp_instance \<Rightarrow> parameter \<Rightarrow> rtsp_instance" where
  "record_stream s p =
     (let s = s\<lparr>stream := (stream s)\<lparr>recording := True\<rparr>\<rparr> in
      case p of
        Parameter t \<Rightarrow>
          s\<lparr>stream := (stream s)\<lparr>has_timestamp_floor := True, timestamp_floor := t,
                       floor_exclusive := False\<rparr>\<rparr>
      | _ \<Rightarrow> s)"

definition airplay_rtsp_record :: "'w env \<Rightarrow> rtsp_instance \<Rightarrow> nat \<Rightarrow> rtsp_request \<Rightarrow> 'w \<Rightarrow> 'w handled" where
  "airplay_rtsp_record env s i r w =
     (let p = parameter_u32 (get_header_value r ''RTP-Info'') ''rtptime'' in
      if p = Bad_Parameter then bad_request env s i r w
      else if has_session (stream s) \<and> owns s i then
        reply env (record_stream s p) i r 200 ''OK''
          (lit ''Session: 00000001'' @ crlf_text @ lit ''Audio-Latency: 2205'' @ crlf_text) [] w
      else reply env s i r 455 ''Method Not Valid in This State'' [] [] w)"

definition airplay_rtsp_play :: "'w env \<Rightarrow> rtsp_instance \<Rightarrow> nat \<Rightarrow> rtsp_request \<Rightarrow> 'w \<Rightarrow> 'w handled" where
  "airplay_rtsp_play env s i r w =
     (case get_header_value r ''Session'' of
        None \<Rightarrow> accept_request env s i r w
      | Some t \<Rightarrow>
          if t = [] then accept_request env s i r w
          else reply env s i r 200 ''OK'' (take 287 (lit ''Session: '' @ t @ crlf_text)) [] w)"

end
