(* ===== verification/Airplay2.thy ===== *)
theory Airplay2
  imports Airplay_Rtsp Bplist
begin

section \<open>AirPlay 2 requests: \<open>src/shared/airplay/airplay2.c\<close>\<close>

text \<open>
  The handlers, as in \<open>Airplay_Rtsp\<close>.  Property lists are read and written with the definitions
  of \<open>Bplist\<close>, whose checked accesses make a handler's result an option.  The response buffers,
  which the code leaves uninitialised, start as zeros: only bytes written by the writer are sent.
\<close>

subsection \<open>Property lists\<close>

definition plist_header :: buf where
  "plist_header = lit ''Content-Type: application/x-apple-binary-plist'' @ crlf_text"

definition plist_response ::
  "'w env \<Rightarrow> rtsp_instance \<Rightarrow> nat \<Rightarrow> rtsp_request \<Rightarrow> bplist_writer \<Rightarrow> u32 \<Rightarrow> 'w \<Rightarrow> 'w handled option" where
  "plist_response env s i r bw rt w = do {
     (size, bw) \<leftarrow> bplist_finish bw rt;
     Some (if size = 0 then reply env s i r 500 ''Internal Server Error'' [] [] w
           else reply env s i r 200 ''OK'' plist_header (take size (w_data bw)) w) }"

type_synonym writing = "bplist_writer \<times> (u32 \<times> u32) list"

definition add_int :: "string \<Rightarrow> u64 \<Rightarrow> writing \<Rightarrow> writing option" where
  "add_int key val x = do {
     (k, bw) \<leftarrow> bplist_add_string (fst x) (lit key);
     (v, bw) \<leftarrow> bplist_add_uint bw val;
     Some (bw, snd x @ [(k, v)]) }"

definition add_text :: "string \<Rightarrow> buf \<Rightarrow> writing \<Rightarrow> writing option" where
  "add_text key val x = do {
     (k, bw) \<leftarrow> bplist_add_string (fst x) (lit key);
     (v, bw) \<leftarrow> bplist_add_string bw val;
     Some (bw, snd x @ [(k, v)]) }"

definition number :: "bplist \<Rightarrow> u32 \<Rightarrow> string \<Rightarrow> u64 \<Rightarrow> u64 option" where
  "number p dict key fallback = do {
     ref \<leftarrow> bplist_get p dict (lit key);
     v \<leftarrow> bplist_uint p ref;
     Some (case v of Inl _ \<Rightarrow> fallback | Inr n \<Rightarrow> n) }"

text \<open>\<open>bplist_uint(p, bplist_get(p, p->root, key), &v)\<close> and the same for the bytes of an item.\<close>

definition root_uint :: "bplist \<Rightarrow> string \<Rightarrow> u64 ret option" where
  "root_uint p key = do { ref \<leftarrow> bplist_get p (root p) (lit key); bplist_uint p ref }"

definition item_bytes_of :: "bplist \<Rightarrow> u32 \<Rightarrow> string \<Rightarrow> buf ret option" where
  "item_bytes_of p dict key = do { ref \<leftarrow> bplist_get p dict (lit key); bplist_bytes p ref }"

text \<open>The body of a request on a paired connection, or the response to anything else.\<close>

definition with_plist ::
  "'w env \<Rightarrow> rtsp_instance \<Rightarrow> nat \<Rightarrow> rtsp_request \<Rightarrow> 'w \<Rightarrow> (bplist \<Rightarrow> 'w handled option) \<Rightarrow> 'w handled option" where
  "with_plist env s i r w f =
     (if \<not> encrypted (client s i) then
        Some (reply env s i r 470 ''Connection Authorization Required'' [] [] w)
      else do {
        p \<leftarrow> bplist_open (req_body r);
        (case p of Inl _ \<Rightarrow> Some (bad_request env s i r w) | Inr p \<Rightarrow> f p) })"

subsection \<open>Information\<close>

definition mac_pair :: "buf \<Rightarrow> nat \<Rightarrow> buf" where
  "mac_pair mac k = take 2 (drop (2 * k) mac)"

definition device_id :: "buf \<Rightarrow> buf" where
  "device_id mac = mac_pair mac 0 @ lit '':'' @ mac_pair mac 1 @ lit '':'' @ mac_pair mac 2 @ lit '':'' @
     mac_pair mac 3 @ lit '':'' @ mac_pair mac 4 @ lit '':'' @ mac_pair mac 5"

definition audio_format :: "u64 \<Rightarrow> bplist_writer \<Rightarrow> (u32 \<times> bplist_writer) option" where
  "audio_format type bw = do {
     x \<leftarrow> add_int ''type'' type (bw, []);
     x \<leftarrow> add_int ''audioInputFormats'' 0x01000000 x;
     x \<leftarrow> add_int ''audioOutputFormats'' 0x01000000 x;
     bplist_add_dict (fst x) (snd x) }"

definition airplay2_info ::
  "'w env \<Rightarrow> rtsp_instance \<Rightarrow> nat \<Rightarrow> rtsp_request \<Rightarrow> 'w \<Rightarrow> 'w handled option" where
  "airplay2_info env s i r w = do {
     bw \<leftarrow> bplist_writer_init (replicate 2048 0);
     x \<leftarrow> add_text ''deviceid'' (device_id (local_mac_hex s)) (bw, []);
     x \<leftarrow> add_text ''name'' (if device_name s \<noteq> [] then device_name s else lit ''TestSpeaker'') x;
     x \<leftarrow> add_text ''model'' (lit ''PortableSpeaker'') x;
     x \<leftarrow> add_text ''protovers'' (lit ''1.1'') x;
     x \<leftarrow> add_text ''srcvers'' (lit ''377.40.00'') x;
     x \<leftarrow> add_int ''vv'' 2 x;
     x \<leftarrow> add_int ''statusFlags'' 4 x;
     x \<leftarrow> add_int ''features'' (push_bit 32 0x18340 OR 0x405C4A00) x;
     (f0, bw) \<leftarrow> audio_format 96 (fst x);
     (f1, bw) \<leftarrow> audio_format 103 bw;
     (k, bw) \<leftarrow> bplist_add_string bw (lit ''audioFormats'');
     (v, bw) \<leftarrow> bplist_add_array bw [f0, f1];
     (rt, bw) \<leftarrow> bplist_add_dict bw (snd x @ [(k, v)]);
     plist_response env s i r bw rt w }"

subsection \<open>Stream setup\<close>

text \<open>The key of a stream: given, or sealed under the pairing's shared secret.\<close>

definition stream_key :: "'w env \<Rightarrow> bplist \<Rightarrow> u32 \<Rightarrow> pairing \<Rightarrow> buf ret option" where
  "stream_key env p st q = do {
     shk \<leftarrow> item_bytes_of p st ''shk'';
     (case shk of
        Inr data \<Rightarrow> if length data \<noteq> 32 then fail else ok data
      | Inl _ \<Rightarrow> do {
          ekey \<leftarrow> item_bytes_of p st ''ekey'';
          (case ekey of
             Inl _ \<Rightarrow> fail
           | Inr data \<Rightarrow>
               if length data \<noteq> 48 then fail
               else
                 (case unseal (pair_primitives env) (shared_secret q) (replicate 12 0) [] (drop 32 data)
                         (take 32 data) of
                    None \<Rightarrow> fail
                  | Some key \<Rightarrow> ok key)) }) }"

text \<open>The first SETUP, which asks for PTP timing and gets the event channel.\<close>

definition setup_session ::
  "'w env \<Rightarrow> rtsp_instance \<Rightarrow> nat \<Rightarrow> rtsp_request \<Rightarrow> bplist \<Rightarrow> bplist_writer \<Rightarrow> 'w \<Rightarrow> 'w handled option" where
  "setup_session env s i r p bw w = do {
     timing \<leftarrow> item_bytes_of p (root p) ''timingProtocol'';
     if timing \<noteq> Inr (lit ''PTP'') then Some (reply env s i r 461 ''Unsupported Transport'' [] [] w)
     else
       let c = client s i;
           (listening, s, w) =
             (if handle (event_listener c) \<noteq> None then (True, s, w)
              else
                (case listen_on env (local_ip s) 0 w of
                   (None, w) \<Rightarrow> (False, set_client s i (c\<lparr>event_listener := closed_socket\<rparr>), w)
                 | (Some l, w) \<Rightarrow> (True, set_client s i (c\<lparr>event_listener := l\<rparr>), w))) in
       if \<not> listening then Some (reply env s i r 500 ''Internal Server Error'' [] [] w)
       else do {
         x \<leftarrow> add_int ''eventPort'' (ucast (socket_port (event_listener (client s i)))) (bw, []);
         x \<leftarrow> add_int ''timingPort'' 0 x;
         (rt, bw) \<leftarrow> bplist_add_dict (fst x) (snd x);
         plist_response env s i r bw rt w } }"

text \<open>The session that a stream's parameters describe.\<close>

definition media_supported :: "u64 \<Rightarrow> u64 \<Rightarrow> u64 \<Rightarrow> u64 \<Rightarrow> bool" where
  "media_supported type ct rate frames \<longleftrightarrow>
     (type = 96 \<or> type = 103) \<and> (ct = 2 \<or> ct = 4) \<and> (rate = 44100 \<or> rate = 48000) \<and>
     (if ct = 2 then frames \<noteq> 0 \<and> frames \<le> 352 else frames = 1024)"

definition stream_session :: "u64 \<Rightarrow> u64 \<Rightarrow> u64 \<Rightarrow> u64 \<Rightarrow> u64 \<Rightarrow> buf \<Rightarrow> sdp_session" where
  "stream_session type ct rate frames latency key =
     (let s = session_zero\<lparr>stream_type := ucast type,
                codec := (if ct = 2 then CODEC_ALAC else CODEC_AAC), session_rate := ucast rate,
                session_channels := 2, bits_per_sample := 16, frames_per_packet := ucast frames,
                session_payload_type := 96, audio_key := key,
                latency_frames := (if type = 96 then ucast latency else 0)\<rparr>;
          index = (if rate = 44100 then 4 else 3) :: u32 in
      if ct = 4 then
        s\<lparr>aac_config := [ucast (0x10 OR drop_bit 1 index), ucast (push_bit 7 (index AND 1) OR 0x10)] @
                        drop 2 (aac_config s),
          aac_config_len := 2\<rparr>
      else s)"

text \<open>The part of SETUP under the lock.\<close>

definition setup_stream :: "rtsp_instance \<Rightarrow> nat \<Rightarrow> sdp_session \<Rightarrow> rtsp_instance" where
  "setup_stream s i ses =
     s\<lparr>stream := (stream s)\<lparr>session := ses, has_session := True, recording := True,
                  has_timestamp_floor := False, has_buffered_flush_sequence := False,
                  timing_peer := (peer (client s i))\<lparr>port := 0\<rparr>, anchor := anchor_zero,
                  generation := generation (stream s) + 1\<rparr>,
       stream_owner := Some i\<rparr>"

definition setup_reply ::
  "'w env \<Rightarrow> rtsp_instance \<Rightarrow> nat \<Rightarrow> rtsp_request \<Rightarrow> u64 \<Rightarrow> bplist_writer \<Rightarrow> 'w \<Rightarrow> 'w handled option" where
  "setup_reply env s i r type bw w = do {
     x \<leftarrow> add_int ''type'' type (bw, []);
     x \<leftarrow> add_int ''dataPort'' 6000 x;
     x \<leftarrow> add_int ''controlPort'' 6001 x;
     x \<leftarrow> (if type = 103 then add_int ''audioBufferSize'' 753664 x else Some x);
     (d, bw) \<leftarrow> bplist_add_dict (fst x) (snd x);
     (array, bw) \<leftarrow> bplist_add_array bw [d];
     (k, bw) \<leftarrow> bplist_add_string bw (lit ''streams'');
     (rt, bw) \<leftarrow> bplist_add_dict bw [(k, array)];
     plist_response env s i r bw rt w }"

definition setup_plist ::
  "'w env \<Rightarrow> rtsp_instance \<Rightarrow> nat \<Rightarrow> rtsp_request \<Rightarrow> 'w \<Rightarrow> bplist \<Rightarrow> 'w handled option" where
  "setup_plist env s i r w p = do {
     bw \<leftarrow> bplist_writer_init (replicate 512 0);
     streams \<leftarrow> bplist_get p (root p) (lit ''streams'');
     if streams = BPLIST_NONE then setup_session env s i r p bw w
     else do {
       n \<leftarrow> bplist_children p streams;
       if n \<noteq> 1 then Some (bad_request env s i r w)
       else do {
         st \<leftarrow> bplist_at p streams 0;
         type \<leftarrow> number p st ''type'' 0;
         ct \<leftarrow> number p st ''ct'' 0;
         rate \<leftarrow> number p st ''sr'' 44100;
         frames \<leftarrow> number p st ''spf'' (if ct = 2 then 352 else 1024);
         if \<not> media_supported type ct rate frames
         then Some (reply env s i r 415 ''Unsupported Media Type'' [] [] w)
         else do {
           latency \<leftarrow> number p st ''latencyMin'' 11025;
           if latency > rate * 5 then Some (bad_request env s i r w)
           else do {
             key \<leftarrow> stream_key env p st (pairing_state (client s i));
             (case key of
                Inl _ \<Rightarrow> Some (bad_request env s i r w)
              | Inr key \<Rightarrow>
                  setup_reply env (setup_stream s i (stream_session type ct rate frames latency key))
                    i r type bw w) } } } } }"

definition airplay2_setup ::
  "'w env \<Rightarrow> rtsp_instance \<Rightarrow> nat \<Rightarrow> rtsp_request \<Rightarrow> 'w \<Rightarrow> 'w handled option" where
  "airplay2_setup env s i r w = with_plist env s i r w (setup_plist env s i r w)"

subsection \<open>Anchors\<close>

text \<open>The rates the code accepts, 0 and 1, as doubles.\<close>

definition rate_value :: "real_bits \<Rightarrow> bool option" where
  "rate_value x =
     (case x of
        FromUint v \<Rightarrow> if v = 0 then Some False else if v = 1 then Some True else None
      | FromDouble b \<Rightarrow>
          if b AND 0x7FFFFFFFFFFFFFFF = 0 then Some False
          else if b = 0x3FF0000000000000 then Some True else None
      | FromFloat b \<Rightarrow>
          if b AND 0x7FFFFFFF = 0 then Some False else if b = 0x3F800000 then Some True else None)"

text \<open>The anchor of a request to play; a failure is the answer 400.\<close>

definition read_anchor :: "bplist \<Rightarrow> airplay_anchor ret option" where
  "read_anchor p =
     on_ok (root_uint p ''networkTimeSecs'') (\<lambda>sec.
     on_ok (root_uint p ''networkTimeFrac'') (\<lambda>frac.
     on_ok (root_uint p ''rtpTime'') (\<lambda>rtp.
       if rtp > 0xFFFFFFFF then fail
       else on_ok (root_uint p ''networkTimeTimelineID'') (\<lambda>clk.
         if sec > 9223372036854 then fail
         else ok \<lparr>anchor_clock_id = clk,
                  network_us = sec * 1000000 + drop_bit 32 (drop_bit 32 frac * 1000000),
                  rtp_time = ucast rtp, anchor_valid = True, anchor_playing = True\<rparr>))))"

definition place_anchor ::
  "'w env \<Rightarrow> rtsp_instance \<Rightarrow> nat \<Rightarrow> rtsp_request \<Rightarrow> airplay_anchor option \<Rightarrow> 'w \<Rightarrow> 'w handled" where
  "place_anchor env s i r a w =
     (if \<not> owns s i then reply env s i r 455 ''Invalid State'' [] [] w
      else
        accept_request env
          (s\<lparr>stream := (stream s)\<lparr>anchor :=
               (case a of Some a \<Rightarrow> a | None \<Rightarrow> (anchor (stream s))\<lparr>anchor_playing := False\<rparr>)\<rparr>\<rparr>) i r w)"

definition set_anchor ::
  "'w env \<Rightarrow> rtsp_instance \<Rightarrow> nat \<Rightarrow> rtsp_request \<Rightarrow> 'w \<Rightarrow> bplist \<Rightarrow> 'w handled option" where
  "set_anchor env s i r w p = do {
     ref \<leftarrow> bplist_get p (root p) (lit ''rate'');
     rate \<leftarrow> bplist_real p ref;
     (case (case rate of Inl _ \<Rightarrow> None | Inr x \<Rightarrow> rate_value x) of
        None \<Rightarrow> Some (bad_request env s i r w)
      | Some False \<Rightarrow> Some (place_anchor env s i r None w)
      | Some True \<Rightarrow> do {
          a \<leftarrow> read_anchor p;
          Some (case a of
              Inl _ \<Rightarrow> bad_request env s i r w
            | Inr a \<Rightarrow> place_anchor env s i r (Some a) w) }) }"

definition airplay2_set_rate_anchor_time ::
  "'w env \<Rightarrow> rtsp_instance \<Rightarrow> nat \<Rightarrow> rtsp_request \<Rightarrow> 'w \<Rightarrow> 'w handled option" where
  "airplay2_set_rate_anchor_time env s i r w = with_plist env s i r w (set_anchor env s i r w)"

subsection \<open>The other handlers\<close>

definition airplay2_record :: "'w env \<Rightarrow> rtsp_instance \<Rightarrow> nat \<Rightarrow> rtsp_request \<Rightarrow> 'w \<Rightarrow> 'w handled" where
  "airplay2_record env s i r w =
     (let occupied = (stream_owner s \<noteq> None \<and> \<not> owns s i);
          s = (if owns s i \<and> has_session (stream s)
               then s\<lparr>stream := (stream s)\<lparr>recording := True\<rparr>\<rparr> else s) in
      if occupied then reply env s i r 453 ''Not Enough Bandwidth'' [] [] w
      else
        reply env s i r 200 ''OK''
          (lit ''Audio-Latency: 0'' @ crlf_text @ lit ''Audio-Jack-Status: connected'' @ crlf_text) [] w)"

definition octet_header :: buf where
  "octet_header = lit ''Content-Type: application/octet-stream'' @ crlf_text"

definition airplay2_fairplay_setup ::
  "'w env \<Rightarrow> rtsp_instance \<Rightarrow> nat \<Rightarrow> rtsp_request \<Rightarrow> 'w \<Rightarrow> 'w handled option" where
  "airplay2_fairplay_setup env s i r w = do {
     (response, stage) \<leftarrow> fairplay_setup (fairplay_stage (client s i)) (req_body r) fairplay_response_max;
     let s = set_client s i ((client s i)\<lparr>fairplay_stage := stage\<rparr>);
     Some (case response of
         Inl _ \<Rightarrow> bad_request env s i r w
       | Inr response \<Rightarrow> reply env s i r 200 ''OK'' octet_header response w) }"

definition airplay2_pair_setup ::
  "'w env \<Rightarrow> rtsp_instance \<Rightarrow> nat \<Rightarrow> rtsp_request \<Rightarrow> 'w \<Rightarrow> 'w handled option" where
  "airplay2_pair_setup env s i r w =
     (let ((mem_ok, rnd), w) = entropy env w in do {
        (response, q) \<leftarrow> pairing_setup (pair_primitives env) mem_ok rnd (pairing_state (client s i)) (req_body r)
                         (replicate 512 0);
        let s = set_client s i ((client s i)\<lparr>pairing_state := q\<rparr>);
        Some (case response of
            Inl _ \<Rightarrow> bad_request env s i r w
          | Inr (out, n) \<Rightarrow>
              let (sent, s, w) = reply env s i r 200 ''OK'' octet_header (take n out) w in
              if sent \<and> established (pairing_state (client s i))
              then (sent, set_client s i ((client s i)\<lparr>encrypted := True\<rparr>), w)
              else (sent, s, w)) })"

definition flush_buffered :: "rtsp_instance \<Rightarrow> u64 \<Rightarrow> rtsp_instance" where
  "flush_buffered s until_sequence =
     s\<lparr>stream := (stream s)\<lparr>buffered_flush_sequence := ucast until_sequence,
                  has_buffered_flush_sequence := True, has_timestamp_floor := False,
                  anchor := (anchor (stream s))\<lparr>anchor_playing := False\<rparr>,
                  flush_generation := flush_generation (stream s) + 1\<rparr>\<rparr>"

definition airplay2_flush_buffered ::
  "'w env \<Rightarrow> rtsp_instance \<Rightarrow> nat \<Rightarrow> rtsp_request \<Rightarrow> 'w \<Rightarrow> 'w handled option" where
  "airplay2_flush_buffered env s i r w =
     with_plist env s i r w (\<lambda>p. do {
       x \<leftarrow> on_ok (root_uint p ''flushUntilTS'') (\<lambda>until.
            if until > 0xFFFFFFFF then fail
            else on_ok (root_uint p ''flushUntilSeq'') (\<lambda>until_sequence.
              if until_sequence > 0xFFFFFF then fail else ok until_sequence));
       Some (case x of
           Inl _ \<Rightarrow> bad_request env s i r w
         | Inr until_sequence \<Rightarrow>
             accept_request env (if owns s i then flush_buffered s until_sequence else s) i r w) })"

definition airplay2_feedback ::
  "'w env \<Rightarrow> rtsp_instance \<Rightarrow> nat \<Rightarrow> rtsp_request \<Rightarrow> 'w \<Rightarrow> 'w handled option" where
  "airplay2_feedback env s i r w =
     (if \<not> encrypted (client s i) then
        Some (reply env s i r 470 ''Connection Authorization Required'' [] [] w)
      else do {
        let st = rtsp_get_stream_state s;
        bw \<leftarrow> bplist_writer_init (replicate 256 0);
        x \<leftarrow> add_int ''type'' (ucast (stream_type (session st))) (bw, []);
        x \<leftarrow> add_int ''sr'' (ucast (session_rate (session st))) x;
        (d, bw) \<leftarrow> bplist_add_dict (fst x) (snd x);
        (array, bw) \<leftarrow> bplist_add_array bw [d];
        (k, bw) \<leftarrow> bplist_add_string bw (lit ''streams'');
        (rt, bw) \<leftarrow> bplist_add_dict bw [(k, array)];
        plist_response env s i r bw rt w })"

definition airplay2_acknowledge :: "'w env \<Rightarrow> rtsp_instance \<Rightarrow> nat \<Rightarrow> rtsp_request \<Rightarrow> 'w \<Rightarrow> 'w handled" where
  "airplay2_acknowledge env s i r w =
     (if \<not> encrypted (client s i) then
        reply env s i r 470 ''Connection Authorization Required'' [] [] w
      else accept_request env s i r w)"

end
