(* ===== verification/Rtsp_Server.thy ===== *)
theory Rtsp_Server
  imports Airplay2
begin

section \<open>The RTSP server: dispatch and polling\<close>

text \<open>
  \<open>handle_request\<close>, \<open>rtsp_server_poll\<close> and \<open>rtsp_server_close\<close> of \<open>src/shared/protocol/rtsp.c\<close>.  A
  poll waits for the sockets, serves each client in turn and accepts at most one connection.
  Results are true where the code returns 0 and false where it returns -1.
\<close>

definition binary_plist :: "rtsp_request \<Rightarrow> bool" where
  "binary_plist r \<longleftrightarrow> length (req_body r) \<ge> 8 \<and> take 8 (req_body r) = lit ''bplist00''"

definition handle_post ::
  "'w env \<Rightarrow> rtsp_instance \<Rightarrow> nat \<Rightarrow> rtsp_request \<Rightarrow> 'w \<Rightarrow> 'w handled option" where
  "handle_post env s i r w =
     (if uri r = lit ''/pair-setup'' then airplay2_pair_setup env s i r w
      else if uri r = lit ''/fp-setup'' then airplay2_fairplay_setup env s i r w
      else if uri r = lit ''/feedback'' then airplay2_feedback env s i r w
      else if uri r = lit ''/audioMode'' \<or> uri r = lit ''/command'' then Some (airplay2_acknowledge env s i r w)
      else Some (airplay_rtsp_post env s i r w))"

definition handle_request ::
  "'w env \<Rightarrow> rtsp_instance \<Rightarrow> nat \<Rightarrow> rtsp_request \<Rightarrow> 'w \<Rightarrow> 'w handled option" where
  "handle_request env s i r w =
     (let s = set_client s i ((client s i)\<lparr>http := (rtsp_request.version r = lit ''HTTP/1.1'')\<rparr>);
          unsupported = Some (reply env s i r 501 ''Not Implemented'' [] [] w) in
      case rmethod r of
        METHOD_GET \<Rightarrow> if uri r = lit ''/info'' then airplay2_info env s i r w else unsupported
      | METHOD_POST \<Rightarrow> handle_post env s i r w
      | METHOD_OPTIONS \<Rightarrow> Some (airplay_rtsp_options env s i r w)
      | METHOD_DESCRIBE \<Rightarrow> Some (airplay_rtsp_describe env s i r w)
      | METHOD_ANNOUNCE \<Rightarrow> airplay_rtsp_announce env s i r w
      | METHOD_SETUP \<Rightarrow>
          if binary_plist r then airplay2_setup env s i r w else Some (airplay_rtsp_setup env s i r w)
      | METHOD_GET_PARAMETER \<Rightarrow> Some (airplay_rtsp_get_parameter env s i r w)
      | METHOD_SET_PARAMETER \<Rightarrow> Some (airplay_rtsp_set_parameter env s i r w)
      | METHOD_FLUSH \<Rightarrow> Some (airplay_rtsp_flush env s i r w)
      | METHOD_FLUSHBUFFERED \<Rightarrow>
          if binary_plist r then airplay2_flush_buffered env s i r w
          else Some (airplay_rtsp_flushbuffered env s i r w)
      | METHOD_TEARDOWN \<Rightarrow> Some (airplay_rtsp_teardown env s i r w)
      | METHOD_PAUSE \<Rightarrow> Some (airplay_rtsp_pause env s i r w)
      | METHOD_RECORD \<Rightarrow>
          if encrypted (client s i) \<and> handle (event_listener (client s i)) \<noteq> None
          then Some (airplay2_record env s i r w) else Some (airplay_rtsp_record env s i r w)
      | METHOD_PLAY \<Rightarrow> Some (airplay_rtsp_play env s i r w)
      | METHOD_SETPEERS \<Rightarrow> Some (airplay2_acknowledge env s i r w)
      | METHOD_SETRATEANCHORTIME \<Rightarrow> airplay2_set_rate_anchor_time env s i r w
      | METHOD_UNKNOWN \<Rightarrow> unsupported)"

text \<open>
  The loop over the buffered requests of client \<open>i\<close>.  The bytes are an argument beside the buffer
  of the instance, which follows them.
\<close>

function serve ::
  "'w env \<Rightarrow> rtsp_instance \<Rightarrow> nat \<Rightarrow> buf \<Rightarrow> 'w \<Rightarrow> (rtsp_instance \<times> 'w) option" where
  "serve env s i b w =
     (if b = [] then Some (s, w)
      else
        (case parse_request b of
           None \<Rightarrow> None
         | Some Incomplete \<Rightarrow> Some (s, w)
         | Some Invalid \<Rightarrow>
             let (sent, c, w) = rtsp_send_response env (client s i) 400 (lit ''Bad Request'') 0 [] [] w in
             Some (close_client env (set_client s i c) i w)
         | Some (Parsed r consumed) \<Rightarrow> do {
             let was_encrypted = encrypted (client s i);
             (handled, s, w) \<leftarrow> handle_request env s i r w;
             if \<not> handled then Some (close_client env s i w)
             else
               let b = drop consumed b; s = s\<lparr>rx := (rx s)[i := b]\<rparr> in
               if \<not> was_encrypted \<and> encrypted (client s i) \<and> b \<noteq> [] then Some (close_client env s i w)
               else serve env s i b w }))"
  by pat_completeness auto
termination
  by (relation "measure (\<lambda>(env, s, i, b, w). length b)") (auto dest: parsed_consumes)

declare serve.simps [simp del]

text \<open>The event channel of client \<open>i\<close>: a connection of its own peer replaces the previous one.\<close>

definition poll_event_listener ::
  "'w env \<Rightarrow> rtsp_instance \<Rightarrow> nat \<Rightarrow> 'w \<Rightarrow> rtsp_instance \<times> 'w" where
  "poll_event_listener env s i w =
     (let c = client s i in
      case accept_on env (event_listener c) w of
        (Accepted event from, w) \<Rightarrow>
          if ip from \<noteq> ip (peer c) then (s, close_socket env event w)
          else (set_client s i (c\<lparr>event_client := event\<rparr>), close_socket env (event_client c) w)
      | (_, w) \<Rightarrow> (s, w))"

definition poll_event_client ::
  "'w env \<Rightarrow> rtsp_instance \<Rightarrow> nat \<Rightarrow> 'w \<Rightarrow> rtsp_instance \<times> 'w" where
  "poll_event_client env s i w =
     (let c = client s i in
      case receive_from env (event_client c) 1024 w of
        (Receive_Timeout, w) \<Rightarrow> (s, w)
      | (Receive_Error, w) \<Rightarrow>
          (set_client s i (c\<lparr>event_client := closed_socket\<rparr>), close_socket env (event_client c) w)
      | (Received bytes, w) \<Rightarrow>
          if bytes = [] then
            (set_client s i (c\<lparr>event_client := closed_socket\<rparr>), close_socket env (event_client c) w)
          else (s, w))"

definition poll_requests ::
  "'w env \<Rightarrow> rtsp_instance \<Rightarrow> nat \<Rightarrow> 'w \<Rightarrow> (rtsp_instance \<times> 'w) option" where
  "poll_requests env s i w = do {
     (received, c, w) \<leftarrow> receive_client env (client s i) (rtsp_rx_buffer_size - length (rx s ! i)) w;
     let s = set_client s i c;
     (case received of
        Receive_Timeout \<Rightarrow> Some (s, w)
      | Receive_Error \<Rightarrow> Some (close_client env s i w)
      | Received bytes \<Rightarrow>
          if bytes = [] then Some (close_client env s i w)
          else
            let b = rx s ! i @ bytes in
            serve env (s\<lparr>rx := (rx s)[i := b]\<rparr>) i b w) }"

definition flagged :: "bool list \<Rightarrow> nat \<Rightarrow> bool" where
  "flagged flags j \<longleftrightarrow> j < length flags \<and> flags ! j"

definition poll_client ::
  "'w env \<Rightarrow> bool list \<Rightarrow> rtsp_instance \<Rightarrow> nat \<Rightarrow> 'w \<Rightarrow> (rtsp_instance \<times> 'w) option" where
  "poll_client env flags s i w =
     (let (s, w) = (if flagged flags (1 + rtsp_max_clients + i * 2) then poll_event_listener env s i w else (s, w));
          (s, w) = (if flagged flags (2 + rtsp_max_clients + i * 2) then poll_event_client env s i w else (s, w)) in
      if flagged flags (i + 1) then poll_requests env s i w else Some (s, w))"

fun poll_clients ::
  "'w env \<Rightarrow> bool list \<Rightarrow> nat list \<Rightarrow> rtsp_instance \<Rightarrow> 'w \<Rightarrow> (rtsp_instance \<times> 'w) option" where
  "poll_clients env flags [] s w = Some (s, w)"
| "poll_clients env flags (i # is) s w = do {
     (s, w) \<leftarrow> poll_client env flags s i w;
     poll_clients env flags is s w }"

text \<open>A new connection takes the first free slot.\<close>

definition poll_accept :: "'w env \<Rightarrow> rtsp_instance \<Rightarrow> 'w \<Rightarrow> bool \<times> rtsp_instance \<times> 'w" where
  "poll_accept env s w =
     (case accept_on env (listener s) w of
        (Accept_Timeout, w) \<Rightarrow> (True, s, w)
      | (Accept_Error, w) \<Rightarrow> (False, s, w)
      | (Accepted so from, w) \<Rightarrow>
          (case find (\<lambda>i. handle (socket (client s i)) = None) [0..<rtsp_max_clients] of
             Some i \<Rightarrow>
               (True, (set_client s i (client_zero\<lparr>socket := so, peer := from\<rparr>))\<lparr>rx := (rx s)[i := []]\<rparr>, w)
           | None \<Rightarrow> (True, s, close_socket env so w)))"

definition poll_sockets :: "rtsp_instance \<Rightarrow> net_socket list" where
  "poll_sockets s =
     listener s # map socket (clients s) @ concat (map (\<lambda>c. [event_listener c, event_client c]) (clients s))"

definition rtsp_server_poll ::
  "'w env \<Rightarrow> rtsp_instance \<Rightarrow> int \<Rightarrow> 'w \<Rightarrow> 'w handled option" where
  "rtsp_server_poll env s timeout_ms w =
     (if handle (listener s) = None then Some (False, s, w)
      else
        (case wait_ready env (poll_sockets s) timeout_ms w of
           (None, w) \<Rightarrow> Some (False, s, w)
         | (Some flags, w) \<Rightarrow>
             if True \<notin> set flags then Some (True, s, w)
             else do {
               (s, w) \<leftarrow> poll_clients env flags [0..<rtsp_max_clients] s w;
               Some (if flagged flags 0 then poll_accept env s w else (True, s, w)) }))"

fun close_clients :: "'w env \<Rightarrow> nat list \<Rightarrow> rtsp_instance \<Rightarrow> 'w \<Rightarrow> rtsp_instance \<times> 'w" where
  "close_clients env [] s w = (s, w)"
| "close_clients env (i # is) s w =
     (let (s, w) = close_client env s i w in close_clients env is s w)"

definition rtsp_server_close :: "'w env \<Rightarrow> rtsp_instance \<Rightarrow> 'w \<Rightarrow> rtsp_instance \<times> 'w" where
  "rtsp_server_close env s w =
     (let (s, w) = close_clients env [0..<rtsp_max_clients] s w in
      (s\<lparr>listener := closed_socket\<rparr>, close_socket env (listener s) w))"

end
