(* ===== verification/Rtsp_Ownership.thy ===== *)
theory Rtsp_Ownership
  imports Rtsp_Server Bplist_Writer
begin

section \<open>Stream ownership\<close>

text \<open>
  An abstract machine of who owns the audio stream and what may happen to it, as an inductive step
  relation, and the proof that every request that the server handles is one of its steps, changes no
  other connection, and reaches no undefined behaviour.
\<close>

subsection \<open>The abstract machine\<close>

text \<open>
  A state is the owner, if any, and the stream.  \<open>stream_step i e st st'\<close> is a step caused by
  connection \<open>i\<close>, where \<open>e\<close> says whether it is encrypted.
\<close>

inductive stream_step ::
  "nat \<Rightarrow> bool \<Rightarrow> nat option \<times> rtsp_stream \<Rightarrow> nat option \<times> rtsp_stream \<Rightarrow> bool" for i e where
  Keep: "stream_step i e (ow, t) (ow, t)"
| Volume: "- 144 \<le> v \<Longrightarrow> v \<le> 0 \<Longrightarrow> stream_step i e (ow, t) (ow, t\<lparr>volume_db := v\<rparr>)"
| Announce: "codec ses \<noteq> CODEC_UNKNOWN \<Longrightarrow> session_ok ses \<Longrightarrow> session_sane ses \<Longrightarrow>
    stream_step i e (ow, t) (Some i, t\<lparr>session := ses, has_session := True, recording := False,
      timing_peer := addr_zero, has_timestamp_floor := False, generation := generation t + 1\<rparr>)"
| Setup: "e \<Longrightarrow> codec ses \<noteq> CODEC_UNKNOWN \<Longrightarrow> stream_type ses = 96 \<or> stream_type ses = 103 \<Longrightarrow>
    stream_step i e (ow, t) (Some i, t\<lparr>session := ses, has_session := True, recording := True,
      has_timestamp_floor := False, has_buffered_flush_sequence := False, timing_peer := pr,
      anchor := anchor_zero, generation := generation t + 1\<rparr>)"
| Transport: "stream_step i e (Some i, t) (Some i, t\<lparr>timing_peer := pr, generation := generation t + 1\<rparr>)"
| Flush: "stream_step i e (Some i, t) (Some i, t\<lparr>flush_generation := flush_generation t + 1,
      has_timestamp_floor := has, timestamp_floor := ts, floor_exclusive := True\<rparr>)"
| Flush_Buffered: "e \<Longrightarrow> stream_step i e (Some i, t) (Some i, t\<lparr>buffered_flush_sequence := sq,
      has_buffered_flush_sequence := True, has_timestamp_floor := False,
      anchor := (anchor t)\<lparr>anchor_playing := False\<rparr>, flush_generation := flush_generation t + 1\<rparr>)"
| Record: "has_session t \<Longrightarrow> stream_step i e (Some i, t) (Some i, t\<lparr>recording := True\<rparr>)"
| Record_At: "has_session t \<Longrightarrow> stream_step i e (Some i, t) (Some i, t\<lparr>recording := True,
      has_timestamp_floor := True, timestamp_floor := ts, floor_exclusive := False\<rparr>)"
| Pause: "stream_step i e (Some i, t) (Some i, t\<lparr>recording := False\<rparr>)"
| Anchor: "e \<Longrightarrow> stream_step i e (Some i, t) (Some i, t\<lparr>anchor := a\<rparr>)"
| Release: "stream_step i e (Some i, t) (None, t\<lparr>recording := False, has_session := False,
      session := session_zero, generation := generation t + 1\<rparr>)"

inductive_cases stream_stepE: "stream_step i e (ow, t) (ow', t')"

text \<open>A stream is held exactly when it has a session, and only a session is recorded.\<close>

definition held :: "nat option \<times> rtsp_stream \<Rightarrow> bool" where
  "held st \<longleftrightarrow> (has_session (snd st) \<longleftrightarrow> fst st \<noteq> None) \<and> (recording (snd st) \<longrightarrow> has_session (snd st))"

lemma stream_step_held: "stream_step i e st st' \<Longrightarrow> held st \<Longrightarrow> held st'"
  by (induction rule: stream_step.induct) (auto simp: held_def)

text \<open>The owner changes only to the connection that takes a step, or from it to none.\<close>

lemma stream_step_owner:
  "stream_step i e st st' \<Longrightarrow> fst st' = fst st \<or> fst st' = Some i \<or> fst st = Some i \<and> fst st' = None"
  by (induction rule: stream_step.induct) auto

text \<open>A connection that does not own the stream can set the volume or take the stream over.\<close>

lemma stream_step_stranger:
  "stream_step i e (ow, t) (ow', t') \<Longrightarrow> ow \<noteq> Some i \<Longrightarrow>
   ow' = ow \<and> t'\<lparr>volume_db := volume_db t\<rparr> = t \<or>
   ow' = Some i \<and> generation t' = generation t + 1 \<and> has_session t' \<and> (recording t' \<longrightarrow> e)"
  by (erule stream_stepE) auto

text \<open>Readers of the stream notice every change of its session, owner or timing peer.\<close>

lemma stream_step_generation:
  "stream_step i e st st' \<Longrightarrow>
   generation (snd st') = generation (snd st) \<and> session (snd st') = session (snd st) \<and>
     timing_peer (snd st') = timing_peer (snd st) \<and> fst st' = fst st \<or>
   generation (snd st') = generation (snd st) + 1"
  by (induction rule: stream_step.induct) auto

subsection \<open>What a handler keeps\<close>

text \<open>The changes that handling a request may make to its connection.\<close>

definition client_step :: "rtsp_client \<Rightarrow> rtsp_client \<Rightarrow> bool" where
  "client_step c c' \<longleftrightarrow>
     socket c' = socket c \<and> peer c' = peer c \<and> control_record c' = control_record c \<and>
     record_used c' = record_used c \<and> event_client c' = event_client c \<and>
     (encrypted c \<longrightarrow> encrypted c') \<and> (encrypted c' \<longrightarrow> encrypted c \<or> established (pairing_state c')) \<and>
     (established (pairing_state c) \<longrightarrow> established (pairing_state c'))"

lemma client_step_refl [simp]: "client_step c c"
  by (simp add: client_step_def)

lemma client_step_trans: "client_step a b \<Longrightarrow> client_step b c \<Longrightarrow> client_step a c"
  by (auto simp: client_step_def)

definition handled_ok :: "rtsp_instance \<Rightarrow> nat \<Rightarrow> 'w handled \<Rightarrow> bool" where
  "handled_ok s i res \<longleftrightarrow>
     (case res of (b, s', w') \<Rightarrow>
        stream_step i (encrypted (client s i)) (stream_owner s, stream s) (stream_owner s', stream s') \<and>
        (\<exists>c'. clients s' = (clients s)[i := c'] \<and> client_step (client s i) c') \<and>
        rx s' = rx s \<and> listener s' = listener s)"

definition all_ok :: "rtsp_instance \<Rightarrow> nat \<Rightarrow> 'w handled option \<Rightarrow> bool" where
  "all_ok s i x \<longleftrightarrow> (\<exists>res. x = Some res \<and> handled_ok s i res)"

lemma all_ok_Some [simp]: "all_ok s i (Some res) = handled_ok s i res"
  by (simp add: all_ok_def)

text \<open>The server's own state, with the connection's permitted changes already made.\<close>

definition stepped :: "rtsp_instance \<Rightarrow> nat \<Rightarrow> rtsp_instance \<Rightarrow> bool" where
  "stepped s i s' \<longleftrightarrow>
     stream_step i (encrypted (client s i)) (stream_owner s, stream s) (stream_owner s', stream s') \<and>
     (\<exists>c'. clients s' = (clients s)[i := c'] \<and> client_step (client s i) c') \<and>
     rx s' = rx s \<and> listener s' = listener s"

lemma handled_ok_stepped: "handled_ok s i (b, s', w) = stepped s i s'"
  by (simp add: handled_ok_def stepped_def)

lemma stepped_refl [simp]: "i < length (clients s) \<Longrightarrow> stepped s i s"
  by (auto simp: stepped_def intro: Keep exI [of _ "client s i"])

lemma stepped_stream:
  "stream_step i (encrypted (client s i)) (stream_owner s, stream s) (ow, t) \<Longrightarrow> i < length (clients s) \<Longrightarrow>
   stepped s i (s\<lparr>stream := t, stream_owner := ow\<rparr>)"
  by (auto simp: stepped_def intro: exI [of _ "client s i"])

lemma stepped_client:
  assumes "stepped s i s1" and "client_step (client s1 i) c" and "i < length (clients s)"
  shows "stepped s i (set_client s1 i c)"
proof -
  obtain c' where c': "clients s1 = (clients s)[i := c']" "client_step (client s i) c'"
    using assms(1) by (auto simp: stepped_def)
  then have "client_step (client s i) c"
    using assms(2,3) by (auto intro: client_step_trans)
  moreover have "clients (set_client s1 i c) = (clients s)[i := c]" by (simp add: c'(1))
  ultimately show ?thesis
    using assms(1) by (simp add: stepped_def) blast
qed

lemma send_records_client:
  "send_records env c data w = (sent, c', w') \<Longrightarrow>
   \<exists>p. c' = c\<lparr>pairing_state := p\<rparr> \<and> (established (pairing_state c) \<longrightarrow> established p)"
proof (induction env c data w rule: send_records.induct)
  case (1 env c data w)
  show ?case
  proof (cases "data = []")
    case False
    define n where "n = (if length data > pair_record_max then pair_record_max else length data)"
    show ?thesis
    proof (cases "pairing_seal (pair_primitives env) (pairing_state c) (take n data)")
      case None
      then show ?thesis
        using 1(2) False by (subst (asm) send_records.simps) (auto simp: Let_def n_def intro: exI [of _ "pairing_state c"])
    next
      case (Some rp)
      obtain rc p where rp: "rp = (rc, p)" by (cases rp)
      have p: "established p" "established (pairing_state c)"
        using Some rp by (auto simp: pairing_seal_def Let_def bind_eq_Some_conv split: if_splits)
      obtain b w1 where sa: "send_all env (socket c) rc w = (b, w1)" by fastforce
      show ?thesis
      proof (cases b)
        case True
        have "send_records env (c\<lparr>pairing_state := p\<rparr>) (drop n data) w1 = (sent, c', w')"
          using 1(2) False Some rp sa True by (subst (asm) send_records.simps) (simp add: n_def Let_def)
        moreover have "(True, w1) = send_all env (socket (c\<lparr>pairing_state := p\<rparr>)) rc w"
          using sa True by simp
        ultimately have "\<exists>q. c' = (c\<lparr>pairing_state := p\<rparr>)\<lparr>pairing_state := q\<rparr> \<and> (established p \<longrightarrow> established q)"
          using 1(1) [OF False n_def Some rp [symmetric] refl refl] by simp
        with p show ?thesis by auto
      next
        case False
        then show ?thesis
          using 1(2) \<open>data \<noteq> []\<close> Some rp sa p
          by (subst (asm) send_records.simps) (auto simp: n_def Let_def)
      qed
    qed
  qed (use 1(2) in \<open>auto simp: send_records.simps intro: exI [of _ "pairing_state c"]\<close>)
qed

lemma send_client_client:
  "send_client env c data w = (sent, c', w') \<Longrightarrow>
   \<exists>p. c' = c\<lparr>pairing_state := p\<rparr> \<and> (established (pairing_state c) \<longrightarrow> established p)"
  by (auto simp: send_client_def split: if_splits prod.splits
      intro: send_records_client exI [of _ "pairing_state c"])

lemma send_response_client:
  assumes "rtsp_send_response env c status text seq extra bd w = (sent, c', w')"
  shows "client_step c c' \<and> encrypted c' = encrypted c"
proof (cases "response_head c status text seq extra (length bd)")
  case (Some h)
  obtain b c1 w1 where s1: "send_client env c h w = (b, c1, w1)" by (cases "send_client env c h w") auto
  obtain b2 c2 w2 where s2: "send_client env c1 bd w1 = (b2, c2, w2)" by (cases "send_client env c1 bd w1") auto
  show ?thesis
    using assms Some s1 s2 send_client_client [OF s1] send_client_client [OF s2]
    by (auto simp: rtsp_send_response_def client_step_def split: if_splits)
qed (use assms in \<open>auto simp: rtsp_send_response_def\<close>)

lemma reply_ok:
  assumes "i < length (clients s)" and "stepped s i s1"
  shows "handled_ok s i (reply env s1 i r status text extra bd w)"
proof -
  obtain sent c w1 where r: "rtsp_send_response env (client s1 i) status (lit text) (cseq r) extra bd w = (sent, c, w1)"
    by (cases "rtsp_send_response env (client s1 i) status (lit text) (cseq r) extra bd w") auto
  then show ?thesis
    using stepped_client [OF assms(2) _ assms(1)] send_response_client [OF r]
    by (auto simp: reply_def handled_ok_stepped)
qed

subsection \<open>AirPlay 1 handlers\<close>

named_theorems handler

lemma stepped_stream_eq:
  "s1 = s\<lparr>stream := t, stream_owner := ow\<rparr> \<Longrightarrow>
   stream_step i (encrypted (client s i)) (stream_owner s, stream s) (ow, t) \<Longrightarrow> i < length (clients s) \<Longrightarrow>
   stepped s i s1"
  using stepped_stream by blast

lemma stepped_owned:
  "owns s i \<Longrightarrow> stream_step i (encrypted (client s i)) (Some i, stream s) (Some i, t) \<Longrightarrow> i < length (clients s) \<Longrightarrow>
   stepped s i (s\<lparr>stream := t\<rparr>)"
  by (rule stepped_stream_eq [where ow = "Some i"]) auto

lemma options_ok [handler]: "i < length (clients s) \<Longrightarrow> handled_ok s i (airplay_rtsp_options env s i r w)"
proof -
  assume i: "i < length (clients s)"
  obtain extra w1 where "airplay_rtsp_options env s i r w = reply env s i r 200 ''OK'' extra [] w1"
    unfolding airplay_rtsp_options_def Let_def split_beta by blast
  then show ?thesis using i by (simp add: reply_ok)
qed

lemma describe_ok [handler]: "i < length (clients s) \<Longrightarrow> handled_ok s i (airplay_rtsp_describe env s i r w)"
  by (simp add: airplay_rtsp_describe_def reply_ok)

lemma post_ok [handler]: "i < length (clients s) \<Longrightarrow> handled_ok s i (airplay_rtsp_post env s i r w)"
  by (simp add: airplay_rtsp_post_def reply_ok)

lemma play_ok [handler]: "i < length (clients s) \<Longrightarrow> handled_ok s i (airplay_rtsp_play env s i r w)"
  by (simp add: airplay_rtsp_play_def reply_ok split: option.split)

lemma get_parameter_ok [handler]:
  "i < length (clients s) \<Longrightarrow> handled_ok s i (airplay_rtsp_get_parameter env s i r w)"
  by (simp add: airplay_rtsp_get_parameter_def reply_ok)

lemma volume_range: "parse_body_volume_db env r = Some v \<Longrightarrow> - 144 \<le> v \<and> v \<le> 0"
  by (auto simp: parse_body_volume_db_def Let_def split: option.splits if_splits prod.splits)

lemma set_parameter_ok [handler]:
  "i < length (clients s) \<Longrightarrow> handled_ok s i (airplay_rtsp_set_parameter env s i r w)"
proof -
  assume i: "i < length (clients s)"
  have "stepped s i (s\<lparr>stream := (stream s)\<lparr>volume_db := v\<rparr>\<rparr>)" if "parse_body_volume_db env r = Some v" for v
    using volume_range [OF that] i
    by (intro stepped_stream_eq [where ow = "stream_owner s" and t = "(stream s)\<lparr>volume_db := v\<rparr>"] Volume) auto
  then show ?thesis
    using i by (simp add: airplay_rtsp_set_parameter_def Let_def reply_ok split: option.split)
qed

lemma announce_ok [handler]:
  assumes i: "i < length (clients s)" and lib: "\<not> char_signed (libc env)"
  shows "all_ok s i (airplay_rtsp_announce env s i r w)"
proof -
  have pl: "plain (libc env) (req_body r)" using lib by (simp add: plain_def)
  obtain x where x: "sdp_parse (libc env) (req_body r) 4096 = Some x"
    and sane: "case x of Inl _ \<Rightarrow> req_body r = [] \<or> 4096 \<le> length (req_body r)
      | Inr ses \<Rightarrow> req_body r \<noteq> [] \<and> length (req_body r) < 4096 \<and> session_ok ses \<and> session_sane ses"
    using sdp_parse_result [OF pl, of 4096] by blast
  have "stepped s i (announce_stream s i ses)" if "codec ses \<noteq> CODEC_UNKNOWN" "session_ok ses" "session_sane ses" for ses
    using that i unfolding announce_stream_def by (intro stepped_stream Announce)
  then show ?thesis
    using x sane i by (cases x) (simp_all add: airplay_rtsp_announce_def reply_ok)
qed

lemma setup_ok [handler]: "i < length (clients s) \<Longrightarrow> handled_ok s i (airplay_rtsp_setup env s i r w)"
proof -
  assume i: "i < length (clients s)"
  have "stepped s i (s\<lparr>stream := (stream s)\<lparr>timing_peer := pr, generation := generation (stream s) + 1\<rparr>\<rparr>)" if "owns s i" for pr
    using that i by (intro stepped_owned Transport)
  then show ?thesis
    using i by (simp add: airplay_rtsp_setup_def Let_def reply_ok split: option.split)
qed

lemma flush_ok [handler]: "i < length (clients s) \<Longrightarrow> handled_ok s i (airplay_rtsp_flush env s i r w)"
proof -
  assume i: "i < length (clients s)"
  have "stepped s i (s\<lparr>stream := (stream s)\<lparr>flush_generation := flush_generation (stream s) + 1,
      has_timestamp_floor := has, timestamp_floor := ts, floor_exclusive := True\<rparr>\<rparr>)" if "owns s i" for has ts
    using that i by (intro stepped_owned Flush)
  then show ?thesis
    using i by (simp add: airplay_rtsp_flush_def Let_def reply_ok split: parameter.split)
qed

lemma flushbuffered_ok [handler]: "i < length (clients s) \<Longrightarrow> handled_ok s i (airplay_rtsp_flushbuffered env s i r w)"
  by (simp add: airplay_rtsp_flushbuffered_def flush_ok)

lemma teardown_ok [handler]: "i < length (clients s) \<Longrightarrow> handled_ok s i (airplay_rtsp_teardown env s i r w)"
  by (auto simp: airplay_rtsp_teardown_def release_stream_def intro!: reply_ok stepped_stream Release)

lemma pause_ok [handler]: "i < length (clients s) \<Longrightarrow> handled_ok s i (airplay_rtsp_pause env s i r w)"
  by (auto simp: airplay_rtsp_pause_def intro!: reply_ok stepped_owned Pause)

lemma record_ok [handler]: "i < length (clients s) \<Longrightarrow> handled_ok s i (airplay_rtsp_record env s i r w)"
proof -
  assume i: "i < length (clients s)"
  have "stepped s i (record_stream s p)" if "has_session (stream s)" "owns s i" for p
    using that i Record [of "stream s" i] Record_At [of "stream s" i]
    by (cases p) (simp_all add: record_stream_def stepped_owned)
  then show ?thesis
    using i by (simp add: airplay_rtsp_record_def Let_def reply_ok)
qed

subsection \<open>AirPlay 2 handlers\<close>

definition opened :: "bplist \<Rightarrow> bool" where
  "opened p \<longleftrightarrow> (\<exists>data. bplist_open data = ok p)"

lemma reader_total:
  assumes "opened p"
  shows "\<exists>x. bplist_get p ref key = Some x" "\<exists>x. bplist_at p ref k = Some x" "\<exists>x. bplist_children p ref = Some x"
    "\<exists>x. bplist_uint p ref = Some x" "\<exists>x. bplist_real p ref = Some x" "\<exists>x. bplist_bytes p ref = Some x"
  using assms bplist_reader_total [of _ ref key k] unfolding opened_def by blast+

lemma get_then:
  assumes "opened p" and "\<And>ref. \<exists>x. f ref = Some x"
  shows "\<exists>v. Option.bind (bplist_get p dict key) f = Some v"
  using reader_total(1) [OF assms(1), of dict key] assms(2) by auto

lemma number_total: "opened p \<Longrightarrow> \<exists>v. number p dict key fallback = Some v"
  unfolding number_def using reader_total(4) [of p] by (intro get_then) (auto simp: bind_eq_Some_conv)

lemma root_uint_total: "opened p \<Longrightarrow> \<exists>v. root_uint p key = Some v"
  unfolding root_uint_def using reader_total(4) [of p] by (intro get_then) auto

lemma item_bytes_total: "opened p \<Longrightarrow> \<exists>v. item_bytes_of p dict key = Some v"
  unfolding item_bytes_of_def using reader_total(6) [of p] by (intro get_then) auto

text \<open>A writer that holds some items; additions keep it one.\<close>

definition bw_ok :: "bplist_writer \<Rightarrow> bool" where
  "bw_ok bw \<longleftrightarrow> (\<exists>its. holds bw (Bplist_Writer.body its) (item_offsets its))"

lemma bw_init: "\<exists>bw. bplist_writer_init data = Some bw \<and> bw_ok bw"
  using init_holds [of data] by (auto simp: bw_ok_def)

lemma bw_add: "bw_ok bw \<Longrightarrow> \<exists>ref bw'. bplist_add bw it = Some (ref, bw') \<and> bw_ok bw'"
  unfolding bw_ok_def using add_holds [of bw _ it] by blast

lemma bw_string: "bw_ok bw \<Longrightarrow> \<exists>ref bw'. bplist_add_string bw x = Some (ref, bw') \<and> bw_ok bw'"
  using bw_add [of bw "TextItem x"] by simp

lemma bw_uint: "bw_ok bw \<Longrightarrow> \<exists>ref bw'. bplist_add_uint bw v = Some (ref, bw') \<and> bw_ok bw'"
  using bw_add [of bw "UintItem v"] by simp

lemma bw_array: "bw_ok bw \<Longrightarrow> \<exists>ref bw'. bplist_add_array bw rs = Some (ref, bw') \<and> bw_ok bw'"
  using bw_add [of bw "ArrayItem rs"] by simp

lemma bw_dict: "bw_ok bw \<Longrightarrow> \<exists>ref bw'. bplist_add_dict bw ps = Some (ref, bw') \<and> bw_ok bw'"
  using bw_add [of bw "DictItem ps"] by simp

lemma bw_int:
  assumes "bw_ok (fst x)"
  shows "\<exists>x'. add_int key v x = Some x' \<and> bw_ok (fst x')"
proof -
  obtain k b1 where 1: "bplist_add_string (fst x) (lit key) = Some (k, b1)" "bw_ok b1"
    using bw_string [OF assms] by blast
  obtain r b2 where "bplist_add_uint b1 v = Some (r, b2)" "bw_ok b2" using bw_uint [OF 1(2)] by blast
  with 1 show ?thesis by (simp add: add_int_def)
qed

lemma bw_text:
  assumes "bw_ok (fst x)"
  shows "\<exists>x'. add_text key v x = Some x' \<and> bw_ok (fst x')"
proof -
  obtain k b1 where 1: "bplist_add_string (fst x) (lit key) = Some (k, b1)" "bw_ok b1"
    using bw_string [OF assms] by blast
  obtain r b2 where "bplist_add_string b1 v = Some (r, b2)" "bw_ok b2" using bw_string [OF 1(2)] by blast
  with 1 show ?thesis by (simp add: add_text_def)
qed

text \<open>The rules that walk through a chain of additions.\<close>

lemma all_ok_step: "\<exists>x. m = Some x \<and> P x \<Longrightarrow> (\<And>x. P x \<Longrightarrow> all_ok s i (f x)) \<Longrightarrow> all_ok s i (Option.bind m f)"
  by auto

lemma all_ok_step2:
  "\<exists>a b. m = Some (a, b) \<and> P b \<Longrightarrow> (\<And>a b. P b \<Longrightarrow> all_ok s i (f (a, b))) \<Longrightarrow> all_ok s i (Option.bind m f)"
  by auto

lemmas add_int_step = all_ok_step [OF bw_int]
  and add_text_step = all_ok_step [OF bw_text]
  and init_step = all_ok_step [OF bw_init]
  and add_dict_step = all_ok_step2 [OF bw_dict]
  and add_array_step = all_ok_step2 [OF bw_array]
  and add_string_step = all_ok_step2 [OF bw_string]

lemma audio_format_step:
  "bw_ok bw \<Longrightarrow> (\<And>ref bw'. bw_ok bw' \<Longrightarrow> all_ok s i (f (ref, bw'))) \<Longrightarrow>
   all_ok s i (Option.bind (audio_format type bw) f)"
proof -
  assume bw: "bw_ok bw" and f: "\<And>ref bw'. bw_ok bw' \<Longrightarrow> all_ok s i (f (ref, bw'))"
  obtain x1 where 1: "add_int ''type'' type (bw, []) = Some x1" "bw_ok (fst x1)" using bw_int [of "(bw, [])" "''type''" type] bw by auto
  obtain x2 where 2: "add_int ''audioInputFormats'' 0x01000000 x1 = Some x2" "bw_ok (fst x2)" using bw_int [OF 1(2)] by blast
  obtain x3 where 3: "add_int ''audioOutputFormats'' 0x01000000 x2 = Some x3" "bw_ok (fst x3)" using bw_int [OF 2(2)] by blast
  obtain ref bw' where "bplist_add_dict (fst x3) (snd x3) = Some (ref, bw')" "bw_ok bw'" using bw_dict [OF 3(2)] by blast
  with 1 2 3 f show ?thesis by (simp add: audio_format_def)
qed

lemma plist_response_ok:
  assumes "bw_ok bw" and "i < length (clients s)" and "stepped s i s1"
  shows "all_ok s i (plist_response env s1 i r bw rt w)"
proof -
  obtain its where "holds bw (Bplist_Writer.body its) (item_offsets its)" using assms(1) by (auto simp: bw_ok_def)
  from finish_holds [OF this, of rt] obtain n bw' where "bplist_finish bw rt = Some (n, bw')" by blast
  then show ?thesis
    using assms(2,3) by (simp add: plist_response_def reply_ok)
qed

lemma with_plist_ok:
  assumes "i < length (clients s)"
    and "\<And>p. opened p \<Longrightarrow> encrypted (client s i) \<Longrightarrow> all_ok s i (f p)"
  shows "all_ok s i (with_plist env s i r w f)"
proof (cases "encrypted (client s i)")
  case True
  obtain x where x: "bplist_open (req_body r) = Some x" using bplist_reader_total by blast
  have "all_ok s i (f p)" if "x = Inr p" for p
    using assms(2) [of p] True x that by (auto simp: opened_def)
  then show ?thesis
    using True x assms(1) by (cases x) (simp_all add: with_plist_def reply_ok)
qed (simp add: with_plist_def reply_ok assms(1))

lemma info_ok [handler]: "i < length (clients s) \<Longrightarrow> all_ok s i (airplay2_info env s i r w)"
  unfolding airplay2_info_def
  by (intro init_step add_text_step add_int_step audio_format_step add_string_step add_array_step
      add_dict_step plist_response_ok stepped_refl | simp add: split_beta)+

lemma feedback_ok [handler]: "i < length (clients s) \<Longrightarrow> all_ok s i (airplay2_feedback env s i r w)"
proof (cases "encrypted (client s i)")
  case True
  assume i: "i < length (clients s)"
  show ?thesis
    unfolding airplay2_feedback_def Let_def if_not_P [OF not_not [THEN iffD2, OF True]]
    by (intro init_step add_int_step add_string_step add_array_step
      add_dict_step plist_response_ok stepped_refl i | simp add: split_beta)+
qed (simp add: airplay2_feedback_def reply_ok)

lemma acknowledge_ok [handler]: "i < length (clients s) \<Longrightarrow> handled_ok s i (airplay2_acknowledge env s i r w)"
  by (simp add: airplay2_acknowledge_def reply_ok)

lemma airplay2_record_ok [handler]:
  assumes "i < length (clients s)"
  shows "handled_ok s i (airplay2_record env s i r w)"
proof -
  have "stepped s i (s\<lparr>stream := (stream s)\<lparr>recording := True\<rparr>\<rparr>)" if "owns s i" "has_session (stream s)"
    using that assms by (intro stepped_owned Record)
  then show ?thesis
    using assms by (simp add: airplay2_record_def Let_def reply_ok)
qed

lemma fairplay_ok [handler]: "i < length (clients s) \<Longrightarrow> all_ok s i (airplay2_fairplay_setup env s i r w)"
proof -
  assume i: "i < length (clients s)"
  obtain x st where x: "fairplay_setup (fairplay_stage (client s i)) (req_body r) fairplay_response_max = Some (x, st)"
    using fairplay_setup_outcome by blast
  have "stepped s i (set_client s i ((client s i)\<lparr>fairplay_stage := st\<rparr>))"
    using i by (intro stepped_client) (auto simp: client_step_def)
  then show ?thesis
    using x i by (cases x) (simp_all add: airplay2_fairplay_setup_def reply_ok)
qed

lemma pairing_setup_established:
  "\<exists>x q. pairing_setup c mem_ok rnd p input out = Some (x, q) \<and> (established p \<longrightarrow> established q)"
proof (cases "established p")
  case True
  obtain st where "tlv_byte input 6 = Some st" using tlv_byte_defined by blast
  then show ?thesis using True by (cases st) (auto simp: pairing_setup_def)
next
  case False
  then show ?thesis using pairing_setup_result [of c mem_ok rnd p input out] by blast
qed

lemma pair_setup_ok [handler]: "i < length (clients s) \<Longrightarrow> all_ok s i (airplay2_pair_setup env s i r w)"
proof -
  assume i: "i < length (clients s)"
  obtain m rnd w1 where e: "entropy env w = ((m, rnd), w1)" by (metis surj_pair)
  obtain x q where x: "pairing_setup (pair_primitives env) m rnd (pairing_state (client s i)) (req_body r)
      (replicate 512 0) = Some (x, q)" and est: "established (pairing_state (client s i)) \<longrightarrow> established q"
    using pairing_setup_established by blast
  define s1 where "s1 = set_client s i ((client s i)\<lparr>pairing_state := q\<rparr>)"
  have s1: "stepped s i s1"
    using i est unfolding s1_def by (intro stepped_client) (auto simp: client_step_def)
  show ?thesis
  proof (cases x)
    case (Inl y)
    then show ?thesis using e x i s1 by (simp add: airplay2_pair_setup_def reply_ok s1_def [symmetric])
  next
    case (Inr y)
    obtain out n where y: "y = (out, n)" by (cases y)
    obtain sent s2 w2 where rep: "reply env s1 i r 200 ''OK'' octet_header (take n out) w1 = (sent, s2, w2)"
      by (metis surj_pair)
    have s2: "stepped s i s2"
      using reply_ok [OF i s1] rep handled_ok_stepped by metis
    then have "stepped s i (set_client s2 i ((client s2 i)\<lparr>encrypted := True\<rparr>))" if "established (pairing_state (client s2 i))"
      using that i by (intro stepped_client) (auto simp: client_step_def)
    then show ?thesis
      using e x Inr y rep s2 by (simp add: airplay2_pair_setup_def s1_def [symmetric] handled_ok_stepped)
  qed
qed

lemma on_ok_total: "\<exists>x. m = Some x \<Longrightarrow> (\<And>a. \<exists>x. f a = Some x) \<Longrightarrow> \<exists>x. on_ok m f = Some x"
  by (auto simp: on_ok_def split: sum.split)

lemma flush_buffered_ok [handler]: "i < length (clients s) \<Longrightarrow> all_ok s i (airplay2_flush_buffered env s i r w)"
proof -
  assume i: "i < length (clients s)"
  have step: "stepped s i (flush_buffered s v)" if "owns s i" "encrypted (client s i)" for v
    using that i unfolding flush_buffered_def by (intro stepped_owned Flush_Buffered)
  have "all_ok s i (Option.bind (on_ok (root_uint p ''flushUntilTS'') (\<lambda>until.
            if until > 0xFFFFFFFF then fail
            else on_ok (root_uint p ''flushUntilSeq'') (\<lambda>until_sequence.
              if until_sequence > 0xFFFFFF then fail else ok until_sequence))) (\<lambda>x.
       Some (case x of
           Inl _ \<Rightarrow> bad_request env s i r w
         | Inr until_sequence \<Rightarrow>
             accept_request env (if owns s i then flush_buffered s until_sequence else s) i r w)))"
    if "opened p" "encrypted (client s i)" for p
  proof (rule all_ok_step [where P = "\<lambda>_. True"])
    show "\<exists>x. on_ok (root_uint p ''flushUntilTS'') (\<lambda>until.
            if until > 0xFFFFFFFF then fail
            else on_ok (root_uint p ''flushUntilSeq'') (\<lambda>until_sequence.
              if until_sequence > 0xFFFFFF then fail else ok until_sequence)) = Some x \<and> True"
      using root_uint_total [OF that(1)] by (simp add: on_ok_total)
  qed (use i that(2) step in \<open>auto simp: reply_ok split: sum.split\<close>)
  then show ?thesis
    unfolding airplay2_flush_buffered_def using i by (intro with_plist_ok)
qed

lemma read_anchor_total: "opened p \<Longrightarrow> \<exists>x. read_anchor p = Some x"
  using root_uint_total [of p] unfolding read_anchor_def by (simp add: on_ok_total)

lemma place_anchor_ok:
  assumes "i < length (clients s)" and "encrypted (client s i)"
  shows "handled_ok s i (place_anchor env s i r a w)"
proof -
  have "stepped s i (s\<lparr>stream := (stream s)\<lparr>anchor := v\<rparr>\<rparr>)" if "owns s i" for v
    using that assms by (intro stepped_owned Anchor)
  then show ?thesis
    using assms(1) by (simp add: place_anchor_def reply_ok)
qed

lemma set_anchor_ok:
  assumes i: "i < length (clients s)" and e: "encrypted (client s i)" and p: "opened p"
  shows "all_ok s i (set_anchor env s i r w p)"
proof -
  obtain ref where ref: "bplist_get p (root p) (lit ''rate'') = Some ref" using reader_total(1) [OF p] by blast
  obtain x where x: "bplist_real p ref = Some x" using reader_total(5) [OF p] by blast
  obtain a where a: "read_anchor p = Some a" using read_anchor_total [OF p] by blast
  show ?thesis
    using i e ref x a
    by (cases x; cases a)
      (auto simp: set_anchor_def reply_ok place_anchor_ok split: option.split bool.split)
qed

lemma set_rate_anchor_time_ok [handler]:
  "i < length (clients s) \<Longrightarrow> all_ok s i (airplay2_set_rate_anchor_time env s i r w)"
  unfolding airplay2_set_rate_anchor_time_def by (intro with_plist_ok set_anchor_ok)

subsubsection \<open>SETUP\<close>

lemma stream_key_total:
  assumes "opened p"
  shows "\<exists>x. stream_key env p st q = Some x"
proof -
  obtain shk ekey where "item_bytes_of p st ''shk'' = Some shk" "item_bytes_of p st ''ekey'' = Some ekey"
    using item_bytes_total [OF assms] by blast
  then show ?thesis
    by (cases shk; cases ekey) (auto simp: stream_key_def split: option.split)
qed

lemma setup_session_ok:
  assumes i: "i < length (clients s)" and p: "opened p" and bw: "bw_ok bw"
  shows "all_ok s i (setup_session env s i r p bw w)"
proof -
  obtain timing where t: "item_bytes_of p (root p) ''timingProtocol'' = Some timing"
    using item_bytes_total [OF p] by blast
  define lis where "lis = (if handle (event_listener (client s i)) \<noteq> None then (True, s, w)
              else
                (case listen_on env (local_ip s) 0 w of
                   (None, w) \<Rightarrow> (False, set_client s i ((client s i)\<lparr>event_listener := closed_socket\<rparr>), w)
                 | (Some l, w) \<Rightarrow> (True, set_client s i ((client s i)\<lparr>event_listener := l\<rparr>), w)))"
  obtain listening s1 w1 where l: "lis = (listening, s1, w1)" by (metis surj_pair)
  have "stepped s i (set_client s i ((client s i)\<lparr>event_listener := l\<rparr>))" for l
    using i by (intro stepped_client) (auto simp: client_step_def)
  then have s1: "stepped s i s1"
    using l i by (auto simp: lis_def split: if_splits option.splits prod.splits)
  have more: "all_ok s i (do {
         x \<leftarrow> add_int ''eventPort'' (ucast (socket_port (event_listener (client s1 i)))) (bw, []);
         x \<leftarrow> add_int ''timingPort'' 0 x;
         (rt, bw) \<leftarrow> bplist_add_dict (fst x) (snd x);
         plist_response env s1 i r bw rt w1 })"
    by (intro add_int_step add_dict_step plist_response_ok s1 i | simp add: split_beta bw)+
  show ?thesis
    using more
    unfolding setup_session_def t bind.bind_lunit Let_def lis_def [symmetric] l split_conv
    by (simp add: reply_ok i s1 del: bind_split)
qed

lemma setup_reply_ok:
  assumes "i < length (clients s)" and "stepped s i s1" and "bw_ok bw"
  shows "all_ok s i (setup_reply env s1 i r type bw w)"
  unfolding setup_reply_def
  by (cases "type = 103") (intro add_int_step add_string_step add_array_step add_dict_step plist_response_ok assms
    | simp add: split_beta assms)+

lemma setup_plist_ok:
  assumes i: "i < length (clients s)" and e: "encrypted (client s i)" and p: "opened p"
  shows "all_ok s i (setup_plist env s i r w p)"
proof -
  obtain bw where bw: "bplist_writer_init (replicate 512 0) = Some bw" "bw_ok bw" using bw_init by blast
  obtain streams where streams: "bplist_get p (root p) (lit ''streams'') = Some streams" using reader_total(1) [OF p] by blast
  obtain n where n: "bplist_children p streams = Some n" using reader_total(3) [OF p] by blast
  obtain st where st: "bplist_at p streams 0 = Some st" using reader_total(2) [OF p] by blast
  obtain type ct rate where 1: "number p st ''type'' 0 = Some type" "number p st ''ct'' 0 = Some ct"
      "number p st ''sr'' 44100 = Some rate"
    using number_total [OF p, of st "''type''" 0] number_total [OF p, of st "''ct''" 0]
      number_total [OF p, of st "''sr''" 44100] by blast
  obtain frms latency where 2: "number p st ''spf'' (if ct = 2 then 352 else 1024) = Some frms"
      "number p st ''latencyMin'' 11025 = Some latency"
    using number_total [OF p, of st "''spf''" "if ct = 2 then 352 else 1024"]
      number_total [OF p, of st "''latencyMin''" 11025] by blast
  obtain key where key: "stream_key env p st (pairing_state (client s i)) = Some key"
    using stream_key_total [OF p] by blast
  have "stepped s i (setup_stream s i (stream_session type ct rate frms latency k))"
    if "media_supported type ct rate frms" for k
  proof -
    have "codec (stream_session type ct rate frms latency k) \<noteq> CODEC_UNKNOWN"
      "stream_type (stream_session type ct rate frms latency k) = 96 \<or>
       stream_type (stream_session type ct rate frms latency k) = 103"
      using that by (auto simp: stream_session_def media_supported_def Let_def)
    then show ?thesis
      unfolding setup_stream_def using e i by (intro stepped_stream Setup)
  qed
  then show ?thesis
    unfolding setup_plist_def bw(1) streams n st 1 2 key bind.bind_lunit
    using i p bw(2)
    by (simp add: reply_ok setup_session_ok setup_reply_ok del: bind_split split: sum.split)
qed

lemma airplay2_setup_ok [handler]: "i < length (clients s) \<Longrightarrow> all_ok s i (airplay2_setup env s i r w)"
  unfolding airplay2_setup_def by (intro with_plist_ok setup_plist_ok)

subsection \<open>Requests\<close>

lemma with_http:
  assumes "i < length (clients s)" and "all_ok (set_client s i ((client s i)\<lparr>http := h\<rparr>)) i x"
  shows "all_ok s i x"
proof -
  let ?s = "set_client s i ((client s i)\<lparr>http := h\<rparr>)"
  have "stepped s i s'" if "stepped ?s i s'" for s'
    using that assms(1) by (auto simp: stepped_def client_step_def)
  then show ?thesis
    using assms(2) by (auto simp: all_ok_def handled_ok_stepped)
qed

lemma handle_request_ok:
  assumes "i < length (clients s)" and "\<not> char_signed (libc env)"
  shows "all_ok s i (handle_request env s i r w)"
proof (rule with_http [OF assms(1)])
  show "all_ok (set_client s i ((client s i)\<lparr>http := (rtsp_request.version r = lit ''HTTP/1.1'')\<rparr>)) i
    (handle_request env s i r w)"
    using assms unfolding handle_request_def Let_def
    by (simp add: handler reply_ok handle_post_def split: rtsp_method.split)
qed

end
