(* ===== verification/Rtsp_Safety.thy ===== *)
theory Rtsp_Safety
  imports Rtsp_Ownership
begin

section \<open>Safety of the RTSP server\<close>

text \<open>
  The invariant of the server's state, and the proof that every poll keeps it and reaches no
  undefined behaviour, for every behaviour of the peers that the platform can report.
\<close>

subsection \<open>What the platform promises\<close>

text \<open>
  A receive gives at most as many bytes as were asked for; a wait flags one socket of the list by one
  flag and flags no closed socket; a record is opened to as many bytes as it contains; and a plain
  \<open>char\<close> is unsigned, without which the session parser may call \<open>isspace\<close> on a negative value.
\<close>

definition env_ok :: "'w env \<Rightarrow> bool" where
  "env_ok env \<longleftrightarrow>
     (\<forall>so n w b w'. receive_from env so n w = (Received b, w') \<longrightarrow> length b \<le> n) \<and>
     (\<forall>ss t w flags w'. wait_ready env ss t w = (Some flags, w') \<longrightarrow> length flags = length ss \<and>
        (\<forall>j < length ss. flags ! j \<longrightarrow> handle (ss ! j) \<noteq> None)) \<and>
     (\<forall>k n a tg ct m. unseal (pair_primitives env) k n a tg ct = Some m \<longrightarrow> length m = length ct) \<and>
     \<not> char_signed (libc env)"

lemma env_receive: "env_ok env \<Longrightarrow> receive_from env so n w = (Received b, w') \<Longrightarrow> length b \<le> n"
  unfolding env_ok_def by blast

lemma env_wait:
  "env_ok env \<Longrightarrow> wait_ready env ss t w = (Some flags, w') \<Longrightarrow>
   length flags = length ss \<and> (\<forall>j < length ss. flags ! j \<longrightarrow> handle (ss ! j) \<noteq> None)"
  unfolding env_ok_def by blast

lemma env_open: "env_ok env \<Longrightarrow> unseal (pair_primitives env) k n a tg ct = Some m \<Longrightarrow> length m = length ct"
  by (auto simp: env_ok_def)

lemma env_char: "env_ok env \<Longrightarrow> \<not> char_signed (libc env)"
  by (simp add: env_ok_def)

subsection \<open>The invariant\<close>

text \<open>The size that the header of the record being collected announces.\<close>

definition announced :: "buf \<Rightarrow> nat" where
  "announced b = unat (b ! 0) + unat (b ! 1) * 256"

definition record_ok :: "rtsp_client \<Rightarrow> bool" where
  "record_ok c \<longleftrightarrow> length (control_record c) = 1042 \<and>
     (record_used c \<le> 2 \<or> announced (control_record c) \<le> pair_record_max \<and> record_used c < announced (control_record c) + 18)"

definition client_ok :: "rtsp_client \<Rightarrow> bool" where
  "client_ok c \<longleftrightarrow> record_ok c \<and> (encrypted c \<longrightarrow> established (pairing_state c))"

definition server_base :: "rtsp_instance \<Rightarrow> bool" where
  "server_base s \<longleftrightarrow>
     length (clients s) = rtsp_max_clients \<and> length (rx s) = rtsp_max_clients \<and>
     (\<forall>i < rtsp_max_clients. client_ok (client s i)) \<and>
     held (stream_owner s, stream s) \<and>
     (\<forall>i. stream_owner s = Some i \<longrightarrow> i < rtsp_max_clients \<and> handle (socket (client s i)) \<noteq> None)"

text \<open>Between polls every receive buffer has room.\<close>

definition server_ok :: "rtsp_instance \<Rightarrow> bool" where
  "server_ok s \<longleftrightarrow> server_base s \<and> (\<forall>i < rtsp_max_clients. length (rx s ! i) < rtsp_rx_buffer_size)"

lemma client_zero_ok [simp]: "client_ok (client_zero\<lparr>socket := so, peer := from\<rparr>)" "client_ok client_zero"
  by (simp_all add: client_ok_def record_ok_def client_zero_def)

lemma server_base_client: "server_base s \<Longrightarrow> i < rtsp_max_clients \<Longrightarrow> client_ok (client s i)"
  by (simp add: server_base_def)

text \<open>Replacing one client.\<close>

lemma server_base_set_client:
  assumes "server_base s" and "i < rtsp_max_clients" and "client_ok c" and "socket c = socket (client s i)"
  shows "server_base (set_client s i c)"
  using assms by (auto simp: server_base_def nth_list_update)

lemma client_step_ok: "client_ok c \<Longrightarrow> client_step c c' \<Longrightarrow> client_ok c'"
  by (auto simp: client_ok_def record_ok_def client_step_def)

lemma stepped_server_base:
  assumes ok: "server_base s" and i: "i < rtsp_max_clients" "handle (socket (client s i)) \<noteq> None"
    and st: "stepped s i s'"
  shows "server_base s' \<and> handle (socket (client s' i)) \<noteq> None"
proof -
  obtain c' where c': "clients s' = (clients s)[i := c']" "client_step (client s i) c'"
    using st by (auto simp: stepped_def)
  have step: "stream_step i (encrypted (client s i)) (stream_owner s, stream s) (stream_owner s', stream s')"
    and rx: "rx s' = rx s"
    using st by (auto simp: stepped_def)
  have so: "socket c' = socket (client s i)" using c'(2) by (simp add: client_step_def)
  have "held (stream_owner s', stream s')"
    using stream_step_held [OF step] ok by (simp add: server_base_def)
  moreover have "stream_owner s' = stream_owner s \<or> stream_owner s' = Some i \<or> stream_owner s' = None"
    using stream_step_owner [OF step] by auto
  ultimately show ?thesis
    using ok i c' rx so client_step_ok [OF server_base_client [OF ok i(1)] c'(2)]
    by (auto simp: server_base_def nth_list_update)
qed

text \<open>Closing a client releases its stream and leaves its slot empty.\<close>

lemma close_client_ok:
  assumes ok: "server_base s" and i: "i < rtsp_max_clients"
  shows "server_base (fst (close_client env s i w))"
  using assms
  by (auto simp: close_client_def Let_def server_base_def nth_list_update release_stream_def held_def
      client_ok_def record_ok_def)

lemma set_rx_ok: "server_base s \<Longrightarrow> server_base (s\<lparr>rx := (rx s)[i := b]\<rparr>)"
  by (simp add: server_base_def)

subsection \<open>Receiving\<close>

lemma pairing_open_result:
  assumes ok: "env_ok env" and n: "length b = announced b + 18" "0 < announced b" "announced b \<le> pair_record_max"
  shows "\<exists>x p'. pairing_open (pair_primitives env) p b = Some (x, p') \<and> established p' = established p \<and>
    (case x of Inl _ \<Rightarrow> True | Inr m \<Rightarrow> length m = announced b)"
proof (cases "\<not> established p \<or> read_counter p = - 1")
  case False
  have parts: "rd b 0 = Some (b ! 0)" "rd b 1 = Some (b ! 1)" "rd_range b 0 2 = Some (take 2 b)"
    "rd_range b (2 + announced b) 16 = Some (take 16 (drop (2 + announced b) b))"
    "rd_range b 2 (announced b) = Some (take (announced b) (drop 2 b))"
    using n(1) by (auto simp: rd_def rd_range_def)
  have hdr: "unat (b ! 0) + unat (b ! 1) * 256 = announced b" by (simp add: announced_def)
  have go: "\<not> (\<not> established p \<or> length b < 18 \<or> read_counter p = - 1)"
    "\<not> (announced b = 0 \<or> announced b > pair_record_max \<or> length b \<noteq> announced b + 18)"
    using False n by auto
  show ?thesis
  proof (cases "unseal (pair_primitives env) (read_key p) (nonce_bytes (read_counter p)) (take 2 b)
      (take 16 (drop (2 + announced b) b)) (take (announced b) (drop 2 b))")
    case None
    then show ?thesis
      unfolding pairing_open_def if_not_P [OF go(1)] parts bind.bind_lunit Let_def hdr if_not_P [OF go(2)]
      by simp
  next
    case (Some m)
    then have "length m = announced b" using env_open [OF ok Some] n(1) by simp
    then show ?thesis
      unfolding pairing_open_def if_not_P [OF go(1)] parts bind.bind_lunit Let_def hdr if_not_P [OF go(2)] Some
      by simp
  qed
qed (auto simp: pairing_open_def)

text \<open>What receiving may change of a connection.\<close>

definition received_ok :: "rtsp_client \<Rightarrow> nat \<Rightarrow> received \<times> rtsp_client \<times> 'w \<Rightarrow> bool" where
  "received_ok c cap res \<longleftrightarrow>
     (case res of (r, c', w) \<Rightarrow>
        client_ok c' \<and> socket c' = socket c \<and> encrypted c' = encrypted c \<and>
        (case r of Received b \<Rightarrow> length b \<le> cap | _ \<Rightarrow> True))"

lemma receive_record_ok:
  assumes ok: "env_ok env" and c: "client_ok c" and need: "need \<le> 1042" "record_used c \<le> need"
    and two: "need = 2 \<or> 2 \<le> record_used c \<and> need = announced (control_record c) + 18 \<and>
      0 < announced (control_record c) \<and> announced (control_record c) \<le> cap \<and>
      announced (control_record c) \<le> pair_record_max"
  shows "\<exists>res. receive_record env c need w = Some res \<and> received_ok c cap res"
proof -
  obtain r w1 where r: "receive_from env (socket c) (need - record_used c) w = (r, w1)" by fastforce
  show ?thesis
  proof (cases "\<exists>b. r = Received b \<and> b \<noteq> []")
    case False
    then show ?thesis
      using r c by (cases r) (auto simp: receive_record_def received_ok_def)
  next
    case True
    then obtain b where b: "r = Received b" "b \<noteq> []" by blast
    have lb: "length b \<le> need - record_used c" using env_receive [OF ok] r b(1) by blast
    then have le: "record_used c + length b \<le> need" using need(2) by simp
    have cl: "length (control_record c) = 1042" "encrypted c \<longrightarrow> established (pairing_state c)"
      using c by (auto simp: client_ok_def record_ok_def)
    define cr where "cr = take (record_used c) (control_record c) @ b @ drop (record_used c + length b) (control_record c)"
    have wr: "wr_range (control_record c) (record_used c) b = Some cr"
      unfolding cr_def using lb need cl(1) by (intro wr_range_Some) simp
    have lcr: "length cr = 1042" using length_wr_range [OF wr] cl(1) by simp
    have hdr: "announced cr = announced (control_record c)" if "2 \<le> record_used c"
      using that cl(1) need by (simp add: announced_def cr_def nth_append)
    let ?c = "c\<lparr>control_record := cr, record_used := record_used c + length b\<rparr>"
    show ?thesis
    proof (cases "need = 2 \<or> record_used c + length b < need")
      case True
      then have "client_ok ?c"
        using two hdr lcr cl le by (auto simp: client_ok_def record_ok_def)
      then show ?thesis
        using r b wr True by (auto simp: receive_record_def received_ok_def)
    next
      case False
      have use: "2 \<le> record_used c" "need = announced cr + 18" "0 < announced cr" "announced cr \<le> cap"
          "announced cr \<le> pair_record_max"
        using False two hdr by auto
      have an: "announced (take need cr) = announced cr" using use(2) by (simp add: announced_def)
      have lt: "length (take need cr) = announced (take need cr) + 18" using use(2) need lcr an by simp
      obtain x p' where po: "pairing_open (pair_primitives env) (pairing_state c) (take need cr) = Some (x, p')"
        and est: "established p' = established (pairing_state c)"
        and len: "case x of Inl _ \<Rightarrow> True | Inr m \<Rightarrow> length m = announced (take need cr)"
        using pairing_open_result [OF ok lt, of "pairing_state c"] use an by auto
      have rr: "rd_range cr 0 need = Some (take need cr)" using need(1) lcr by (simp add: rd_range_def)
      have "client_ok (?c\<lparr>pairing_state := p', record_used := 0\<rparr>)"
        using cl(2) est lcr by (simp add: client_ok_def record_ok_def)
      then show ?thesis
        using r b wr False rr po len use(4) an
        by (cases x) (auto simp: receive_record_def received_ok_def)
    qed
  qed
qed

lemma receive_client_ok:
  assumes ok: "env_ok env" and c: "client_ok c"
  shows "\<exists>res. receive_client env c cap w = Some res \<and> received_ok c cap res"
proof (cases "encrypted c")
  case False
  obtain r w1 where r: "receive_from env (socket c) cap w = (r, w1)" by fastforce
  then have "case r of Received b \<Rightarrow> length b \<le> cap | _ \<Rightarrow> True"
    using env_receive [OF ok] by (auto split: received.split)
  then show ?thesis
    using False r c by (auto simp: receive_client_def received_ok_def)
next
  case True
  have len: "length (control_record c) = 1042" using c by (simp add: client_ok_def record_ok_def)
  show ?thesis
  proof (cases "2 \<le> record_used c")
    case False
    then show ?thesis
      using True receive_record_ok [OF ok c, of 2 cap w] by (simp add: receive_client_def)
  next
    case u: True
    let ?n = "announced (control_record c)"
    have n: "rd (control_record c) 0 = Some (control_record c ! 0)"
      "rd (control_record c) 1 = Some (control_record c ! 1)"
      "unat (control_record c ! 0) + unat (control_record c ! 1) * 256 = ?n"
      using len by (simp_all add: rd_def announced_def)
    show ?thesis
    proof (cases "?n = 0 \<or> ?n > pair_record_max \<or> ?n > cap")
      case True
      then show ?thesis
        using \<open>encrypted c\<close> u c unfolding receive_client_def n(1,2) bind.bind_lunit Let_def n(3)
        by (simp add: received_ok_def)
    next
      case False
      have "record_used c \<le> ?n + 18" using c by (auto simp: client_ok_def record_ok_def)
      then have "\<exists>res. receive_record env c (?n + 18) w = Some res \<and> received_ok c cap res"
        using False u by (intro receive_record_ok [OF ok c]) (auto simp: pair_record_max_def)
      then show ?thesis
        using \<open>encrypted c\<close> u False unfolding receive_client_def n(1,2) bind.bind_lunit Let_def n(3)
        by simp
    qed
  qed
qed

subsection \<open>Serving\<close>

text \<open>Any number of steps of the stream machine, all of one connection.\<close>

definition stream_steps :: "nat \<Rightarrow> nat option \<times> rtsp_stream \<Rightarrow> nat option \<times> rtsp_stream \<Rightarrow> bool" where
  "stream_steps i = (\<lambda>st st'. \<exists>e. stream_step i e st st')\<^sup>*\<^sup>*"

lemma stream_steps_trans: "stream_steps i a b \<Longrightarrow> stream_steps i b c \<Longrightarrow> stream_steps i a c"
  by (simp add: stream_steps_def)

lemma stream_steps_step: "stream_step i e a b \<Longrightarrow> stream_steps i a b"
  by (auto simp: stream_steps_def)

lemma stream_steps_refl [simp]: "stream_steps i a a"
  by (simp add: stream_steps_def)

text \<open>What serving connection \<open>i\<close> may do to the server: nothing to the other connections.\<close>

definition served_ok :: "rtsp_instance \<Rightarrow> nat \<Rightarrow> rtsp_instance \<Rightarrow> bool" where
  "served_ok s i s' \<longleftrightarrow>
     server_base s' \<and> listener s' = listener s \<and>
     (\<forall>j. j \<noteq> i \<longrightarrow> client s' j = client s j \<and> rx s' ! j = rx s ! j) \<and>
     stream_steps i (stream_owner s, stream s) (stream_owner s', stream s')"

lemma served_trans: "served_ok s i s1 \<Longrightarrow> served_ok s1 i s2 \<Longrightarrow> served_ok s i s2"
  by (auto simp: served_ok_def intro: stream_steps_trans)

lemma served_refl: "server_base s \<Longrightarrow> served_ok s i s"
  by (simp add: served_ok_def)

lemma served_set_client:
  "server_base s \<Longrightarrow> i < rtsp_max_clients \<Longrightarrow> client_ok c \<Longrightarrow> socket c = socket (client s i) \<Longrightarrow>
   served_ok s i (set_client s i c)"
  by (simp add: served_ok_def server_base_set_client)

lemma served_set_rx: "server_base s \<Longrightarrow> served_ok s i (s\<lparr>rx := (rx s)[i := b]\<rparr>)"
  by (simp add: served_ok_def set_rx_ok)

lemma close_client_shape:
  "clients (fst (close_client env s i w)) = (clients s)[i := (client s i)\<lparr>socket := closed_socket,
     event_client := closed_socket, event_listener := closed_socket, pairing_state := pairing_zero,
     fairplay_stage := 0, encrypted := False, record_used := 0, peer := addr_zero\<rparr>]"
  "rx (fst (close_client env s i w)) = (rx s)[i := []]"
  "listener (fst (close_client env s i w)) = listener s"
  "stream_steps i (stream_owner s, stream s)
     (stream_owner (fst (close_client env s i w)), stream (fst (close_client env s i w)))"
proof -
  show "stream_steps i (stream_owner s, stream s)
     (stream_owner (fst (close_client env s i w)), stream (fst (close_client env s i w)))"
    by (cases "stream_owner s = Some i")
      (auto simp: close_client_def Let_def release_stream_def intro: stream_steps_step [OF Release])
qed (simp_all add: close_client_def Let_def release_stream_def pairing_close_def)

lemma served_close:
  assumes "server_base s" and "i < rtsp_max_clients"
  shows "served_ok s i (fst (close_client env s i w)) \<and> rx (fst (close_client env s i w)) ! i = [] \<and>
    \<not> encrypted (client (fst (close_client env s i w)) i)"
  using assms close_client_ok [OF assms, of env w]
  by (simp add: served_ok_def close_client_shape) (simp add: server_base_def)

lemma served_closing:
  assumes "served_ok s i s1" and "i < rtsp_max_clients"
  shows "\<exists>s' w'. close_client env s1 i w = (s', w') \<and> served_ok s i s' \<and>
    length (rx s' ! i) < rtsp_rx_buffer_size \<and> (P \<longrightarrow> encrypted (client s' i) \<longrightarrow> rx s' ! i = [])"
proof -
  obtain s' w' where c: "close_client env s1 i w = (s', w')" by (metis surj_pair)
  have "server_base s1" using assms(1) by (simp add: served_ok_def)
  from served_close [OF this assms(2), of env w] show ?thesis
    using c served_trans [OF assms(1)] by (simp add: rtsp_rx_buffer_size_def)
qed

lemma served_stepped:
  assumes "server_base s" and "i < rtsp_max_clients" and "handle (socket (client s i)) \<noteq> None"
    and "stepped s i s'"
  shows "served_ok s i s' \<and> handle (socket (client s' i)) \<noteq> None"
  using assms stepped_server_base [OF assms]
  by (auto simp: served_ok_def stepped_def intro: stream_steps_step)

lemma served_response:
  assumes "server_base s" and "i < rtsp_max_clients"
    and "rtsp_send_response env (client s i) status text seq extra bd w = (sent, c, w')"
  shows "served_ok s i (set_client s i c)"
  using assms send_response_client [OF assms(3)] client_step_ok [OF server_base_client [OF assms(1,2)]]
  by (auto intro!: served_set_client simp: client_step_def)

lemma serve_ok:
  assumes "env_ok env" and "server_base s" and "i < rtsp_max_clients" and "handle (socket (client s i)) \<noteq> None"
    and "rx s ! i = b" and "length b \<le> rtsp_rx_buffer_size"
  shows "\<exists>s' w'. serve env s i b w = Some (s', w') \<and> served_ok s i s' \<and>
    length (rx s' ! i) < rtsp_rx_buffer_size \<and>
    (\<not> encrypted (client s i) \<longrightarrow> encrypted (client s' i) \<longrightarrow> rx s' ! i = [])"
  using assms
proof (induction "length b" arbitrary: s b w rule: less_induct)
  case less
  note ok = less.prems(1) and base = less.prems(2) and i = less.prems(3) and opn = less.prems(4) and rx = less.prems(5)
  show ?case
  proof (cases "b = []")
    case True
    then show ?thesis
      using base rx by (auto simp: serve.simps [of env s i] served_refl rtsp_rx_buffer_size_def)
  next
    case False
    obtain p where p: "parse_request b = Some p" "p = Incomplete \<Longrightarrow> length b < rtsp_rx_buffer_size"
      using rtsp_frame_step [OF less.prems(6)] by (metis (no_types, lifting) parsed.simps(8))
    show ?thesis
    proof (cases p)
      case Incomplete
      then show ?thesis
        using False p base rx by (auto simp: serve.simps [of env s i b] served_refl)
    next
      case Invalid
      obtain sent c w1 where r: "rtsp_send_response env (client s i) 400 (lit ''Bad Request'') 0 [] [] w = (sent, c, w1)"
        by (metis surj_pair)
      have sv: "served_ok s i (set_client s i c)" using served_response [OF base i r] .
      show ?thesis
        using False p Invalid r served_closing [OF sv i, of env w1 "\<not> encrypted (client s i)"]
        by (subst serve.simps) simp
    next
      case (Parsed r consumed)
      have n: "i < length (clients s)" using base i by (simp add: server_base_def)
      obtain res where h: "handle_request env s i r w = Some res" "handled_ok s i res"
        using handle_request_ok [OF n env_char [OF ok], of r w] unfolding all_ok_def by blast
      obtain handled s1 w1 where res: "res = (handled, s1, w1)" by (metis surj_pair)
      have st: "served_ok s i s1" "handle (socket (client s1 i)) \<noteq> None"
        using served_stepped [OF base i opn] h(2) by (auto simp: res handled_ok_stepped)
      have b1: "server_base s1" using st by (simp add: served_ok_def)
      show ?thesis
      proof (cases handled)
        case nh: False
        show ?thesis
          using False p Parsed h res nh served_closing [OF st(1) i, of env w1 "\<not> encrypted (client s i)"]
          by (subst serve.simps) simp
      next
        case True
        define b' where "b' = drop consumed b"
        define s2 where "s2 = s1\<lparr>rx := (rx s1)[i := b']\<rparr>"
        have s2: "served_ok s i s2" "server_base s2" "rx s2 ! i = b'" "handle (socket (client s2 i)) \<noteq> None"
          "clients s2 = clients s1"
          using served_trans [OF st(1) served_set_rx [OF b1]] b1 i st(2)
          by (auto simp: s2_def set_rx_ok server_base_def)
        have lb: "length b' < length b" "length b' \<le> rtsp_rx_buffer_size"
          using parsed_consumes [of b r consumed] p Parsed less.prems(6) by (auto simp: b'_def)
        have sv: "serve env s i b w =
            (if \<not> encrypted (client s i) \<and> encrypted (client s2 i) \<and> b' \<noteq> [] then Some (close_client env s2 i w1)
             else serve env s2 i b' w1)"
          using False p Parsed h res True
          by (subst serve.simps) (simp add: b'_def s2_def Let_def)
        show ?thesis
        proof (cases "\<not> encrypted (client s i) \<and> encrypted (client s2 i) \<and> b' \<noteq> []")
          case True
          show ?thesis
            using True sv served_closing [OF s2(1) i, of env w1 "\<not> encrypted (client s i)"] by simp
        next
          case nb: False
          obtain s' w' where s': "serve env s2 i b' w1 = Some (s', w')" "served_ok s2 i s'"
              "length (rx s' ! i) < rtsp_rx_buffer_size"
              "\<not> encrypted (client s2 i) \<longrightarrow> encrypted (client s' i) \<longrightarrow> rx s' ! i = []"
            using less.hyps [OF lb(1) ok s2(2) i s2(4) s2(3) lb(2)] by blast
          moreover have "rx s' ! i = []" if "b' = []"
            using s'(1) s2(3) that by (auto simp: serve.simps [of env s2 i])
          ultimately show ?thesis
            using nb sv served_trans [OF s2(1)] by auto
        qed
      qed
    qed
  qed
qed

subsection \<open>Polling\<close>

lemma served_event_listener:
  assumes "server_base s" and "i < rtsp_max_clients" and "poll_event_listener env s i w = (s', w')"
  shows "served_ok s i s' \<and> socket (client s' i) = socket (client s i) \<and> rx s' = rx s"
  using assms server_base_client [OF assms(1,2)]
  by (auto simp: poll_event_listener_def Let_def client_ok_def record_ok_def server_base_def
      split: accepted.splits prod.splits if_splits intro: served_refl
      intro!: served_set_client [unfolded server_base_def])

lemma served_event_client:
  assumes "server_base s" and "i < rtsp_max_clients" and "poll_event_client env s i w = (s', w')"
  shows "served_ok s i s' \<and> socket (client s' i) = socket (client s i) \<and> rx s' = rx s"
proof -
  have "client_ok ((client s i)\<lparr>event_client := closed_socket\<rparr>)"
    using server_base_client [OF assms(1,2)] by (simp add: client_ok_def record_ok_def)
  moreover have "i < length (clients s)" using assms(1,2) by (simp add: server_base_def)
  ultimately show ?thesis
    using assms served_set_client [OF assms(1,2), of "(client s i)\<lparr>event_client := closed_socket\<rparr>"]
    by (auto simp: poll_event_client_def Let_def split: received.splits prod.splits if_splits intro: served_refl)
qed

lemma poll_requests_ok:
  assumes ok: "env_ok env" and s: "server_ok s" and i: "i < rtsp_max_clients" and opn: "handle (socket (client s i)) \<noteq> None"
  shows "\<exists>s' w'. poll_requests env s i w = Some (s', w') \<and> served_ok s i s' \<and>
    length (rx s' ! i) < rtsp_rx_buffer_size \<and>
    (\<not> encrypted (client s i) \<longrightarrow> encrypted (client s' i) \<longrightarrow> rx s' ! i = [])"
proof -
  have base: "server_base s" and room: "length (rx s ! i) < rtsp_rx_buffer_size"
    and n: "i < length (clients s)" "i < length (rx s)"
    using s i by (auto simp: server_ok_def server_base_def)
  obtain r c w1 where rc: "receive_client env (client s i) (rtsp_rx_buffer_size - length (rx s ! i)) w = Some (r, c, w1)"
    "received_ok (client s i) (rtsp_rx_buffer_size - length (rx s ! i)) (r, c, w1)"
    using receive_client_ok [OF ok server_base_client [OF base i], of "rtsp_rx_buffer_size - length (rx s ! i)" w] by auto
  have c: "client_ok c" "socket c = socket (client s i)" "encrypted c = encrypted (client s i)"
    "case r of Received b \<Rightarrow> length b \<le> rtsp_rx_buffer_size - length (rx s ! i) | _ \<Rightarrow> True"
    using rc(2) by (auto simp: received_ok_def)
  define s1 where "s1 = set_client s i c"
  have s1: "served_ok s i s1" "rx s1 = rx s" "client s1 i = c"
    using served_set_client [OF base i c(1,2)] n by (auto simp: s1_def)
  show ?thesis
  proof (cases "\<exists>b. r = Received b \<and> b \<noteq> []")
    case False
    then show ?thesis
      using rc(1) s1 room c(3) served_closing [OF s1(1) i, of env w1 "\<not> encrypted (client s i)"]
      unfolding poll_requests_def rc(1) bind.bind_lunit split_conv Let_def s1_def [symmetric]
      by (cases r) auto
  next
    case True
    then obtain b where b: "r = Received b" "b \<noteq> []" by blast
    let ?b = "rx s ! i @ b"
    let ?s = "s1\<lparr>rx := (rx s1)[i := ?b]\<rparr>"
    have b1: "server_base s1" using s1(1) by (simp add: served_ok_def)
    have sv: "served_ok s i ?s" by (rule served_trans [OF s1(1) served_set_rx [OF b1]])
    have "server_base ?s" "handle (socket (client ?s i)) \<noteq> None" "rx ?s ! i = ?b" "length ?b \<le> rtsp_rx_buffer_size"
      "encrypted (client ?s i) = encrypted (client s i)"
      using set_rx_ok [OF b1] opn c b room n s1 by auto
    from serve_ok [OF ok this(1) i this(2-4), of w1] this(5) show ?thesis
      using b rc(1) served_trans [OF sv]
      unfolding poll_requests_def rc(1) bind.bind_lunit split_conv Let_def s1_def [symmetric]
      by (auto simp: s1(2))
  qed
qed

text \<open>What one client's part of a poll, and the whole poll, do to the server.\<close>

definition polled_ok :: "rtsp_instance \<Rightarrow> nat \<Rightarrow> rtsp_instance \<Rightarrow> bool" where
  "polled_ok s i s' \<longleftrightarrow> served_ok s i s' \<and> length (rx s' ! i) < rtsp_rx_buffer_size"

lemma polled_server_ok: "server_ok s \<Longrightarrow> polled_ok s i s' \<Longrightarrow> server_ok s'"
  unfolding polled_ok_def served_ok_def server_ok_def by metis

lemma poll_client_ok:
  assumes ok: "env_ok env" and s: "server_ok s" and i: "i < rtsp_max_clients"
    and flag: "flagged flags (i + 1) \<Longrightarrow> handle (socket (client s i)) \<noteq> None"
  shows "\<exists>s' w'. poll_client env flags s i w = Some (s', w') \<and> polled_ok s i s'"
proof -
  have base: "server_base s" and room: "length (rx s ! i) < rtsp_rx_buffer_size"
    using s i by (auto simp: server_ok_def)
  obtain s1 w1 where e1: "(if flagged flags (1 + rtsp_max_clients + i * 2) then poll_event_listener env s i w else (s, w)) = (s1, w1)"
    by (metis surj_pair)
  have s1: "served_ok s i s1" "socket (client s1 i) = socket (client s i)" "rx s1 = rx s"
    using e1 served_event_listener [OF base i, of env w s1 w1] served_refl [OF base] by (auto split: if_splits)
  have b1: "server_base s1" using s1(1) by (simp add: served_ok_def)
  obtain s2 w2 where e2: "(if flagged flags (2 + rtsp_max_clients + i * 2) then poll_event_client env s1 i w1 else (s1, w1)) = (s2, w2)"
    by (metis surj_pair)
  have s2: "served_ok s1 i s2" "socket (client s2 i) = socket (client s1 i)" "rx s2 = rx s1"
    using e2 served_event_client [OF b1 i, of env w1 s2 w2] served_refl [OF b1] by (auto split: if_splits)
  have sv: "served_ok s i s2" by (rule served_trans [OF s1(1) s2(1)])
  have ok2: "server_ok s2"
    using s s2 sv s1(3) by (auto simp: server_ok_def served_ok_def)
  show ?thesis
  proof (cases "flagged flags (i + 1)")
    case True
    obtain s' w' where "poll_requests env s2 i w2 = Some (s', w')" "served_ok s2 i s'"
        "length (rx s' ! i) < rtsp_rx_buffer_size"
      using poll_requests_ok [OF ok ok2 i, of w2] flag [OF True] s1(2) s2(2) by auto
    then show ?thesis
      using True e1 e2 served_trans [OF sv] by (auto simp: poll_client_def polled_ok_def)
  next
    case False
    then show ?thesis
      using e1 e2 sv room s1(3) s2(3) by (auto simp: poll_client_def polled_ok_def)
  qed
qed

lemma poll_clients_ok:
  assumes "env_ok env" and "server_ok s" and "set is \<subseteq> {..<rtsp_max_clients}" and "distinct is"
    and "\<And>i. i \<in> set is \<Longrightarrow> flagged flags (i + 1) \<Longrightarrow> handle (socket (client s i)) \<noteq> None"
  shows "\<exists>s' w'. poll_clients env flags is s w = Some (s', w') \<and> server_ok s' \<and> listener s' = listener s"
  using assms
proof (induction "is" arbitrary: s w)
  case (Cons i "is")
  obtain s1 w1 where 1: "poll_client env flags s i w = Some (s1, w1)" "polled_ok s i s1"
    using poll_client_ok [OF Cons.prems(1,2), of i flags w] Cons.prems(3,5) by auto
  have "server_ok s1" using polled_server_ok [OF Cons.prems(2) 1(2)] .
  moreover have "listener s1 = listener s" using 1(2) by (simp add: polled_ok_def served_ok_def)
  moreover have "handle (socket (client s1 j)) \<noteq> None" if "j \<in> set is" "flagged flags (j + 1)" for j
  proof -
    have "j \<noteq> i" using that(1) Cons.prems(4) by auto
    then have "client s1 j = client s j" using 1(2) by (simp add: polled_ok_def served_ok_def)
    then show ?thesis using Cons.prems(5) [of j] that by simp
  qed
  ultimately have "\<exists>s' w'. poll_clients env flags is s1 w1 = Some (s', w') \<and> server_ok s' \<and> listener s' = listener s1"
    using Cons.prems(1,3,4) by (intro Cons.IH) auto
  then show ?case using 1(1) \<open>listener s1 = listener s\<close> by auto
qed simp

lemma poll_accept_ok:
  assumes "server_ok s"
  shows "server_ok (fst (snd (poll_accept env s w)))"
proof -
  have "server_ok ((set_client s i (client_zero\<lparr>socket := so, peer := from\<rparr>))\<lparr>rx := (rx s)[i := []]\<rparr>)"
    if "find (\<lambda>i. handle (socket (client s i)) = None) [0..<rtsp_max_clients] = Some i" for i so "from"
  proof -
    have "i < rtsp_max_clients" "handle (socket (client s i)) = None"
      using that by (auto simp: find_Some_iff)
    then show ?thesis
      using assms by (auto simp: server_ok_def server_base_def nth_list_update rtsp_rx_buffer_size_def)
  qed
  then show ?thesis
    using assms by (auto simp: poll_accept_def split: prod.split accepted.split option.split)
qed

lemma poll_ok:
  assumes ok: "env_ok env" and s: "server_ok s"
  shows "\<exists>b s' w'. rtsp_server_poll env s t w = Some (b, s', w') \<and> server_ok s'"
proof (cases "handle (listener s) = None")
  case False
  obtain fl w1 where fl: "wait_ready env (poll_sockets s) t w = (fl, w1)" by (metis surj_pair)
  show ?thesis
  proof (cases fl)
    case (Some flags)
    show ?thesis
    proof (cases "True \<in> set flags")
      case True
      have wt: "length flags = length (poll_sockets s)" "\<forall>j < length (poll_sockets s). flags ! j \<longrightarrow> handle (poll_sockets s ! j) \<noteq> None"
        using env_wait [OF ok fl [unfolded Some]] by auto
      have "handle (socket (client s i)) \<noteq> None" if "i < rtsp_max_clients" "flagged flags (i + 1)" for i
      proof -
        have "i < length (clients s)" using that(1) s by (simp add: server_ok_def server_base_def)
        then have "poll_sockets s ! (i + 1) = socket (client s i)"
          by (simp add: poll_sockets_def nth_append)
        then show ?thesis using wt that(2) unfolding flagged_def by metis
      qed
      then obtain s1 w2 where "poll_clients env flags [0..<rtsp_max_clients] s w1 = Some (s1, w2)" "server_ok s1"
        using poll_clients_ok [OF ok s, of "[0..<rtsp_max_clients]" flags w1]
        by (metis (no_types, lifting) atLeastLessThan_iff distinct_upt lessThan_iff set_upt subsetI)
      then show ?thesis
        using False fl Some True poll_accept_ok [of s1 env w2]
        by (cases "poll_accept env s1 w2") (auto simp: rtsp_server_poll_def)
    qed (use False fl Some s in \<open>auto simp: rtsp_server_poll_def\<close>)
  qed (use False fl s in \<open>auto simp: rtsp_server_poll_def\<close>)
qed (use s in \<open>auto simp: rtsp_server_poll_def\<close>)

subsection \<open>Records of a response\<close>

text \<open>The buffers \<open>rs\<close> are sent one after the other, each completely.\<close>

fun sends :: "'w env \<Rightarrow> net_socket \<Rightarrow> buf list \<Rightarrow> 'w \<Rightarrow> 'w \<Rightarrow> bool" where
  "sends env so [] w w' \<longleftrightarrow> w' = w"
| "sends env so (r # rs) w w' \<longleftrightarrow> (case send_all env so r w of (sent, w1) \<Rightarrow> sent \<and> sends env so rs w1 w')"

lemma send_records_opened:
  assumes "aead_ok (pair_primitives env)" and "linked (pairing_state c) q" and "send_records env c data w = (True, c', w')"
  shows "\<exists>rs ms q'. sends env (socket c) rs w w' \<and> open_all (pair_primitives env) q rs = Some (ms, q') \<and>
    concat ms = data \<and> (\<forall>m\<in>set ms. m \<noteq> [] \<and> length m \<le> pair_record_max) \<and>
    length ms = (length data + pair_record_max - 1) div pair_record_max \<and> linked (pairing_state c') q'"
  using assms(2,3)
proof (induction "length data" arbitrary: c data w q rule: less_induct)
  case less
  show ?case
  proof (cases "data = []")
    case True
    then show ?thesis
      using less.prems
      by (intro exI [of _ "[]"]) (auto simp: send_records.simps [of env c] pair_record_max_def)
  next
    case False
    define n where "n = (if length data > pair_record_max then pair_record_max else length data)"
    have n: "0 < n" "n \<le> pair_record_max" "n \<le> length data"
      using False by (auto simp: n_def pair_record_max_def)
    obtain r p w1 where step: "pairing_seal (pair_primitives env) (pairing_state c) (take n data) = Some (r, p)"
        "send_all env (socket c) r w = (True, w1)"
        "send_records env (c\<lparr>pairing_state := p\<rparr>) (drop n data) w1 = (True, c', w')"
      using less.prems(2) False
      by (subst (asm) send_records.simps) (auto simp: n_def Let_def split: option.splits prod.splits if_splits)
    obtain q1 where q1: "pairing_open (pair_primitives env) q r = Some (Inr (take n data), q1)" "linked p q1"
      using open_sealed [OF assms(1) less.prems(1) step(1)] by blast
    have lt: "length (drop n data) < length data" using n by simp
    have l: "linked (pairing_state (c\<lparr>pairing_state := p\<rparr>)) q1" using q1(2) by simp
    obtain rs ms q' where rest: "sends env (socket c) rs w1 w'"
        "open_all (pair_primitives env) q1 rs = Some (ms, q')" "concat ms = drop n data"
        "\<forall>m\<in>set ms. m \<noteq> [] \<and> length m \<le> pair_record_max" "linked (pairing_state c') q'"
        "length ms = (length (drop n data) + pair_record_max - 1) div pair_record_max"
      using less.hyps [OF lt l step(3)] by auto
    have "(length data + pair_record_max - 1) div pair_record_max =
        Suc ((length (drop n data) + pair_record_max - 1) div pair_record_max)"
    proof (cases "length data > pair_record_max")
      case True
      then show ?thesis by (simp add: n_def pair_record_max_def)
    next
      case le: False
      obtain k where k: "length data = Suc k" using False by (cases data) auto
      then have "n = Suc k" "k < 1024" using le by (auto simp: n_def pair_record_max_def)
      moreover have "(Suc k + 1024 - 1) div 1024 = Suc (k div 1024)" by simp
      ultimately show ?thesis using k by (simp add: pair_record_max_def)
    qed
    then have "length (take n data # ms) = (length data + pair_record_max - 1) div pair_record_max"
      using rest(6) by simp
    moreover have "sends env (socket c) (r # rs) w w'" using step(2) rest(1) by simp
    moreover have "open_all (pair_primitives env) q (r # rs) = Some (take n data # ms, q')"
      using q1(1) rest(2) by simp
    moreover have "concat (take n data # ms) = data" using rest(3) by simp
    moreover have "\<forall>m\<in>set (take n data # ms). m \<noteq> [] \<and> length m \<le> pair_record_max"
      using rest(4) n False by simp
    ultimately show ?thesis using rest(5) by blast
  qed
qed

subsection \<open>Reachable states\<close>

text \<open>The states of a server that is created, identified, polled and closed.\<close>

inductive reachable :: "'w env \<Rightarrow> rtsp_instance \<Rightarrow> bool" for env where
  created: "rtsp_server_create env lock_ok p w = (b, s, w') \<Longrightarrow> reachable env s"
| identified: "reachable env s \<Longrightarrow> rtsp_set_identity s lip mac = (b, s') \<Longrightarrow> reachable env s'"
| polled: "reachable env s \<Longrightarrow> rtsp_server_poll env s t w = Some (b, s', w') \<Longrightarrow> reachable env s'"
| closed: "reachable env s \<Longrightarrow> rtsp_server_close env s w = (s', w') \<Longrightarrow> reachable env s'"

lemma created_ok: "rtsp_server_create env lock_ok p w = (b, s, w') \<Longrightarrow> server_ok s"
  by (auto simp: rtsp_server_create_def Let_def server_ok_def server_base_def instance_zero_def held_def
      stream_zero_def rtsp_rx_buffer_size_def split: if_splits option.splits prod.splits)

lemma closed_ok:
  assumes "server_ok s"
  shows "server_ok (fst (rtsp_server_close env s w))"
proof -
  have close: "server_ok (fst (close_client env s i w))" if "server_ok s" "i < rtsp_max_clients" for s i w
  proof -
    have "polled_ok s i (fst (close_client env s i w))"
      using served_close [of s i env w] that by (auto simp: polled_ok_def server_ok_def rtsp_rx_buffer_size_def)
    then show ?thesis using that(1) by (rule polled_server_ok [rotated])
  qed
  have "server_ok (fst (close_clients env is s w))" if "set is \<subseteq> {..<rtsp_max_clients}" for "is"
    using that assms
  proof (induction "is" arbitrary: s w)
    case (Cons i "is")
    obtain s1 w1 where c: "close_client env s i w = (s1, w1)" by (metis surj_pair)
    then have "server_ok s1" using close [of s i w] Cons.prems by simp
    then show ?case using Cons c by simp
  qed simp
  moreover have "server_ok (t\<lparr>listener := closed_socket\<rparr>)" if "server_ok t" for t
    using that by (simp add: server_ok_def server_base_def)
  ultimately show ?thesis
    by (simp add: rtsp_server_close_def Let_def split_beta subset_eq)
qed

lemma reachable_ok:
  assumes "env_ok env" and "reachable env s"
  shows "server_ok s"
  using assms(2)
proof induction
  case (created lock_ok p w b s w')
  then show ?case by (rule created_ok)
next
  case (identified s lip mac b s')
  then show ?case
    by (auto simp: rtsp_set_identity_def server_ok_def server_base_def split: if_splits)
next
  case (polled s t w b s' w')
  then show ?case using poll_ok [OF assms(1), of s t w] by simp
next
  case (closed s w s' w')
  then show ?case using closed_ok [of s env w] by simp
qed

end
