(* ===== verification/Rtsp_Properties.thy ===== *)
theory Rtsp_Properties
  imports Rtsp_Safety
begin

section \<open>Properties of the RTSP server\<close>

text \<open>
  What the lemmas of \<open>Rtsp_Ownership\<close> and \<open>Rtsp_Safety\<close> show of the server, with an environment
  small enough to evaluate for the instances.
\<close>

subsection \<open>A small environment\<close>

definition still_env :: "buf \<Rightarrow> unit env" where
  "still_env inp =
     \<lparr>send_all = \<lambda>so b w. (True, w), receive_from = \<lambda>so n w. (Received (take n inp), w),
      accept_on = \<lambda>so w. (Accepted \<lparr>handle = Some 7, socket_port = 0\<rparr> \<lparr>ip = ''10.0.0.2'', port = 5000\<rparr>, w),
      listen_on = \<lambda>a p w. (Some \<lparr>handle = Some 3, socket_port = p\<rparr>, w),
      wait_ready = \<lambda>ss t w. (Some (map (\<lambda>so. handle so \<noteq> None) ss), w),
      close_socket = \<lambda>so w. w, entropy = \<lambda>w. ((True, Some ([1, 2], [3])), w), pair_primitives = toy,
      challenge = \<lambda>ch a m w. (None, w), scan_float = \<lambda>s. (0, None), show_volume = \<lambda>v. [],
      libc = \<lparr>wide_unsigned = of_int, wide_signed = of_int, char_signed = False\<rparr>\<rparr>"

lemma still_env_ok: "env_ok (still_env inp)"
  by (auto simp: env_ok_def still_env_def toy_def)

definition listening_server :: rtsp_instance where
  "listening_server = fst (snd (rtsp_server_create (still_env []) True 5000 ()))"

definition connected_server :: rtsp_instance where
  "connected_server = (case rtsp_server_poll (still_env []) listening_server 10 () of
     Some (b, s, w) \<Rightarrow> s | None \<Rightarrow> listening_server)"

lemma listening_created: "rtsp_server_create (still_env r) True 5000 () = (True, listening_server, ())"
  by (simp add: listening_server_def rtsp_server_create_def still_env_def Let_def)

lemma connected_polled: "rtsp_server_poll (still_env r) listening_server 10 () = Some (True, connected_server, ())"
  unfolding connected_server_def
  by (simp add: listening_server_def rtsp_server_create_def still_env_def Let_def
  rtsp_server_poll_def poll_sockets_def rtsp_max_clients_def instance_zero_def client_zero_def closed_socket_def numeral_2_eq_2
  poll_client_def flagged_def poll_accept_def)

lemma connected_reachable: "reachable (still_env r) connected_server"
  by (rule polled [OF created [OF listening_created] connected_polled])

lemma connected_shape:
  "length (clients connected_server) = 2" "handle (socket (client connected_server 0)) = Some 7"
  "\<not> encrypted (client connected_server 0)" "stream_owner connected_server = None"
  "\<not> recording (stream connected_server)"
  unfolding connected_server_def
  by (simp_all add: listening_server_def rtsp_server_create_def still_env_def Let_def
      rtsp_server_poll_def poll_sockets_def rtsp_max_clients_def instance_zero_def client_zero_def
      closed_socket_def numeral_2_eq_2 poll_client_def flagged_def poll_accept_def stream_zero_def)

subsection \<open>Properties\<close>




definition announce_request :: rtsp_request where
  "announce_request =
     \<lparr>rmethod = METHOD_ANNOUNCE, uri = lit ''*'', version = lit ''RTSP/1.0'', cseq = 1, headers = [],
      req_body = lit ''a=rtpmap:96 L16/44100/2''\<rparr>"


text \<open>
  A connection that does not own the stream cannot change it, except its volume, without taking it
  over: then it is the owner, the stream has a session and a new generation by which its readers see
  the change, and it records only when the connection is encrypted.
\<close>

theorem rtsp_stream_guarded:
  assumes "handle_request env s i r w = Some (b, s', w')" and "stream_owner s \<noteq> Some i"
    and "i < length (clients s)" and "\<not> char_signed (libc env)"
  shows "stream_owner s' = stream_owner s \<and> (stream s')\<lparr>volume_db := volume_db (stream s)\<rparr> = stream s \<or>
    stream_owner s' = Some i \<and> generation (stream s') = generation (stream s) + 1 \<and>
      has_session (stream s') \<and> (recording (stream s') \<longrightarrow> encrypted (client s i))"
  using handle_request_ok [OF assms(3,4), of r w] assms(1,2) stream_step_stranger
  by (fastforce simp: all_ok_def handled_ok_def)

theorem rtsp_stream_guarded_witness:
  "\<exists>b s' w'. handle_request (still_env []) connected_server 0 announce_request () = Some (b, s', w') \<and>
     \<not> recording (stream s')"
proof -
  have n: "0 < length (clients connected_server)" "\<not> char_signed (libc (still_env []))"
    "stream_owner connected_server \<noteq> Some 0"
    by (simp_all add: connected_shape still_env_def)
  obtain b s' w' where h: "handle_request (still_env []) connected_server 0 announce_request () = Some (b, s', w')"
    using handle_request_ok [OF n(1,2), of announce_request "()"] by (auto simp: all_ok_def)
  from rtsp_stream_guarded [OF h n(3,1,2)] have "\<not> recording (stream s')"
    by (auto simp: connected_shape dest: arg_cong [of _ _ recording])
  with h show ?thesis by blast
qed



text \<open>
  C6: encrypted responses.  What is sent on an encrypted connection goes out as records of 1 to 1024
  bytes, as few as possible, in order; the peer, whose reading end is linked to the sender's writing
  end, opens them to pieces that make up exactly the bytes sent, and the two ends stay linked.
\<close>

theorem rtsp_records_roundtrip:
  assumes "aead_ok (pair_primitives env)" and "linked (pairing_state c) q" and "encrypted c"
    and "send_client env c data w = (True, c', w')"
  shows "\<exists>rs ms q'. sends env (socket c) rs w w' \<and> open_all (pair_primitives env) q rs = Some (ms, q') \<and>
    concat ms = data \<and> (\<forall>m\<in>set ms. m \<noteq> [] \<and> length m \<le> pair_record_max) \<and>
    length ms = (length data + pair_record_max - 1) div pair_record_max \<and> linked (pairing_state c') q'"
  using assms by (intro send_records_opened) (simp_all add: send_client_def)

theorem rtsp_records_roundtrip_witness:
  "\<exists>c' w' rs ms q'. send_client (still_env []) (client_zero\<lparr>encrypted := True, pairing_state := toy_end\<rparr>) [1, 2, 3] () =
      (True, c', w') \<and> sends (still_env []) closed_socket rs () w' \<and> open_all toy toy_end rs = Some (ms, q') \<and>
      concat ms = [1, 2, 3] \<and> length ms = 1"
proof -
  let ?c = "client_zero\<lparr>encrypted := True, pairing_state := toy_end\<rparr>"
  have laws: "aead_ok (pair_primitives (still_env []))" "linked (pairing_state ?c) toy_end" "encrypted ?c"
    by (auto simp: aead_ok_def still_env_def toy_def linked_def toy_end_def pairing_zero_def)
  obtain c' where sent: "send_client (still_env []) ?c [1, 2, 3] () = (True, c', ())"
    by (simp add: send_client_def send_records.simps still_env_def pairing_seal_def toy_def toy_end_def
        pairing_zero_def pair_record_max_def Let_def)
  from rtsp_records_roundtrip [OF laws sent] sent show ?thesis
    by (fastforce simp: still_env_def client_zero_def pair_record_max_def)
qed

end
