(* ===== verification/Buffered_Audio.thy ===== *)
theory Buffered_Audio
  imports Rtsp_State
begin

section \<open>Buffered audio: \<open>src/shared/audio/buffered_audio.c\<close>\<close>

text \<open>
  The AirPlay 2 transport of type 103: records with a length of two bytes over TCP, collected in
  \<open>b_data\<close> over as many polls as it takes, and the seek boundary up to which they are discarded.  The
  sockets are those of an environment as in \<open>Rtsp_State\<close>.  The callback gets the packet, the state it
  works on and the world; it does not touch the transport, so that its place before the reset of
  \<open>used\<close> makes no difference.  The outer option is an access outside \<open>data\<close>.
\<close>

record buffered_audio =
  b_listener :: net_socket
  b_client :: net_socket
  b_data :: buf
  b_used :: nat
  discard_sequence :: u32
  discarding :: bool

definition rtp_buffer_size :: nat where "rtp_buffer_size = 4096"

definition buffered_audio_init :: buffered_audio where
  "buffered_audio_init =
     \<lparr>b_listener = closed_socket, b_client = closed_socket, b_data = replicate (rtp_buffer_size + 2) 0,
      b_used = 0, discard_sequence = 0, discarding = False\<rparr>"

definition buffered_audio_open ::
  "('w, 'm) env_scheme \<Rightarrow> buffered_audio \<Rightarrow> u16 \<Rightarrow> 'w \<Rightarrow> bool \<times> buffered_audio \<times> 'w" where
  "buffered_audio_open env b p w =
     (case listen_on env [] p w of
        (None, w) \<Rightarrow> (False, b, w)
      | (Some l, w) \<Rightarrow> (True, b\<lparr>b_listener := l\<rparr>, w))"

definition buffered_audio_disconnect ::
  "('w, 'm) env_scheme \<Rightarrow> buffered_audio \<Rightarrow> 'w \<Rightarrow> buffered_audio \<times> 'w" where
  "buffered_audio_disconnect env b w =
     (b\<lparr>b_client := closed_socket, b_used := 0, discarding := False\<rparr>, close_socket env (b_client b) w)"

definition buffered_audio_flush :: "buffered_audio \<Rightarrow> u32 \<Rightarrow> buffered_audio" where
  "buffered_audio_flush b until_sequence =
     b\<lparr>discard_sequence := until_sequence AND 0xffffff, discarding := True\<rparr>"

definition buffered_audio_close ::
  "('w, 'm) env_scheme \<Rightarrow> buffered_audio \<Rightarrow> 'w \<Rightarrow> buffered_audio \<times> 'w" where
  "buffered_audio_close env b w =
     (let (b, w) = buffered_audio_disconnect env b w in
      (b\<lparr>b_listener := closed_socket\<rparr>, close_socket env (b_listener b) w))"

subsection \<open>Polling\<close>

text \<open>The steps of a poll either return its result or go on.\<close>

definition buffered_accept ::
  "('w, 'm) env_scheme \<Rightarrow> buffered_audio \<Rightarrow> string \<Rightarrow> 'w \<Rightarrow> int option \<times> buffered_audio \<times> 'w" where
  "buffered_accept env b sender_ip w =
     (if handle (b_client b) \<noteq> None then (None, b, w)
      else
        (case accept_on env (b_listener b) w of
           (Accept_Timeout, w) \<Rightarrow> (Some 0, b, w)
         | (Accept_Error, w) \<Rightarrow> (Some (- 1), b, w)
         | (Accepted so from, w) \<Rightarrow>
             let b = b\<lparr>b_client := so\<rparr> in
             if sender_ip = [] \<or> ip from \<noteq> sender_ip then
               (let (b, w) = buffered_audio_disconnect env b w in (Some 0, b, w))
             else (None, b, w)))"

text \<open>A receive of the bytes that are missing to the first \<open>need\<close>.\<close>

definition buffered_fill ::
  "('w, 'm) env_scheme \<Rightarrow> nat \<Rightarrow> buffered_audio \<Rightarrow> 'w \<Rightarrow> (int option \<times> buffered_audio \<times> 'w) option" where
  "buffered_fill env need b w =
     (case receive_from env (b_client b) (need - b_used b) w of
        (Receive_Timeout, w) \<Rightarrow> Some (Some 0, b, w)
      | (Receive_Error, w) \<Rightarrow> (let (b, w) = buffered_audio_disconnect env b w in Some (Some 0, b, w))
      | (Received bytes, w) \<Rightarrow>
          if bytes = [] then (let (b, w) = buffered_audio_disconnect env b w in Some (Some 0, b, w))
          else do {
            d \<leftarrow> wr_range (b_data b) (b_used b) bytes;
            let b = b\<lparr>b_data := d, b_used := b_used b + length bytes\<rparr>;
            Some (if b_used b < need then Some 0 else None, b, w) })"

text \<open>The packet of the complete record, and its sequence number on the wire.\<close>

definition buffered_packet :: "buf \<Rightarrow> nat \<Rightarrow> (u32 \<times> rtp_packet) option" where
  "buffered_packet d need = do {
     s1 \<leftarrow> rd d 3; s2 \<leftarrow> rd d 4; s3 \<leftarrow> rd d 5;
     t0 \<leftarrow> rd d 6; t1 \<leftarrow> rd d 7; t2 \<leftarrow> rd d 8; t3 \<leftarrow> rd d 9;
     c0 \<leftarrow> rd d 10; c1 \<leftarrow> rd d 11; c2 \<leftarrow> rd d 12; c3 \<leftarrow> rd d 13;
     p \<leftarrow> rd_range d 14 (need - 14);
     let sq = be32 0 s1 s2 s3;
     Some (sq, \<lparr>header = \<lparr>rtp_header.version = 2, padding = 0, extension = 0, csrc_count = 0, marker = 0,
         payload_type = 96, sequence = ucast sq, timestamp = be32 t0 t1 t2 t3, ssrc = be32 c0 c1 c2 c3\<rparr>,
       payload = p\<rparr>) }"

definition buffered_audio_poll ::
  "('w, 'm) env_scheme \<Rightarrow> (rtp_packet \<Rightarrow> 's \<times> 'w \<Rightarrow> ('s \<times> 'w) option) \<Rightarrow> buffered_audio \<Rightarrow> string \<Rightarrow> 's \<Rightarrow> 'w
     \<Rightarrow> (int \<times> buffered_audio \<times> 's \<times> 'w) option" where
  "buffered_audio_poll env cb b sender_ip s w =
     (case buffered_accept env b sender_ip w of
        (Some r, b, w) \<Rightarrow> Some (r, b, s, w)
      | (None, b, w) \<Rightarrow> do {
          (r, b, w) \<leftarrow> (if b_used b < 2 then buffered_fill env 2 b w else Some (None, b, w));
          (case r of
             Some r \<Rightarrow> Some (r, b, s, w)
           | None \<Rightarrow> do {
               d0 \<leftarrow> rd (b_data b) 0;
               d1 \<leftarrow> rd (b_data b) 1;
               let need = unat d0 * 256 + unat d1;
               if need < 38 \<or> need > length (b_data b) then
                 (let (b, w) = buffered_audio_disconnect env b w in Some (0, b, s, w))
               else do {
                 (r, b, w) \<leftarrow> buffered_fill env need b w;
                 (case r of
                    Some r \<Rightarrow> Some (r, b, s, w)
                  | None \<Rightarrow> do {
                      (sq, packet) \<leftarrow> buffered_packet (b_data b) need;
                      let distance = (sq - discard_sequence b) AND 0xffffff;
                      if discarding b \<and> (distance = 0 \<or> distance \<ge> 0x800000)
                      then Some (1, b\<lparr>b_used := 0\<rparr>, s, w)
                      else do {
                        (s, w) \<leftarrow> cb packet (s, w);
                        Some (1, b\<lparr>discarding := False, b_used := 0\<rparr>, s, w) } }) } }) })"

subsection \<open>Records over TCP\<close>

text \<open>
  TCP as a script: what is still to arrive, in the pieces in which it arrives, with pauses in which a
  receive times out.  A receive of at most \<open>n\<close> bytes takes the rest of a piece or a part of it.
\<close>

datatype tcp_item = Segment buf | Pause

fun script_receive :: "nat \<Rightarrow> tcp_item list \<Rightarrow> received \<times> tcp_item list" where
  "script_receive n [] = (Receive_Timeout, [])"
| "script_receive n (Pause # w) = (Receive_Timeout, w)"
| "script_receive n (Segment b # w) =
     (if length b \<le> n then (Received b, w) else (Received (take n b), Segment (drop n b) # w))"

definition scripted :: "(tcp_item list, 'm) env_scheme \<Rightarrow> bool" where
  "scripted env \<longleftrightarrow> (\<forall>so n w. receive_from env so n w = script_receive n w)"

fun arriving :: "tcp_item list \<Rightarrow> buf" where
  "arriving [] = []"
| "arriving (Pause # w) = arriving w"
| "arriving (Segment b # w) = b @ arriving w"

definition pieces_ok :: "tcp_item list \<Rightarrow> bool" where
  "pieces_ok w \<longleftrightarrow> Segment [] \<notin> set w"

definition load :: "tcp_item list \<Rightarrow> nat" where
  "load w = length w + length (arriving w)"

definition collected :: "buffered_audio \<Rightarrow> buf" where
  "collected b = take (b_used b) (b_data b)"

lemma script_receive_step:
  assumes "pieces_ok w" and "0 < n" and "script_receive n w = (r, w')"
  shows "pieces_ok w' \<and> (w \<noteq> [] \<longrightarrow> load w' < load w) \<and> (w = [] \<longrightarrow> w' = []) \<and>
    (case r of
       Received b \<Rightarrow> b \<noteq> [] \<and> length b \<le> n \<and> b @ arriving w' = arriving w
     | Receive_Timeout \<Rightarrow> arriving w' = arriving w
     | Receive_Error \<Rightarrow> False)"
proof (cases w)
  case (Cons x w1)
  then show ?thesis
    using assms by (cases x) (auto simp: pieces_ok_def load_def split: if_splits)
qed (use assms in \<open>auto simp: pieces_ok_def\<close>)

text \<open>What a receive leaves as it is.\<close>

definition same_transport :: "buffered_audio \<Rightarrow> buffered_audio \<Rightarrow> bool" where
  "same_transport b b' \<longleftrightarrow> b_client b' = b_client b \<and> length (b_data b') = length (b_data b) \<and>
     discarding b' = discarding b \<and> discard_sequence b' = discard_sequence b"

lemma buffered_fill_step:
  assumes env: "scripted env" and w: "pieces_ok w" and n: "b_used b < need" "need \<le> length (b_data b)"
  shows "\<exists>r b' w'. buffered_fill env need b w = Some (r, b', w') \<and> same_transport b b' \<and>
    collected b' @ arriving w' = collected b @ arriving w \<and> pieces_ok w' \<and>
    (w \<noteq> [] \<longrightarrow> load w' < load w) \<and> (w = [] \<longrightarrow> w' = []) \<and>
    (r = Some 0 \<and> b_used b' < need \<and> b_used b \<le> b_used b' \<or> r = None \<and> b_used b' = need)"
proof -
  obtain r w' where r: "script_receive (need - b_used b) w = (r, w')" by fastforce
  note step = script_receive_step [OF w _ r]
  have rf: "receive_from env (b_client b) (need - b_used b) w = (r, w')"
    using env r by (simp add: scripted_def)
  show ?thesis
  proof (cases r)
    case (Received xs)
    define d where "d = take (b_used b) (b_data b) @ xs @ drop (b_used b + length xs) (b_data b)"
    have x: "xs \<noteq> []" "length xs \<le> need - b_used b" "xs @ arriving w' = arriving w"
      using step Received n(1) by auto
    have wr: "wr_range (b_data b) (b_used b) xs = Some d"
      unfolding d_def using x(2) n by (intro wr_range_Some) simp
    have len: "length d = length (b_data b)" using length_wr_range [OF wr] .
    let ?b = "b\<lparr>b_data := d, b_used := b_used b + length xs\<rparr>"
    have "collected ?b = collected b @ xs"
      using n by (simp add: collected_def d_def)
    then have "collected ?b @ arriving w' = collected b @ arriving w" using x(3) by simp
    moreover have "buffered_fill env need b w =
        Some (if b_used ?b < need then Some 0 else None, ?b, w')"
      using rf Received x(1) wr by (simp add: buffered_fill_def)
    moreover have "b_used ?b \<le> need" using x(2) n(1) by simp
    ultimately show ?thesis
      using step n(1) len by (auto simp: same_transport_def)
  qed (use step n(1) rf in \<open>auto simp: buffered_fill_def same_transport_def\<close>)
qed

text \<open>A record on the wire, and the packet that it carries.\<close>

record wire_record =
  w_version :: u8
  w_sequence :: u32
  w_timestamp :: u32
  w_ssrc :: u32
  w_payload :: buf

definition wire_ok :: "wire_record \<Rightarrow> bool" where
  "wire_ok x \<longleftrightarrow> unat (w_sequence x) < 2 ^ 24 \<and> 24 \<le> length (w_payload x) \<and> length (w_payload x) \<le> 4084"

definition wire_bytes :: "wire_record \<Rightarrow> buf" where
  "wire_bytes x =
     [of_nat ((length (w_payload x) + 14) div 256), of_nat (length (w_payload x) + 14), w_version x,
      ucast (drop_bit 16 (w_sequence x)), ucast (drop_bit 8 (w_sequence x)), ucast (w_sequence x)] @
     bytes32 (w_timestamp x) @ bytes32 (w_ssrc x) @ w_payload x"

definition wire_packet :: "wire_record \<Rightarrow> rtp_packet" where
  "wire_packet x =
     \<lparr>header = \<lparr>rtp_header.version = 2, padding = 0, extension = 0, csrc_count = 0, marker = 0,
        payload_type = 96, sequence = ucast (w_sequence x), timestamp = w_timestamp x, ssrc = w_ssrc x\<rparr>,
      payload = w_payload x\<rparr>"

lemma length_wire_bytes [simp]: "length (wire_bytes x) = length (w_payload x) + 14"
  by (simp add: wire_bytes_def)

lemma length_field:
  assumes "n < 65536"
  shows "unat (of_nat (n div 256) :: u8) * 256 + unat (of_nat n :: u8) = n"
proof -
  have "n div 256 < 256" using assms by (simp add: less_mult_imp_div_less)
  then show ?thesis by (simp add: unat_of_nat)
qed

lemma sequence_field:
  assumes "unat (v :: u32) < 2 ^ 24"
  shows "be32 0 (ucast (drop_bit 16 v)) (ucast (drop_bit 8 v)) (ucast v) = v"
proof -
  have "unat (drop_bit 24 v) = 0" using assms by (simp add: unat_drop_bit)
  then have "drop_bit 24 v = 0" by (simp add: word_unat_eq_iff)
  then show ?thesis using be32_bytes [of v] by simp
qed

lemma buffered_packet_wire:
  assumes x: "wire_ok x" and d: "take (length (wire_bytes x)) d = wire_bytes x"
  shows "buffered_packet d (length (wire_bytes x)) = Some (w_sequence x, wire_packet x)"
proof -
  obtain e where e: "d = wire_bytes x @ e" using d by (metis append_take_drop_id)
  have "be32 0 (ucast (drop_bit 16 (w_sequence x))) (ucast (drop_bit 8 (w_sequence x))) (ucast (w_sequence x)) = w_sequence x"
    using x by (intro sequence_field) (simp add: wire_ok_def)
  then show ?thesis
    by (simp add: buffered_packet_def e wire_bytes_def rd_def rd_range_def bytes32_def be32_bytes wire_packet_def Let_def)
qed

definition log_packet :: "rtp_packet \<Rightarrow> rtp_packet list \<times> 'w \<Rightarrow> (rtp_packet list \<times> 'w) option" where
  "log_packet p sw = Some (fst sw @ [p], snd sw)"

text \<open>At or before the seek boundary, on the circle of 24-bit sequence numbers.\<close>

definition before_seek :: "u32 \<Rightarrow> wire_record \<Rightarrow> bool" where
  "before_seek d x \<longleftrightarrow> (let distance = (w_sequence x - d) AND 0xffffff in distance = 0 \<or> distance \<ge> 0x800000)"

definition collecting :: "buffered_audio \<Rightarrow> bool" where
  "collecting b \<longleftrightarrow> handle (b_client b) \<noteq> None \<and> length (b_data b) = rtp_buffer_size + 2"

definition waiting_step :: "buffered_audio \<Rightarrow> tcp_item list \<Rightarrow> wire_record \<Rightarrow> buffered_audio \<Rightarrow> tcp_item list \<Rightarrow> bool" where
  "waiting_step b w x b' w' \<longleftrightarrow>
     same_transport b b' \<and> collected b' @ arriving w' = collected b @ arriving w \<and> b_used b' < length (wire_bytes x)"

definition record_step ::
  "buffered_audio \<Rightarrow> rtp_packet list \<Rightarrow> wire_record \<Rightarrow> buf \<Rightarrow> buffered_audio \<Rightarrow> rtp_packet list \<Rightarrow> tcp_item list \<Rightarrow> bool" where
  "record_step b s x rest b' s' w' \<longleftrightarrow>
     b_client b' = b_client b \<and> length (b_data b') = length (b_data b) \<and> b_used b' = 0 \<and>
     discard_sequence b' = discard_sequence b \<and> arriving w' = rest \<and>
     (if discarding b \<and> before_seek (discard_sequence b) x then s' = s \<and> discarding b'
      else s' = s @ [wire_packet x] \<and> \<not> discarding b')"

lemma collected_nth:
  assumes "collected b @ a = bs @ rest" and "j < b_used b" and "j < length bs" and "b_used b \<le> length (b_data b)"
  shows "b_data b ! j = bs ! j"
proof -
  have "b_data b ! j = (collected b @ a) ! j"
    using assms(2,4) by (simp add: collected_def nth_append)
  then show ?thesis using assms(1,3) by (simp add: nth_append)
qed

lemma poll_step:
  assumes env: "scripted env" and b: "collecting b" and w: "pieces_ok w" and x: "wire_ok x"
    and st: "collected b @ arriving w = wire_bytes x @ rest" and u: "b_used b < length (wire_bytes x)"
  shows "\<exists>r b' s' w'. buffered_audio_poll env log_packet b sender_ip s w = Some (r, b', s', w') \<and>
    pieces_ok w' \<and> load w' < load w \<and> (s' = s \<and> waiting_step b w x b' w' \<or> record_step b s x rest b' s' w')"
proof -
  let ?n = "length (wire_bytes x)"
  have len: "length (b_data b) = 4098" and cl: "handle (b_client b) \<noteq> None"
    using b by (auto simp: collecting_def rtp_buffer_size_def)
  have n: "38 \<le> ?n" "?n \<le> 4098" using x by (auto simp: wire_ok_def)
  have "w \<noteq> []"
  proof
    assume "w = []"
    then have "length (collected b) = ?n + length rest" using arg_cong [OF st, of length] by simp
    then show False using u by (simp add: collected_def)
  qed
  have acc: "buffered_accept env b sender_ip w = (None, b, w)"
    using cl by (simp add: buffered_accept_def)
  define first where "first = (if b_used b < 2 then buffered_fill env 2 b w else Some (None, b, w))"
  obtain r1 b1 w1 where f: "first = Some (r1, b1, w1)" and t1: "same_transport b b1"
      and c1: "collected b1 @ arriving w1 = collected b @ arriving w" and w1: "pieces_ok w1" "load w1 \<le> load w"
      and r1: "r1 = Some 0 \<and> b_used b1 < 2 \<and> load w1 < load w \<or> r1 = None \<and> 2 \<le> b_used b1 \<and> b_used b1 < ?n \<and>
        (b_used b < 2 \<longrightarrow> load w1 < load w) \<and> (2 \<le> b_used b \<longrightarrow> w1 = w)"
  proof (cases "b_used b < 2")
    case True
    have "2 \<le> length (b_data b)" using len by simp
    from buffered_fill_step [OF env w True this] obtain r b' w' where
      s: "buffered_fill env 2 b w = Some (r, b', w')" "same_transport b b'"
      "collected b' @ arriving w' = collected b @ arriving w" "pieces_ok w'" "w \<noteq> [] \<longrightarrow> load w' < load w"
      "r = Some 0 \<and> b_used b' < 2 \<and> b_used b \<le> b_used b' \<or> r = None \<and> b_used b' = 2" by blast
    show ?thesis
      using s True n \<open>w \<noteq> []\<close> by (intro that [of r b' w']) (auto simp: first_def)
  qed (use that [of None b w] u w in \<open>auto simp: first_def same_transport_def\<close>)
  have poll: "buffered_audio_poll env log_packet b sender_ip s w = (case r1 of
        Some r \<Rightarrow> Some (r, b1, s, w1)
      | None \<Rightarrow> do {
          d0 \<leftarrow> rd (b_data b1) 0;
          d1 \<leftarrow> rd (b_data b1) 1;
          let need = unat d0 * 256 + unat d1;
          if need < 38 \<or> need > length (b_data b1) then
            (let (b, w) = buffered_audio_disconnect env b1 w1 in Some (0, b, s, w))
          else do {
            (r, b, w) \<leftarrow> buffered_fill env need b1 w1;
            (case r of
               Some r \<Rightarrow> Some (r, b, s, w)
             | None \<Rightarrow> do {
                 (sq, packet) \<leftarrow> buffered_packet (b_data b) need;
                 let distance = (sq - discard_sequence b) AND 0xffffff;
                 if discarding b \<and> (distance = 0 \<or> distance \<ge> 0x800000)
                 then Some (1, b\<lparr>b_used := 0\<rparr>, s, w)
                 else do {
                   (s, w) \<leftarrow> log_packet packet (s, w);
                   Some (1, b\<lparr>discarding := False, b_used := 0\<rparr>, s, w) } }) } })"
    unfolding buffered_audio_poll_def acc split_conv option.case first_def [symmetric] f bind.bind_lunit by simp
  show ?thesis
  proof (cases r1)
    case (Some r)
    then show ?thesis
      using poll r1 t1 c1 w1 n by (auto simp: waiting_step_def)
  next
    case None
    then have u1: "2 \<le> b_used b1" "b_used b1 < ?n" using r1 by auto
    have len1: "length (b_data b1) = 4098" using t1 len by (simp add: same_transport_def)
    have st1: "collected b1 @ arriving w1 = wire_bytes x @ rest" using c1 st by simp
    have bytes: "rd (b_data b1) 0 = Some (of_nat (?n div 256))" "rd (b_data b1) 1 = Some (of_nat ?n)"
      using collected_nth [OF st1, of 0] collected_nth [OF st1, of 1] u1 len1 n
      by (simp_all add: rd_def) (simp_all add: wire_bytes_def)
    have need: "unat (of_nat (?n div 256) :: u8) * 256 + unat (of_nat ?n :: u8) = ?n"
      using n by (intro length_field) simp
    have rng: "\<not> (?n < 38 \<or> ?n > length (b_data b1))" using n len1 by simp
    from buffered_fill_step [OF env w1(1) u1(2)] n(2) len1 obtain r b2 w2 where
      s: "buffered_fill env ?n b1 w1 = Some (r, b2, w2)" "same_transport b1 b2"
      "collected b2 @ arriving w2 = collected b1 @ arriving w1" "pieces_ok w2" "w1 \<noteq> [] \<longrightarrow> load w2 < load w1"
      "w1 = [] \<longrightarrow> w2 = []"
      "r = Some 0 \<and> b_used b2 < ?n \<and> b_used b1 \<le> b_used b2 \<or> r = None \<and> b_used b2 = ?n" by (metis (no_types, lifting))
    have ld: "load w2 < load w"
      using s(5,6) r1 None w1(2) \<open>w \<noteq> []\<close> by (cases "w1 = []") (auto simp: load_def)
    have tr: "same_transport b b2" using t1 s(2) by (simp add: same_transport_def)
    note poll2 = poll [unfolded None option.case bytes bind.bind_lunit Let_def need if_not_P [OF rng] s(1) split_conv]
    show ?thesis
    proof (cases r)
      case (Some q)
      then show ?thesis
        using poll2 s tr c1 ld by (auto simp: waiting_step_def)
    next
      case None
      have u2: "b_used b2 = ?n" using s(7) None by simp
      have st2: "collected b2 @ arriving w2 = wire_bytes x @ rest" using s(3) st1 by simp
      have "length (collected b2) = ?n" using u2 tr len n by (simp add: collected_def same_transport_def)
      then have whole: "collected b2 = wire_bytes x" "arriving w2 = rest" using st2 by simp_all
      then have "take ?n (b_data b2) = wire_bytes x" using u2 by (simp add: collected_def)
      note pk = buffered_packet_wire [OF x this]
      show ?thesis
        using poll2 None pk whole(2) s(4) ld tr
        by (auto simp: log_packet_def record_step_def before_seek_def same_transport_def Let_def)
    qed
  qed
qed

text \<open>Polls one after the other, with the packets that they deliver.\<close>

fun poll_times ::
  "(tcp_item list, 'm) env_scheme \<Rightarrow> nat \<Rightarrow> buffered_audio \<Rightarrow> string \<Rightarrow> rtp_packet list \<Rightarrow> tcp_item list
     \<Rightarrow> (buffered_audio \<times> rtp_packet list \<times> tcp_item list) option" where
  "poll_times env 0 b sender_ip s w = Some (b, s, w)"
| "poll_times env (Suc k) b sender_ip s w = do {
     (r, b, s, w) \<leftarrow> buffered_audio_poll env log_packet b sender_ip s w;
     poll_times env k b sender_ip s w }"

definition delivered :: "buffered_audio \<Rightarrow> wire_record list \<Rightarrow> rtp_packet list" where
  "delivered b xs = map wire_packet (if discarding b then dropWhile (before_seek (discard_sequence b)) xs else xs)"

lemma poll_idle:
  assumes "scripted env" and "collecting b" and "b_used b = 0" and "pieces_ok w" and "arriving w = []"
  shows "buffered_audio_poll env log_packet b sender_ip s w = Some (0, b, s, tl w)"
proof -
  have "w = [] \<or> (\<exists>w1. w = Pause # w1)"
    using assms(4,5) by (cases w rule: arriving.cases) (auto simp: pieces_ok_def)
  then have "script_receive 2 w = (Receive_Timeout, tl w)" by auto
  then show ?thesis
    using assms(1-3)
    by (simp add: buffered_audio_poll_def buffered_accept_def collecting_def buffered_fill_def scripted_def)
qed

lemma poll_times_stream:
  assumes env: "scripted env"
  shows "collecting b \<Longrightarrow> pieces_ok w \<Longrightarrow> list_all wire_ok xs \<Longrightarrow> load w \<le> k \<Longrightarrow>
    collected b @ arriving w = concat (map wire_bytes xs) \<Longrightarrow>
    (case xs of [] \<Rightarrow> b_used b = 0 | x # _ \<Rightarrow> b_used b < length (wire_bytes x)) \<Longrightarrow>
    \<exists>b'. poll_times env k b sender_ip s w = Some (b', s @ delivered b xs, []) \<and> collecting b' \<and> b_used b' = 0"
proof (induction k arbitrary: b w xs s)
  case 0
  have w: "w = []" using "0.prems"(4) by (simp add: load_def)
  have "xs = []"
  proof (cases xs)
    case (Cons x ys)
    have "length (collected b) \<ge> length (wire_bytes x)"
      using arg_cong [OF "0.prems"(5), of length] w Cons by simp
    then show ?thesis using "0.prems"(6) Cons by (simp add: collected_def)
  qed simp
  then show ?case using 0 w by (simp add: delivered_def)
next
  case (Suc k)
  show ?case
  proof (cases xs)
    case Nil
    have used: "b_used b = 0" and "collected b = []" "arriving w = []" using Suc.prems Nil by auto
    have p: "buffered_audio_poll env log_packet b sender_ip s w = Some (0, b, s, tl w)"
      using poll_idle [OF env Suc.prems(1) used Suc.prems(2) \<open>arriving w = []\<close>] .
    have tl: "pieces_ok (tl w)" "arriving (tl w) = []" "load (tl w) \<le> k"
      using Suc.prems(2,4) \<open>arriving w = []\<close>
      by (cases w rule: arriving.cases; auto simp: pieces_ok_def load_def)+
    then show ?thesis
      using Suc.IH [of b "tl w" "[]" s] Suc.prems p Nil used by (simp add: collected_def)
  next
    case (Cons x ys)
    have x: "wire_ok x" "list_all wire_ok ys" "b_used b < length (wire_bytes x)"
      "collected b @ arriving w = wire_bytes x @ concat (map wire_bytes ys)"
      using Suc.prems Cons by auto
    obtain r b' s' w' where p: "buffered_audio_poll env log_packet b sender_ip s w = Some (r, b', s', w')"
      and w': "pieces_ok w'" "load w' < load w"
      and st: "s' = s \<and> waiting_step b w x b' w' \<or> record_step b s x (concat (map wire_bytes ys)) b' s' w'"
      using poll_step [OF env Suc.prems(1,2) x(1,4,3)] by blast
    have k: "load w' \<le> k" using w'(2) Suc.prems(4) by simp
    show ?thesis
      using st
    proof
      assume a: "s' = s \<and> waiting_step b w x b' w'"
      then have b': "collecting b'" "collected b' @ arriving w' = concat (map wire_bytes xs)"
        "b_used b' < length (wire_bytes x)" "delivered b' xs = delivered b xs"
        using Suc.prems(1,5) by (auto simp: waiting_step_def same_transport_def collecting_def delivered_def)
      show ?thesis
        using Suc.IH [OF b'(1) w'(1) Suc.prems(3) k b'(2), of s] b'(3,4) Cons p a by simp
    next
      assume a: "record_step b s x (concat (map wire_bytes ys)) b' s' w'"
      then have b': "collecting b'" "collected b' @ arriving w' = concat (map wire_bytes ys)"
        "case ys of [] \<Rightarrow> b_used b' = 0 | y # _ \<Rightarrow> b_used b' < length (wire_bytes y)"
        using Suc.prems(1) by (auto simp: record_step_def collecting_def collected_def split: list.split)
      have "s' @ delivered b' ys = s @ delivered b xs"
        using a Cons by (auto simp: record_step_def delivered_def split: if_splits)
      then show ?thesis
        using Suc.IH [OF b'(1) w'(1) x(2) k b'(2,3), of s'] p by simp
    qed
  qed
qed

text \<open>
  C12: buffered records over TCP.  However TCP cuts a stream of records into pieces, and with pauses
  anywhere, enough polls hand over the packets of the records, each once, complete and in order, or
  after a seek those from the first record past the boundary on; they never reach outside the record
  buffer and end with nothing collected.
\<close>

theorem buffered_audio_stream:
  assumes "scripted env" and "collecting b" and "b_used b = 0" and "pieces_ok w" and "list_all wire_ok xs"
    and "arriving w = concat (map wire_bytes xs)" and "load w \<le> k"
  shows "\<exists>b'. poll_times env k b sender_ip [] w =
      Some (b', map wire_packet (if discarding b then dropWhile (before_seek (discard_sequence b)) xs else xs), []) \<and>
    collecting b' \<and> b_used b' = 0"
proof -
  have "case xs of [] \<Rightarrow> b_used b = 0 | x # _ \<Rightarrow> b_used b < length (wire_bytes x)"
    using assms(3) by (simp split: list.split)
  moreover have "collected b @ arriving w = concat (map wire_bytes xs)"
    using assms(3,6) by (simp add: collected_def)
  ultimately show ?thesis
    using poll_times_stream [OF assms(1,2,4,5,7), of sender_ip "[]"] by (simp add: delivered_def)
qed

definition script_env :: "tcp_item list env" where
  "script_env =
     \<lparr>send_all = \<lambda>so b w. (True, w), receive_from = \<lambda>so n w. script_receive n w,
      accept_on = \<lambda>so w. (Accept_Timeout, w), listen_on = \<lambda>a p w. (None, w),
      wait_ready = \<lambda>ss t w. (None, w), close_socket = \<lambda>so w. w, entropy = \<lambda>w. ((False, None), w),
      pair_primitives = toy, challenge = \<lambda>ch a m w. (None, w), scan_float = \<lambda>s. (0, None),
      show_volume = \<lambda>v. [], libc = \<lparr>wide_unsigned = of_int, wide_signed = of_int, char_signed = False\<rparr>\<rparr>"

definition sample_record :: "u32 \<Rightarrow> wire_record" where
  "sample_record n = \<lparr>w_version = 0x80, w_sequence = n, w_timestamp = 352 * n, w_ssrc = 1, w_payload = replicate 24 7\<rparr>"

definition seeking :: buffered_audio where
  "seeking = buffered_audio_flush (buffered_audio_init\<lparr>b_client := \<lparr>handle = Some 5, socket_port = 0\<rparr>\<rparr>) 6"

theorem buffered_audio_stream_witness:
  "\<exists>b'. poll_times script_env 80 seeking ''10.0.0.2'' []
       [Segment (wire_bytes (sample_record 6) @ [0]), Pause, Segment (tl (wire_bytes (sample_record 7)))] =
     Some (b', [wire_packet (sample_record 7)], []) \<and> b_used b' = 0"
proof -
  let ?w = "[Segment (wire_bytes (sample_record 6) @ [0]), Pause, Segment (tl (wire_bytes (sample_record 7)))]"
  have seven: "wire_bytes (sample_record 7) = 0 # tl (wire_bytes (sample_record 7))"
    by (simp add: wire_bytes_def sample_record_def)
  have len: "length (w_payload (sample_record n)) = 24" for n by (simp add: sample_record_def)
  have sc: "scripted script_env" by (simp add: scripted_def script_env_def)
  have co: "collecting seeking" "b_used seeking = 0" "discarding seeking" "discard_sequence seeking = 6"
    by (simp_all add: collecting_def seeking_def buffered_audio_flush_def buffered_audio_init_def rtp_buffer_size_def)
  have w: "pieces_ok ?w"
    using arg_cong [OF seven, of length] by (auto simp: pieces_ok_def len dest: arg_cong [of _ _ length])
  have ok: "list_all wire_ok [sample_record 6, sample_record 7]"
    by (simp add: wire_ok_def sample_record_def)
  have ar: "arriving ?w = concat (map wire_bytes [sample_record 6, sample_record 7])"
    using seven by simp
  have ld: "load ?w \<le> 80" by (simp add: load_def len)
  have "before_seek 6 (sample_record 6)" "\<not> before_seek 6 (sample_record 7)"
    by (simp_all add: before_seek_def sample_record_def word_le_nat_alt)
  then show ?thesis
    using buffered_audio_stream [OF sc co(1,2) w ok ar ld, of "''10.0.0.2''"] co(3,4) by auto
qed

end
