(* ===== verification/Audio_Decode.thy ===== *)
theory Audio_Decode
  imports Buffered_Audio Playout Ntp_Sync Alac_Decoder
begin

section \<open>Decoding audio packets\<close>

text \<open>
  The packet decryption of \<open>src/shared/crypto/crypto.c\<close>, the adapter to the AAC library of
  \<open>src/shared/codec/aac_decoder.c\<close> and the decoding functions of \<open>src/shared/audio/audio_pipeline.c\<close>.
  A sample is a 16-bit word.  The cryptographic primitives, the AAC library and the platform are
  fields of the environment, which extends the one of \<open>Rtsp_State\<close>.
\<close>

type_synonym i16 = "16 word"

text \<open>
  \<open>udp_wait\<close> is the result of \<open>net_wait\<close> on the RTP sockets, which are ready and what their receives
  return, and \<open>ptp_receives\<close> the same for the two PTP sockets; \<open>play\<close> is the output callback, when
  there is one, and \<open>output_delay\<close> the other; \<open>aes_cbc\<close> decrypts with a key and a start vector;
  \<open>rsa_plain\<close> is the text that the embedded RSA key decrypts.  A decoder of the AAC library is a
  number; \<open>aac_frame\<close> gives the samples that the library stores and whether it succeeds, \<open>aac_info\<close>
  the channels and the frame size it reports.  \<open>linear_volume\<close> is \<open>powf(10, v / 20)\<close> and \<open>scaled\<close> the
  product of a sample with it, as converted back to an integer.
\<close>

record 'w audio_env = "'w env" +
  clock :: "'w \<Rightarrow> u64 \<times> 'w"
  udp_bind :: "'w \<Rightarrow> (sock \<Rightarrow> u16 \<Rightarrow> bool) \<times> 'w"
  udp_send :: "buf \<Rightarrow> net_addr \<Rightarrow> 'w \<Rightarrow> 'w"
  udp_wait :: "int \<Rightarrow> 'w \<Rightarrow> (int \<times> (sock \<Rightarrow> bool) \<times> (sock \<Rightarrow> udp_recv list)) \<times> 'w"
  ptp_bind :: "'w \<Rightarrow> ((nat \<Rightarrow> bool) \<times> (nat \<Rightarrow> string \<Rightarrow> bool)) \<times> 'w"
  ptp_receives :: "'w \<Rightarrow> ((udp_recv \<times> u64) list \<times> (udp_recv \<times> u64) list) \<times> 'w"
  play :: "(i16 list \<Rightarrow> 'w \<Rightarrow> 'w) option"
  output_delay :: "('w \<Rightarrow> int \<times> 'w) option"
  aes_cbc :: "buf \<Rightarrow> buf \<Rightarrow> buf \<Rightarrow> buf option"
  rsa_plain :: "buf \<Rightarrow> 'w \<Rightarrow> buf option \<times> 'w"
  aac_open :: "'w \<Rightarrow> nat option \<times> 'w"
  aac_configure :: "nat \<Rightarrow> buf \<Rightarrow> 'w \<Rightarrow> bool \<times> 'w"
  aac_fill :: "nat \<Rightarrow> buf \<Rightarrow> 'w \<Rightarrow> bool \<times> 'w"
  aac_frame :: "nat \<Rightarrow> nat \<Rightarrow> 'w \<Rightarrow> (bool \<times> i16 list) \<times> 'w"
  aac_info :: "nat \<Rightarrow> 'w \<Rightarrow> (int \<times> int) option"
  aac_close :: "nat \<Rightarrow> 'w \<Rightarrow> 'w"
  linear_volume :: "rat \<Rightarrow> rat"
  scaled :: "rat \<Rightarrow> i16 \<Rightarrow> i16"

subsection \<open>Decryption\<close>

record crypto_aes =
  cbc_key :: buf
  cbc_iv :: buf
  cbc_state :: buf

definition crypto_aes_zero :: crypto_aes where
  "crypto_aes_zero = \<lparr>cbc_key = replicate 16 0, cbc_iv = replicate 16 0, cbc_state = replicate 16 0\<rparr>"

definition crypto_aes_init :: "buf \<Rightarrow> buf \<Rightarrow> crypto_aes" where
  "crypto_aes_init key iv = \<lparr>cbc_key = take 16 key, cbc_iv = take 16 iv, cbc_state = take 16 iv\<rparr>"

definition crypto_aes_decrypt :: "'w audio_env \<Rightarrow> crypto_aes \<Rightarrow> buf \<Rightarrow> buf option" where
  "crypto_aes_decrypt env c data =
     (if length data mod 16 \<noteq> 0 then None else aes_cbc env (cbc_key c) (cbc_iv c) data)"

definition crypto_rsa_decrypt_aes_key :: "'w audio_env \<Rightarrow> buf \<Rightarrow> 'w \<Rightarrow> buf option \<times> 'w" where
  "crypto_rsa_decrypt_aes_key env encrypted_key w =
     (if encrypted_key = [] then (None, w)
      else
        (case rsa_plain env encrypted_key w of
           (None, w) \<Rightarrow> (None, w)
         | (Some out, w) \<Rightarrow> if length out < 16 then (None, w) else (Some (take 16 out), w)))"

text \<open>The payload ends with a tag of 16 bytes and eight bytes of the nonce.\<close>

definition crypto_airplay2_decrypt_rtp ::
  "'w audio_env \<Rightarrow> buf \<Rightarrow> buf \<Rightarrow> nat \<Rightarrow> nat \<Rightarrow> nat \<Rightarrow> buf ret option" where
  "crypto_airplay2_decrypt_rtp env key full payload_offset payload_len capacity =
     (if length full < 12 \<or> payload_offset > length full \<or> payload_len > length full - payload_offset \<or>
         payload_len < 24
      then fail
      else
        let n = payload_len - 8 in
        if n < 16 \<or> n - 16 > capacity then fail
        else do {
          nonce \<leftarrow> rd_range full (payload_offset + n) 8;
          tag \<leftarrow> rd_range full (payload_offset + n - 16) 16;
          aad \<leftarrow> rd_range full 4 8;
          cipher \<leftarrow> rd_range full payload_offset (n - 16);
          (case unseal (pair_primitives env) key (replicate 4 0 @ nonce) aad tag cipher of
             None \<Rightarrow> fail
           | Some msg \<Rightarrow> ok msg) })"

subsection \<open>The AAC adapter\<close>

record aac_decoder =
  aac_impl :: "nat option"
  aac_channels :: u8
  aac_rate :: u32

definition aac_decoder_zero :: aac_decoder where
  "aac_decoder_zero = \<lparr>aac_impl = None, aac_channels = 0, aac_rate = 0\<rparr>"

definition aac_decoder_init ::
  "'w audio_env \<Rightarrow> aac_decoder \<Rightarrow> buf \<Rightarrow> u8 \<Rightarrow> u32 \<Rightarrow> 'w \<Rightarrow> bool \<times> aac_decoder \<times> 'w" where
  "aac_decoder_init env d config chans rate w =
     (if chans = 0 \<or> chans > 2 \<or> rate = 0 then (False, d, w)
      else
        let d = \<lparr>aac_impl = None, aac_channels = chans, aac_rate = rate\<rparr> in
        (case aac_open env w of
           (None, w) \<Rightarrow> (False, d, w)
         | (Some h, w) \<Rightarrow>
             let (good, w) = (if config \<noteq> [] then aac_configure env h config w else (True, w)) in
             if \<not> good then (False, d, aac_close env h w)
             else (True, d\<lparr>aac_impl := Some h\<rparr>, w)))"

text \<open>
  \<open>out\<close> is the output buffer from position \<open>p\<close> with room for \<open>capacity\<close> samples.  The result is the
  value of \<open>*output_samples\<close> where the C function returns 0.
\<close>

definition aac_decoder_decode ::
  "'w audio_env \<Rightarrow> aac_decoder \<Rightarrow> buf \<Rightarrow> i16 list \<Rightarrow> nat \<Rightarrow> nat \<Rightarrow> 'w
     \<Rightarrow> (nat option \<times> i16 list \<times> 'w) option" where
  "aac_decoder_decode env d inp out p capacity w =
     (case aac_impl d of
        None \<Rightarrow> Some (None, out, w)
      | Some h \<Rightarrow>
          if inp = [] \<or> capacity > 2147483647 then Some (None, out, w)
          else
            let (filled, w) = aac_fill env h inp w in
            if \<not> filled then Some (None, out, w)
            else
              let ((decoded, stored), w) = aac_frame env h capacity w in do {
                out \<leftarrow> wr_range out p stored;
                Some (if \<not> decoded then None
                      else
                        (case aac_info env h w of
                           None \<Rightarrow> None
                         | Some (chans, frame) \<Rightarrow>
                             if chans \<le> 0 \<or> chans > 2 \<or> chans \<noteq> uint (aac_channels d) \<or> frame \<le> 0 then None
                             else if nat (frame * chans) > capacity then None
                             else Some (nat (frame * chans))), out, w) })"

definition aac_decoder_close :: "'w audio_env \<Rightarrow> aac_decoder \<Rightarrow> 'w \<Rightarrow> aac_decoder \<times> 'w" where
  "aac_decoder_close env d w =
     (aac_decoder_zero, case aac_impl d of None \<Rightarrow> w | Some h \<Rightarrow> aac_close env h w)"

subsection \<open>The pipeline's decoder state\<close>

definition max_audio_buffer_samples :: nat where "max_audio_buffer_samples = 2048"

text \<open>What the decoding functions use of the pipeline, with the pool of ALAC contexts.\<close>

record decoders =
  the_session :: sdp_session
  alac :: alac_decoder
  alac_pool :: alac_pool
  aac :: aac_decoder
  aes :: crypto_aes
  audio_buffer :: "i16 list"

text \<open>The whole 16-byte blocks are encrypted, the bytes behind them are not.\<close>

definition decrypt_payload :: "'w audio_env \<Rightarrow> decoders \<Rightarrow> buf \<Rightarrow> buf option" where
  "decrypt_payload env d p =
     (let n = length p div 16 * 16 in
      if length p > rtp_buffer_size then None
      else map_option (\<lambda>msg. msg @ drop n p) (crypto_aes_decrypt env (aes d) (take n p)))"

text \<open>The samples of a buffer as bytes, in the order of a little-endian machine, and back.\<close>

definition sample_bytes :: "i16 list \<Rightarrow> buf" where
  "sample_bytes xs = concat (map (\<lambda>x. [ucast x, ucast (drop_bit 8 x)]) xs)"

fun bytes_samples :: "buf \<Rightarrow> i16 list" where
  "bytes_samples (a # b # bs) = (push_bit 8 (ucast b) OR ucast a) # bytes_samples bs"
| "bytes_samples _ = []"

text \<open>
  The decoding functions give the number of decoded samples, or none where the C function returns
  -1; the outer option is an access outside a buffer or other undefined behaviour.
\<close>

definition audio_pipeline_decode_alac ::
  "'w audio_env \<Rightarrow> decoders \<Rightarrow> buf \<Rightarrow> (nat option \<times> decoders) option" where
  "audio_pipeline_decode_alac env d p =
     (case (if has_encryption (the_session d) \<and> length p \<ge> 16 then decrypt_payload env d p else Some p) of
        None \<Rightarrow> Some (None, d)
      | Some inp \<Rightarrow>
          if frame_length (alac d) = 0 then Some (None, d)
          else do {
            ((code, n), out, pool) \<leftarrow> alac_decoder_decode_frame (alac d) (alac_pool d) inp
              (sample_bytes (audio_buffer d)) max_audio_buffer_samples;
            let d = d\<lparr>alac_pool := pool, audio_buffer := bytes_samples out\<rparr>;
            Some (if code < 0 then None else Some (case n of None \<Rightarrow> 0 | Some n \<Rightarrow> n), d) })"

fun pcm_loop :: "buf \<Rightarrow> i16 list \<Rightarrow> nat \<Rightarrow> nat \<Rightarrow> i16 list option" where
  "pcm_loop inp out i 0 = Some out"
| "pcm_loop inp out i (Suc n) = do {
     hi \<leftarrow> rd inp (i * 2);
     lo \<leftarrow> rd inp (i * 2 + 1);
     out \<leftarrow> wr out i (push_bit 8 (ucast hi) OR ucast lo);
     pcm_loop inp out (Suc i) n }"

definition audio_pipeline_decode_pcm ::
  "'w audio_env \<Rightarrow> decoders \<Rightarrow> buf \<Rightarrow> (nat option \<times> decoders) option" where
  "audio_pipeline_decode_pcm env d p =
     (if session_channels (the_session d) = 0 \<or> length p mod (2 * unat (session_channels (the_session d))) \<noteq> 0
      then Some (None, d)
      else
        (case (if has_encryption (the_session d) \<and> length p \<ge> 16 then decrypt_payload env d p else Some p) of
           None \<Rightarrow> Some (None, d)
         | Some inp \<Rightarrow>
             let n = min (length p div 2) max_audio_buffer_samples in do {
               out \<leftarrow> pcm_loop inp (audio_buffer d) 0 n;
               Some (Some n, d\<lparr>audio_buffer := out\<rparr>) }))"

text \<open>\<open>data\<close> is a bit string of \<open>bits\<close> bits; the result is the value and the new position.\<close>

fun bits_loop :: "buf \<Rightarrow> nat \<Rightarrow> nat \<Rightarrow> u32 \<Rightarrow> u32 option" where
  "bits_loop data bitpos 0 v = Some v"
| "bits_loop data bitpos (Suc n) v = do {
     x \<leftarrow> rd data (bitpos div 8);
     bits_loop data (Suc bitpos) n (push_bit 1 v OR (ucast (drop_bit (7 - bitpos mod 8) x) AND 1)) }"

definition audio_pipeline_read_bits :: "buf \<Rightarrow> nat \<Rightarrow> nat \<Rightarrow> nat \<Rightarrow> (u32 \<times> nat) ret option" where
  "audio_pipeline_read_bits data bits bitpos n =
     (if n > 24 \<or> bitpos > bits \<or> n > bits - bitpos then fail
      else do { v \<leftarrow> bits_loop data bitpos n 0; ok (v, bitpos + n) })"

text \<open>
  The loop over the access units of a RAOP packet: \<open>hdrs\<close> are the \<open>bits\<close> bits of their hdrs,
  \<open>frms\<close> the bytes of their frames.  The result is the state after it, with the two offsets, or none
  where the function returns -1.
\<close>

record aac_position =
  bit_offset :: nat
  frame_offset :: nat
  output_offset :: nat

lemma bits_loop_0: "audio_pipeline_read_bits data bits bitpos n = ok (v, bitpos') \<Longrightarrow>
    bitpos' = bitpos + n \<and> bitpos' \<le> bits \<and> (n = 0 \<longrightarrow> v = 0)"
  by (cases n) (auto simp: audio_pipeline_read_bits_def bind_eq_Some_conv split: if_splits)

text \<open>One access unit.\<close>

definition aac_unit ::
  "'w audio_env \<Rightarrow> decoders \<Rightarrow> buf \<Rightarrow> nat \<Rightarrow> buf \<Rightarrow> aac_position \<Rightarrow> i16 list \<Rightarrow> 'w
     \<Rightarrow> (aac_position option \<times> i16 list \<times> 'w) option" where
  "aac_unit env d hdrs bits frms pos out w = do {
     sz \<leftarrow> audio_pipeline_read_bits hdrs bits (bit_offset pos) (unat (aac_size_length (the_session d)));
     (case sz of
        Inl _ \<Rightarrow> Some (None, out, w)
      | Inr (fsize, bitpos) \<Rightarrow> do {
          ix \<leftarrow> audio_pipeline_read_bits hdrs bits bitpos (unat (aac_index_length (the_session d)));
          (case ix of
             Inl _ \<Rightarrow> Some (None, out, w)
           | Inr (_, bitpos) \<Rightarrow>
               if unat fsize > length frms - frame_offset pos \<or> output_offset pos \<ge> max_audio_buffer_samples
               then Some (None, out, w)
               else do {
                 frame \<leftarrow> rd_range frms (frame_offset pos) (unat fsize);
                 (n, out, w) \<leftarrow> aac_decoder_decode env (aac d) frame out (output_offset pos)
                   (max_audio_buffer_samples - output_offset pos) w;
                 (case n of
                    None \<Rightarrow> Some (None, out, w)
                  | Some n \<Rightarrow> do {
                      delta \<leftarrow> (if bitpos < bits
                               then audio_pipeline_read_bits hdrs bits bitpos
                                 (unat (aac_index_delta_length (the_session d)))
                               else ok (0, bitpos));
                      (case delta of
                         Inl _ \<Rightarrow> Some (None, out, w)
                       | Inr (_, bitpos) \<Rightarrow>
                           Some (Some \<lparr>bit_offset = bitpos, frame_offset = frame_offset pos + unat fsize,
                             output_offset = output_offset pos + n\<rparr>, out, w)) }) }) }) }"

text \<open>What a unit that is decoded has gone through.\<close>

lemma ret_bind_cases:
  "Option.bind m (\<lambda>x. case x of Inl e \<Rightarrow> Some (None, a) | Inr y \<Rightarrow> g y) = Some (Some p, z) \<Longrightarrow>
   \<exists>y. m = ok y \<and> g y = Some (Some p, z)"
  by (cases m rule: ret_cases) auto

lemma aac_unit_Some:
  assumes "aac_unit env d hdrs bits frms pos out w = Some (Some pos', out', w')"
  obtains v o1 v2 o2 frm n w1 v3 o3 where
    "audio_pipeline_read_bits hdrs bits (bit_offset pos) (unat (aac_size_length (the_session d))) = ok (v, o1)"
    "audio_pipeline_read_bits hdrs bits o1 (unat (aac_index_length (the_session d))) = ok (v2, o2)"
    "unat v \<le> length frms - frame_offset pos" "output_offset pos < max_audio_buffer_samples"
    "rd_range frms (frame_offset pos) (unat v) = Some frm"
    "aac_decoder_decode env (aac d) frm out (output_offset pos) (max_audio_buffer_samples - output_offset pos) w =
       Some (Some n, out', w')"
    "(if o2 < bits then audio_pipeline_read_bits hdrs bits o2 (unat (aac_index_delta_length (the_session d)))
      else ok (0, o2)) = ok (v3, o3)"
    "pos' = \<lparr>bit_offset = o3, frame_offset = frame_offset pos + unat v, output_offset = output_offset pos + n\<rparr>"
proof -
  note a = assms [unfolded aac_unit_def]
  obtain y1 where 1: "audio_pipeline_read_bits hdrs bits (bit_offset pos) (unat (aac_size_length (the_session d))) = ok y1"
    using ret_bind_cases [OF a] by blast
  obtain v o1 where y1: "y1 = (v, o1)" by fastforce
  note a = a [unfolded 1 y1 bind.bind_lunit sum.case split_conv]
  obtain y2 where 2: "audio_pipeline_read_bits hdrs bits o1 (unat (aac_index_length (the_session d))) = ok y2"
    using ret_bind_cases [OF a] by blast
  obtain v2 o2 where y2: "y2 = (v2, o2)" by fastforce
  note a = a [unfolded 2 y2 bind.bind_lunit sum.case split_conv]
  have 3: "unat v \<le> length frms - frame_offset pos" "output_offset pos < max_audio_buffer_samples"
    using a by (auto split: if_splits)
  then have "\<not> (unat v > length frms - frame_offset pos \<or> output_offset pos \<ge> max_audio_buffer_samples)" by simp
  note a = a [unfolded if_not_P [OF this]]
  obtain frm where 4: "rd_range frms (frame_offset pos) (unat v) = Some frm" using a by (auto simp: bind_eq_Some_conv)
  obtain n out1 w1 where 5: "aac_decoder_decode env (aac d) frm out (output_offset pos)
      (max_audio_buffer_samples - output_offset pos) w = Some (Some n, out1, w1)"
    using a by (auto simp: 4 bind_eq_Some_conv split: option.splits)
  note a = a [unfolded 4 5 bind.bind_lunit option.case split_conv]
  obtain y3 where 6: "(if o2 < bits then audio_pipeline_read_bits hdrs bits o2 (unat (aac_index_delta_length (the_session d)))
      else ok (0, o2)) = ok y3"
    using ret_bind_cases [OF a] by blast
  obtain v3 o3 where y3: "y3 = (v3, o3)" by fastforce
  note a = a [unfolded 6 y3 bind.bind_lunit sum.case split_conv]
  show ?thesis
    using that [of v o1 v2 o2 frm n v3 o3] 1 2 3 4 5 6 a y1 y2 y3 by auto
qed

text \<open>A unit consumes header bits: a size field of no bits announces an empty frame, which is refused.\<close>

lemma aac_unit_offset:
  assumes "aac_unit env d hdrs bits frms pos out w = Some (Some pos', out', w')"
  shows "bit_offset pos < bit_offset pos' \<and> bit_offset pos' \<le> bits"
proof (rule aac_unit_Some [OF assms])
  fix v o1 v2 o2 frm n w1 v3 o3
  assume 1: "audio_pipeline_read_bits hdrs bits (bit_offset pos) (unat (aac_size_length (the_session d))) = ok (v, o1)"
    and 2: "audio_pipeline_read_bits hdrs bits o1 (unat (aac_index_length (the_session d))) = ok (v2, o2)"
    and 3: "rd_range frms (frame_offset pos) (unat v) = Some frm"
      "aac_decoder_decode env (aac d) frm out (output_offset pos) (max_audio_buffer_samples - output_offset pos) w =
       Some (Some n, out', w')"
    and 4: "(if o2 < bits then audio_pipeline_read_bits hdrs bits o2 (unat (aac_index_delta_length (the_session d)))
      else ok (0, o2)) = ok (v3, o3)"
    and pos': "pos' = \<lparr>bit_offset = o3, frame_offset = frame_offset pos + unat v, output_offset = output_offset pos + n\<rparr>"
  have "frm \<noteq> []" using 3(2) by (auto simp: aac_decoder_decode_def split: option.splits)
  then have "v \<noteq> 0" using 3(1) by (auto simp: rd_range_def split: if_splits)
  then have o2: "bit_offset pos < o2" "o2 \<le> bits" using bits_loop_0 [OF 1] bits_loop_0 [OF 2] by auto
  have "o2 \<le> o3 \<and> o3 \<le> bits"
  proof (cases "o2 < bits")
    case True
    with 4 have "audio_pipeline_read_bits hdrs bits o2 (unat (aac_index_delta_length (the_session d))) = ok (v3, o3)" by simp
    from bits_loop_0 [OF this] show ?thesis by simp
  qed (use 4 o2 in auto)
  with o2 pos' show ?thesis by simp
qed

function aac_units ::
  "'w audio_env \<Rightarrow> decoders \<Rightarrow> buf \<Rightarrow> nat \<Rightarrow> buf \<Rightarrow> aac_position \<Rightarrow> i16 list \<Rightarrow> 'w
     \<Rightarrow> (aac_position option \<times> i16 list \<times> 'w) option" where
  "aac_units env d hdrs bits frms pos out w =
     (if bit_offset pos \<ge> bits then Some (Some pos, out, w)
      else
        (case aac_unit env d hdrs bits frms pos out w of
           None \<Rightarrow> None
         | Some (None, out, w) \<Rightarrow> Some (None, out, w)
         | Some (Some pos', out', w') \<Rightarrow> aac_units env d hdrs bits frms pos' out' w'))"
  by pat_completeness auto
termination
  by (relation "measure (\<lambda>(env, d, hdrs, bits, frms, pos, out, w). bits - bit_offset pos)")
    (auto dest!: aac_unit_offset)

declare aac_units.simps [simp del]

definition audio_pipeline_decode_aac ::
  "'w audio_env \<Rightarrow> decoders \<Rightarrow> buf \<Rightarrow> 'w \<Rightarrow> (nat option \<times> decoders \<times> 'w) option" where
  "audio_pipeline_decode_aac env d p w =
     (if length p < 2 \<or> aac_impl (aac d) = None then Some (None, d, w)
      else if stream_type (the_session d) \<noteq> 0 then do {
        (n, out, w) \<leftarrow> aac_decoder_decode env (aac d) p (audio_buffer d) 0 max_audio_buffer_samples w;
        Some (n, d\<lparr>audio_buffer := out\<rparr>, w) }
      else
        (case (if has_encryption (the_session d) then decrypt_payload env d p else Some p) of
           None \<Rightarrow> Some (None, d, w)
         | Some inp \<Rightarrow> do {
             hi \<leftarrow> rd inp 0;
             lo \<leftarrow> rd inp 1;
             let bits = unat hi * 256 + unat lo;
             let n = (bits + 7) div 8;
             if bits = 0 \<or> n > length p - 2 then Some (None, d, w)
             else do {
               hdrs \<leftarrow> rd_range inp 2 n;
               frms \<leftarrow> rd_range inp (2 + n) (length p - 2 - n);
               (pos, out, w) \<leftarrow> aac_units env d hdrs bits frms
                 \<lparr>bit_offset = 0, frame_offset = 0, output_offset = 0\<rparr> (audio_buffer d) w;
               let d = d\<lparr>audio_buffer := out\<rparr>;
               Some (case pos of
                   None \<Rightarrow> None
                 | Some pos \<Rightarrow>
                     if frame_offset pos \<noteq> length frms \<or> output_offset pos = 0 then None
                     else Some (output_offset pos), d, w) } }))"

end
