(* ===== verification/Audio_Pipeline.thy ===== *)
theory Audio_Pipeline
  imports Audio_Decode
begin

section \<open>The audio pipeline: \<open>src/shared/audio/audio_pipeline.c\<close>\<close>

text \<open>
  Receiving, authenticating, ordering, scheduling and decoding of audio packets.  The callbacks of
  the RTP receiver work on the pipeline and the world; the outer option of every operation is
  undefined behaviour.  The receiver of \<open>Rtp\<close>, the transport of \<open>Buffered_Audio\<close>, the queue of
  \<open>Playout\<close> and the two clocks of \<open>Ntp_Sync\<close> and \<open>Ptp_Sync\<close> are parts of the pipeline's state.
  A clock that a callee reads only on some branches is read before the call.  Logging is left out,
  and with it the counters that only throttle it.
\<close>

datatype pipeline_state = STOPPED | READY | PLAYING

record pipeline =
  receiver :: rtp_receiver
  decs :: decoders
  playback :: pipeline_state
  pipeline_volume_db :: rat
  volume_linear :: rat
  ntp :: ntp_sync
  ntp_initialized :: bool
  queue :: playout
  raop_peer :: net_addr
  first_arrival_us :: u64
  first_timestamp :: u32
  queue_overflows :: u32
  late_packets :: u32
  nonzero_packets :: u32
  fallback_logged :: bool
  ptp :: ptp_sync
  ptp_anchor :: airplay_anchor
  buffered :: buffered_audio
  ptp_ip :: string
  last_sequence :: u16
  packets_received :: u32
  packets_lost :: u32
  decode_errors :: u32
  decoded_packets :: u32
  configured :: bool

abbreviation pipeline_session :: "pipeline \<Rightarrow> sdp_session" where
  "pipeline_session p \<equiv> the_session (decs p)"

subsection \<open>Decoding a packet\<close>

definition decode_payload ::
  "'w audio_env \<Rightarrow> sdp_codec \<Rightarrow> decoders \<Rightarrow> buf \<Rightarrow> 'w \<Rightarrow> (nat option \<times> decoders \<times> 'w) option" where
  "decode_payload env kind d b w =
     (case kind of
        CODEC_ALAC \<Rightarrow> do { (n, d) \<leftarrow> audio_pipeline_decode_alac env d b; Some (n, d, w) }
      | CODEC_PCM \<Rightarrow> do { (n, d) \<leftarrow> audio_pipeline_decode_pcm env d b; Some (n, d, w) }
      | CODEC_AAC \<Rightarrow> audio_pipeline_decode_aac env d b w
      | CODEC_UNKNOWN \<Rightarrow> Some (None, d, w))"

text \<open>The sequence numbers: only a jump ahead counts as loss.\<close>

definition track_sequence :: "pipeline \<Rightarrow> u16 \<Rightarrow> pipeline" where
  "track_sequence p sq =
     (let expected = last_sequence p + 1;
          delta = sint (sq - expected);
          p = (if packets_received p > 0 \<and> sq \<noteq> expected \<and> delta > 0
               then p\<lparr>packets_lost := packets_lost p + of_int delta\<rparr> else p) in
      p\<lparr>last_sequence := sq, packets_received := packets_received p + 1\<rparr>)"

text \<open>The output: the volume is applied in place to the decoded samples.\<close>

definition output_samples :: "'w audio_env \<Rightarrow> pipeline \<Rightarrow> nat \<Rightarrow> 'w \<Rightarrow> (pipeline \<times> 'w) option" where
  "output_samples env p n w =
     (case play env of
        None \<Rightarrow> Some (p, w)
      | Some out \<Rightarrow>
          if n = 0 then Some (p, w)
          else do {
            xs \<leftarrow> rd_range (audio_buffer (decs p)) 0 n;
            let p = p\<lparr>nonzero_packets := nonzero_packets p + (if \<exists>x\<in>set xs. x \<noteq> 0 then 1 else 0),
                      decoded_packets := decoded_packets p + 1\<rparr>;
            let ys = map (scaled env (volume_linear p)) xs;
            b \<leftarrow> wr_range (audio_buffer (decs p)) 0 ys;
            Some (p\<lparr>decs := (decs p)\<lparr>audio_buffer := b\<rparr>\<rparr>, out ys w) })"

definition audio_pipeline_decode_packet ::
  "'w audio_env \<Rightarrow> rtp_packet \<Rightarrow> pipeline \<Rightarrow> 'w \<Rightarrow> (pipeline \<times> 'w) option" where
  "audio_pipeline_decode_packet env pk p w =
     (if playback p \<noteq> PLAYING \<or> payload_type (header pk) \<noteq> session_payload_type (pipeline_session p)
      then Some (p, w)
      else do {
        let p = track_sequence p (sequence (header pk));
        let kind = codec (pipeline_session p);
        (n, d, w) \<leftarrow> decode_payload env kind (decs p) (payload pk) w;
        let p = p\<lparr>decs := d\<rparr>;
        (case n of
           None \<Rightarrow>
             Some (if kind = CODEC_ALAC \<or> kind = CODEC_AAC
                   then p\<lparr>decode_errors := decode_errors p + 1\<rparr> else p, w)
         | Some n \<Rightarrow> output_samples env p n w) })"

subsection \<open>The callbacks of the receiver\<close>

text \<open>An AirPlay 2 packet as it is authenticated: timestamp and SSRC are the associated data.\<close>

definition wire_packet_bytes :: "rtp_packet \<Rightarrow> buf" where
  "wire_packet_bytes pk =
     replicate 4 0 @ bytes32 (timestamp (header pk)) @ bytes32 (ssrc (header pk)) @ payload pk"

definition push_packet :: "'w audio_env \<Rightarrow> rtp_packet \<Rightarrow> pipeline \<Rightarrow> 'w \<Rightarrow> (pipeline \<times> 'w) option" where
  "push_packet env pk p w = do {
     (result, q) \<leftarrow> playout_push (queue p) pk;
     let p = p\<lparr>queue := q\<rparr>;
     let p = (if result < 0 then p\<lparr>queue_overflows := queue_overflows p + 1\<rparr> else p);
     if result > 0 \<and> first_arrival_us p = 0 then
       (let (now, w) = clock env w in
        Some (p\<lparr>first_arrival_us := now, first_timestamp := timestamp (header pk)\<rparr>, w))
     else Some (p, w) }"

definition audio_pipeline_on_rtp_audio ::
  "'w audio_env \<Rightarrow> rtp_packet \<Rightarrow> pipeline \<times> 'w \<Rightarrow> (pipeline \<times> 'w) option" where
  "audio_pipeline_on_rtp_audio env pk st =
     (case st of (p, w) \<Rightarrow>
       if playback p \<noteq> PLAYING \<or> payload_type (header pk) \<noteq> session_payload_type (pipeline_session p)
       then Some (p, w)
       else if stream_type (pipeline_session p) = 0 then push_packet env pk p w
       else if length (payload pk) > rtp_buffer_size - 12 then Some (p, w)
       else do {
         msg \<leftarrow> crypto_airplay2_decrypt_rtp env (audio_key (pipeline_session p)) (wire_packet_bytes pk) 12
           (length (payload pk)) rtp_buffer_size;
         (case msg of
            Inl _ \<Rightarrow> Some (p\<lparr>decode_errors := decode_errors p + 1\<rparr>, w)
          | Inr msg \<Rightarrow> push_packet env (pk\<lparr>payload := msg\<rparr>) p w) })"

definition audio_pipeline_on_rtp_control ::
  "buf \<Rightarrow> pipeline \<times> 'w \<Rightarrow> (pipeline \<times> 'w) option" where
  "audio_pipeline_on_rtp_control data st =
     (case st of (p, w) \<Rightarrow>
       let ses = pipeline_session p in
       if stream_type ses = 96 then do {
         a \<leftarrow> ptp_sync_anchor data;
         Some (case a of
             Inl _ \<Rightarrow> p
           | Inr a \<Rightarrow> p\<lparr>ptp_anchor := a, ptp := ptp_sync_set_clock (ptp p) (anchor_clock_id a)\<rparr>, w) }
       else if stream_type ses \<noteq> 0 then Some (p, w)
       else do {
         (result, sync) \<leftarrow> ntp_sync_control (ntp p) data (if session_rate ses \<noteq> 0 then session_rate ses else 44100);
         Some (p\<lparr>ntp := sync\<rparr>, w) })"

text \<open>
  The warning of \<open>ntp_sync_process_packet\<close> about a datagram of one byte prints a byte of the
  receive buffer behind it; it is refused in any case.
\<close>

definition audio_pipeline_on_rtp_timing ::
  "'w audio_env \<Rightarrow> buf \<Rightarrow> net_addr \<Rightarrow> pipeline \<times> 'w \<Rightarrow> (pipeline \<times> 'w) option" where
  "audio_pipeline_on_rtp_timing env data from_peer st =
     (case st of (p, w) \<Rightarrow>
       if \<not> ntp_initialized p then Some (p, w)
       else
         let (now, w) = clock env w; (now', w) = clock env w in do {
           reply \<leftarrow> ntp_sync_reply now now' data;
           (case reply of
              Inr reply \<Rightarrow> Some (p, udp_send env reply from_peer w)
            | Inl _ \<Rightarrow>
                if port from_peer \<noteq> port (raop_peer p) \<or> length data < 2 then Some (p, w)
                else
                  let (now, w) = clock env w in do {
                    (result, sync) \<leftarrow> ntp_sync_process_packet now (ntp p) data;
                    Some (p\<lparr>ntp := sync\<rparr>, w) }) })"

text \<open>The callbacks together, on a state in which an earlier one may have failed.\<close>

definition pipeline_callback ::
  "'w audio_env \<Rightarrow> rtp_event \<Rightarrow> (pipeline \<times> 'w) option \<Rightarrow> (pipeline \<times> 'w) option" where
  "pipeline_callback env e st =
     Option.bind st (case e of
         AudioPacket pk \<Rightarrow> audio_pipeline_on_rtp_audio env pk
       | ControlData data \<Rightarrow> audio_pipeline_on_rtp_control data
       | TimingData data from_peer \<Rightarrow> audio_pipeline_on_rtp_timing env data from_peer)"

subsection \<open>Setting up\<close>

definition decoders_zero :: decoders where
  "decoders_zero =
     \<lparr>the_session = session_zero,
      alac = \<lparr>frame_length = 0, bit_depth = 0, channels = 0, sample_rate = 0, fmtp = [], impl = None\<rparr>,
      alac_pool = replicate ALAC_MAX_CONTEXTS alac_zero, aac = aac_decoder_zero, aes = crypto_aes_zero,
      audio_buffer = replicate max_audio_buffer_samples 0\<rparr>"

definition pipeline_zero :: pipeline where
  "pipeline_zero =
     \<lparr>receiver = \<lparr>open_sockets = [], audio_packet_count = 0, peer_ip = []\<rparr>, decs = decoders_zero,
      playback = STOPPED, pipeline_volume_db = 0, volume_linear = 1, ntp = ntp_sync_init,
      ntp_initialized = False, queue = playout_zero, raop_peer = addr_zero, first_arrival_us = 0,
      first_timestamp = 0, queue_overflows = 0, late_packets = 0, nonzero_packets = 0,
      fallback_logged = False, ptp = ptp_sync_init, ptp_anchor = anchor_zero,
      buffered = buffered_audio_init, ptp_ip = [], last_sequence = 0, packets_received = 0,
      packets_lost = 0, decode_errors = 0, decoded_packets = 0, configured = False\<rparr>"

text \<open>\<open>lip\<close> is the local address, the empty text where there is none.\<close>

definition audio_pipeline_create ::
  "'w audio_env \<Rightarrow> rtp_receiver_config \<Rightarrow> string \<Rightarrow> 'w \<Rightarrow> bool \<times> pipeline \<times> 'w" where
  "audio_pipeline_create env conf lip w =
     (if length lip \<ge> 16 then (False, pipeline_zero, w)
      else
        let p = pipeline_zero\<lparr>ptp_ip := lip, ntp_initialized := True\<rparr>;
            (bind_ok, w) = udp_bind env w in
        (case rtp_receiver_create bind_ok conf of
           (Some e, r) \<Rightarrow> (False, p\<lparr>receiver := r, ntp_initialized := False\<rparr>, w)
         | (None, r) \<Rightarrow>
             (case buffered_audio_open env (buffered p) 6000 w of
                (False, b, w) \<Rightarrow>
                  (False, p\<lparr>receiver := rtp_receiver_close r, buffered := b, ntp_initialized := False\<rparr>, w)
              | (True, b, w) \<Rightarrow> (True, p\<lparr>receiver := r, buffered := b\<rparr>, w))))"

definition audio_pipeline_set_transport ::
  "'w audio_env \<Rightarrow> pipeline \<Rightarrow> net_addr \<Rightarrow> 'w \<Rightarrow> pipeline \<times> 'w" where
  "audio_pipeline_set_transport env p pr w =
     (let (b, w) = buffered_audio_disconnect env (buffered p) w in
      (p\<lparr>buffered := b, raop_peer := pr, receiver := (receiver p)\<lparr>peer_ip := ip pr\<rparr>, ntp := ntp_sync_init\<rparr>, w))"

definition audio_pipeline_set_start :: "pipeline \<Rightarrow> u32 \<Rightarrow> bool \<Rightarrow> pipeline" where
  "audio_pipeline_set_start p ts exclusive =
     p\<lparr>queue := playout_set_floor (queue p) ts exclusive, first_arrival_us := 0\<rparr>"

definition session_supported :: "sdp_session \<Rightarrow> bool" where
  "session_supported s \<longleftrightarrow>
     session_rate s \<noteq> 0 \<and> session_channels s \<noteq> 0 \<and> session_channels s \<le> 2 \<and> bits_per_sample s = 16 \<and>
     frames_per_packet s \<noteq> 0 \<and>
     (codec s = CODEC_AAC \<or> unat (frames_per_packet s) \<le> ALAC_MAX_SAMPLES_PER_FRAME) \<and>
     unat (frames_per_packet s) * unat (session_channels s) \<le> max_audio_buffer_samples"

text \<open>The decoder of the session's codec, on a pipeline whose decoders are closed.\<close>

definition open_decoder :: "'w audio_env \<Rightarrow> sdp_session \<Rightarrow> decoders \<Rightarrow> 'w \<Rightarrow> bool \<times> decoders \<times> 'w" where
  "open_decoder env s d w =
     (let (good, d, w) =
        (if codec (the_session d) = CODEC_AAC then
           (let (good, a, w) = aac_decoder_init env (aac d) (take (aac_config_len s) (aac_config s))
              (ucast (session_channels s)) (session_rate s) w in (good, d\<lparr>aac := a\<rparr>, w))
         else (True, d, w)) in
      if \<not> good then (False, d, w)
      else if codec (the_session d) = CODEC_ALAC \<and> frame_length (alac d) = 0 then
        (let (r, a, pool) = alac_decoder_init (alac_pool d) (take (alac_fmtp_count s) (alac_fmtp s))
           (frames_per_packet s) (ucast (bits_per_sample s)) (ucast (session_channels s)) (session_rate s) in
         (r = 0, d\<lparr>alac := a, alac_pool := pool\<rparr>, w))
      else (True, d, w))"

definition open_cipher :: "'w audio_env \<Rightarrow> sdp_session \<Rightarrow> decoders \<Rightarrow> 'w \<Rightarrow> bool \<times> decoders \<times> 'w" where
  "open_cipher env s d w =
     (if \<not> has_encryption s then (True, d, w)
      else if aes_key_encrypted_len s = 0 then (False, d, w)
      else
        (case crypto_rsa_decrypt_aes_key env (take (aes_key_encrypted_len s) (aes_key_encrypted s)) w of
           (None, w) \<Rightarrow> (False, d, w)
         | (Some key, w) \<Rightarrow> (True, d\<lparr>aes := crypto_aes_init key (aes_iv s)\<rparr>, w)))"

text \<open>
  The decoders are closed and zeroed before the new session is copied; a session without a codec is
  taken for ALAC.
\<close>

definition reset_decoders :: "'w audio_env \<Rightarrow> sdp_session \<Rightarrow> decoders \<Rightarrow> 'w \<Rightarrow> decoders \<times> 'w" where
  "reset_decoders env s d w =
     (let (_, pool) = alac_decoder_close (alac d) (alac_pool d);
          (a, w) = aac_decoder_close env (aac d) w in
      (d\<lparr>the_session := s\<lparr>codec := (if codec s = CODEC_UNKNOWN then CODEC_ALAC else codec s)\<rparr>,
         alac := alac decoders_zero, alac_pool := pool, aac := a, aes := crypto_aes_zero\<rparr>, w))"

definition audio_pipeline_configure ::
  "'w audio_env \<Rightarrow> pipeline \<Rightarrow> sdp_session \<Rightarrow> 'w \<Rightarrow> bool \<times> pipeline \<times> 'w" where
  "audio_pipeline_configure env p s w =
     (if \<not> session_supported s then (False, p, w)
      else
        let (opened_ok, t, w) =
          (if stream_type s = 0 then (0, ptp p, w)
           else (let ((bind_ok, join_ok), w) = ptp_bind env w;
                     (r, t) = ptp_sync_open bind_ok join_ok (ptp p) (ptp_ip p) in (r, t, w))) in
        if opened_ok \<noteq> 0 then (False, p\<lparr>ptp := t\<rparr>, w)
        else
          let (d, w) = reset_decoders env s (decs p) w;
              p = p\<lparr>ptp := ptp_sync_set_clock t 0, decs := d, ptp_anchor := anchor_zero, configured := False,
                    playback := STOPPED\<rparr>;
              (good, d, w) = open_decoder env s d w;
              p = p\<lparr>decs := d\<rparr> in
          if \<not> good then (False, p, w)
          else
            let (good, d, w) = open_cipher env s d w;
                p = p\<lparr>decs := d\<rparr> in
            if \<not> good then (False, p, w)
            else (True, p\<lparr>configured := True, playback := READY\<rparr>, w))"

definition audio_pipeline_start :: "pipeline \<Rightarrow> bool \<times> pipeline" where
  "audio_pipeline_start p =
     (if \<not> configured p then (False, p)
      else (True, p\<lparr>playback := PLAYING, packets_received := 0, packets_lost := 0, decode_errors := 0,
        decoded_packets := 0, nonzero_packets := 0, queue_overflows := 0, late_packets := 0\<rparr>))"

definition audio_pipeline_flush :: "pipeline \<Rightarrow> pipeline" where
  "audio_pipeline_flush p =
     p\<lparr>queue := playout_reset (queue p), first_arrival_us := 0, fallback_logged := False,
       ntp := (ntp p)\<lparr>ntp_sync.anchor_valid := False\<rparr>, packets_received := 0, packets_lost := 0\<rparr>"

definition audio_pipeline_stop :: "pipeline \<Rightarrow> pipeline" where
  "audio_pipeline_stop p = audio_pipeline_flush (p\<lparr>playback := STOPPED\<rparr>)"

text \<open>The volume in decibels is none where \<open>isfinite\<close> is false.\<close>

definition audio_pipeline_set_volume :: "'w audio_env \<Rightarrow> pipeline \<Rightarrow> rat option \<Rightarrow> bool \<times> pipeline" where
  "audio_pipeline_set_volume env p db =
     (case db of
        None \<Rightarrow> (False, p)
      | Some v \<Rightarrow>
          let v = (if v > 0 then 0 else v);
              v = (if v < - 144 then - 144 else v) in
          (True, p\<lparr>pipeline_volume_db := v, volume_linear := (if v \<le> - 120 then 0 else linear_volume env v)\<rparr>))"

definition audio_pipeline_close :: "'w audio_env \<Rightarrow> pipeline \<Rightarrow> 'w \<Rightarrow> pipeline \<times> 'w" where
  "audio_pipeline_close env p w =
     (let p = audio_pipeline_stop p;
          (b, w) = buffered_audio_close env (buffered p) w;
          (al, pool) = alac_decoder_close (alac (decs p)) (alac_pool (decs p));
          (ac, w) = aac_decoder_close env (aac (decs p)) w in
      (p\<lparr>receiver := rtp_receiver_close (receiver p), buffered := b, ptp := ptp_sync_close (ptp p),
         decs := (decs p)\<lparr>alac := al, alac_pool := pool, aac := ac\<rparr>,
         ntp := (if ntp_initialized p then ntp_sync_deinit (ntp p) else ntp p), ntp_initialized := False\<rparr>, w))"

subsection \<open>Polling\<close>

definition pipeline_poll_inputs ::
  "'w audio_env \<Rightarrow> pipeline \<Rightarrow> int \<Rightarrow> 'w \<Rightarrow> (bool \<times> pipeline \<times> 'w) option" where
  "pipeline_poll_inputs env p timeout_ms w = do {
     (p, w) \<leftarrow>
       (if port (raop_peer p) = 0 then Some (p, w)
        else
          let (now, w) = clock env w in do {
            (request, sync) \<leftarrow> ntp_sync_request now (ntp p);
            let p = p\<lparr>ntp := sync\<rparr>;
            Some (p, case request of None \<Rightarrow> w | Some b \<Rightarrow> udp_send env b (raop_peer p) w) });
     let t = (if playback p = PLAYING \<and> (timeout_ms < 0 \<or> timeout_ms > 2) then 2 else timeout_ms);
     let ((waited, flags, receives), w) = udp_wait env t w;
     (err, r, st) \<leftarrow> rtp_receiver_poll (pipeline_callback env) waited flags receives (receiver p, Some (p, w));
     (p, w) \<leftarrow> st;
     let p = p\<lparr>receiver := r\<rparr>;
     if err \<noteq> None then Some (False, p, w)
     else
       let ((rx0, rx1), w) = ptp_receives env w in do {
         (bad, t) \<leftarrow> ptp_sync_poll rx0 rx1 (ptp p);
         Some (bad = 0, p\<lparr>ptp := t\<rparr>, w) } }"

text \<open>At most \<open>n\<close> records; the queue keeps room for two packets unless records are discarded.\<close>

fun receive_records ::
  "'w audio_env \<Rightarrow> nat \<Rightarrow> pipeline \<Rightarrow> 'w \<Rightarrow> (bool \<times> pipeline \<times> 'w) option" where
  "receive_records env 0 p w = Some (True, p, w)"
| "receive_records env (Suc n) p w =
     (if \<not> discarding (buffered p) \<and> unat (count (queue p)) \<ge> playout_packets_max - 2 then Some (True, p, w)
      else do {
        (result, b, p, w) \<leftarrow> buffered_audio_poll env (audio_pipeline_on_rtp_audio env) (buffered p)
          (ip (raop_peer p)) p w;
        let p = p\<lparr>buffered := b\<rparr>;
        if result < 0 then Some (False, p, w)
        else if result = 0 then Some (True, p, w)
        else receive_records env n p w })"

definition pipeline_receive_buffered ::
  "'w audio_env \<Rightarrow> pipeline \<Rightarrow> 'w \<Rightarrow> (bool \<times> pipeline \<times> 'w) option" where
  "pipeline_receive_buffered env p w =
     (if playback p \<noteq> PLAYING then Some (True, p, w)
      else receive_records env (if discarding (buffered p) then 256 else 32) p w)"

text \<open>A deadline resolver gives the deadline when there is one; the packet stays queued otherwise.\<close>

type_synonym 'w deadline_fn = "'w audio_env \<Rightarrow> pipeline \<Rightarrow> u32 \<Rightarrow> u64 \<Rightarrow> 'w \<Rightarrow> (u64 option \<times> pipeline \<times> 'w) option"

definition pipeline_ntp_deadline :: "'w deadline_fn" where
  "pipeline_ntp_deadline env p ts now_us w =
     (let (now, w) = clock env w; rate = session_rate (pipeline_session p) in do {
        r \<leftarrow> ntp_sync_deadline now (ntp p) ts rate;
        (case r of
           Inr t \<Rightarrow> Some (Some t, p, w)
         | Inl _ \<Rightarrow>
             if port (raop_peer p) \<noteq> 0 \<and> now_us - first_arrival_us p < 3000000 then Some (None, p, w)
             else if rate = 0 then None
             else
               Some (Some (first_arrival_us p + 2000000 +
                   of_int (cdiv (sint (ts - first_timestamp p) * 1000000) (uint rate))),
                 p\<lparr>fallback_logged := True\<rparr>, w)) })"

definition pipeline_ptp_deadline :: "'w deadline_fn" where
  "pipeline_ptp_deadline env p ts now_us w =
     (let (now, w) = clock env w in do {
        r \<leftarrow> ptp_sync_deadline now (ptp p) (ptp_anchor p) ts (session_rate (pipeline_session p))
          (sdp_session.latency_frames (pipeline_session p));
        Some (case r of Inr t \<Rightarrow> Some t | Inl _ \<Rightarrow> None, p, w) })"

text \<open>
  What happens to the next packet at the time \<open>now\<close>: it waits, it is late, or it is decoded, and the
  loop ends with an error when the output reports none of its delay.
\<close>

datatype schedule = Wait | Fail | Late | Submit

definition schedule_packet :: "u32 \<Rightarrow> int \<Rightarrow> int \<Rightarrow> schedule option" where
  "schedule_packet rate distance delay_frames =
     (if distance > 40000 then Some Wait
      else if delay_frames < 0 then Some Fail
      else if rate = 0 then None
      else do {
        margin \<leftarrow> s64 (distance - cdiv (delay_frames * 1000000) (uint rate));
        Some (if margin > 5000 then Wait else if margin < - 100000 then Late else Submit) })"

fun play_ready_packets ::
  "'w audio_env \<Rightarrow> 'w deadline_fn \<Rightarrow> nat \<Rightarrow> pipeline \<Rightarrow> 'w \<Rightarrow> (bool \<times> pipeline \<times> 'w) option" where
  "play_ready_packets env get_deadline 0 p w = Some (True, p, w)"
| "play_ready_packets env get_deadline (Suc n) p w =
     (if playback p \<noteq> PLAYING then Some (True, p, w)
      else
        (case playout_peek (queue p) of
           None \<Rightarrow> Some (True, p, w)
         | Some i \<Rightarrow> do {
             slot \<leftarrow> rd (packets (queue p)) i;
             let (now, w) = clock env w;
             (deadline, p, w) \<leftarrow> get_deadline env p (timestamp (slot_header slot)) now w;
             (case deadline of
                None \<Rightarrow> Some (True, p, w)
              | Some t \<Rightarrow>
                  let distance = sint (t - now);
                      (delay, w) = (if distance > 40000 then (0, w)
                        else (case output_delay env of None \<Rightarrow> (0, w) | Some f \<Rightarrow> f w)) in do {
                    what \<leftarrow> schedule_packet (session_rate (pipeline_session p)) distance delay;
                    (case what of
                       Wait \<Rightarrow> Some (True, p, w)
                     | Fail \<Rightarrow> Some (False, p, w)
                     | _ \<Rightarrow> do {
                         (p, w) \<leftarrow> (if what = Late then Some (p\<lparr>late_packets := late_packets p + 1\<rparr>, w)
                                   else audio_pipeline_decode_packet env (slot_packet slot) p w);
                         q \<leftarrow> playout_pop (queue p) i;
                         play_ready_packets env get_deadline n (p\<lparr>queue := q\<rparr>) w }) }) }))"

definition pipeline_play_ready_packets ::
  "'w audio_env \<Rightarrow> 'w deadline_fn \<Rightarrow> pipeline \<Rightarrow> 'w \<Rightarrow> (bool \<times> pipeline \<times> 'w) option" where
  "pipeline_play_ready_packets env get_deadline p w = play_ready_packets env get_deadline 16 p w"

definition pipeline_poll_raop ::
  "'w audio_env \<Rightarrow> pipeline \<Rightarrow> int \<Rightarrow> 'w \<Rightarrow> (bool \<times> pipeline \<times> 'w) option" where
  "pipeline_poll_raop env p timeout_ms w = do {
     (good, p, w) \<leftarrow> pipeline_poll_inputs env p timeout_ms w;
     if \<not> good then Some (False, p, w) else pipeline_play_ready_packets env pipeline_ntp_deadline p w }"

definition pipeline_poll_airplay2_realtime ::
  "'w audio_env \<Rightarrow> pipeline \<Rightarrow> int \<Rightarrow> 'w \<Rightarrow> (bool \<times> pipeline \<times> 'w) option" where
  "pipeline_poll_airplay2_realtime env p timeout_ms w = do {
     (good, p, w) \<leftarrow> pipeline_poll_inputs env p timeout_ms w;
     if \<not> good then Some (False, p, w) else pipeline_play_ready_packets env pipeline_ptp_deadline p w }"

definition pipeline_poll_airplay2_buffered ::
  "'w audio_env \<Rightarrow> pipeline \<Rightarrow> int \<Rightarrow> 'w \<Rightarrow> (bool \<times> pipeline \<times> 'w) option" where
  "pipeline_poll_airplay2_buffered env p timeout_ms w = do {
     (good, p, w) \<leftarrow> pipeline_poll_inputs env p timeout_ms w;
     if \<not> good then Some (False, p, w)
     else do {
       (good, p, w) \<leftarrow> pipeline_receive_buffered env p w;
       if \<not> good then Some (False, p, w) else pipeline_play_ready_packets env pipeline_ptp_deadline p w } }"

definition audio_pipeline_poll ::
  "'w audio_env \<Rightarrow> pipeline \<Rightarrow> int \<Rightarrow> 'w \<Rightarrow> (bool \<times> pipeline \<times> 'w) option" where
  "audio_pipeline_poll env p timeout_ms w =
     (if stream_type (pipeline_session p) = 0 then pipeline_poll_raop env p timeout_ms w
      else if stream_type (pipeline_session p) = 96 then pipeline_poll_airplay2_realtime env p timeout_ms w
      else if stream_type (pipeline_session p) = 103 then pipeline_poll_airplay2_buffered env p timeout_ms w
      else Some (False, p, w))"

end
