(* ===== verification/Audio_Order.thy ===== *)
theory Audio_Order
  imports Audio_Pipeline
begin

section \<open>Order and authenticity of played packets\<close>

subsection \<open>Packets leave the queue in order\<close>

abbreviation drain_queue :: "nat \<Rightarrow> playout \<Rightarrow> (rtp_packet list \<times> playout) option" where
  "drain_queue \<equiv> drain playout_peek playout_slot playout_pop"

lemma drain_add:
  "drain_queue (k + m) q =
     Option.bind (drain_queue k q) (\<lambda>(ps, q). Option.bind (drain_queue m q) (\<lambda>(ps', q). Some (ps @ ps', q)))"
proof (induction k arbitrary: q)
  case 0
  show ?case by (cases "drain_queue m q") auto
next
  case (Suc k)
  show ?case
  proof (cases "playout_peek q")
    case None
    then have "drain_queue m q = Some ([], q)" by (cases m) auto
    then show ?thesis using None by simp
  next
    case (Some i)
    then show ?thesis
      by (simp add: Suc.IH bind_assoc split_beta cong: option.case_cong)
  qed
qed

lemma drain_contents:
  assumes "playout_inv q" and "drain_queue k q = Some (ps, q')"
  shows "playout_inv q' \<and> contents q' = contents q |` (- ((\<lambda>p. sequence (header p)) ` set ps))"
  using assms
proof (induction k arbitrary: q ps)
  case (Suc k)
  show ?case
  proof (cases "playout_peek q")
    case (Some i)
    obtain p q1 ps1 where s: "playout_slot q i = Some p" "playout_pop q i = Some q1"
        "drain_queue k q1 = Some (ps1, q')" "ps = p # ps1"
      using Suc.prems(2) Some by (auto simp: bind_eq_Some_conv)
    have q1: "playout_inv q1" "contents q1 = (contents q)(sequence (header p) := None)"
      using pq.pop_Some [OF Suc.prems(1) Some s(1)] s(2) by auto
    show ?thesis
      using Suc.IH [OF q1(1) s(3)] q1(2) s(4) by (auto simp: restrict_map_def fun_eq_iff)
  qed (use Suc.prems in \<open>auto simp: restrict_map_def\<close>)
qed (simp add: restrict_map_def)

text \<open>What playing a batch of packets does to the queue.\<close>

definition keeps_queue :: "'w audio_env \<Rightarrow> 'w deadline_fn \<Rightarrow> bool" where
  "keeps_queue env f \<longleftrightarrow> (\<forall>p ts now w d p' w'. f env p ts now w = Some (d, p', w') \<longrightarrow> queue p' = queue p)"

lemma track_sequence_keeps [simp]:
  "queue (track_sequence p sq) = queue p" "decs (track_sequence p sq) = decs p"
  "playback (track_sequence p sq) = playback p"
  by (simp_all add: track_sequence_def Let_def)

lemma output_samples_queue:
  assumes "output_samples env p n w = Some (p', w')"
  shows "queue p' = queue p"
proof (cases "play env")
  case (Some out)
  show ?thesis
  proof (cases "n = 0")
    case False
    note a = assms [unfolded output_samples_def Some option.case if_not_P [OF False]]
    obtain xs where xs: "rd_range (audio_buffer (decs p)) 0 n = Some xs" using a by (cases "rd_range (audio_buffer (decs p)) 0 n") simp_all
    note a = a [unfolded xs bind.bind_lunit Let_def]
    obtain b where b: "wr_range (audio_buffer (decs p)) 0 (map (scaled env (volume_linear p)) xs) = Some b"
      using a by (cases "wr_range (audio_buffer (decs p)) 0 (map (scaled env (volume_linear p)) xs)") simp_all
    show ?thesis using a by (auto simp: b)
  qed (use assms Some in \<open>simp add: output_samples_def\<close>)
qed (use assms in \<open>simp add: output_samples_def\<close>)

lemma decode_packet_queue:
  assumes "audio_pipeline_decode_packet env pk p w = Some (p', w')"
  shows "queue p' = queue p"
proof (cases "playback p \<noteq> PLAYING \<or> payload_type (header pk) \<noteq> session_payload_type (pipeline_session p)")
  case False
  let ?p = "track_sequence p (sequence (header pk))"
  obtain n d w1 where d: "decode_payload env (codec (pipeline_session ?p)) (decs ?p) (payload pk) w = Some (n, d, w1)"
    using assms False by (auto simp: audio_pipeline_decode_packet_def Let_def bind_eq_Some_conv)
  show ?thesis
  proof (cases n)
    case None
    then show ?thesis
      using assms False d by (simp add: audio_pipeline_decode_packet_def Let_def split: if_splits) auto
  next
    case (Some k)
    then show ?thesis
      using assms False d output_samples_queue [of env "?p\<lparr>decs := d\<rparr>" k w1 p' w']
      by (simp add: audio_pipeline_decode_packet_def Let_def)
  qed
qed (use assms in \<open>auto simp: audio_pipeline_decode_packet_def\<close>)

lemma play_ready_drains:
  assumes f: "keeps_queue env f"
  shows "play_ready_packets env f n p w = Some (good, p', w') \<Longrightarrow>
    \<exists>k ps. k \<le> n \<and> drain_queue k (queue p) = Some (ps, queue p')"
proof (induction n arbitrary: p w)
  case 0
  then show ?case by (intro exI [of _ 0]) simp
next
  case (Suc n)
  have stay: ?case if "queue p' = queue p"
    using that by (intro exI [of _ 0]) simp
  show ?case
  proof (cases "playback p \<noteq> PLAYING \<or> playout_peek (queue p) = None")
    case False
    then obtain i where i: "playback p = PLAYING" "playout_peek (queue p) = Some i" by auto
    note r1 = Suc.prems [unfolded play_ready_packets.simps i option.case, simplified]
    obtain slt where slt: "rd (packets (queue p)) i = Some slt" using r1 by (auto simp: bind_eq_Some_conv)
    obtain now w1 where now: "clock env w = (now, w1)" by fastforce
    note r2 = r1 [unfolded slt now, simplified]
    obtain dl p1 w2 where dl: "f env p (timestamp (slot_header slt)) now w1 = Some (dl, p1, w2)"
      using r2 by (auto simp: bind_eq_Some_conv)
    have q1: "queue p1 = queue p" using f dl unfolding keeps_queue_def by blast
    note r3 = r2 [unfolded dl, simplified]
    show ?thesis
    proof (cases dl)
      case None
      then show ?thesis using r3 q1 stay by simp
    next
      case (Some t)
      obtain delay w3 where de: "(if sint (t - now) > 40000 then (0, w2)
          else (case output_delay env of None \<Rightarrow> (0, w2) | Some f \<Rightarrow> f w2)) = (delay, w3)" by (metis surj_pair)
      obtain what where what: "schedule_packet (session_rate (pipeline_session p1)) (sint (t - now)) delay = Some what"
        using r3 Some de by (auto simp: Let_def bind_eq_Some_conv)
      note r4 = r3 [unfolded Some option.case Let_def de split_conv what bind.bind_lunit]
      show ?thesis
      proof (cases "what = Wait \<or> what = Fail")
        case True
        then show ?thesis using r4 q1 stay by auto
      next
        case False
        then obtain p2 w4 where p2: "(if what = Late then Some (p1\<lparr>late_packets := late_packets p1 + 1\<rparr>, w3)
            else audio_pipeline_decode_packet env (slot_packet slt) p1 w3) = Some (p2, w4)"
          using r4 by (cases what) (auto simp: bind_eq_Some_conv)
        have q2: "queue p2 = queue p"
          using p2 q1 decode_packet_queue [of env "slot_packet slt" p1 w3 p2 w4] by (auto split: if_splits)
        obtain q where q: "playout_pop (queue p2) i = Some q" "play_ready_packets env f n (p2\<lparr>queue := q\<rparr>) w4 = Some (good, p', w')"
          using r4 False p2 by (cases what) (auto simp: bind_eq_Some_conv)
        obtain k ps where k: "k \<le> n" "drain_queue k q = Some (ps, queue p')"
          using Suc.IH [OF q(2)] by auto
        have "playout_slot (queue p) i = Some (slot_packet slt)" by (simp add: playout_slot_def slt)
        then have "drain_queue (Suc k) (queue p) = Some (slot_packet slt # ps, queue p')"
          using i(2) q(1) q2 k(2) by simp
        then show ?thesis using k(1) by blast
      qed
    qed
  qed (use Suc.prems stay in \<open>auto split: option.splits\<close>)
qed

lemma ntp_deadline_keeps: "keeps_queue env pipeline_ntp_deadline"
  unfolding keeps_queue_def
proof (intro allI impI)
  fix p ts now w d p' w'
  assume a: "pipeline_ntp_deadline env p ts now w = Some (d, p', w')"
  obtain t w1 where "clock env w = (t, w1)" by fastforce
  with a show "queue p' = queue p"
    by (cases "ntp_sync_deadline t (ntp p) ts (session_rate (pipeline_session p))" rule: ret_cases)
      (auto simp: pipeline_ntp_deadline_def Let_def split: if_splits)
qed

lemma ptp_deadline_keeps: "keeps_queue env pipeline_ptp_deadline"
  unfolding keeps_queue_def
proof (intro allI impI)
  fix p ts now w d p' w'
  assume a: "pipeline_ptp_deadline env p ts now w = Some (d, p', w')"
  obtain t w1 where "clock env w = (t, w1)" by fastforce
  with a show "queue p' = queue p"
    by (cases "ptp_sync_deadline t (ptp p) (ptp_anchor p) ts (session_rate (pipeline_session p))
          (sdp_session.latency_frames (pipeline_session p))" rule: ret_cases)
      (auto simp: pipeline_ptp_deadline_def Let_def)
qed

subsection \<open>Only authentic packets enter the queue\<close>

lemma push_packet_contents:
  assumes inv: "playout_inv (queue p)" and a: "push_packet env pk p w = Some (p', w')"
  shows "playout_inv (queue p') \<and> (contents (queue p') = contents (queue p) \<or>
    contents (queue p') = (contents (queue p))(sequence (header pk) \<mapsto> pk))"
proof -
  obtain r q where push: "playout_push (queue p) pk = Some (r, q)"
    using a by (auto simp: push_packet_def bind_eq_Some_conv)
  have q: "queue p' = q"
    using a push by (auto simp: push_packet_def Let_def split: if_splits prod.splits)
  show ?thesis
  proof (cases "push_verdict (queue p) pk = 1")
    case True
    then show ?thesis using playout_push_ok [OF inv True] push q by (metis Pair_inject option.inject)
  next
    case False
    then show ?thesis using playout_push_not_stored [OF inv False] push q inv by simp
  qed
qed

lemma decrypt_rtp_ok:
  assumes "crypto_airplay2_decrypt_rtp env key (wire_packet_bytes pk) 12 (length (payload pk)) cap = ok msg"
  shows "\<exists>cipher tag nonce. payload pk = cipher @ tag @ nonce \<and> length tag = 16 \<and> length nonce = 8 \<and>
    unseal (pair_primitives env) key (replicate 4 0 @ nonce)
      (bytes32 (timestamp (header pk)) @ bytes32 (ssrc (header pk))) tag cipher = Some msg"
proof -
  let ?b = "payload pk" and ?full = "wire_packet_bytes pk"
  define n where "n = length ?b - 8"
  have len: "24 \<le> length ?b" and n16: "16 \<le> n"
    using assms by (auto simp: crypto_airplay2_decrypt_rtp_def n_def split: if_splits)
  have full: "length ?full = length ?b + 12" "drop 12 ?full = ?b"
    by (simp_all add: wire_packet_bytes_def)
  have parts: "rd_range ?full (12 + n) 8 = Some (drop n ?b)" "rd_range ?full (12 + n - 16) 16 = Some (take 16 (drop (n - 16) ?b))"
    "rd_range ?full 4 8 = Some (bytes32 (timestamp (header pk)) @ bytes32 (ssrc (header pk)))"
    "rd_range ?full 12 (n - 16) = Some (take (n - 16) ?b)"
  proof -
    have "drop (12 + k) ?full = drop k ?b" for k using full(2) by (metis drop_drop add.commute)
    then have "drop (12 + n) ?full = drop n ?b" "drop (12 + (n - 16)) ?full = drop (n - 16) ?b" by blast+
    moreover have "12 + n - 16 = 12 + (n - 16)" using n16 by simp
    ultimately show "rd_range ?full (12 + n) 8 = Some (drop n ?b)"
      "rd_range ?full (12 + n - 16) 16 = Some (take 16 (drop (n - 16) ?b))"
      using full len n16 by (simp_all add: rd_range_def n_def)
    show "rd_range ?full 4 8 = Some (bytes32 (timestamp (header pk)) @ bytes32 (ssrc (header pk)))"
      using len by (simp add: rd_range_def wire_packet_bytes_def)
    show "rd_range ?full 12 (n - 16) = Some (take (n - 16) ?b)"
      using full len by (simp add: rd_range_def n_def)
  qed
  have "unseal (pair_primitives env) key (replicate 4 0 @ drop n ?b)
      (bytes32 (timestamp (header pk)) @ bytes32 (ssrc (header pk))) (take 16 (drop (n - 16) ?b)) (take (n - 16) ?b) = Some msg"
    using assms parts len
    by (auto simp: crypto_airplay2_decrypt_rtp_def Let_def n_def [symmetric] split: if_splits option.splits)
  moreover have "?b = take (n - 16) ?b @ take 16 (drop (n - 16) ?b) @ drop n ?b"
    using n16 append_take_drop_id [of 16 "drop (n - 16) ?b"] by simp
  moreover have "length (take 16 (drop (n - 16) ?b)) = 16" "length (drop n ?b) = 8"
    using len n16 by (simp_all add: n_def)
  ultimately show ?thesis by blast
qed

lemma rtp_audio_contents:
  assumes inv: "playout_inv (queue p)" and st: "stream_type (pipeline_session p) \<noteq> 0"
    and a: "audio_pipeline_on_rtp_audio env pk (p, w) = Some (p', w')"
  shows "contents (queue p') = contents (queue p) \<or>
    (\<exists>msg cipher tag nonce. contents (queue p') = (contents (queue p))(sequence (header pk) \<mapsto> pk\<lparr>payload := msg\<rparr>) \<and>
       playback p = PLAYING \<and> payload pk = cipher @ tag @ nonce \<and> length tag = 16 \<and> length nonce = 8 \<and>
       unseal (pair_primitives env) (audio_key (pipeline_session p)) (replicate 4 0 @ nonce)
         (bytes32 (timestamp (header pk)) @ bytes32 (ssrc (header pk))) tag cipher = Some msg)"
proof (cases "playback p \<noteq> PLAYING \<or> payload_type (header pk) \<noteq> session_payload_type (pipeline_session p) \<or>
    length (payload pk) > rtp_buffer_size - 12")
  case False
  let ?m = "crypto_airplay2_decrypt_rtp env (audio_key (pipeline_session p)) (wire_packet_bytes pk) 12
    (length (payload pk)) rtp_buffer_size"
  show ?thesis
  proof (cases ?m rule: ret_cases)
    case (ok msg)
    then have "push_packet env (pk\<lparr>payload := msg\<rparr>) p w = Some (p', w')"
      using a False st by (simp add: audio_pipeline_on_rtp_audio_def)
    from push_packet_contents [OF inv this] show ?thesis
      using decrypt_rtp_ok [OF ok] False by auto
  qed (use a False st in \<open>auto simp: audio_pipeline_on_rtp_audio_def\<close>)
qed (use a st in \<open>auto simp: audio_pipeline_on_rtp_audio_def split: if_splits\<close>)

end
