(* ===== verification/Audio_Safety.thy ===== *)
theory Audio_Safety
  imports Audio_Order Alac_Safety
begin

section \<open>Safety of the audio pipeline\<close>

text \<open>
  A RAOP session is polled without undefined behaviour, whatever arrives on its sockets.
\<close>

subsection \<open>Decoding\<close>

text \<open>
  What the pipeline relies on: clocks that read less than \<open>2\<^sup>6\<^sup>2\<close> microseconds, an output delay in the
  range of \<open>int\<close>, an AAC library that stores no more samples than it is given room for, and a block
  cipher that keeps the length.
\<close>

definition media_ok :: "'w audio_env \<Rightarrow> bool" where
  "media_ok env \<longleftrightarrow>
     (\<forall>w. unat (fst (clock env w)) < 2 ^ 62) \<and>
     (\<forall>f w. output_delay env = Some f \<longrightarrow> \<bar>fst (f w)\<bar> < 2 ^ 31) \<and>
     (\<forall>h n w. length (snd (fst (aac_frame env h n w))) \<le> n) \<and>
     (\<forall>k iv x y. aes_cbc env k iv x = Some y \<longrightarrow> length y = length x)"

lemma media_clock: "media_ok env \<Longrightarrow> clock env w = (t, w') \<Longrightarrow> unat t < 2 ^ 62"
  unfolding media_ok_def by (metis fst_conv)

lemma media_frame: "media_ok env \<Longrightarrow> aac_frame env h n w = ((good, xs), w') \<Longrightarrow> length xs \<le> n"
  unfolding media_ok_def by (metis fst_conv snd_conv)

text \<open>The decoders of a configured session; only they and the output buffer change.\<close>

definition decs_ok :: "decoders \<Rightarrow> bool" where
  "decs_ok d \<longleftrightarrow> length (audio_buffer d) = max_audio_buffer_samples \<and>
     (codec (the_session d) = CODEC_ALAC \<longrightarrow> frame_length (alac d) \<noteq> 0 \<longrightarrow> decoder_ready (alac d) (alac_pool d))"

definition decoded_ok :: "decoders \<Rightarrow> nat option \<times> decoders \<Rightarrow> bool" where
  "decoded_ok d res \<longleftrightarrow>
     (case res of (n, d') \<Rightarrow>
        decs_ok d' \<and> the_session d' = the_session d \<and> (\<forall>k. n = Some k \<longrightarrow> k \<le> max_audio_buffer_samples))"

lemma decoded_same: "decs_ok d \<Longrightarrow> decoded_ok d (None, d)"
  by (simp add: decoded_ok_def)

lemma decoded_buffer:
  "decs_ok d \<Longrightarrow> length out = max_audio_buffer_samples \<Longrightarrow> (\<And>k. n = Some k \<Longrightarrow> k \<le> max_audio_buffer_samples) \<Longrightarrow>
   decoded_ok d (n, d\<lparr>audio_buffer := out\<rparr>)"
  by (simp add: decoded_ok_def decs_ok_def)

lemma length_sample_bytes [simp]: "length (sample_bytes xs) = 2 * length xs"
  by (induction xs) (simp_all add: sample_bytes_def)

lemma length_bytes_samples [simp]: "length (bytes_samples bs) = length bs div 2"
  by (induction bs rule: bytes_samples.induct) simp_all

lemma decrypt_payload_length:
  assumes "media_ok env" and "decrypt_payload env d b = Some x"
  shows "length x = length b"
proof -
  obtain y where y: "aes_cbc env (cbc_key (aes d)) (cbc_iv (aes d)) (take (length b div 16 * 16) b) = Some y"
    "x = y @ drop (length b div 16 * 16) b"
    using assms(2) by (auto simp: decrypt_payload_def Let_def crypto_aes_decrypt_def split: if_splits)
  then have "length y = length b div 16 * 16"
    using assms(1) by (auto simp: media_ok_def)
  moreover have "length b div 16 * 16 \<le> length b" by simp
  ultimately show ?thesis using y(2) by simp
qed

lemma decode_alac_ok:
  assumes d: "decs_ok d" and al: "codec (the_session d) = CODEC_ALAC"
  shows "\<exists>res. audio_pipeline_decode_alac env d b = Some res \<and> decoded_ok d res"
proof (cases "if has_encryption (the_session d) \<and> length b \<ge> 16 then decrypt_payload env d b else Some b")
  case None
  then show ?thesis using d by (simp add: audio_pipeline_decode_alac_def decoded_same)
next
  case (Some inp)
  show ?thesis
  proof (cases "frame_length (alac d) = 0")
    case True
    then show ?thesis using Some d by (simp add: audio_pipeline_decode_alac_def decoded_same)
  next
    case False
    have "decoder_ready (alac d) (alac_pool d)" "2 * max_audio_buffer_samples \<le> length (sample_bytes (audio_buffer d))"
      using d al False by (auto simp: decs_ok_def)
    from decode_packet_total [OF this, of inp] obtain code n out pool where
      r: "alac_decoder_decode_frame (alac d) (alac_pool d) inp (sample_bytes (audio_buffer d)) max_audio_buffer_samples
          = Some ((code, n), out, pool)" "decoder_ready (alac d) pool" "length out = length (sample_bytes (audio_buffer d))"
        "report_ok (alac d) max_audio_buffer_samples (code, n)" by auto
    have "k \<le> max_audio_buffer_samples" if "\<not> code < 0" "k = (case n of None \<Rightarrow> 0 | Some n \<Rightarrow> n)" for k
      using that r(4) by (auto simp: report_ok_def split: option.splits)
    then have "decoded_ok d (if code < 0 then None else Some (case n of None \<Rightarrow> 0 | Some n \<Rightarrow> n),
        d\<lparr>alac_pool := pool, audio_buffer := bytes_samples out\<rparr>)"
      using d r(2,3) by (simp add: decoded_ok_def decs_ok_def)
    then show ?thesis
      using Some False r(1) by (simp add: audio_pipeline_decode_alac_def)
  qed
qed

lemma pcm_loop_ok:
  "2 * (i + n) \<le> length inp \<Longrightarrow> i + n \<le> length out \<Longrightarrow>
   \<exists>out'. pcm_loop inp out i n = Some out' \<and> length out' = length out"
proof (induction n arbitrary: i out)
  case (Suc n)
  have "rd inp (i * 2) = Some (inp ! (i * 2))" "rd inp (i * 2 + 1) = Some (inp ! (i * 2 + 1))"
    using Suc.prems by (simp_all add: rd_def)
  moreover obtain out1 where "wr out i (push_bit 8 (ucast (inp ! (i * 2))) OR ucast (inp ! (i * 2 + 1))) = Some out1"
      "length out1 = length out"
    using Suc.prems(2) by (simp add: wr_def)
  ultimately show ?case
    using Suc.IH [of "Suc i" out1] Suc.prems by simp
qed simp

lemma decode_pcm_ok:
  assumes ok: "media_ok env" and d: "decs_ok d"
  shows "\<exists>res. audio_pipeline_decode_pcm env d b = Some res \<and> decoded_ok d res"
proof (cases "session_channels (the_session d) = 0 \<or> length b mod (2 * unat (session_channels (the_session d))) \<noteq> 0")
  case True
  then show ?thesis using d by (auto simp: audio_pipeline_decode_pcm_def decoded_same)
next
  case False
  show ?thesis
  proof (cases "if has_encryption (the_session d) \<and> length b \<ge> 16 then decrypt_payload env d b else Some b")
    case None
    then show ?thesis using d False by (simp add: audio_pipeline_decode_pcm_def decoded_same)
  next
    case (Some inp)
    let ?n = "min (length b div 2) max_audio_buffer_samples"
    have "length inp = length b" using Some decrypt_payload_length [OF ok] by (auto split: if_splits)
    moreover have "2 * (0 + ?n) \<le> length b" by (simp add: min_def) linarith
    moreover have "0 + ?n \<le> length (audio_buffer d)" using d by (simp add: decs_ok_def)
    ultimately obtain out where out: "pcm_loop inp (audio_buffer d) 0 ?n = Some out" "length out = length (audio_buffer d)"
      using pcm_loop_ok [of 0 ?n inp "audio_buffer d"] by metis
    have "decoded_ok d (Some ?n, d\<lparr>audio_buffer := out\<rparr>)"
      using d out(2) by (intro decoded_buffer) (auto simp: decs_ok_def)
    then show ?thesis
      using False Some out(1) by (simp add: audio_pipeline_decode_pcm_def Let_def)
  qed
qed

lemma aac_decode_ok:
  assumes ok: "media_ok env" and cap: "p + capacity \<le> length out"
  shows "\<exists>n out' w'. aac_decoder_decode env d inp out p capacity w = Some (n, out', w') \<and> length out' = length out \<and>
    (\<forall>k. n = Some k \<longrightarrow> k \<le> capacity)"
proof (cases "aac_impl d")
  case (Some h)
  show ?thesis
  proof (cases "inp = [] \<or> capacity > 2147483647")
    case False
    obtain filled w1 where f: "aac_fill env h inp w = (filled, w1)" by fastforce
    show ?thesis
    proof (cases filled)
      case True
      obtain good xs w2 where x: "aac_frame env h capacity w1 = ((good, xs), w2)" by (metis surj_pair)
      have "p + length xs \<le> length out" using media_frame [OF ok x] cap by simp
      then obtain out' where "wr_range out p xs = Some out'" "length out' = length out"
        using length_wr_range by (auto simp: wr_range_Some)
      then show ?thesis
        using Some False f True x
        by (auto simp: aac_decoder_decode_def split: option.splits)
    qed (use Some False f in \<open>auto simp: aac_decoder_decode_def\<close>)
  qed (use Some in \<open>auto simp: aac_decoder_decode_def\<close>)
qed (auto simp: aac_decoder_decode_def)

lemma bits_loop_total:
  "at0 + n \<le> 8 * length data \<Longrightarrow> \<exists>v. bits_loop data at0 n v0 = Some v"
proof (induction n arbitrary: at0 v0)
  case (Suc n)
  then have "at0 div 8 < length data" by (simp add: less_mult_imp_div_less mult.commute)
  then show ?case using Suc by (simp add: rd_def)
qed simp

lemma read_bits_total:
  assumes "bits \<le> 8 * length data"
  shows "\<exists>x. audio_pipeline_read_bits data bits from0 n = Some x"
proof (cases "n > 24 \<or> from0 > bits \<or> n > bits - from0")
  case False
  then have "from0 \<le> bits" "n \<le> bits - from0" by auto
  then have "from0 + n \<le> 8 * length data" using assms by linarith
  from bits_loop_total [OF this, of 0] False show ?thesis by (auto simp: audio_pipeline_read_bits_def)
qed (auto simp: audio_pipeline_read_bits_def)

lemma aac_unit_ok:
  assumes ok: "media_ok env" and bits: "bits \<le> 8 * length hdrs" and out: "length out = max_audio_buffer_samples"
    and pos: "output_offset pos \<le> max_audio_buffer_samples" "frame_offset pos \<le> length frms"
  shows "\<exists>r out' w'. aac_unit env d hdrs bits frms pos out w = Some (r, out', w') \<and>
    length out' = max_audio_buffer_samples \<and>
    (\<forall>pos'. r = Some pos' \<longrightarrow> output_offset pos' \<le> max_audio_buffer_samples \<and> frame_offset pos' \<le> length frms)"
proof -
  note tot = read_bits_total [OF bits]
  obtain x1 where 1: "audio_pipeline_read_bits hdrs bits (bit_offset pos) (unat (aac_size_length (the_session d))) = Some x1"
    using tot by blast
  show ?thesis
  proof (cases x1)
    case (Inr y1)
    obtain v o1 where y1: "y1 = (v, o1)" by fastforce
    obtain x2 where 2: "audio_pipeline_read_bits hdrs bits o1 (unat (aac_index_length (the_session d))) = Some x2"
      using tot by blast
    show ?thesis
    proof (cases x2)
      case r2: (Inr y2)
      obtain v2 o2 where y2: "y2 = (v2, o2)" by fastforce
      show ?thesis
      proof (cases "unat v > length frms - frame_offset pos \<or> output_offset pos \<ge> max_audio_buffer_samples")
        case False
        then have fr: "rd_range frms (frame_offset pos) (unat v) = Some (take (unat v) (drop (frame_offset pos) frms))"
          using pos(2) by (intro rd_range_Some) linarith
        have "output_offset pos + (max_audio_buffer_samples - output_offset pos) \<le> length out"
          using out pos(1) by simp
        from aac_decode_ok [OF ok this] obtain n out' w' where
          dec: "aac_decoder_decode env (aac d) (take (unat v) (drop (frame_offset pos) frms)) out (output_offset pos)
            (max_audio_buffer_samples - output_offset pos) w = Some (n, out', w')" "length out' = length out"
            "\<forall>k. n = Some k \<longrightarrow> k \<le> max_audio_buffer_samples - output_offset pos" by blast
        obtain x3 where 3: "(if o2 < bits then audio_pipeline_read_bits hdrs bits o2 (unat (aac_index_delta_length (the_session d)))
            else ok (0, o2)) = Some x3"
          using tot by (cases "o2 < bits") auto
        show ?thesis
          unfolding aac_unit_def 1 Inr y1 2 r2 y2 bind.bind_lunit sum.case split_conv if_not_P [OF False] fr dec(1) 3
          using dec(2,3) out pos False
          by (cases n; cases x3) (auto simp: split_beta not_less not_le)
      qed (use 1 Inr y1 2 r2 y2 out in \<open>simp add: aac_unit_def\<close>)
    qed (use 1 Inr y1 2 out in \<open>simp add: aac_unit_def\<close>)
  qed (use 1 out in \<open>simp add: aac_unit_def\<close>)
qed

lemma aac_units_ok:
  assumes ok: "media_ok env" and bits: "bits \<le> 8 * length hdrs"
  shows "length out = max_audio_buffer_samples \<Longrightarrow> output_offset pos \<le> max_audio_buffer_samples \<Longrightarrow>
    frame_offset pos \<le> length frms \<Longrightarrow>
    \<exists>r out' w'. aac_units env d hdrs bits frms pos out w = Some (r, out', w') \<and>
      length out' = max_audio_buffer_samples \<and>
      (\<forall>pos'. r = Some pos' \<longrightarrow> output_offset pos' \<le> max_audio_buffer_samples)"
proof (induction "bits - bit_offset pos" arbitrary: pos out w rule: less_induct)
  case less
  show ?case
  proof (cases "bit_offset pos \<ge> bits")
    case True
    then show ?thesis using less.prems by (simp add: aac_units.simps [of env d])
  next
    case False
    obtain r out' w' where u: "aac_unit env d hdrs bits frms pos out w = Some (r, out', w')"
        "length out' = max_audio_buffer_samples"
        "\<forall>pos'. r = Some pos' \<longrightarrow> output_offset pos' \<le> max_audio_buffer_samples \<and> frame_offset pos' \<le> length frms"
      using aac_unit_ok [OF ok bits less.prems, of d w] by blast
    show ?thesis
    proof (cases r)
      case None
      then show ?thesis using False u by (simp add: aac_units.simps [of env d hdrs bits frms pos])
    next
      case (Some pos')
      have "bits - bit_offset pos' < bits - bit_offset pos"
        using aac_unit_offset u(1) Some False by fastforce
      then have "\<exists>r out'' w''. aac_units env d hdrs bits frms pos' out' w' = Some (r, out'', w'') \<and>
          length out'' = max_audio_buffer_samples \<and>
          (\<forall>pos'. r = Some pos' \<longrightarrow> output_offset pos' \<le> max_audio_buffer_samples)"
        using less.hyps u(2,3) Some by blast
      then show ?thesis
        using False u(1) Some by (simp add: aac_units.simps [of env d hdrs bits frms pos])
    qed
  qed
qed

lemma decode_aac_ok:
  assumes ok: "media_ok env" and d: "decs_ok d"
  shows "\<exists>n d' w'. audio_pipeline_decode_aac env d b w = Some (n, d', w') \<and> decoded_ok d (n, d')"
proof (cases "length b < 2 \<or> aac_impl (aac d) = None")
  case True
  then show ?thesis using d by (auto simp: audio_pipeline_decode_aac_def decoded_same)
next
  case ne: False
  have buf: "length (audio_buffer d) = max_audio_buffer_samples" using d by (simp add: decs_ok_def)
  show ?thesis
  proof (cases "stream_type (the_session d) \<noteq> 0")
    case True
    obtain n out w' where "aac_decoder_decode env (aac d) b (audio_buffer d) 0 max_audio_buffer_samples w = Some (n, out, w')"
        "length out = length (audio_buffer d)" "\<forall>k. n = Some k \<longrightarrow> k \<le> max_audio_buffer_samples"
      using aac_decode_ok [OF ok, of 0 max_audio_buffer_samples "audio_buffer d"] buf by force
    then show ?thesis
      using ne True d buf by (auto simp: audio_pipeline_decode_aac_def intro!: decoded_buffer)
  next
    case st: False
    show ?thesis
    proof (cases "if has_encryption (the_session d) then decrypt_payload env d b else Some b")
      case None
      then show ?thesis using ne st d by (auto simp: audio_pipeline_decode_aac_def decoded_same)
    next
      case (Some inp)
      have len: "length inp = length b" using Some decrypt_payload_length [OF ok] by (auto split: if_splits)
      define bits where "bits = unat (inp ! 0) * 256 + unat (inp ! 1)"
      have two: "rd inp 0 = Some (inp ! 0)" "rd inp 1 = Some (inp ! 1)" using ne len by (auto simp: rd_def)
      show ?thesis
      proof (cases "bits = 0 \<or> (bits + 7) div 8 > length b - 2")
        case True
        then show ?thesis
          using ne st Some d two by (auto simp: audio_pipeline_decode_aac_def bits_def Let_def decoded_same)
      next
        case False
        let ?n = "(bits + 7) div 8" and ?pos = "\<lparr>bit_offset = 0, frame_offset = 0, output_offset = 0\<rparr>"
        have fits: "2 + ?n \<le> length inp" "2 + ?n + (length b - 2 - ?n) \<le> length inp" using False len ne by auto
        obtain hdrs where hdrs: "rd_range inp 2 ?n = Some hdrs" "length hdrs = ?n"
          using fits by (auto simp: rd_range_def)
        obtain frms where frms: "rd_range inp (2 + ?n) (length b - 2 - ?n) = Some frms"
          using fits by (auto simp: rd_range_def)
        have "bits \<le> 8 * length hdrs" using hdrs(2) by linarith
        from aac_units_ok [OF ok this buf, of ?pos frms d w] obtain r out w' where
          u: "aac_units env d hdrs bits frms ?pos (audio_buffer d) w = Some (r, out, w')"
            "length out = max_audio_buffer_samples" "\<forall>pos'. r = Some pos' \<longrightarrow> output_offset pos' \<le> max_audio_buffer_samples"
          by auto
        define res where "res = (case r of None \<Rightarrow> None | Some pos \<Rightarrow>
            if frame_offset pos \<noteq> length frms \<or> output_offset pos = 0 then None else Some (output_offset pos))"
        have "audio_pipeline_decode_aac env d b w = Some (res, d\<lparr>audio_buffer := out\<rparr>, w')"
          using st unfolding audio_pipeline_decode_aac_def if_not_P [OF ne] Some option.case two bind.bind_lunit Let_def
            bits_def [symmetric] if_not_P [OF False] hdrs(1) frms u(1) res_def by simp
        moreover have "decoded_ok d (res, d\<lparr>audio_buffer := out\<rparr>)"
          using d u(2,3) by (intro decoded_buffer) (auto simp: res_def split: option.splits if_splits)
        ultimately show ?thesis by blast
      qed
    qed
  qed
qed

lemma decode_payload_ok:
  assumes "media_ok env" and "decs_ok d"
  shows "\<exists>n d' w'. decode_payload env (codec (the_session d)) d b w = Some (n, d', w') \<and> decoded_ok d (n, d')"
proof (cases "codec (the_session d)")
  case CODEC_ALAC
  then show ?thesis
    using decode_alac_ok [OF assms(2) CODEC_ALAC, of env b] by (auto simp: decode_payload_def)
next
  case CODEC_PCM
  then show ?thesis
    using decode_pcm_ok [OF assms, of b] by (auto simp: decode_payload_def)
next
  case CODEC_AAC
  then show ?thesis
    using decode_aac_ok [OF assms, of b w] by (auto simp: decode_payload_def)
qed (use assms in \<open>auto simp: decode_payload_def decoded_same\<close>)

end
