(* ===== verification/Raop_Safety.thy ===== *)
theory Raop_Safety
  imports Audio_Safety
begin

section \<open>A RAOP session is undefined nowhere\<close>

text \<open>
  The invariant of a pipeline that serves AirPlay 1 sessions, and its preservation by every
  operation of \<open>audio_pipeline.c\<close>, whatever datagrams arrive.
\<close>

subsection \<open>The receiver keeps what its callbacks keep\<close>

lemma dispatch_keeps:
  assumes s: "I s" and cb: "\<And>e s. I s \<Longrightarrow> I (cb e s)"
  shows "\<exists>r' s'. rtp_dispatch cb i data from_peer (r, s) = Some (r', s') \<and> I s'"
proof -
  obtain res where "rtp_parse_packet data = Some res" using rtp_parse_safe by blast
  then show ?thesis
    using s cb by (cases i; cases res) (auto simp: rtp_dispatch_def Let_def rd_def)
qed

lemma poll_socket_keeps:
  assumes cb: "\<And>e s. I s \<Longrightarrow> I (cb e s)"
  shows "I s \<Longrightarrow> \<exists>e r' s'. rtp_poll_socket cb i n rcv (r, s) = Some (e, r', s') \<and> I s'"
proof (induction n arbitrary: rcv r s)
  case (Suc n)
  show ?case
  proof (cases rcv)
    case (Cons x rest)
    show ?thesis
    proof (cases x)
      case (Datagram data from_peer)
      obtain r1 s1 where "rtp_dispatch cb i data from_peer (r, s) = Some (r1, s1)" "I s1"
        using dispatch_keeps [of I s cb, OF Suc.prems cb] by blast
      then show ?thesis using Suc.IH [of s1 rest r1] Cons Datagram by simp
    qed (use Cons Suc.prems in auto)
  qed (use Suc.prems in simp)
qed simp

lemma poll_sockets_keep:
  assumes cb: "\<And>e s. I s \<Longrightarrow> I (cb e s)"
  shows "I s \<Longrightarrow> \<exists>e r' s'. rtp_poll_sockets cb flags rcv order (r, s) = Some (e, r', s') \<and> I s'"
proof (induction order arbitrary: r s)
  case (Cons i order)
  show ?case
  proof (cases "flags i")
    case True
    obtain e r1 s1 where "rtp_poll_socket cb i 32 (rcv i) (r, s) = Some (e, r1, s1)" "I s1"
      using poll_socket_keeps [of I cb s, OF cb Cons.prems] by blast
    then show ?thesis using Cons.IH [of s1 r1] True by (cases e) auto
  qed (use Cons in simp)
qed simp

lemma receiver_poll_keeps:
  assumes "\<And>e s. I s \<Longrightarrow> I (cb e s)" and "I s"
  shows "\<exists>e r' s'. rtp_receiver_poll cb waited flags rcv (r, s) = Some (e, r', s') \<and> I s'"
  using poll_sockets_keep [of I cb s flags rcv "[SockTiming, SockControl, SockAudio]" r] assms
  by (auto simp: rtp_receiver_poll_def)

subsection \<open>The NTP clock\<close>

definition ntp_ok :: "ntp_sync \<Rightarrow> bool" where
  "ntp_ok s \<longleftrightarrow> \<bar>clock_offset_us s\<bar> \<le> 0x10000000000000 \<and> uint (request_local_us s) < 0x4000000000000000"

lemma uint_small: "unat (w :: u64) < n \<Longrightarrow> uint w < int n"
  by (metis of_nat_less_iff uint_nat)

lemma sint_diff:
  assumes "uint (a :: u64) < 0x4000000000000000" "uint (b :: u64) < 0x4000000000000000"
  shows "sint (a - b) = uint a - uint b"
proof -
  have "a - b = of_int (uint a - uint b)" by simp
  then show ?thesis
    using assms sint_of_int_64 [of "uint a - uint b"] uint_ge_0 [of a] uint_ge_0 [of b] by simp
qed

lemma ntp_init_ok: "ntp_ok ntp_sync_init"
  by (simp add: ntp_ok_def ntp_sync_init_def)

lemma request_ok:
  assumes "ntp_ok s" and "uint now < 0x4000000000000000"
  shows "\<exists>b s'. ntp_sync_request now s = Some (b, s') \<and> ntp_ok s'"
  using assms
  by (simp add: ntp_sync_request_def write_time_def write32_def wr_def wr_range_def bytes32_def Let_def ntp_ok_def)

lemma control_ok:
  assumes "ntp_ok s"
  shows "\<exists>r s'. ntp_sync_control s data rate = Some (r, s') \<and> ntp_ok s'"
proof (cases "length data < 20")
  case True
  then show ?thesis using assms by (simp add: ntp_sync_control_def)
next
  case False
  then have "20 \<le> length data" by simp
  then show ?thesis
    using assms
    by (simp add: ntp_sync_control_def read_time_def read32_def rd_within [OF \<open>20 \<le> length data\<close>] Let_def ntp_ok_def)
qed

lemma ntp_reply_ok: "\<exists>r. ntp_sync_reply now now' data = Some r"
proof (cases "length data < 32")
  case False
  then have l: "32 \<le> length data" by simp
  then show ?thesis
    by (simp add: ntp_sync_reply_def write_time_def write32_def rd_within [OF l] rd_range_def wr_def wr_range_def
        bytes32_def)
qed (simp add: ntp_sync_reply_def)

lemma process_ok:
  assumes s: "ntp_ok s" and now: "uint now < 0x4000000000000000" and l: "2 \<le> length data"
  shows "\<exists>r s'. ntp_sync_process_packet now s data = Some (r, s') \<and> ntp_ok s'"
proof (cases "ntp_reply_header_ok s data")
  case None
  have "rd data 0 \<noteq> None" "rd data 1 \<noteq> None" using l by (auto simp: rd_def)
  then show ?thesis using None by (auto simp: ntp_reply_header_ok_def bind_eq_None_conv split: if_splits)
next
  case (Some okay)
  show ?thesis
  proof (cases okay)
    case False
    have "rd data 0 \<noteq> None" "rd data 1 \<noteq> None" using l by (auto simp: rd_def)
    then show ?thesis using Some s False by (auto simp: ntp_sync_process_packet_def)
  next
    case True
    then have l32: "32 \<le> length data" using Some by (auto simp: ntp_reply_header_ok_def split: if_splits)
    obtain o1 r1 t1 where rt: "read_time data 8 = Some o1" "read_time data 16 = Some r1" "read_time data 24 = Some t1"
      by (simp add: read_time_def read32_def rd_within [OF l32])
    have req: "uint (request_local_us s) < 0x4000000000000000" using s by (simp add: ntp_ok_def)
    have d: "\<bar>sint (now - request_local_us s)\<bar> < 0x4000000000000000"
      using sint_diff [OF now req] req now uint_ge_0 [of now] uint_ge_0 [of "request_local_us s"] by linarith
    let ?x = "sint (now - request_local_us s) - ntp_sync_diff_us r1 t1"
    have x: "s64 ?x = Some ?x"
      using d diff_us_bound [of r1 t1] by (intro s64_Some) (simp_all add: abs_less_iff abs_le_iff)
    have "\<bar>cdiv (ntp_sync_diff_us o1 r1 + ntp_sync_diff_us (from_us now) t1) 2\<bar> \<le> 0x10000000000000"
      using cdiv_bounds [of 2 "ntp_sync_diff_us o1 r1 + ntp_sync_diff_us (from_us now) t1"]
        diff_us_bound [of o1 r1] diff_us_bound [of "from_us now" t1] by linarith
    then show ?thesis
      using Some True rt x s by (simp add: ntp_sync_process_packet_def Let_def ntp_ok_def)
  qed
qed

text \<open>A deadline is a 64-bit time close to the clock.\<close>

definition near :: "u64 \<Rightarrow> bool" where
  "near t \<longleftrightarrow> (\<exists>x. t = of_int x \<and> - 0x20000000000000 \<le> x \<and> x \<le> 0x4020000000000000)"

lemma near_distance:
  assumes "near t" and "uint now < 0x4000000000000000"
  shows "\<bar>sint (t - now)\<bar> \<le> 0x5000000000000000"
proof -
  obtain x where x: "t = of_int x" "- 0x20000000000000 \<le> x" "x \<le> 0x4020000000000000" using assms(1) by (auto simp: near_def)
  have "t - now = of_int (x - uint now)" using x(1) by simp
  moreover have b: "- 9223372036854775808 \<le> x - uint now" "x - uint now < 9223372036854775808"
    "\<bar>x - uint now\<bar> \<le> 0x5000000000000000"
    using x(2,3) assms(2) uint_ge_0 [of now] by linarith+
  ultimately show ?thesis using sint_of_int_64 [OF b(1,2)] by metis
qed

lemma deadline_ok:
  assumes s: "ntp_ok s" and now: "uint now < 0x4000000000000000"
  shows "\<exists>r. ntp_sync_deadline now s ts rate = Some r \<and> (\<forall>t. r = Inr t \<longrightarrow> near t)"
proof (cases "\<not> synchronized s \<or> \<not> ntp_sync.anchor_valid s \<or> rate = 0")
  case False
  let ?d = "ntp_sync_diff_us (from_us now) (ntp_sync_rtp_to_ntp now s ts rate) - clock_offset_us s"
  have d: "\<bar>?d\<bar> \<le> 0x20000000000000" using diff_us_bound [of "from_us now" "ntp_sync_rtp_to_ntp now s ts rate"] s
    unfolding ntp_ok_def by linarith
  have n: "sint now = uint now" using now by (intro sint_small_64) simp
  have "s64 ?d = Some ?d" "s64 (sint now + ?d) = Some (sint now + ?d)"
    using d now uint_ge_0 [of now] unfolding n by (intro s64_Some; linarith)+
  moreover have "near (of_int (sint now + ?d))"
    using d now uint_ge_0 [of now] unfolding near_def n
    by (intro exI [of _ "uint now + ?d"] conjI refl; linarith)
  ultimately show ?thesis using False by (simp add: ntp_sync_deadline_def Let_def)
qed (auto simp: ntp_sync_deadline_def)

subsection \<open>The pipeline\<close>

definition raop_inv :: "pipeline \<Rightarrow> bool" where
  "raop_inv p \<longleftrightarrow> playout_inv (queue p) \<and> ntp_ok (ntp p) \<and> uint (first_arrival_us p) < 0x4000000000000000 \<and>
     clock_id (ptp p) = 0 \<and> stream_type (pipeline_session p) = 0 \<and>
     length (audio_buffer (decs p)) = max_audio_buffer_samples \<and>
     (configured p \<longrightarrow> decs_ok (decs p) \<and> session_rate (pipeline_session p) \<noteq> 0) \<and>
     (playback p = PLAYING \<longrightarrow> configured p)"

lemma clock_ok: "media_ok env \<Longrightarrow> clock env w = (t, w') \<Longrightarrow> uint t < 0x4000000000000000"
  using uint_small [OF media_clock, of env w t w'] by simp

lemma push_packet_ok:
  assumes ok: "media_ok env" and p: "raop_inv p"
  shows "\<exists>p' w'. push_packet env pk p w = Some (p', w') \<and> raop_inv p'"
proof -
  obtain r q where q: "playout_push (queue p) pk = Some (r, q)" "playout_inv q"
  proof (cases "push_verdict (queue p) pk = 1")
    case True
    then show ?thesis using playout_push_ok [OF _ True] p that by (auto simp: raop_inv_def)
  next
    case False
    then show ?thesis using playout_push_not_stored [OF _ False] p that by (auto simp: raop_inv_def)
  qed
  obtain now w1 where now: "clock env w = (now, w1)" by fastforce
  show ?thesis
    using q p now clock_ok [OF ok now] by (simp add: push_packet_def Let_def raop_inv_def)
qed

lemma audio_ok:
  assumes "media_ok env" and "raop_inv p"
  shows "\<exists>p' w'. audio_pipeline_on_rtp_audio env pk (p, w) = Some (p', w') \<and> raop_inv p'"
  using push_packet_ok [OF assms, of pk w] assms(2) by (simp add: audio_pipeline_on_rtp_audio_def raop_inv_def)

lemma control_event_ok:
  assumes p: "raop_inv p"
  shows "\<exists>p' w'. audio_pipeline_on_rtp_control data (p, w) = Some (p', w') \<and> raop_inv p'"
proof -
  have "ntp_ok (ntp p)" using p by (simp add: raop_inv_def)
  from control_ok [OF this] obtain r s where "ntp_sync_control (ntp p) data
      (if session_rate (pipeline_session p) \<noteq> 0 then session_rate (pipeline_session p) else 44100) = Some (r, s)" "ntp_ok s"
    by blast
  then show ?thesis using p by (simp add: audio_pipeline_on_rtp_control_def Let_def raop_inv_def)
qed

lemma timing_ok:
  assumes ok: "media_ok env" and p: "raop_inv p"
  shows "\<exists>p' w'. audio_pipeline_on_rtp_timing env data from_peer (p, w) = Some (p', w') \<and> raop_inv p'"
proof -
  obtain n1 w1 where 1: "clock env w = (n1, w1)" by fastforce
  obtain n2 w2 where 2: "clock env w1 = (n2, w2)" by fastforce
  obtain n3 w3 where 3: "clock env w2 = (n3, w3)" by fastforce
  obtain reply where r: "ntp_sync_reply n1 n2 data = Some reply" using ntp_reply_ok by blast
  have n: "ntp_ok (ntp p)" using p by (simp add: raop_inv_def)
  show ?thesis
  proof (cases "length data < 2")
    case True
    then show ?thesis using 1 2 3 r p
      by (cases reply) (simp_all add: audio_pipeline_on_rtp_timing_def Let_def)
  next
    case False
    then obtain x s where "ntp_sync_process_packet n3 (ntp p) data = Some (x, s)" "ntp_ok s"
      using process_ok [OF n clock_ok [OF ok 3], of data] by auto
    then show ?thesis using 1 2 3 r p
      by (cases reply) (simp_all add: audio_pipeline_on_rtp_timing_def Let_def raop_inv_def)
  qed
qed

definition serving :: "(pipeline \<times> 'w) option \<Rightarrow> bool" where
  "serving st \<longleftrightarrow> (\<exists>p w. st = Some (p, w) \<and> raop_inv p)"

lemma callback_keeps:
  assumes ok: "media_ok env" and st: "serving st"
  shows "serving (pipeline_callback env e st)"
proof -
  obtain p w where "st = Some (p, w)" "raop_inv p" using st by (auto simp: serving_def)
  then show ?thesis
    using audio_ok [OF ok, of p _ w] control_event_ok [of p _ w] timing_ok [OF ok, of p _ _ w]
    by (cases e) (simp_all add: serving_def pipeline_callback_def)
qed

lemma cdiv_small:
  assumes "0 < b" and "\<bar>a\<bar> \<le> c"
  shows "\<bar>cdiv a b\<bar> \<le> c"
proof -
  have "\<bar>cdiv a b\<bar> * 1 \<le> \<bar>cdiv a b\<bar> * b" using assms(1) by (intro mult_left_mono) auto
  then show ?thesis using cdiv_bounds [OF assms(1), of a] assms(2) by linarith
qed

lemma ptp_idle: "clock_id t = 0 \<Longrightarrow> \<exists>r. ptp_sync_packet t data now = Some (r, t)"
  using be_Some [of 2 2 data] be_Some [of 20 8 data]
  by (auto simp: ptp_sync_packet_def rd_def Let_def)

lemma ptp_socket_idle: "clock_id t = 0 \<Longrightarrow> \<exists>bad. ptp_poll_socket n rcv t = Some (bad, t)"
proof (induction n arbitrary: rcv)
  case (Suc n)
  show ?case
  proof (cases rcv)
    case (Cons x rest)
    obtain d now where x: "x = (d, now)" by fastforce
    show ?thesis
    proof (cases d)
      case (Datagram data from_peer)
      then show ?thesis using Suc ptp_idle [OF Suc.prems, of data now] Cons x by auto
    qed (use Cons x in \<open>auto intro: exI [of _ False] exI [of _ True]\<close>)
  qed (simp add: exI [of _ False])
qed (simp add: exI [of _ False])

lemma ptp_poll_idle:
  assumes "clock_id t = 0"
  shows "\<exists>r. ptp_sync_poll rcv0 rcv1 t = Some (r, t)"
proof -
  obtain b0 b1 where "ptp_poll_socket 8 rcv0 t = Some (b0, t)" "ptp_poll_socket 8 rcv1 t = Some (b1, t)"
    using ptp_socket_idle [OF assms] by meson
  then show ?thesis by (simp add: ptp_sync_poll_def)
qed

lemma poll_inputs_ok:
  assumes ok: "media_ok env" and p: "raop_inv p"
  shows "\<exists>good p' w'. pipeline_poll_inputs env p timeout_ms w = Some (good, p', w') \<and> raop_inv p'"
proof -
  define asked where "asked = (if port (raop_peer p) = 0 then Some (p, w)
        else
          let (now, w) = clock env w in do {
            (request, sync) \<leftarrow> ntp_sync_request now (ntp p);
            let p = p\<lparr>ntp := sync\<rparr>;
            Some (p, case request of None \<Rightarrow> w | Some b \<Rightarrow> udp_send env b (raop_peer p) w) })"
  have n: "ntp_ok (ntp p)" using p by (simp add: raop_inv_def)
  obtain p1 w1 where a: "asked = Some (p1, w1)" and p1: "raop_inv p1"
  proof (cases "port (raop_peer p) = 0")
    case False
    obtain now w0 where now: "clock env w = (now, w0)" by fastforce
    obtain b s where s: "ntp_sync_request now (ntp p) = Some (b, s)" "ntp_ok s"
      using request_ok [OF n clock_ok [OF ok now]] by blast
    have "raop_inv (p\<lparr>ntp := s\<rparr>)" using p s(2) by (simp add: raop_inv_def)
    then show ?thesis using that False now s(1) by (auto simp: asked_def Let_def)
  qed (use that p in \<open>simp add: asked_def\<close>)
  define t where "t = (if playback p1 = PLAYING \<and> (timeout_ms < 0 \<or> timeout_ms > 2) then 2 else timeout_ms)"
  obtain waited flags receives w2 where wait: "udp_wait env t w1 = ((waited, flags, receives), w2)"
    by (metis surj_pair)
  have "serving (Some (p1, w2))" using p1 by (simp add: serving_def)
  from receiver_poll_keeps [of serving "pipeline_callback env", OF callback_keeps [OF ok] this]
  obtain err r p2 w3 where poll: "rtp_receiver_poll (pipeline_callback env) waited flags receives
      (receiver p1, Some (p1, w2)) = Some (err, r, Some (p2, w3))" and p2: "raop_inv p2"
    unfolding serving_def by blast
  obtain rcv0 rcv1 w4 where pr: "ptp_receives env w3 = ((rcv0, rcv1), w4)" by (metis surj_pair)
  have "clock_id (ptp p2) = 0" using p2 by (simp add: raop_inv_def)
  then obtain bad where pp: "ptp_sync_poll rcv0 rcv1 (ptp p2) = Some (bad, ptp p2)" using ptp_poll_idle by blast
  have p3: "raop_inv (p2\<lparr>receiver := r\<rparr>)" using p2 by (simp add: raop_inv_def)
  show ?thesis
  proof (cases "err = None")
    case True
    then have "pipeline_poll_inputs env p timeout_ms w = Some (bad = 0, p2\<lparr>receiver := r, ptp := ptp p2\<rparr>, w4)"
      using pp by (simp add: pipeline_poll_inputs_def asked_def [symmetric] a t_def [symmetric] wait poll pr)
    then show ?thesis using p3 by (auto simp: raop_inv_def)
  next
    case False
    then have "pipeline_poll_inputs env p timeout_ms w = Some (False, p2\<lparr>receiver := r\<rparr>, w3)"
      by (simp add: pipeline_poll_inputs_def asked_def [symmetric] a t_def [symmetric] wait poll)
    then show ?thesis using p3 by blast
  qed
qed

subsection \<open>Playing\<close>

lemma track_sequence_inv: "raop_inv (track_sequence p sq) \<longleftrightarrow> raop_inv p"
  by (simp add: track_sequence_def Let_def raop_inv_def)

lemma track_sequence_configured [simp]: "configured (track_sequence p sq) = configured p"
  by (simp add: track_sequence_def Let_def)

lemma output_ok:
  assumes p: "raop_inv p" and n: "n \<le> max_audio_buffer_samples"
  shows "\<exists>p' w'. output_samples env p n w = Some (p', w') \<and> raop_inv p'"
proof (cases "play env = None \<or> n = 0")
  case False
  then obtain out where out: "play env = Some out" "n \<noteq> 0" by auto
  have len: "length (audio_buffer (decs p)) = max_audio_buffer_samples" using p by (simp add: raop_inv_def)
  define xs where "xs = take n (audio_buffer (decs p))"
  have xs: "rd_range (audio_buffer (decs p)) 0 n = Some xs" "length xs = n"
    using n len by (simp_all add: xs_def rd_range_def)
  obtain b where b: "wr_range (audio_buffer (decs p)) 0 (map (scaled env (volume_linear p)) xs) = Some b"
      "length b = max_audio_buffer_samples"
    using xs n len by (simp add: wr_range_def)
  have "decs_ok (decs p) \<Longrightarrow> decs_ok ((decs p)\<lparr>audio_buffer := b\<rparr>)" using b(2) by (simp add: decs_ok_def)
  then show ?thesis
    using p out xs b by (simp add: output_samples_def Let_def raop_inv_def)
qed (use p in \<open>auto simp: output_samples_def split: option.splits\<close>)

lemma decode_packet_ok:
  assumes ok: "media_ok env" and p: "raop_inv p"
  shows "\<exists>p' w'. audio_pipeline_decode_packet env pk p w = Some (p', w') \<and> raop_inv p'"
proof (cases "playback p \<noteq> PLAYING \<or> payload_type (header pk) \<noteq> session_payload_type (pipeline_session p)")
  case False
  let ?p = "track_sequence p (sequence (header pk))"
  have q: "raop_inv ?p" using p by (simp add: track_sequence_inv)
  have "decs_ok (decs p)" using p False by (simp add: raop_inv_def)
  from decode_payload_ok [OF ok this] obtain n d w1 where
    d: "decode_payload env (codec (pipeline_session p)) (decs p) (payload pk) w = Some (n, d, w1)" "decoded_ok (decs p) (n, d)"
    by blast
  have d': "decs_ok d" "the_session d = the_session (decs p)" "\<And>k. n = Some k \<Longrightarrow> k \<le> max_audio_buffer_samples"
    using d(2) by (auto simp: decoded_ok_def)
  have r: "raop_inv (?p\<lparr>decs := d\<rparr>)"
    using q d' by (simp add: raop_inv_def decs_ok_def)
  show ?thesis
  proof (cases n)
    case None
    have "raop_inv (x\<lparr>decode_errors := e\<rparr>)" if "raop_inv x" for x e using that by (simp add: raop_inv_def)
    then show ?thesis using r d(1) False None by (auto simp: audio_pipeline_decode_packet_def Let_def)
  next
    case (Some k)
    then show ?thesis using output_ok [OF r d'(3) [OF Some], of env w1] d(1) False
      by (simp add: audio_pipeline_decode_packet_def Let_def)
  qed
qed (use p in \<open>simp add: audio_pipeline_decode_packet_def\<close>)

lemma near_fallback:
  assumes "uint first < 0x4000000000000000" and "rate \<noteq> (0 :: u32)"
  shows "near (first + 2000000 + of_int (cdiv (sint (d :: u32) * 1000000) (uint rate)))"
proof -
  let ?x = "uint first + 2000000 + cdiv (sint d * 1000000) (uint rate)"
  have "\<bar>sint d\<bar> \<le> 2147483648"
    using sint_range_size [of d] by (simp add: word_size abs_le_iff)
  moreover have "0 < uint rate" using assms(2) uint_ge_0 [of rate] by (metis order_le_less uint_0_iff)
  ultimately have "\<bar>cdiv (sint d * 1000000) (uint rate)\<bar> \<le> 2147483648000000"
    by (intro cdiv_small) (simp_all add: abs_mult)
  then have "- 0x20000000000000 \<le> ?x" "?x \<le> 0x4020000000000000"
    using assms(1) uint_ge_0 [of first] by linarith+
  moreover have "first + 2000000 + of_int (cdiv (sint d * 1000000) (uint rate)) = of_int ?x" by simp
  ultimately show ?thesis unfolding near_def by blast
qed

lemma ntp_deadline_ok:
  assumes ok: "media_ok env" and p: "raop_inv p" and pl: "playback p = PLAYING"
  shows "\<exists>t p' w'. pipeline_ntp_deadline env p ts now_us w = Some (t, p', w') \<and> raop_inv p' \<and>
    session_rate (pipeline_session p') \<noteq> 0 \<and> (\<forall>x. t = Some x \<longrightarrow> near x)"
proof -
  have rate: "session_rate (pipeline_session p) \<noteq> 0" and n: "ntp_ok (ntp p)" and f: "uint (first_arrival_us p) < 0x4000000000000000"
    using p pl by (auto simp: raop_inv_def)
  obtain now w1 where now: "clock env w = (now, w1)" by fastforce
  obtain r where r: "ntp_sync_deadline now (ntp p) ts (session_rate (pipeline_session p)) = Some r" "\<forall>t. r = Inr t \<longrightarrow> near t"
    using deadline_ok [OF n clock_ok [OF ok now]] by blast
  have "raop_inv (p\<lparr>fallback_logged := True\<rparr>)" using p by (simp add: raop_inv_def)
  then show ?thesis
    using now r rate p near_fallback [OF f rate] by (cases r) (auto simp: pipeline_ntp_deadline_def Let_def)
qed

lemma schedule_ok:
  assumes "- 0x5000000000000000 \<le> distance" and "rate \<noteq> 0" and "delay < 2147483648"
  shows "\<exists>what. schedule_packet rate distance delay = Some what"
proof (cases "distance > 40000 \<or> delay < 0")
  case False
  have "0 < uint rate" using assms(2) uint_ge_0 [of rate] by (metis order_le_less uint_0_iff)
  then have "\<bar>cdiv (delay * 1000000) (uint rate)\<bar> \<le> 2147483648000000"
    using assms(3) False by (intro cdiv_small) (simp_all add: abs_mult)
  then have "s64 (distance - cdiv (delay * 1000000) (uint rate)) \<noteq> None"
    using assms(1) False unfolding s64_def by (simp; linarith)
  then show ?thesis using False assms(2) by (auto simp: schedule_packet_def)
qed (auto simp: schedule_packet_def)

lemma play_ready_ok:
  assumes ok: "media_ok env"
  shows "raop_inv p \<Longrightarrow> \<exists>good p' w'. play_ready_packets env pipeline_ntp_deadline n p w = Some (good, p', w') \<and> raop_inv p'"
proof (induction n arbitrary: p w)
  case (Suc n)
  show ?case
  proof (cases "playback p = PLAYING \<and> playout_peek (queue p) \<noteq> None")
    case True
    then obtain i where i: "playback p = PLAYING" "playout_peek (queue p) = Some i" by auto
    have "i < length (packets (queue p))" using playout_peek_Some [OF i(2)] by simp
    then obtain slt where slt: "rd (packets (queue p)) i = Some slt" by (simp add: rd_def)
    obtain now w1 where now: "clock env w = (now, w1)" by fastforce
    obtain dl p1 w2 where dl: "pipeline_ntp_deadline env p (timestamp (slot_header slt)) now w1 = Some (dl, p1, w2)"
      and p1: "raop_inv p1" "session_rate (pipeline_session p1) \<noteq> 0" and dn: "\<forall>x. dl = Some x \<longrightarrow> near x"
      using ntp_deadline_ok [OF ok Suc.prems i(1)] by blast
    have q1: "queue p1 = queue p" using ntp_deadline_keeps [of env] dl unfolding keeps_queue_def by blast
    note step = play_ready_packets.simps(2) i option.case slt now dl bind.bind_lunit split_conv
    show ?thesis
    proof (cases dl)
      case None
      then show ?thesis using p1 i slt now dl by (simp add: exI [of _ True])
    next
      case (Some t)
      obtain delay w3 where de: "(if sint (t - now) > 40000 then (0, w2)
          else (case output_delay env of None \<Rightarrow> (0, w2) | Some f \<Rightarrow> f w2)) = (delay, w3)" by (metis surj_pair)
      have "delay < 2147483648"
        using de ok unfolding media_ok_def by (auto split: if_splits option.splits simp: abs_less_iff) (metis fst_conv)
      moreover have "- 0x5000000000000000 \<le> sint (t - now)"
        using near_distance [OF _ clock_ok [OF ok now], of t] dn Some by (simp add: abs_le_iff)
      ultimately obtain what where what: "schedule_packet (session_rate (pipeline_session p1)) (sint (t - now)) delay = Some what"
        using schedule_ok p1(2) by blast
      obtain p2 w4 where p2: "(if what = Late then Some (p1\<lparr>late_packets := late_packets p1 + 1\<rparr>, w3)
            else audio_pipeline_decode_packet env (slot_packet slt) p1 w3) = Some (p2, w4)" and i2: "raop_inv p2"
      proof (cases "what = Late")
        case True
        have "raop_inv (p1\<lparr>late_packets := late_packets p1 + 1\<rparr>)" using p1 by (simp add: raop_inv_def)
        then show ?thesis using that True by simp
      qed (use that decode_packet_ok [OF ok p1(1), of "slot_packet slt" w3] in auto)
      have q2: "queue p2 = queue p"
        using p2 q1 decode_packet_queue [of env "slot_packet slt" p1 w3 p2 w4] by (auto split: if_splits)
      have "playout_slot (queue p) i = Some (slot_packet slt)" by (simp add: playout_slot_def slt)
      then obtain q where q: "playout_pop (queue p2) i = Some q" "playout_inv q"
        using pq.pop_Some [of "queue p" i] i(2) Suc.prems q2 by (auto simp: raop_inv_def)
      have "raop_inv (p2\<lparr>queue := q\<rparr>)" using i2 q(2) by (simp add: raop_inv_def)
      from Suc.IH [OF this, of w4] show ?thesis
        unfolding step Some Let_def de what using p1(1) p2 q(1) i(1)
        by (cases what) auto
    qed
  qed (use Suc.prems in \<open>auto split: option.splits\<close>)
qed (simp add: exI [of _ True])

lemma pipeline_poll_ok:
  assumes ok: "media_ok env" and p: "raop_inv p"
  shows "\<exists>good p' w'. audio_pipeline_poll env p timeout_ms w = Some (good, p', w') \<and> raop_inv p'"
proof -
  obtain good p1 w1 where 1: "pipeline_poll_inputs env p timeout_ms w = Some (good, p1, w1)" "raop_inv p1"
    using poll_inputs_ok [OF assms] by blast
  have "stream_type (pipeline_session p) = 0" using p by (simp add: raop_inv_def)
  then show ?thesis
    using 1 play_ready_ok [OF ok 1(2), of 16 w1]
    by (cases good)
      (simp_all add: audio_pipeline_poll_def pipeline_poll_raop_def pipeline_play_ready_packets_def exI [of _ False])
qed

subsection \<open>Setting up\<close>

text \<open>
  The RAOP sessions that the pipeline is configured with: for ALAC, the Rice parameters of the
  format are inside the bounds of the decoder.
\<close>

definition session_safe :: "sdp_session \<Rightarrow> bool" where
  "session_safe s \<longleftrightarrow> stream_type s = 0 \<and>
     (codec s = CODEC_ALAC \<or> codec s = CODEC_UNKNOWN \<longrightarrow>
       unat (fmtp_or (take (alac_fmtp_count s) (alac_fmtp s)) 5 14 :: u8) \<le> 24 \<and>
       unat (fmtp_or (take (alac_fmtp_count s) (alac_fmtp s)) 3 40 :: u8) \<le> 37)"

lemma reset_decoders_keeps:
  assumes "reset_decoders env s d w = (d', w')"
  shows "audio_buffer d' = audio_buffer d \<and> frame_length (alac d') = 0 \<and>
    the_session d' = s\<lparr>codec := (if codec s = CODEC_UNKNOWN then CODEC_ALAC else codec s)\<rparr>"
  using assms by (auto simp: reset_decoders_def Let_def decoders_zero_def split: prod.splits)

lemma open_decoder_ok:
  assumes o: "open_decoder env s d w = (good, d', w')" and f: "frame_length (alac d) = 0"
    and len: "length (audio_buffer d) = max_audio_buffer_samples" and bits: "bits_per_sample s = 16"
    and rice: "codec (the_session d) = CODEC_ALAC \<Longrightarrow>
       unat (fmtp_or (take (alac_fmtp_count s) (alac_fmtp s)) 5 14 :: u8) \<le> 24 \<and>
       unat (fmtp_or (take (alac_fmtp_count s) (alac_fmtp s)) 3 40 :: u8) \<le> 37"
  shows "audio_buffer d' = audio_buffer d \<and> the_session d' = the_session d \<and> (good \<longrightarrow> decs_ok d')"
proof (cases "codec (the_session d) = CODEC_AAC")
  case True
  obtain g a w1 where "aac_decoder_init env (aac d) (take (aac_config_len s) (aac_config s))
      (ucast (session_channels s)) (session_rate s) w = (g, a, w1)" by (metis surj_pair)
  then show ?thesis using o True len by (auto simp: open_decoder_def Let_def decs_ok_def split: if_splits)
next
  case False
  show ?thesis
  proof (cases "codec (the_session d) = CODEC_ALAC")
    case True
    obtain r a pool where i: "alac_decoder_init (alac_pool d) (take (alac_fmtp_count s) (alac_fmtp s))
        (frames_per_packet s) (ucast (bits_per_sample s)) (ucast (session_channels s)) (session_rate s) = (r, a, pool)"
      by (metis surj_pair)
    have "(ucast (bits_per_sample s) :: u8) \<noteq> 24" using bits by simp
    then have "decoder_ready a pool" if "r = 0"
      using init_ready [OF i [unfolded that]] rice [OF True] by blast
    then show ?thesis using o True f i len by (auto simp: open_decoder_def Let_def decs_ok_def)
  qed (use o False len in \<open>auto simp: open_decoder_def decs_ok_def\<close>)
qed

lemma open_cipher_ok:
  assumes "open_cipher env s d w = (good, d', w')"
  shows "audio_buffer d' = audio_buffer d \<and> the_session d' = the_session d \<and> (decs_ok d \<longrightarrow> decs_ok d')"
  using assms by (auto simp: open_cipher_def decs_ok_def split: if_splits prod.splits option.splits)

lemma configure_ok:
  assumes p: "raop_inv p" and s: "session_safe s" and c: "audio_pipeline_configure env p s w = (good, p', w')"
  shows "raop_inv p'"
proof (cases "session_supported s")
  case False
  then show ?thesis using c p by (simp add: audio_pipeline_configure_def)
next
  case sup: True
  obtain d1 w1 where 1: "reset_decoders env s (decs p) w = (d1, w1)" by fastforce
  obtain g2 d2 w2 where 2: "open_decoder env s d1 w1 = (g2, d2, w2)" by (metis surj_pair)
  obtain g3 d3 w3 where 3: "open_cipher env s d2 w2 = (g3, d3, w3)" by (metis surj_pair)
  let ?q = "p\<lparr>ptp := ptp p, decs := d1, ptp_anchor := anchor_zero, configured := False, playback := STOPPED\<rparr>"
  have clk: "ptp_sync_set_clock (ptp p) 0 = ptp p" using p by (simp add: raop_inv_def ptp_sync_set_clock_def)
  have st: "stream_type s = 0" using s by (simp add: session_safe_def)
  note k1 = reset_decoders_keeps [OF 1]
  have "length (audio_buffer d1) = max_audio_buffer_samples" using k1 p by (simp add: raop_inv_def)
  from open_decoder_ok [OF 2 _ this] k1 s sup have
    k2: "audio_buffer d2 = audio_buffer d1" "the_session d2 = the_session d1" "g2 \<Longrightarrow> decs_ok d2"
    by (auto simp: session_safe_def session_supported_def split: if_splits)
  note k3 = open_cipher_ok [OF 3]
  have "session_rate s \<noteq> 0" using sup by (simp add: session_supported_def)
  have q: "raop_inv (?q\<lparr>decs := d\<rparr>)" "decs_ok d \<Longrightarrow> raop_inv (?q\<lparr>decs := d, configured := True, playback := READY\<rparr>)"
    if "audio_buffer d = audio_buffer d1" "the_session d = the_session d1" for d
    using that k1 p st \<open>session_rate s \<noteq> 0\<close> by (simp_all add: raop_inv_def)
  show ?thesis
    using c sup st 1 2 3 q [OF k2(1,2)] q [of d3] k2 k3
    by (auto simp: audio_pipeline_configure_def Let_def clk split: if_splits)
qed

subsection \<open>The operations of a session\<close>

datatype pipeline_op =
  Op_Configure sdp_session
| Op_Transport net_addr
| Op_Start_At u32 bool
| Op_Start
| Op_Flush
| Op_Stop
| Op_Volume "rat option"
| Op_Poll int

definition pipeline_op :: "'w audio_env \<Rightarrow> pipeline_op \<Rightarrow> pipeline \<times> 'w \<Rightarrow> (pipeline \<times> 'w) option" where
  "pipeline_op env op st =
     (case st of (p, w) \<Rightarrow>
       (case op of
          Op_Configure s \<Rightarrow> Some (snd (audio_pipeline_configure env p s w))
        | Op_Transport a \<Rightarrow> Some (audio_pipeline_set_transport env p a w)
        | Op_Start_At ts exclusive \<Rightarrow> Some (audio_pipeline_set_start p ts exclusive, w)
        | Op_Start \<Rightarrow> Some (snd (audio_pipeline_start p), w)
        | Op_Flush \<Rightarrow> Some (audio_pipeline_flush p, w)
        | Op_Stop \<Rightarrow> Some (audio_pipeline_stop p, w)
        | Op_Volume v \<Rightarrow> Some (snd (audio_pipeline_set_volume env p v), w)
        | Op_Poll t \<Rightarrow> map_option snd (audio_pipeline_poll env p t w)))"

fun pipeline_run :: "'w audio_env \<Rightarrow> pipeline_op list \<Rightarrow> pipeline \<times> 'w \<Rightarrow> (pipeline \<times> 'w) option" where
  "pipeline_run env [] st = Some st"
| "pipeline_run env (op # ops) st = do { st \<leftarrow> pipeline_op env op st; pipeline_run env ops st }"

lemma pipeline_flush_ok: "raop_inv p \<Longrightarrow> raop_inv (audio_pipeline_flush p)"
  by (simp add: raop_inv_def audio_pipeline_flush_def playout_inv_reset ntp_ok_def)

lemma pipeline_op_ok:
  assumes ok: "media_ok env" and p: "raop_inv p" and s: "\<And>s. op = Op_Configure s \<Longrightarrow> session_safe s"
  shows "\<exists>p' w'. pipeline_op env op (p, w) = Some (p', w') \<and> raop_inv p'"
proof (cases op)
  case (Op_Configure x)
  then show ?thesis
    using configure_ok [OF p s, of x env w] by (cases "audio_pipeline_configure env p x w") (auto simp: pipeline_op_def)
next
  case (Op_Transport a)
  then show ?thesis using p
    by (auto simp: pipeline_op_def audio_pipeline_set_transport_def raop_inv_def ntp_init_ok split: prod.splits)
next
  case Op_Stop
  have "raop_inv (p\<lparr>playback := STOPPED\<rparr>)" using p by (simp add: raop_inv_def)
  then show ?thesis using Op_Stop by (simp add: pipeline_op_def audio_pipeline_stop_def pipeline_flush_ok)
next
  case (Op_Poll t)
  then show ?thesis using pipeline_poll_ok [OF ok p, of t w] by (auto simp: pipeline_op_def)
qed (use p pipeline_flush_ok [OF p] in \<open>auto simp: pipeline_op_def audio_pipeline_set_start_def playout_inv_set_floor
      audio_pipeline_start_def audio_pipeline_set_volume_def Let_def raop_inv_def split: option.splits\<close>)

lemma pipeline_run_ok:
  assumes ok: "media_ok env"
  shows "raop_inv p \<Longrightarrow> (\<And>s. Op_Configure s \<in> set ops \<Longrightarrow> session_safe s) \<Longrightarrow>
    \<exists>p' w'. pipeline_run env ops (p, w) = Some (p', w') \<and> raop_inv p'"
proof (induction ops arbitrary: p w)
  case (Cons op ops)
  obtain p1 w1 where "pipeline_op env op (p, w) = Some (p1, w1)" "raop_inv p1"
    using pipeline_op_ok [OF ok Cons.prems(1), of op w] Cons.prems(2) by auto
  then show ?case using Cons.IH [of p1 w1] Cons.prems(2) by simp
qed simp

lemma create_ok:
  assumes "audio_pipeline_create env conf lip w = (good, p, w')"
  shows "raop_inv p"
proof -
  have "length (audio_buffer decoders_zero) = max_audio_buffer_samples" by (simp add: decoders_zero_def)
  then have z: "raop_inv pipeline_zero"
    by (simp add: raop_inv_def pipeline_zero_def playout_inv_zero ntp_init_ok ptp_sync_init_def decoders_zero_def session_zero_def)
  have f: "raop_inv (p\<lparr>ptp_ip := a\<rparr>) = raop_inv p" "raop_inv (p\<lparr>ntp_initialized := b\<rparr>) = raop_inv p"
    "raop_inv (p\<lparr>receiver := r\<rparr>) = raop_inv p" "raop_inv (p\<lparr>buffered := u\<rparr>) = raop_inv p" for p a b r u
    by (simp_all add: raop_inv_def)
  show ?thesis
    using assms z by (auto simp: audio_pipeline_create_def Let_def f split: if_splits prod.splits option.splits bool.splits)
qed

end
