(* ===== verification/Audio_Authentic.thy ===== *)
theory Audio_Authentic
  imports Raop_Safety
begin

section \<open>What an AirPlay 2 poll puts into the queue\<close>

text \<open>
  The queue of a session of type 96 or 103 is filled from the RTP sockets and from the buffered
  transport; every packet that enters it has been authenticated with the session's key.
\<close>

definition authentic :: "'w audio_env \<Rightarrow> buf \<Rightarrow> rtp_packet \<Rightarrow> bool" where
  "authentic env key pk \<longleftrightarrow>
     (\<exists>cipher tag nonce. length tag = 16 \<and> length nonce = 8 \<and>
        unseal (pair_primitives env) key (replicate 4 0 @ nonce)
          (bytes32 (timestamp (header pk)) @ bytes32 (ssrc (header pk))) tag cipher = Some (payload pk))"

definition admitted :: "'w audio_env \<Rightarrow> pipeline \<Rightarrow> pipeline \<Rightarrow> bool" where
  "admitted env p0 p \<longleftrightarrow> playout_inv (queue p) \<and> pipeline_session p = pipeline_session p0 \<and>
     (\<forall>pk\<in>ran (contents (queue p)). pk \<in> ran (contents (queue p0)) \<or> authentic env (audio_key (pipeline_session p0)) pk)"

lemma ran_update: "x \<in> ran (m(k \<mapsto> y)) \<Longrightarrow> x = y \<or> x \<in> ran m"
  by (auto simp: ran_def split: if_splits)

text \<open>Operations that leave the queue and the session alone.\<close>

definition aside :: "pipeline \<Rightarrow> pipeline \<Rightarrow> bool" where
  "aside p p' \<longleftrightarrow> queue p' = queue p \<and> decs p' = decs p"

lemma admitted_aside: "admitted env p0 p \<Longrightarrow> aside p p' \<Longrightarrow> admitted env p0 p'"
  by (simp add: admitted_def aside_def)

lemma control_aside:
  assumes "audio_pipeline_on_rtp_control data (p, w) = Some (p', w')"
  shows "aside p p'"
proof (cases "stream_type (pipeline_session p) = 96")
  case True
  then show ?thesis
    using assms by (cases "ptp_sync_anchor data" rule: ret_cases)
      (auto simp: audio_pipeline_on_rtp_control_def Let_def aside_def)
qed (use assms in \<open>auto simp: audio_pipeline_on_rtp_control_def Let_def aside_def bind_eq_Some_conv split: if_splits\<close>)

lemma timing_aside:
  assumes "audio_pipeline_on_rtp_timing env data from_peer (p, w) = Some (p', w')"
  shows "aside p p'"
proof -
  obtain n1 w1 where 1: "clock env w = (n1, w1)" by fastforce
  obtain n2 w2 where 2: "clock env w1 = (n2, w2)" by fastforce
  obtain n3 w3 where 3: "clock env w2 = (n3, w3)" by fastforce
  show ?thesis
    using assms by (cases "ntp_sync_reply n1 n2 data" rule: ret_cases)
      (auto simp: audio_pipeline_on_rtp_timing_def Let_def aside_def 1 2 3 bind_eq_Some_conv split: if_splits)
qed

lemma push_decs: "push_packet env pk p w = Some (p', w') \<Longrightarrow> decs p' = decs p"
  by (auto simp: push_packet_def Let_def bind_eq_Some_conv split: if_splits prod.splits)

text \<open>What a received packet does is one push, or nothing to the queue.\<close>

lemma audio_push:
  assumes a: "audio_pipeline_on_rtp_audio env pk (p, w) = Some (p', w')"
  shows "aside p p' \<or> (\<exists>pk'. push_packet env pk' p w = Some (p', w'))"
proof -
  let ?m = "crypto_airplay2_decrypt_rtp env (audio_key (pipeline_session p)) (wire_packet_bytes pk) 12
    (length (payload pk)) rtp_buffer_size"
  show ?thesis
    using a by (cases ?m rule: ret_cases) (auto simp: audio_pipeline_on_rtp_audio_def aside_def split: if_splits)
qed

lemma audio_decs: "audio_pipeline_on_rtp_audio env pk (p, w) = Some (p', w') \<Longrightarrow> decs p' = decs p"
  using audio_push [of env pk p w p' w'] push_decs by (auto simp: aside_def)

lemma audio_playout_inv:
  assumes "playout_inv (queue p)" and "audio_pipeline_on_rtp_audio env pk (p, w) = Some (p', w')"
  shows "playout_inv (queue p')"
  using audio_push [OF assms(2)] assms(1) by (auto simp: aside_def dest: push_packet_contents [OF assms(1)])

lemma audio_admitted:
  assumes p: "admitted env p0 p" and st: "stream_type (pipeline_session p0) \<noteq> 0"
    and a: "audio_pipeline_on_rtp_audio env pk (p, w) = Some (p', w')"
  shows "admitted env p0 p'"
proof -
  have inv: "playout_inv (queue p)" and ses: "pipeline_session p = pipeline_session p0" using p by (auto simp: admitted_def)
  have inv': "playout_inv (queue p')" and d: "decs p' = decs p"
    using audio_playout_inv [OF inv a] audio_decs [OF a] by auto
  from rtp_audio_contents [OF inv _ a] st ses consider "contents (queue p') = contents (queue p)"
    | msg cipher tag nonce where "contents (queue p') = (contents (queue p))(sequence (header pk) \<mapsto> pk\<lparr>payload := msg\<rparr>)"
      "length tag = 16" "length nonce = 8" "unseal (pair_primitives env) (audio_key (pipeline_session p)) (replicate 4 0 @ nonce)
         (bytes32 (timestamp (header pk)) @ bytes32 (ssrc (header pk))) tag cipher = Some msg"
    by auto
  then show ?thesis
  proof cases
    case 1
    then show ?thesis using p inv' d by (simp add: admitted_def)
  next
    case 2
    have "authentic env (audio_key (pipeline_session p0)) (pk\<lparr>payload := msg\<rparr>)"
      using 2(2-4) ses unfolding authentic_def by (intro exI conjI) auto
    then show ?thesis using p inv' d 2(1) by (auto simp: admitted_def dest!: ran_update)
  qed
qed

lemma callback_admitted:
  assumes st: "stream_type (pipeline_session p0) \<noteq> 0"
    and "\<forall>p w. s = Some (p, w) \<longrightarrow> admitted env p0 p"
  shows "\<forall>p w. pipeline_callback env e s = Some (p, w) \<longrightarrow> admitted env p0 p"
proof (intro allI impI)
  fix p' w'
  assume a: "pipeline_callback env e s = Some (p', w')"
  then obtain p w where s: "s = Some (p, w)" by (cases s) (auto simp: pipeline_callback_def)
  have p: "admitted env p0 p" using assms(2) s by blast
  show "admitted env p0 p'"
    using a s
    by (cases e) (auto simp: pipeline_callback_def intro: audio_admitted [OF p st] admitted_aside [OF p control_aside]
      admitted_aside [OF p timing_aside])
qed

lemma poll_inputs_admitted:
  assumes st: "stream_type (pipeline_session p) \<noteq> 0" and q: "playout_inv (queue p)"
    and a: "pipeline_poll_inputs env p timeout_ms w = Some (good, p', w')"
  shows "admitted env p p'"
proof -
  define asked where "asked = (if port (raop_peer p) = 0 then Some (p, w)
        else
          let (now, w) = clock env w in do {
            (request, sync) \<leftarrow> ntp_sync_request now (ntp p);
            let p = p\<lparr>ntp := sync\<rparr>;
            Some (p, case request of None \<Rightarrow> w | Some b \<Rightarrow> udp_send env b (raop_peer p) w) })"
  note a = a [unfolded pipeline_poll_inputs_def, folded asked_def]
  obtain p1 w1 where 1: "asked = Some (p1, w1)" using a by (cases asked) auto
  then have "aside p p1"
    by (auto simp: asked_def aside_def Let_def bind_eq_Some_conv split: if_splits prod.splits)
  moreover have "admitted env p p" using q by (simp add: admitted_def)
  ultimately have p1: "admitted env p p1" using admitted_aside by blast
  define t where "t = (if playback p1 = PLAYING \<and> (timeout_ms < 0 \<or> timeout_ms > 2) then 2 else timeout_ms)"
  obtain waited flags receives w2 where wait: "udp_wait env t w1 = ((waited, flags, receives), w2)"
    by (metis surj_pair)
  let ?I = "\<lambda>s. \<forall>q w. s = Some (q, w) \<longrightarrow> admitted env p q"
  have "?I (Some (p1, w2))" using p1 by simp
  from receiver_poll_keeps [of ?I "pipeline_callback env" "Some (p1, w2)", OF callback_admitted [OF st] this]
  obtain err r s where poll: "rtp_receiver_poll (pipeline_callback env) waited flags receives
      (receiver p1, Some (p1, w2)) = Some (err, r, s)" and s: "?I s"
    by blast
  note a = a [unfolded 1 bind.bind_lunit split_conv Let_def, folded t_def, unfolded wait split_conv poll bind.bind_lunit]
  obtain p2 w3 where s2: "s = Some (p2, w3)" using a by (cases s) auto
  note a = a [unfolded s2 bind.bind_lunit split_conv]
  have p2: "admitted env p p2" using s s2 by simp
  have "aside p2 p'"
    using a by (auto simp: aside_def bind_eq_Some_conv split: if_splits prod.splits)
  then show ?thesis using p2 admitted_aside by blast
qed

text \<open>The buffered transport hands at most one packet to its callback.\<close>

lemma buffered_poll_callback:
  assumes "buffered_audio_poll env cb b sender_ip s w = Some (r, b', s', w')"
  shows "s' = s \<or> (\<exists>pk w1 w2. cb pk (s, w1) = Some (s', w2))"
proof -
  obtain r0 b0 w0 where acc: "buffered_accept env b sender_ip w = (r0, b0, w0)" by (metis surj_pair)
  note a = assms [unfolded buffered_audio_poll_def acc split_conv]
  show ?thesis
  proof (cases r0)
    case None
    note a = a [unfolded None option.case]
    obtain r1 b1 w1 where 1: "(if b_used b0 < 2 then buffered_fill env 2 b0 w0 else Some (None, b0, w0)) = Some (r1, b1, w1)"
      using a by (cases "if b_used b0 < 2 then buffered_fill env 2 b0 w0 else Some (None, b0, w0)") auto
    note a = a [unfolded 1 bind.bind_lunit split_conv]
    show ?thesis
    proof (cases r1)
      case r1: None
      note a = a [unfolded r1 option.case Let_def]
      obtain d0 d1 where 2: "rd (b_data b1) 0 = Some d0" "rd (b_data b1) 1 = Some d1"
        using a by (auto simp: bind_eq_Some_conv)
      note a = a [unfolded 2 bind.bind_lunit]
      let ?need = "unat d0 * 256 + unat d1"
      show ?thesis
      proof (cases "?need < 38 \<or> ?need > length (b_data b1)")
        case False
        note a = a [unfolded if_not_P [OF False]]
        obtain r2 b2 w2 where 3: "buffered_fill env ?need b1 w1 = Some (r2, b2, w2)"
          using a by (cases "buffered_fill env ?need b1 w1") auto
        note a = a [unfolded 3 bind.bind_lunit split_conv]
        show ?thesis
        proof (cases r2)
          case r2: None
          note a = a [unfolded r2 option.case]
          obtain sq pk where 4: "buffered_packet (b_data b2) ?need = Some (sq, pk)"
            using a by (cases "buffered_packet (b_data b2) ?need") auto
          show ?thesis using a by (auto simp: 4 bind_eq_Some_conv split: if_splits)
        qed (use a in simp)
      qed (use a in \<open>simp split: prod.splits\<close>)
    qed (use a in simp)
  qed (use a in simp)
qed

lemma receive_records_admitted:
  assumes st: "stream_type (pipeline_session p0) \<noteq> 0"
  shows "admitted env p0 p \<Longrightarrow> receive_records env n p w = Some (good, p', w') \<Longrightarrow> admitted env p0 p'"
proof (induction n arbitrary: p w)
  case (Suc n)
  show ?case
  proof (cases "\<not> discarding (buffered p) \<and> unat (count (queue p)) \<ge> playout_packets_max - 2")
    case False
    note a = Suc.prems(2) [unfolded receive_records.simps if_not_P [OF False]]
    obtain r b p1 w1 where 1: "buffered_audio_poll env (audio_pipeline_on_rtp_audio env) (buffered p)
        (ip (raop_peer p)) p w = Some (r, b, p1, w1)"
      using a by (auto simp: bind_eq_Some_conv)
    have "admitted env p0 p1"
      using buffered_poll_callback [OF 1] audio_admitted [OF Suc.prems(1) st] Suc.prems(1) by auto
    then have "admitted env p0 (p1\<lparr>buffered := b\<rparr>)" by (rule admitted_aside) (simp add: aside_def)
    then show ?thesis using a Suc.IH [of "p1\<lparr>buffered := b\<rparr>" w1] by (auto simp: 1 Let_def split: if_splits)
  qed (use Suc.prems in simp)
qed simp

subsection \<open>Playing only takes packets out\<close>

lemma drain_keys:
  assumes "playout_inv q" and "drain_queue k q = Some (ps, q')"
  shows "distinct (map (\<lambda>p. sequence (header p)) ps) \<and> (\<forall>x\<in>set ps. contents q (sequence (header x)) \<noteq> None) \<and>
    length ps \<le> k \<and> drain_queue (length ps) q = Some (ps, q')"
  using assms
proof (induction k arbitrary: q ps)
  case (Suc k)
  show ?case
  proof (cases "playout_peek q")
    case (Some i)
    obtain p q1 ps1 where s: "playout_slot q i = Some p" "playout_pop q i = Some q1"
        "drain_queue k q1 = Some (ps1, q')" "ps = p # ps1"
      using Suc.prems(2) Some by (auto simp: bind_eq_Some_conv)
    have q1: "playout_inv q1" "contents q1 = (contents q)(sequence (header p) := None)"
      using pq.pop_Some [OF Suc.prems(1) Some s(1)] s(2) by auto
    have "contents q (sequence (header p)) = Some p"
      using pq.peek_Some [OF Suc.prems(1) Some] s(1) by auto
    then show ?thesis
      using Suc.IH [OF q1(1) s(3)] q1(2) s Some by (auto split: if_splits)
  qed (use Suc.prems in auto)
qed simp

text \<open>The packets that leave are the first in the queue's order; the rest comes after them.\<close>

lemma drain_sorted:
  assumes inv: "playout_inv q" and d: "drain_queue k q = Some (ps, q')"
  shows "\<exists>rest. set (ps @ rest) = ran (contents q) \<and>
    sorted_wrt (\<lambda>a b. sequence (header a) - next_sequence q < sequence (header b) - next_sequence q) (ps @ rest)"
proof -
  have cnt: "card (dom (contents q)) = unat (count q)"
    using inv by (simp add: card_dom_contents playout_inv_def)
  note keys = drain_keys [OF inv d]
  have "length ps = card ((\<lambda>p. sequence (header p)) ` set ps)"
    using keys distinct_card [of "map (\<lambda>p. sequence (header p)) ps"] by simp
  also have "\<dots> \<le> card (dom (contents q))"
    using keys by (intro card_mono finite_dom_contents) auto
  finally have le: "length ps \<le> unat (count q)" using cnt by simp
  from pq.drain_in_order [OF inv cnt] obtain all q2 where
    all: "drain_queue (unat (count q)) q = Some (all, q2)" "set all = ran (contents q)"
      "sorted_wrt (\<lambda>a b. sequence (header a) - next_sequence q < sequence (header b) - next_sequence q) all"
    by blast
  have split: "unat (count q) = length ps + (unat (count q) - length ps)" using le by simp
  have "drain_queue (length ps) q = Some (ps, q')" using keys by blast
  then obtain rest where "drain_queue (unat (count q) - length ps) q' = Some (rest, q2)" "all = ps @ rest"
    using all(1) unfolding split [symmetric] by (subst (asm) split) (auto simp: drain_add bind_eq_Some_conv)
  then show ?thesis using all(2,3) by (intro exI [of _ rest]) simp
qed

lemma play_ready_subset:
  assumes q: "playout_inv (queue p)" and f: "keeps_queue env f"
    and a: "play_ready_packets env f n p w = Some (good, p', w')"
  shows "\<exists>k ps. k \<le> n \<and> drain_queue k (queue p) = Some (ps, queue p') \<and> length ps \<le> k \<and>
    contents (queue p') = contents (queue p) |` (- ((\<lambda>p. sequence (header p)) ` set ps))"
  using play_ready_drains [OF f a] drain_contents [OF q] drain_keys [OF q] by blast

lemma played_in_order:
  assumes q: "playout_inv (queue p)" and f: "keeps_queue env f"
    and a: "pipeline_play_ready_packets env f p w = Some (good, p', w')"
  shows "\<exists>ps. length ps \<le> 16 \<and> set ps \<subseteq> ran (contents (queue p)) \<and>
    sorted_wrt (\<lambda>a b. sequence (header a) - next_sequence (queue p) < sequence (header b) - next_sequence (queue p)) ps \<and>
    contents (queue p') = contents (queue p) |` (- ((\<lambda>p. sequence (header p)) ` set ps)) \<and>
    (\<forall>a\<in>set ps. \<forall>b\<in>ran (contents (queue p')).
       sequence (header a) - next_sequence (queue p) < sequence (header b) - next_sequence (queue p))"
proof -
  obtain k ps where k: "k \<le> 16" "drain_queue k (queue p) = Some (ps, queue p')" "length ps \<le> k"
    and c: "contents (queue p') = contents (queue p) |` (- ((\<lambda>p. sequence (header p)) ` set ps))"
    using play_ready_subset [OF q f a [unfolded pipeline_play_ready_packets_def]] by blast
  obtain rest where r: "set (ps @ rest) = ran (contents (queue p))"
    "sorted_wrt (\<lambda>a b. sequence (header a) - next_sequence (queue p) < sequence (header b) - next_sequence (queue p)) (ps @ rest)"
    using drain_sorted [OF q k(2)] by blast
  have "b \<in> set rest" if b: "b \<in> ran (contents (queue p'))" for b
  proof -
    obtain s where s: "contents (queue p) s = Some b" "s \<notin> (\<lambda>p. sequence (header p)) ` set ps"
      using b unfolding c by (auto simp: ran_def restrict_map_def split: if_splits)
    have "sequence (header b) = s" using s(1) by (rule contents_key)
    moreover have "b \<in> set (ps @ rest)" using s(1) unfolding r(1) by (rule ranI)
    ultimately show ?thesis using s(2) by auto
  qed
  then show ?thesis
    using k(1,3) r c by (intro exI [of _ ps]) (auto simp: sorted_wrt_append)
qed

lemma ran_restrict: "ran (m |` A) \<subseteq> ran m"
  by (auto simp: ran_def restrict_map_def)

lemma poll_admitted:
  assumes st: "stream_type (pipeline_session p) \<noteq> 0" and q: "playout_inv (queue p)"
    and a: "audio_pipeline_poll env p timeout_ms w = Some (good, p', w')"
    and pk: "pk \<in> ran (contents (queue p'))"
  shows "pk \<in> ran (contents (queue p)) \<or> authentic env (audio_key (pipeline_session p)) pk"
proof -
  have play: "ran (contents (queue p2)) \<subseteq> ran (contents (queue p1))"
    if "admitted env p p1" "pipeline_play_ready_packets env pipeline_ptp_deadline p1 w1 = Some (g, p2, w2)" for p1 p2 w1 w2 g
    using play_ready_subset [OF _ ptp_deadline_keeps that(2) [unfolded pipeline_play_ready_packets_def]] that(1)
    by (auto simp: admitted_def dest!: subsetD [OF ran_restrict])
  have in1: "admitted env p p1" if "pipeline_poll_inputs env p timeout_ms w = Some (g, p1, w1)" for g p1 w1
    by (rule poll_inputs_admitted [OF st q that])
  have in2: "admitted env p p2" if "admitted env p p1" "pipeline_receive_buffered env p1 w1 = Some (g, p2, w2)" for g p1 w1 p2 w2
    using that receive_records_admitted [OF st that(1)] by (auto simp: pipeline_receive_buffered_def split: if_splits)
  have "\<exists>p1. admitted env p p1 \<and> ran (contents (queue p')) \<subseteq> ran (contents (queue p1))"
  proof -
    consider "stream_type (pipeline_session p) = 96" | "stream_type (pipeline_session p) = 103"
      | "stream_type (pipeline_session p) \<noteq> 96" "stream_type (pipeline_session p) \<noteq> 103" by blast
    then show ?thesis
    proof cases
      case 1
      then have r: "pipeline_poll_airplay2_realtime env p timeout_ms w = Some (good, p', w')"
        using a by (simp add: audio_pipeline_poll_def)
      obtain g p1 w1 where i: "pipeline_poll_inputs env p timeout_ms w = Some (g, p1, w1)"
        using r by (auto simp: pipeline_poll_airplay2_realtime_def bind_eq_Some_conv)
      show ?thesis
        using r play [OF in1 [OF i], of w1 good p' w'] in1 [OF i]
        by (cases g) (auto simp: pipeline_poll_airplay2_realtime_def i)
    next
      case 2
      then have r: "pipeline_poll_airplay2_buffered env p timeout_ms w = Some (good, p', w')"
        using a by (simp add: audio_pipeline_poll_def)
      obtain g p1 w1 where i: "pipeline_poll_inputs env p timeout_ms w = Some (g, p1, w1)"
        using r by (auto simp: pipeline_poll_airplay2_buffered_def bind_eq_Some_conv)
      show ?thesis
      proof (cases g)
        case True
        obtain g2 p2 w2 where j: "pipeline_receive_buffered env p1 w1 = Some (g2, p2, w2)"
          using r True by (auto simp: pipeline_poll_airplay2_buffered_def i bind_eq_Some_conv)
        show ?thesis
          using r True play [OF in2 [OF in1 [OF i] j], of w2 good p' w'] in2 [OF in1 [OF i] j]
          by (cases g2) (auto simp: pipeline_poll_airplay2_buffered_def i j)
      qed (use r in1 [OF i] in \<open>auto simp: pipeline_poll_airplay2_buffered_def i\<close>)
    next
      case 3
      then have "p' = p" using a st by (auto simp: audio_pipeline_poll_def)
      then show ?thesis using q by (intro exI [of _ p]) (simp add: admitted_def)
    qed
  qed
  then show ?thesis using pk by (auto simp: admitted_def)
qed

end
