(* ===== verification/Audio_Properties.thy ===== *)
theory Audio_Properties
  imports Audio_Authentic
begin

section \<open>Properties of the audio pipeline\<close>

text \<open>
  What the lemmas of \<open>Audio_Order\<close>, \<open>Audio_Safety\<close> and \<open>Raop_Safety\<close> show of the pipeline, with an
  environment small enough to evaluate for the instances.
\<close>

subsection \<open>A small environment\<close>

definition media_env :: "(sock \<Rightarrow> udp_recv list) \<Rightarrow> unit audio_env" where
  "media_env datagrams =
     \<lparr>send_all = \<lambda>so b w. (True, w), receive_from = \<lambda>so n w. (Receive_Timeout, w),
      accept_on = \<lambda>so w. (Accept_Timeout, w), listen_on = \<lambda>a p w. (Some \<lparr>handle = Some 3, socket_port = p\<rparr>, w),
      wait_ready = \<lambda>ss t w. (None, w), close_socket = \<lambda>so w. w, entropy = \<lambda>w. ((False, None), w),
      pair_primitives = toy, challenge = \<lambda>ch a m w. (None, w), scan_float = \<lambda>s. (0, None), show_volume = \<lambda>v. [],
      libc = \<lparr>wide_unsigned = of_int, wide_signed = of_int, char_signed = False\<rparr>,
      clock = \<lambda>w. (5000000, w), udp_bind = \<lambda>w. (\<lambda>s p. True, w), udp_send = \<lambda>b a w. w,
      udp_wait = \<lambda>t w. ((1, \<lambda>s. datagrams s \<noteq> [], datagrams), w), ptp_bind = \<lambda>w. ((\<lambda>i. True, \<lambda>i a. True), w),
      ptp_receives = \<lambda>w. (([], []), w), play = Some (\<lambda>ys w. w), output_delay = None,
      aes_cbc = \<lambda>k iv x. Some x, rsa_plain = \<lambda>b w. (None, w), aac_open = \<lambda>w. (Some 1, w),
      aac_configure = \<lambda>h b w. (True, w), aac_fill = \<lambda>h b w. (True, w), aac_frame = \<lambda>h n w. ((True, take n [1, 2]), w),
      aac_info = \<lambda>h w. Some (2, 1), aac_close = \<lambda>h w. w, linear_volume = \<lambda>v. 1, scaled = \<lambda>v x. x\<rparr>"

text \<open>A session of PCM, and a decoder state for AAC.\<close>

definition pcm_session :: sdp_session where
  "pcm_session = session_zero\<lparr>codec := CODEC_PCM, session_rate := 44100, session_channels := 2,
     bits_per_sample := 16, frames_per_packet := 352, session_payload_type := 96\<rparr>"

definition aac_decoders :: decoders where
  "aac_decoders = decoders_zero\<lparr>the_session := pcm_session\<lparr>codec := CODEC_AAC, aac_size_length := 13,
     aac_index_length := 3, aac_index_delta_length := 3\<rparr>, aac := \<lparr>aac_impl = Some 1, aac_channels = 2, aac_rate = 44100\<rparr>\<rparr>"

lemma media_env_ok: "media_ok (media_env d)"
  by (simp add: media_ok_def media_env_def)

definition created :: pipeline where
  "created = fst (snd (audio_pipeline_create (media_env (\<lambda>s. []))
     \<lparr>audio_port = 6000, control_port = 6001, timing_port = 6002\<rparr> ''10.0.0.1'' ()))"

definition rtp_datagram :: buf where
  "rtp_datagram = [0x80, 96, 0, 7, 0, 0, 0, 0, 0, 0, 0, 1, 0, 1, 0, 2]"

lemma created_pipeline: "audio_pipeline_create (media_env d)
     \<lparr>audio_port = 6000, control_port = 6001, timing_port = 6002\<rparr> ''10.0.0.1'' () = (True, created, ())"
  by (simp add: created_def audio_pipeline_create_def media_env_def Let_def rtp_receiver_create_def buffered_audio_open_def)

subsection \<open>Properties\<close>



text \<open>
  C10: a batch of playback takes packets out of the queue in the order of their sequence numbers.  At
  most sixteen packets leave, they are sorted by their distance from the queue's base, nothing else
  changes in the queue, and everything that stays is behind them.
\<close>

theorem pipeline_plays_in_order:
  assumes "playout_inv (queue p)" and "f = pipeline_ntp_deadline \<or> f = pipeline_ptp_deadline"
    and "pipeline_play_ready_packets env f p w = Some (good, p', w')"
  shows "\<exists>ps. length ps \<le> 16 \<and> set ps \<subseteq> ran (contents (queue p)) \<and>
    sorted_wrt (\<lambda>a b. sequence (header a) - next_sequence (queue p) < sequence (header b) - next_sequence (queue p)) ps \<and>
    contents (queue p') = contents (queue p) |` (- ((\<lambda>p. sequence (header p)) ` set ps)) \<and>
    (\<forall>a\<in>set ps. \<forall>b\<in>ran (contents (queue p')).
       sequence (header a) - next_sequence (queue p) < sequence (header b) - next_sequence (queue p))"
proof -
  have "keeps_queue env f" using assms(2) ntp_deadline_keeps ptp_deadline_keeps by blast
  then show ?thesis using played_in_order [OF assms(1) _ assms(3)] by blast
qed

definition playing :: "playout \<Rightarrow> pipeline" where
  "playing q = created\<lparr>decs := decoders_zero\<lparr>the_session := pcm_session\<rparr>, configured := True, playback := PLAYING,
     first_arrival_us := 3000000, queue := q\<rparr>"

lemma playing_inv:
  assumes "playout_inv q"
  shows "raop_inv (playing q)"
proof -
  have "raop_inv created" using created_pipeline by (rule create_ok)
  then show ?thesis
    using assms by (simp add: playing_def raop_inv_def decs_ok_def decoders_zero_def pcm_session_def session_zero_def)
qed

theorem pipeline_plays_in_order_witness:
  "\<exists>q good p' w'. playout_push_all playout_zero [sample_packet 0 8, sample_packet 65535 7] = Some q \<and>
     pipeline_play_ready_packets (media_env (\<lambda>s. [])) pipeline_ntp_deadline (playing q) () = Some (good, p', w') \<and>
     (\<exists>ps. length ps \<le> 16 \<and> set ps \<subseteq> ran (contents q) \<and>
       contents (queue p') = contents q |` (- ((\<lambda>p. sequence (header p)) ` set ps)))"
proof -
  obtain q where q: "playout_push_all playout_zero [sample_packet 0 8, sample_packet 65535 7] = Some q" "playout_inv q"
  proof -
    obtain c1 q1 where "playout_push playout_zero (sample_packet 0 8) = Some (c1, q1)" "playout_inv q1"
      using playout_push_not_stored playout_push_ok playout_inv_zero by metis
    moreover obtain c2 q2 where "playout_push q1 (sample_packet 65535 7) = Some (c2, q2)" "playout_inv q2"
      using playout_push_not_stored playout_push_ok calculation(2) by metis
    ultimately show ?thesis using that by simp
  qed
  obtain good p' w' where r: "pipeline_play_ready_packets (media_env (\<lambda>s. [])) pipeline_ntp_deadline (playing q) () = Some (good, p', w')"
    using play_ready_ok [OF media_env_ok playing_inv [OF q(2)], of "\<lambda>s. []" 16 "()"] unfolding pipeline_play_ready_packets_def by blast
  have "queue (playing q) = q" by (simp add: playing_def)
  then show ?thesis
    using pipeline_plays_in_order [OF _ disjI1 [OF refl] r] q r by auto
qed

text \<open>
  C9: one poll of an AirPlay 2 session admits only authentic audio.  Whatever arrives on the RTP
  sockets and on the buffered transport, every packet in the queue after the poll was in it before or
  carries a payload that the cipher opened with the session's key, bound to the timestamp and the
  source of the packet.
\<close>

theorem airplay2_poll_authentic:
  assumes "stream_type (pipeline_session p) \<noteq> 0" and "playout_inv (queue p)"
    and "audio_pipeline_poll env p timeout_ms w = Some (good, p', w')"
  shows "\<forall>pk\<in>ran (contents (queue p')). pk \<in> ran (contents (queue p)) \<or>
    authentic env (audio_key (pipeline_session p)) pk"
  using poll_admitted [OF assms] by blast

definition sealed_datagram :: buf where
  "sealed_datagram = [0x80, 96, 0, 7, 0, 0, 0, 5, 0, 0, 0, 1, 9] @ replicate 24 0"

definition realtime :: pipeline where
  "realtime = (playing playout_zero)\<lparr>decs := decoders_zero\<lparr>the_session := pcm_session\<lparr>stream_type := 96\<rparr>\<rparr>,
     first_arrival_us := 0\<rparr>"

definition opened_packet :: rtp_packet where
  "opened_packet = \<lparr>header = \<lparr>rtp_header.version = 2, padding = 0, extension = 0, csrc_count = 0, marker = 0,
     payload_type = 96, sequence = 7, timestamp = 5, ssrc = 1\<rparr>, payload = [9]\<rparr>"

lemma sealed_parsed: "rtp_parse_packet sealed_datagram = ok (opened_packet\<lparr>payload := 9 # replicate 24 0\<rparr>)"
proof -
  have "rtp_read_header sealed_datagram = Some (header opened_packet)"
    by (simp add: sealed_datagram_def opened_packet_def rtp_read_header_def rd_def be16_def be32_def)
  moreover have "rd sealed_datagram 1 = Some 96" "length sealed_datagram = 37" "drop 12 sealed_datagram = 9 # replicate 24 0"
    by (simp_all add: sealed_datagram_def rd_def)
  ultimately show ?thesis
    by (simp add: rtp_parse_packet_def rtp_parse_body_def opened_packet_def rd_range_def Let_def on_ok_def)
qed

lemma sealed_admitted:
  assumes "playout_push playout_zero opened_packet = Some (1, q)"
  shows "audio_pipeline_on_rtp_audio (media_env d) (opened_packet\<lparr>payload := 9 # replicate 24 0\<rparr>) (realtime, ()) =
    Some (realtime\<lparr>queue := q, first_arrival_us := 5000000, first_timestamp := 5\<rparr>, ())"
proof -
  let ?pk = "opened_packet\<lparr>payload := 9 # replicate 24 0\<rparr>"
  have shape: "stream_type (pipeline_session realtime) = 96" "playback realtime = PLAYING"
    "session_payload_type (pipeline_session realtime) = 96" "payload_type (header opened_packet) = 96"
    "first_arrival_us realtime = 0" "queue realtime = playout_zero" "timestamp (header opened_packet) = 5"
    by (simp_all add: realtime_def playing_def pcm_session_def opened_packet_def)
  have "crypto_airplay2_decrypt_rtp (media_env d) (audio_key (pipeline_session realtime)) (wire_packet_bytes ?pk) 12 25
      rtp_buffer_size = ok [9]"
    by (simp add: crypto_airplay2_decrypt_rtp_def wire_packet_bytes_def bytes32_def rd_range_def media_env_def toy_def
        Let_def rtp_buffer_size_def)
  moreover have "?pk\<lparr>payload := [9]\<rparr> = opened_packet" by (simp add: opened_packet_def)
  moreover have "length (payload ?pk) = 25" by simp
  ultimately show ?thesis
    using assms shape
    by (simp add: audio_pipeline_on_rtp_audio_def push_packet_def rtp_buffer_size_def media_env_def Let_def)
qed

definition one_datagram :: "sock \<Rightarrow> udp_recv list" where
  "one_datagram s = (if s = SockAudio then [Datagram sealed_datagram \<lparr>ip = ''10.0.0.2'', port = 5\<rparr>] else [])"

lemma batch_of_one:
  "rtp_poll_socket cb i 32 [Datagram data from_peer] rs =
   map_option (\<lambda>rs. (None, rs)) (rtp_dispatch cb i data from_peer rs)"
proof -
  have "rtp_poll_socket cb i (Suc (Suc n)) [Datagram data from_peer] rs =
      map_option (\<lambda>rs. (None, rs)) (rtp_dispatch cb i data from_peer rs)" for n
    by (cases "rtp_dispatch cb i data from_peer rs") simp_all
  from this [of 30] show ?thesis by simp
qed

lemma realtime_polled:
  assumes q: "playout_push playout_zero opened_packet = Some (1, q)"
  shows "\<exists>p'. audio_pipeline_poll (media_env one_datagram) realtime 10 () = Some (True, p', ()) \<and> queue p' = q"
proof -
  let ?e = "media_env one_datagram"
  define p1 where "p1 = realtime\<lparr>queue := q, first_arrival_us := 5000000, first_timestamp := 5\<rparr>"
  have shape: "stream_type (pipeline_session realtime) = 96" "playback realtime = PLAYING"
    "port (raop_peer realtime) = 0" "opened (ptp realtime) = False" "ptp_sync.ready (ptp realtime) = False" "peer_ip (receiver realtime) = []"
    by (simp_all add: realtime_def playing_def pcm_session_def created_def audio_pipeline_create_def media_env_def Let_def
        rtp_receiver_create_def buffered_audio_open_def pipeline_zero_def addr_zero_def ptp_sync_init_def)
  have p1: "playback p1 = PLAYING" "ptp p1 = ptp realtime" "queue p1 = q" by (simp_all add: p1_def shape)
  have "sealed_datagram \<noteq> []" by (simp add: sealed_datagram_def)
  then have "\<exists>r. rtp_receiver_poll (pipeline_callback ?e) 1 (\<lambda>s. one_datagram s \<noteq> []) one_datagram
      (receiver realtime, Some (realtime, ())) = Some (None, r, Some (p1, ()))"
    using sealed_admitted [OF q] sealed_parsed shape(6)
    by (simp add: rtp_receiver_poll_def one_datagram_def batch_of_one rtp_dispatch_def Let_def pipeline_callback_def p1_def)
  then obtain r where poll: "rtp_receiver_poll (pipeline_callback ?e) 1 (\<lambda>s. one_datagram s \<noteq> []) one_datagram
      (receiver realtime, Some (realtime, ())) = Some (None, r, Some (p1, ()))" by blast
  define p2 where "p2 = p1\<lparr>receiver := r\<rparr>"
  have p2: "playback p2 = PLAYING" "\<not> ptp_sync.ready (ptp p2)" "queue p2 = q" "p2\<lparr>ptp := ptp realtime\<rparr> = p2"
    using p1 shape by (simp_all add: p2_def)
  have wait: "udp_wait ?e t w = ((1, \<lambda>s. one_datagram s \<noteq> [], one_datagram), w)"
    "ptp_receives ?e w = (([], []), w)" "clock ?e w = (5000000, w)" for t w
    by (simp_all add: media_env_def)
  have ins: "pipeline_poll_inputs ?e realtime 10 () = Some (True, p2, ())"
    using p2(4) p1(2)
    by (simp add: pipeline_poll_inputs_def shape wait poll ptp_sync_poll_def p2_def)
  have "play_ready_packets ?e pipeline_ptp_deadline (Suc n) p2 () = Some (True, p2, ())" for n
  proof (cases "playout_peek q")
    case (Some i)
    have "rd (packets q) i = Some (packets q ! i)" using playout_peek_Some [OF Some] by (simp add: rd_def)
    then show ?thesis
      using Some p2 by (simp add: wait pipeline_ptp_deadline_def ptp_sync_deadline_def Let_def)
  qed (use p2 in simp)
  from this [of 15] have "pipeline_play_ready_packets ?e pipeline_ptp_deadline p2 () = Some (True, p2, ())"
    by (simp add: pipeline_play_ready_packets_def)
  then show ?thesis
    using p2(3) ins by (simp add: audio_pipeline_poll_def shape pipeline_poll_airplay2_realtime_def)
qed

theorem airplay2_poll_authentic_witness:
  "\<exists>p'. audio_pipeline_poll (media_env one_datagram) realtime 10 () = Some (True, p', ()) \<and>
     contents (queue p') = [7 \<mapsto> opened_packet] \<and>
     authentic (media_env one_datagram) (audio_key (pipeline_session realtime)) opened_packet"
proof -
  have "contents playout_zero = Map.empty"
    by (simp add: contents_def queued_def playout_zero_def)
  moreover have "push_verdict playout_zero opened_packet = 1"
    by (simp add: push_verdict_def playout_below_floor_def playout_zero_def opened_packet_def
        playout_payload_bytes_def contents_def queued_def playout_packets_max_def)
  ultimately obtain q where q: "playout_push playout_zero opened_packet = Some (1, q)" "contents q = [7 \<mapsto> opened_packet]"
    using playout_push_ok [OF playout_inv_zero, of opened_packet] by (auto simp: opened_packet_def)
  obtain p' where p': "audio_pipeline_poll (media_env one_datagram) realtime 10 () = Some (True, p', ())" "queue p' = q"
    using realtime_polled [OF q(1)] by blast
  have "stream_type (pipeline_session realtime) \<noteq> 0" "queue realtime = playout_zero"
    by (simp_all add: realtime_def playing_def)
  from airplay2_poll_authentic [OF this(1) _ p'(1)] this(2) p'(2) q(2)
  have "authentic (media_env one_datagram) (audio_key (pipeline_session realtime)) opened_packet"
    using \<open>contents playout_zero = Map.empty\<close> playout_inv_zero by simp
  then show ?thesis using p' q(2) by blast
qed



end
