(* ===== verification/Mdns.thy ===== *)
theory Mdns
  imports Net_Util Rtp
begin

section \<open>Service announcements: \<open>src/shared/protocol/mdns.c\<close>\<close>

text \<open>
  The authoritative mDNS responder: DNS names and resource records are written into a buffer of a
  given capacity, queries are decoded with compression pointers, and a query for one of the names of
  the service is answered with all its records.  A C string is the list of its characters; the outer
  option is an access outside a buffer.  Where building a packet fails, what is left in the buffer is
  not represented: every caller drops it.
\<close>

datatype mdns_error =
  MDNS_OK | MDNS_ERR_INVALID_ARGS | MDNS_ERR_BUFFER_OVERFLOW | MDNS_ERR_SOCKET_ERROR | MDNS_ERR_INVALID_DATA

text \<open>An absent address is the empty text; an entry of the list of texts is never absent.\<close>

record mdns_config =
  service_type :: buf
  instance_name :: buf
  hostname :: buf
  service_port :: u16
  ipv4 :: buf
  txt_entries :: "buf list"

subsection \<open>Writing\<close>

definition write_u16 :: "buf \<Rightarrow> nat \<Rightarrow> u16 \<Rightarrow> buf option" where
  "write_u16 b p v = do { b \<leftarrow> wr b p (ucast (drop_bit 8 v)); wr b (p + 1) (ucast v) }"

definition write_u32 :: "buf \<Rightarrow> nat \<Rightarrow> u32 \<Rightarrow> buf option" where
  "write_u32 b p v = do {
     b \<leftarrow> wr b p (ucast (drop_bit 24 v));
     b \<leftarrow> wr b (p + 1) (ucast (drop_bit 16 v));
     b \<leftarrow> wr b (p + 2) (ucast (drop_bit 8 v));
     wr b (p + 3) (ucast v) }"

definition read_u16 :: "buf \<Rightarrow> nat \<Rightarrow> u16 option" where
  "read_u16 data p = do { hi \<leftarrow> rd data p; lo \<leftarrow> rd data (p + 1); Some (be16 hi lo) }"

text \<open>The labels of a name, from position \<open>p\<close>; the result is the buffer and the new position.\<close>

function write_labels :: "buf \<Rightarrow> buf \<Rightarrow> nat \<Rightarrow> nat \<Rightarrow> (buf \<times> nat) ret option" where
  "write_labels name b capacity p =
     (if name = [] then ok (b, p)
      else
        let label = takeWhile (\<lambda>c. c \<noteq> 46) name; n = length label in
        if n = 0 \<or> n > 63 \<or> p + 1 + n \<ge> capacity then fail
        else do {
          b \<leftarrow> wr b p (of_nat n);
          b \<leftarrow> wr_range b (p + 1) label;
          let rest = drop n name;
          write_labels (if rest \<noteq> [] \<and> hd rest = 46 then tl rest else rest) b capacity (p + 1 + n) })"
  by pat_completeness auto
termination
  by (relation "measure (\<lambda>(name, _). length name)") auto

declare write_labels.simps [simp del]

definition write_name :: "buf \<Rightarrow> buf \<Rightarrow> nat \<Rightarrow> nat \<Rightarrow> (buf \<times> nat) ret option" where
  "write_name name b capacity start =
     (if name = [] then fail
      else
        on_ok (write_labels name b capacity start) (\<lambda>(b, p).
          if p \<ge> capacity \<or> p - start + 1 > 255 then fail
          else do { b \<leftarrow> wr b p 0; ok (b, p + 1) }))"

text \<open>The result is the buffer and the position behind the ten bytes.\<close>

definition begin_record :: "buf \<Rightarrow> nat \<Rightarrow> nat \<Rightarrow> u16 \<Rightarrow> u16 \<Rightarrow> u32 \<Rightarrow> (buf \<times> nat) ret option" where
  "begin_record b capacity p type record_class ttl =
     (if p + 10 > capacity then fail
      else do {
        b \<leftarrow> write_u16 b p type;
        b \<leftarrow> write_u16 b (p + 2) record_class;
        b \<leftarrow> write_u32 b (p + 4) ttl;
        b \<leftarrow> write_u16 b (p + 8) 0;
        ok (b, p + 10) })"

text \<open>The length of the data of a record is stored when they are complete.\<close>

definition end_record :: "nat \<Rightarrow> buf \<times> nat \<Rightarrow> (buf \<times> nat) ret option" where
  "end_record start bp = (case bp of (b, p) \<Rightarrow> do { b \<leftarrow> write_u16 b (start - 2) (of_nat (p - start)); ok (b, p) })"

definition put_ptr :: "mdns_config \<Rightarrow> buf \<Rightarrow> nat \<Rightarrow> u32 \<Rightarrow> buf \<times> nat \<Rightarrow> (buf \<times> nat) ret option" where
  "put_ptr c full capacity ttl bp =
     (case bp of (b, p) \<Rightarrow>
       on_ok (write_name (service_type c) b capacity p) (\<lambda>(b, p).
       on_ok (begin_record b capacity p 12 1 ttl) (\<lambda>(b, start).
       on_ok (write_name full b capacity start) (end_record start))))"

definition put_srv :: "mdns_config \<Rightarrow> buf \<Rightarrow> nat \<Rightarrow> u32 \<Rightarrow> buf \<times> nat \<Rightarrow> (buf \<times> nat) ret option" where
  "put_srv c full capacity ttl bp =
     (case bp of (b, p) \<Rightarrow>
       on_ok (write_name full b capacity p) (\<lambda>(b, p).
       on_ok (begin_record b capacity p 33 0x8001 ttl) (\<lambda>(b, start).
         if start + 6 > capacity then fail
         else do {
           b \<leftarrow> write_u16 b start 0;
           b \<leftarrow> write_u16 b (start + 2) 0;
           b \<leftarrow> write_u16 b (start + 4) (service_port c);
           on_ok (write_name (hostname c) b capacity (start + 6)) (end_record start) })))"

definition put_address :: "mdns_config \<Rightarrow> nat \<Rightarrow> u32 \<Rightarrow> buf \<times> nat \<Rightarrow> (buf \<times> nat) ret option" where
  "put_address c capacity ttl bp =
     (case bp of (b, p) \<Rightarrow>
       (case net_str_to_ipv4 (ipv4 c) of
          Inl _ \<Rightarrow> fail
        | Inr address \<Rightarrow>
            on_ok (write_name (hostname c) b capacity p) (\<lambda>(b, p).
            on_ok (begin_record b capacity p 1 0x8001 ttl) (\<lambda>(b, start).
              if start + 4 > capacity then fail
              else do { b \<leftarrow> wr_range b start address; end_record start (b, start + 4) }))))"

fun put_texts :: "buf list \<Rightarrow> nat \<Rightarrow> buf \<times> nat \<Rightarrow> (buf \<times> nat) ret option" where
  "put_texts [] capacity bp = ok bp"
| "put_texts (t # ts) capacity (b, p) =
     (if length t > 255 \<or> p + 1 + length t > capacity then fail
      else do {
        b \<leftarrow> wr b p (of_nat (length t));
        b \<leftarrow> wr_range b (p + 1) t;
        put_texts ts capacity (b, p + 1 + length t) })"

definition put_txt :: "mdns_config \<Rightarrow> buf \<Rightarrow> nat \<Rightarrow> u32 \<Rightarrow> buf \<times> nat \<Rightarrow> (buf \<times> nat) ret option" where
  "put_txt c full capacity ttl bp =
     (case bp of (b, p) \<Rightarrow>
       on_ok (write_name full b capacity p) (\<lambda>(b, p).
       on_ok (begin_record b capacity p 16 0x8001 ttl) (\<lambda>(b, start).
       on_ok (put_texts (txt_entries c) capacity (b, start)) (end_record start))))"

definition full_name :: "mdns_config \<Rightarrow> buf" where
  "full_name c = instance_name c @ [46] @ service_type c"

text \<open>The result is the buffer and the length of the packet; a failure is the length 0 in C.\<close>

definition build_packet :: "mdns_config \<Rightarrow> buf \<Rightarrow> nat \<Rightarrow> u32 \<Rightarrow> (buf \<times> nat) ret option" where
  "build_packet c b capacity ttl =
     (if capacity < 12 then fail
      else do {
        b \<leftarrow> wr_range b 0 (replicate 12 0);
        b \<leftarrow> write_u16 b 2 0x8400;
        if length (full_name c) \<ge> 256 then fail
        else
          on_ok (put_ptr c (full_name c) capacity ttl (b, 12)) (\<lambda>bp.
          on_ok (put_srv c (full_name c) capacity ttl bp) (\<lambda>bp.
          on_ok (if ipv4 c \<noteq> [] then put_address c capacity ttl bp else ok bp) (\<lambda>bp.
          on_ok (if txt_entries c \<noteq> [] then put_txt c (full_name c) capacity ttl bp else ok bp) (\<lambda>(b, p). do {
            b \<leftarrow> write_u16 b 6 (2 + (if ipv4 c \<noteq> [] then 1 else 0) + (if txt_entries c \<noteq> [] then 1 else 0));
            ok (b, p) })))) })"

subsection \<open>Reading\<close>

text \<open>
  At most as many steps as the packet has bytes.  \<open>next\<close> is where the name ended before its first
  pointer, 0 where there was none; the result is where to go on, 0 for a refused name, and \<open>name\<close>.
\<close>

fun decode_loop :: "nat \<Rightarrow> buf \<Rightarrow> nat \<Rightarrow> nat \<Rightarrow> nat \<Rightarrow> buf \<Rightarrow> nat \<Rightarrow> (nat \<times> buf) option" where
  "decode_loop 0 data p next used name capacity = Some (0, name)"
| "decode_loop (Suc steps) data p next used name capacity =
     (if p \<ge> length data then Some (0, name)
      else do {
        n \<leftarrow> rd data p;
        if n = 0 then do {
          name \<leftarrow> wr name (if used = 0 then 0 else used - 1) 0;
          Some (if next \<noteq> 0 then next else p + 1, name) }
        else if n AND 0xc0 = 0xc0 then
          if p + 1 \<ge> length data then Some (0, name)
          else do {
            lo \<leftarrow> rd data (p + 1);
            decode_loop steps data (unat (n AND 0x3f) * 256 + unat lo) (if next = 0 then p + 2 else next) used name
              capacity }
        else if n AND 0xc0 \<noteq> 0 \<or> p + 1 + unat n > length data \<or> used + unat n + 1 \<ge> capacity then Some (0, name)
        else do {
          label \<leftarrow> rd_range data (p + 1) (unat n);
          name \<leftarrow> wr_range name used label;
          name \<leftarrow> wr name (used + unat n) 46;
          decode_loop steps data (p + 1 + unat n) next (used + unat n + 1) name capacity } })"

definition decode_name :: "buf \<Rightarrow> nat \<Rightarrow> buf \<Rightarrow> nat \<Rightarrow> (nat \<times> buf) option" where
  "decode_name data p name capacity = decode_loop (length data) data p 0 0 name capacity"

definition name_matches :: "mdns_config \<Rightarrow> buf \<Rightarrow> bool" where
  "name_matches c name \<longleftrightarrow>
     length (full_name c) < 256 \<and>
     (net_ascii_casecmp name (service_type c) = 0 \<or> net_ascii_casecmp name (full_name c) = 0 \<or>
      net_ascii_casecmp name (hostname c) = 0)"

subsection \<open>Answering\<close>

text \<open>\<open>udp\<close> is \<open>net_udp_send\<close> on the shared socket.\<close>

type_synonym 'w udp_fn = "buf \<Rightarrow> net_addr \<Rightarrow> 'w \<Rightarrow> int \<times> 'w"

definition multicast :: net_addr where
  "multicast = \<lparr>ip = ''224.0.0.251'', port = 5353\<rparr>"

definition send_response :: "'w udp_fn \<Rightarrow> mdns_config \<Rightarrow> net_addr \<Rightarrow> u32 \<Rightarrow> 'w \<Rightarrow> (mdns_error \<times> 'w) option" where
  "send_response udp c destination ttl w = do {
     r \<leftarrow> build_packet c (replicate 1500 0) 1500 ttl;
     (case r of
        Inl _ \<Rightarrow> Some (MDNS_ERR_BUFFER_OVERFLOW, w)
      | Inr (b, n) \<Rightarrow> do {
          packet \<leftarrow> rd_range b 0 n;
          let (sent, w) = udp packet destination w;
          Some (if sent = int n then MDNS_OK else MDNS_ERR_SOCKET_ERROR, w) }) }"

definition mdns_announce :: "'w udp_fn \<Rightarrow> mdns_config \<Rightarrow> 'w \<Rightarrow> (mdns_error \<times> 'w) option" where
  "mdns_announce udp c w = send_response udp c multicast 60 w"

definition mdns_goodbye :: "'w udp_fn \<Rightarrow> mdns_config \<Rightarrow> 'w \<Rightarrow> (mdns_error \<times> 'w) option" where
  "mdns_goodbye udp c w = send_response udp c multicast 0 w"

text \<open>The question after a name at \<open>next\<close>: whether it is one for this service.\<close>

definition asks_for :: "mdns_config \<Rightarrow> buf \<Rightarrow> u16 \<Rightarrow> u16 \<Rightarrow> bool" where
  "asks_for c name type raw_class \<longleftrightarrow>
     name_matches c name \<and> (type = 1 \<or> type = 12 \<or> type = 16 \<or> type = 33 \<or> type = 255) \<and>
     (let record_class = raw_class AND 0x7fff in record_class = 1 \<or> record_class = 255)"

fun handle_questions ::
  "'w udp_fn \<Rightarrow> mdns_config \<Rightarrow> buf \<Rightarrow> net_addr option \<Rightarrow> nat \<Rightarrow> nat \<Rightarrow> 'w \<Rightarrow> (mdns_error \<times> 'w) option" where
  "handle_questions udp c data from_addr 0 p w = Some (MDNS_OK, w)"
| "handle_questions udp c data from_addr (Suc n) p w = do {
     (next, name) \<leftarrow> decode_name data p (replicate 256 0) 256;
     if next = 0 \<or> next + 4 > length data then Some (MDNS_ERR_INVALID_DATA, w)
     else do {
       type \<leftarrow> read_u16 data next;
       raw_class \<leftarrow> read_u16 data (next + 2);
       if \<not> asks_for c (cut name) type raw_class then handle_questions udp c data from_addr n (next + 4) w
       else
         (case from_addr of
            Some a \<Rightarrow>
              if raw_class AND 0x8000 \<noteq> 0 \<and> ip a \<noteq> [] \<and> port a \<noteq> 0 then send_response udp c a 4500 w
              else mdns_announce udp c w
          | None \<Rightarrow> mdns_announce udp c w) } }"

definition mdns_handle_packet_from ::
  "'w udp_fn \<Rightarrow> mdns_config \<Rightarrow> buf \<Rightarrow> net_addr option \<Rightarrow> 'w \<Rightarrow> (mdns_error \<times> 'w) option" where
  "mdns_handle_packet_from udp c data from_addr w =
     (if length data < 12 then Some (MDNS_ERR_INVALID_ARGS, w)
      else do {
        flags \<leftarrow> read_u16 data 2;
        if flags AND 0x8000 \<noteq> 0 then Some (MDNS_OK, w)
        else do {
          questions \<leftarrow> read_u16 data 4;
          handle_questions udp c data from_addr (unat questions) 12 w } })"

definition mdns_handle_packet :: "'w udp_fn \<Rightarrow> mdns_config \<Rightarrow> buf \<Rightarrow> 'w \<Rightarrow> (mdns_error \<times> 'w) option" where
  "mdns_handle_packet udp c data w = mdns_handle_packet_from udp c data None w"

subsection \<open>The wire format\<close>

text \<open>
  The reference: a name is its labels, each behind its length, and a zero; a record is a name, type,
  class, time to live and the data behind their length; a message is a header and the records.
\<close>

function labels :: "buf \<Rightarrow> buf list" where
  "labels name =
     (if name = [] then []
      else
        let label = takeWhile (\<lambda>c. c \<noteq> 46) name; rest = drop (length label) name in
        label # labels (tl rest))"
  by pat_completeness auto
termination
  by (relation "measure length") (auto simp: neq_Nil_conv)

declare labels.simps [simp del]

definition label_bytes :: "buf list \<Rightarrow> buf" where
  "label_bytes ls = concat (map (\<lambda>l. of_nat (length l) # l) ls)"

definition dns_name :: "buf \<Rightarrow> buf" where
  "dns_name name = label_bytes (labels name) @ [0]"

definition label_ok :: "buf \<Rightarrow> bool" where
  "label_ok l \<longleftrightarrow> l \<noteq> [] \<and> length l \<le> 63"

definition name_ok :: "buf \<Rightarrow> bool" where
  "name_ok name \<longleftrightarrow> name \<noteq> [] \<and> (\<forall>l\<in>set (labels name). label_ok l) \<and> length (dns_name name) \<le> 255"

definition record_bytes :: "buf \<Rightarrow> u16 \<Rightarrow> u16 \<Rightarrow> u32 \<Rightarrow> buf \<Rightarrow> buf" where
  "record_bytes name type record_class ttl rdata =
     dns_name name @ bytes16 type @ bytes16 record_class @ bytes32 ttl @ bytes16 (of_nat (length rdata)) @ rdata"

definition text_bytes :: "buf list \<Rightarrow> buf" where
  "text_bytes ts = concat (map (\<lambda>t. of_nat (length t) # t) ts)"

definition address_bytes :: "buf \<Rightarrow> buf" where
  "address_bytes t = (case net_str_to_ipv4 t of Inl _ \<Rightarrow> [] | Inr a \<Rightarrow> a)"

definition ptr_bytes :: "mdns_config \<Rightarrow> u32 \<Rightarrow> buf" where
  "ptr_bytes c ttl = record_bytes (service_type c) 12 1 ttl (dns_name (full_name c))"

definition srv_bytes :: "mdns_config \<Rightarrow> u32 \<Rightarrow> buf" where
  "srv_bytes c ttl = record_bytes (full_name c) 33 0x8001 ttl
     (bytes16 0 @ bytes16 0 @ bytes16 (service_port c) @ dns_name (hostname c))"

definition answer_count :: "mdns_config \<Rightarrow> u16" where
  "answer_count c = 2 + (if ipv4 c \<noteq> [] then 1 else 0) + (if txt_entries c \<noteq> [] then 1 else 0)"

definition message :: "mdns_config \<Rightarrow> u32 \<Rightarrow> buf" where
  "message c ttl =
     [0, 0, 0x84, 0, 0, 0] @ bytes16 (answer_count c) @ [0, 0, 0, 0] @ ptr_bytes c ttl @ srv_bytes c ttl @
     (if ipv4 c \<noteq> [] then record_bytes (hostname c) 1 0x8001 ttl (address_bytes (ipv4 c)) else []) @
     (if txt_entries c \<noteq> [] then record_bytes (full_name c) 16 0x8001 ttl (text_bytes (txt_entries c)) else [])"

definition servable :: "mdns_config \<Rightarrow> bool" where
  "servable c \<longleftrightarrow> length (full_name c) < 256 \<and> name_ok (service_type c) \<and> name_ok (full_name c) \<and>
     name_ok (hostname c) \<and> (ipv4 c = [] \<or> (\<exists>a. net_str_to_ipv4 (ipv4 c) = Inr a)) \<and>
     (\<forall>t\<in>set (txt_entries c). length t \<le> 255)"

subsection \<open>Writing a list over a buffer\<close>

definition over :: "buf \<Rightarrow> nat \<Rightarrow> buf \<Rightarrow> buf" where
  "over b p xs = take p b @ xs @ drop (p + length xs) b"

lemma length_over [simp]: "p + length xs \<le> length b \<Longrightarrow> length (over b p xs) = length b"
  by (simp add: over_def)

lemma over_Nil [simp]: "over b p [] = b"
  by (simp add: over_def)

lemma over_over:
  "p + length xs + length ys \<le> length b \<Longrightarrow> over (over b p xs) (p + length xs) ys = over b p (xs @ ys)"
  by (simp add: over_def ac_simps)

lemma wr_range_over: "p + length xs \<le> length b \<Longrightarrow> wr_range b p xs = Some (over b p xs)"
  by (simp add: wr_range_def over_def)

lemma wr_over: "p < length b \<Longrightarrow> wr b p x = Some (over b p [x])"
  by (simp add: wr_def over_def upd_conv_take_nth_drop)

lemma write_u16_over: "p + 2 \<le> length b \<Longrightarrow> write_u16 b p v = Some (over b p (bytes16 v))"
  using over_over [of p "[ucast (drop_bit 8 v)]" "[ucast v]" b]
  by (simp add: write_u16_def bytes16_def wr_over)

lemma over_patch:
  assumes "p + length (xs @ ys @ zs) \<le> length b" and "length ys' = length ys"
  shows "over (over b p (xs @ ys @ zs)) (p + length xs) ys' = over b p (xs @ ys' @ zs)"
proof -
  have "min (length b) p = p" using assms(1) by simp
  then show ?thesis using assms(2) by (simp add: over_def ac_simps)
qed

lemma write_u32_over:
  assumes "p + 4 \<le> length b"
  shows "write_u32 b p v = Some (over b p (bytes32 v))"
proof -
  have "over (over b p xs) (p + length xs) [y] = over b p (xs @ [y])" if "length xs < 4" for xs :: buf and y
    using over_over [of p xs "[y]" b] that assms by simp
  from this [of "[_]"] this [of "[_, _]"] this [of "[_, _, _]"] show ?thesis
    using assms by (simp add: write_u32_def bytes32_def wr_over numeral_eq_Suc)
qed

subsection \<open>The writer writes the wire format\<close>

text \<open>Writing \<open>xs\<close>, as long as it fits into the capacity and \<open>P\<close> holds.\<close>

definition writes :: "(buf \<times> nat) ret option \<Rightarrow> buf \<Rightarrow> nat \<Rightarrow> nat \<Rightarrow> bool \<Rightarrow> buf \<Rightarrow> bool" where
  "writes r b capacity p P xs \<longleftrightarrow>
     r = (if P \<and> p + length xs \<le> capacity then ok (over b p xs, p + length xs) else fail)"

lemma writes_skip: "p \<le> capacity \<Longrightarrow> writes (ok (b, p)) b capacity p True []"
  by (simp add: writes_def)

lemma writes_then:
  assumes r: "writes r b capacity p P xs" and cap: "capacity \<le> length b"
    and f: "\<And>b' q. capacity \<le> length b' \<Longrightarrow> q \<le> capacity \<Longrightarrow> writes (f b' q) b' capacity q Q ys"
  shows "writes (on_ok r (\<lambda>(b, q). f b q)) b capacity p (P \<and> Q) (xs @ ys)"
proof (cases "P \<and> p + length xs \<le> capacity")
  case True
  then have "writes (f (over b p xs) (p + length xs)) (over b p xs) capacity (p + length xs) Q ys"
    using cap by (intro f) simp_all
  then show ?thesis
    using r True cap by (auto simp: writes_def over_over)
qed (use r in \<open>auto simp: writes_def\<close>)

lemma takeWhile_rest: "drop (length (takeWhile P xs)) xs = dropWhile P xs"
  by (simp add: dropWhile_eq_drop)

lemma rest_starts: "dropWhile (\<lambda>c. c \<noteq> 46) name \<noteq> [] \<Longrightarrow> hd (dropWhile (\<lambda>c. c \<noteq> 46) name) = (46 :: u8)"
  using hd_dropWhile by blast

lemma rest_tl:
  "(if dropWhile (\<lambda>c. c \<noteq> 46) name \<noteq> [] \<and> hd (dropWhile (\<lambda>c. c \<noteq> 46) name) = (46 :: u8)
    then tl (dropWhile (\<lambda>c. c \<noteq> 46) name) else dropWhile (\<lambda>c. c \<noteq> 46) name) = tl (dropWhile (\<lambda>c. c \<noteq> 46) name)"
  by (metis list.sel(2) rest_starts)

lemma label_bytes_simps [simp]:
  "label_bytes [] = []" "label_bytes (l # ls) = of_nat (length l) # l @ label_bytes ls"
  by (simp_all add: label_bytes_def)

lemma write_labels_writes:
  "p + length (label_bytes (labels name)) + 1 \<le> capacity \<Longrightarrow> \<forall>l\<in>set (labels name). label_ok l \<Longrightarrow>
   capacity \<le> length b \<Longrightarrow>
   write_labels name b capacity p =
     ok (over b p (label_bytes (labels name)), p + length (label_bytes (labels name)))"
proof (induction name arbitrary: b p rule: labels.induct)
  case (1 name)
  show ?case
  proof (cases "name = []")
    case True
    then show ?thesis by (simp add: write_labels.simps labels.simps)
  next
    case False
    define l where "l = takeWhile (\<lambda>c. c \<noteq> 46) name"
    define rest where "rest = drop (length l) name"
    have ls: "labels name = l # labels (tl rest)"
      using False by (subst labels.simps) (simp add: l_def rest_def Let_def)
    have rest: "(if rest \<noteq> [] \<and> hd rest = 46 then tl rest else rest) = tl rest"
      unfolding rest_def l_def takeWhile_rest by (rule rest_tl)
    have ok: "l \<noteq> []" "length l \<le> 63" using "1.prems"(2) by (simp_all add: ls label_ok_def)
    have fits: "p + 1 + length l < capacity" "p + 1 + length l + length (label_bytes (labels (tl rest))) + 1 \<le> capacity"
      using "1.prems"(1) by (simp_all add: ls)
    let ?b = "over (over b p [of_nat (length l)]) (p + 1) l"
    have b: "?b = over b p (of_nat (length l) # l)"
      using over_over [of p "[of_nat (length l)]" l b] fits "1.prems"(3) by simp
    have "write_labels name b capacity p = write_labels (tl rest) ?b capacity (p + 1 + length l)"
      using False ok fits "1.prems"(3) rest
      by (subst write_labels.simps) (simp add: l_def [symmetric] rest_def [symmetric] Let_def wr_over wr_range_over)
    also have "\<dots> = ok (over ?b (p + 1 + length l) (label_bytes (labels (tl rest))),
        p + 1 + length l + length (label_bytes (labels (tl rest))))"
      using False fits(2) "1.prems"(2,3) fits(1)
      by (intro "1.IH" [of l rest]) (simp_all add: l_def rest_def ls [unfolded l_def rest_def])
    also have "over ?b (p + 1 + length l) (label_bytes (labels (tl rest))) = over b p (label_bytes (labels name))"
      unfolding b using over_over [of p "of_nat (length l) # l" "label_bytes (labels (tl rest))" b] fits "1.prems"(3)
      by (simp add: ls)
    finally show ?thesis by (simp add: ls)
  qed
qed

lemma write_labels_fails:
  "p < capacity \<Longrightarrow> \<not> (p + length (label_bytes (labels name)) + 1 \<le> capacity \<and> (\<forall>l\<in>set (labels name). label_ok l)) \<Longrightarrow>
   capacity \<le> length b \<Longrightarrow> write_labels name b capacity p = fail"
proof (induction name arbitrary: b p rule: labels.induct)
  case (1 name)
  show ?case
  proof (cases "name = []")
    case True
    then show ?thesis using "1.prems" by (simp add: labels.simps)
  next
    case False
    define l where "l = takeWhile (\<lambda>c. c \<noteq> 46) name"
    define rest where "rest = drop (length l) name"
    have ls: "labels name = l # labels (tl rest)"
      using False by (subst labels.simps) (simp add: l_def rest_def Let_def)
    have rest: "(if rest \<noteq> [] \<and> hd rest = 46 then tl rest else rest) = tl rest"
      unfolding rest_def l_def takeWhile_rest by (rule rest_tl)
    show ?thesis
    proof (cases "length l = 0 \<or> length l > 63 \<or> p + 1 + length l \<ge> capacity")
      case True
      then show ?thesis
        using \<open>name \<noteq> []\<close> by (subst write_labels.simps) (simp add: l_def [symmetric] Let_def)
    next
      case fits: False
      have "write_labels (tl rest) (over (over b p [of_nat (length l)]) (p + 1) l) capacity (p + 1 + length l) = fail"
        using False fits "1.prems"
        by (intro "1.IH" [of l rest]) (auto simp: l_def rest_def ls [unfolded l_def rest_def] label_ok_def)
      then show ?thesis
        using False fits "1.prems"(3) rest
        by (subst write_labels.simps) (simp add: l_def [symmetric] rest_def [symmetric] Let_def wr_over wr_range_over)
    qed
  qed
qed

lemma write_name_writes:
  assumes p: "p \<le> capacity" and cap: "capacity \<le> length b"
  shows "writes (write_name name b capacity p) b capacity p (name_ok name) (dns_name name)"
proof (cases "name = []")
  case False
  show ?thesis
  proof (cases "p + length (label_bytes (labels name)) + 1 \<le> capacity \<and> (\<forall>l\<in>set (labels name). label_ok l)")
    case True
    let ?n = "length (label_bytes (labels name))"
    have "over (over b p (label_bytes (labels name))) (p + ?n) [0] = over b p (dns_name name)"
      using over_over [of p "label_bytes (labels name)" "[0]" b] True cap by (simp add: dns_name_def)
    then show ?thesis
      using False True cap
      by (auto simp: writes_def write_name_def write_labels_writes name_ok_def dns_name_def wr_over)
  next
    case no: False
    have "write_labels name b capacity p = fail \<or> \<not> p < capacity"
      using write_labels_fails [OF _ no cap] by blast
    moreover have "write_name name b capacity p = fail" if "\<not> p < capacity"
      using that False by (subst write_name_def, subst write_labels.simps) (simp add: Let_def)
    ultimately have "write_name name b capacity p = fail" using False by (auto simp: write_name_def)
    then show ?thesis using no by (auto simp: writes_def name_ok_def dns_name_def)
  qed
qed (simp add: writes_def write_name_def name_ok_def)

text \<open>A record: its name, its head, its data, and then the length of the data.\<close>

lemma begin_record_writes:
  assumes "p \<le> capacity" and "capacity \<le> length b"
  shows "writes (begin_record b capacity p type record_class ttl) b capacity p True
    (bytes16 type @ bytes16 record_class @ bytes32 ttl @ bytes16 0)"
proof (cases "p + 10 \<le> capacity")
  case True
  have "over (over (over (over b p (bytes16 type)) (p + 2) (bytes16 record_class)) (p + 4) (bytes32 ttl)) (p + 8) (bytes16 0) =
      over b p (bytes16 type @ bytes16 record_class @ bytes32 ttl @ bytes16 0)"
    using True assms(2) over_over [of p "bytes16 type" "bytes16 record_class" b]
      over_over [of p "bytes16 type @ bytes16 record_class" "bytes32 ttl" b]
      over_over [of p "bytes16 type @ bytes16 record_class @ bytes32 ttl" "bytes16 0" b]
    by (simp add: ac_simps)
  then show ?thesis
    using True assms(2)
    by (simp add: writes_def begin_record_def write_u16_over write_u32_over)
qed (simp add: writes_def begin_record_def)

lemma end_record_over:
  assumes "p + length (xs @ bytes16 0 @ ys) \<le> length b" and "start = p + length xs + 2" and "q = start + length ys"
  shows "end_record start (over b p (xs @ bytes16 0 @ ys), q) = ok (over b p (xs @ bytes16 (of_nat (length ys)) @ ys), q)"
  using over_patch [OF assms(1), of "bytes16 (of_nat (length ys))"] assms
  by (simp add: end_record_def write_u16_over)

text \<open>The shape that the four writers share.\<close>

lemma record_writes:
  assumes p: "p \<le> capacity" and cap: "capacity \<le> length b"
    and data: "\<And>b start. capacity \<le> length b \<Longrightarrow> start \<le> capacity \<Longrightarrow> writes (f b start) b capacity start P rdata"
  shows "writes (on_ok (write_name name b capacity p) (\<lambda>(b, p).
      on_ok (begin_record b capacity p type record_class ttl) (\<lambda>(b, start). on_ok (f b start) (end_record start))))
    b capacity p (name_ok name \<and> P) (record_bytes name type record_class ttl rdata)"
proof -
  let ?head = "bytes16 type @ bytes16 record_class @ bytes32 ttl"
  have "writes (on_ok (begin_record b' capacity q type record_class ttl) (\<lambda>(b, start). on_ok (f b start) (end_record start)))
      b' capacity q P (?head @ bytes16 (of_nat (length rdata)) @ rdata)"
    if b': "capacity \<le> length b'" "q \<le> capacity" for b' q
  proof (cases "q + 10 \<le> capacity")
    case True
    let ?b = "over b' q (?head @ bytes16 0)"
    have head: "begin_record b' capacity q type record_class ttl = ok (?b, q + 10)"
      using begin_record_writes [OF b'(2,1), of type record_class ttl] True by (simp add: writes_def)
    have w: "writes (f ?b (q + 10)) ?b capacity (q + 10) P rdata" using True b'(1) by (intro data) simp_all
    show ?thesis
    proof (cases "P \<and> q + 10 + length rdata \<le> capacity")
      case fits: True
      have "over ?b (q + 10) rdata = over b' q (?head @ bytes16 0 @ rdata)"
        using over_over [of q "?head @ bytes16 0" rdata b'] fits b'(1) by (simp add: ac_simps)
      moreover have "end_record (q + 10) (over b' q (?head @ bytes16 0 @ rdata), q + 10 + length rdata) =
          ok (over b' q (?head @ bytes16 (of_nat (length rdata)) @ rdata), q + 10 + length rdata)"
        using fits b'(1) by (intro end_record_over) simp_all
      ultimately show ?thesis using w fits head by (simp add: writes_def)
    next
      case False
      have "f ?b (q + 10) = fail" using w False by (auto simp: writes_def)
      then show ?thesis using False head by (auto simp: writes_def)
    qed
  next
    case False
    have "begin_record b' capacity q type record_class ttl = fail"
      using begin_record_writes [OF b'(2,1), of type record_class ttl] False by (simp add: writes_def)
    then show ?thesis using False by (simp add: writes_def)
  qed
  from writes_then [OF write_name_writes [OF p cap, of name] cap this] show ?thesis
    by (simp add: record_bytes_def)
qed

lemma on_ok_bind: "on_ok (Option.bind m f) g = Option.bind m (\<lambda>x. on_ok (f x) g)"
  by (cases m) simp_all

lemma on_ok_assoc: "on_ok (on_ok r f) g = on_ok r (\<lambda>x. on_ok (f x) g)"
  by (auto simp: on_ok_def split: option.splits sum.splits)

lemma put_ptr_writes:
  assumes "p \<le> capacity" and "capacity \<le> length b"
  shows "writes (put_ptr c (full_name c) capacity ttl (b, p)) b capacity p
    (name_ok (service_type c) \<and> name_ok (full_name c)) (ptr_bytes c ttl)"
  using record_writes [OF assms write_name_writes, where name = "service_type c" and type = 12 and record_class = 1 and ttl = ttl]
  by (simp add: put_ptr_def ptr_bytes_def)

lemma put_srv_writes:
  assumes "p \<le> capacity" and "capacity \<le> length b"
  shows "writes (put_srv c (full_name c) capacity ttl (b, p)) b capacity p
    (name_ok (full_name c) \<and> name_ok (hostname c)) (srv_bytes c ttl)"
proof -
  let ?pre = "bytes16 0 @ bytes16 0 @ bytes16 (service_port c)"
  let ?f = "\<lambda>b start. if start + 6 > capacity then fail
         else do {
           b \<leftarrow> write_u16 b start 0;
           b \<leftarrow> write_u16 b (start + 2) 0;
           b \<leftarrow> write_u16 b (start + 4) (service_port c);
           write_name (hostname c) b capacity (start + 6) }"
  have "writes (?f b start) b capacity start (name_ok (hostname c)) (?pre @ dns_name (hostname c))"
    if b: "capacity \<le> length b" "start \<le> capacity" for b start
  proof (cases "start + 6 \<le> capacity")
    case True
    have pre: "over (over (over b start (bytes16 0)) (start + 2) (bytes16 0)) (start + 4) (bytes16 (service_port c)) =
        over b start ?pre"
      using True b(1) over_over [of start "bytes16 0" "bytes16 0" b]
        over_over [of start "bytes16 0 @ bytes16 0" "bytes16 (service_port c)" b] by (simp add: ac_simps)
    have "writes (write_name (hostname c) (over b start ?pre) capacity (start + 6)) (over b start ?pre) capacity (start + 6)
        (name_ok (hostname c)) (dns_name (hostname c))"
      using True b(1) by (intro write_name_writes) simp_all
    then show ?thesis
      using True b(1) pre over_over [of start ?pre "dns_name (hostname c)" b]
      by (auto simp: writes_def write_u16_over ac_simps)
  qed (simp add: writes_def)
  note w = record_writes [where f = ?f and name = "full_name c" and type = 33 and record_class = "0x8001" and ttl = ttl, OF assms this]
  have "put_srv c (full_name c) capacity ttl (b, p) = on_ok (write_name (full_name c) b capacity p) (\<lambda>(b, p).
      on_ok (begin_record b capacity p 33 0x8001 ttl) (\<lambda>(b, start). on_ok (?f b start) (end_record start)))"
    unfolding put_srv_def split_conv by (rule arg_cong [of _ _ "on_ok _"], rule ext) (auto simp: on_ok_bind intro!: ext arg_cong [of _ _ "on_ok _"])
  then show ?thesis using w by (simp add: srv_bytes_def)
qed

lemma put_address_writes:
  assumes "p \<le> capacity" and "capacity \<le> length b"
  shows "writes (put_address c capacity ttl (b, p)) b capacity p
    (name_ok (hostname c) \<and> (\<exists>a. net_str_to_ipv4 (ipv4 c) = Inr a))
    (record_bytes (hostname c) 1 0x8001 ttl (address_bytes (ipv4 c)))"
proof (cases "net_str_to_ipv4 (ipv4 c)")
  case (Inr a)
  have len: "length a = 4" using ip_bytes_length [of 4 "ipv4 c" "[]" a] Inr by (simp add: net_str_to_ipv4_def)
  let ?f = "\<lambda>b start. if start + 4 > capacity then fail else do { b \<leftarrow> wr_range b start a; ok (b, start + 4) }"
  have "writes (?f b start) b capacity start True a" if "capacity \<le> length b" for b start
    using that len by (simp add: writes_def wr_range_over)
  note w = record_writes [where f = ?f and name = "hostname c" and type = 1 and record_class = "0x8001" and ttl = ttl, OF assms this]
  have "put_address c capacity ttl (b, p) = on_ok (write_name (hostname c) b capacity p) (\<lambda>(b, p).
      on_ok (begin_record b capacity p 1 0x8001 ttl) (\<lambda>(b, start). on_ok (?f b start) (end_record start)))"
    unfolding put_address_def split_conv Inr sum.case
    by (rule arg_cong [of _ _ "on_ok _"], rule ext) (auto simp: on_ok_bind intro!: ext arg_cong [of _ _ "on_ok _"])
  then show ?thesis using w Inr by (simp add: address_bytes_def)
qed (simp add: put_address_def writes_def)

lemma put_texts_writes:
  "p \<le> capacity \<Longrightarrow> capacity \<le> length b \<Longrightarrow>
   writes (put_texts ts capacity (b, p)) b capacity p (\<forall>t\<in>set ts. length t \<le> 255) (text_bytes ts)"
proof (induction ts arbitrary: b p)
  case (Cons t ts)
  show ?case
  proof (cases "length t > 255 \<or> p + 1 + length t > capacity")
    case False
    have "over (over b p [of_nat (length t)]) (p + 1) t = over b p (of_nat (length t) # t)"
      using over_over [of p "[of_nat (length t)]" t b] False Cons.prems by simp
    then have step: "put_texts (t # ts) capacity (b, p) = put_texts ts capacity (over b p (of_nat (length t) # t), p + 1 + length t)"
      using False Cons.prems(2) by (simp add: wr_over wr_range_over)
    have "writes (put_texts ts capacity (over b p (of_nat (length t) # t), p + 1 + length t)) (over b p (of_nat (length t) # t))
        capacity (p + 1 + length t) (\<forall>t\<in>set ts. length t \<le> 255) (text_bytes ts)"
      using False Cons.prems by (intro Cons.IH) simp_all
    then show ?thesis
      using False Cons.prems(2) over_over [of p "of_nat (length t) # t" "text_bytes ts" b]
      unfolding step writes_def by (auto simp: text_bytes_def)
  qed (auto simp: writes_def text_bytes_def)
qed (simp add: writes_def text_bytes_def)

lemma put_txt_writes:
  assumes "p \<le> capacity" and "capacity \<le> length b"
  shows "writes (put_txt c (full_name c) capacity ttl (b, p)) b capacity p
    (name_ok (full_name c) \<and> (\<forall>t\<in>set (txt_entries c). length t \<le> 255))
    (record_bytes (full_name c) 16 0x8001 ttl (text_bytes (txt_entries c)))"
  using record_writes [where f = "\<lambda>b start. put_texts (txt_entries c) capacity (b, start)" and name = "full_name c" and
      type = 16 and record_class = "0x8001" and ttl = ttl, OF assms put_texts_writes]
  by (simp add: put_txt_def)

lemma writes_if:
  assumes "C \<Longrightarrow> writes r b capacity p P xs" and "p \<le> capacity"
  shows "writes (if C then r else ok (b, p)) b capacity p (C \<longrightarrow> P) (if C then xs else [])"
  using assms by (auto simp: writes_def)

lemma build_packet_message:
  assumes cap: "capacity \<le> length b"
  shows "build_packet c b capacity ttl =
    (if servable c \<and> length (message c ttl) \<le> capacity then ok (over b 0 (message c ttl), length (message c ttl)) else fail)"
proof (cases "capacity < 12 \<or> length (full_name c) \<ge> 256")
  case True
  have "12 \<le> length (message c ttl)" by (simp add: message_def)
  then show ?thesis
    using True cap
    by (auto simp: build_packet_def servable_def wr_range_over write_u16_over)
next
  case False
  let ?h = "[0, 0, 0x84, 0, 0, 0, 0, 0, 0, 0, 0, 0] :: buf"
  have head: "replicate 12 0 = [0, 0, 0, 0, 0, 0, 0, 0, 0, 0, 0, (0 :: u8)]" by (simp add: numeral_eq_Suc)
  have flags: "bytes16 0x8400 = [0x84, 0]" by (simp add: bytes16_def)
  have h: "over (over b 0 (replicate 12 0)) 2 (bytes16 0x8400) = over b 0 ?h"
    using over_patch [of 0 "[0, 0]" "[0, 0]" "[0, 0, 0, 0, 0, 0, 0, 0]" b "[0x84, 0]"] False cap
    by (simp add: head flags numeral_2_eq_2)
  let ?opt = "\<lambda>C xs. if C then xs else []"
  let ?a = "record_bytes (hostname c) 1 0x8001 ttl (address_bytes (ipv4 c))"
  let ?t = "record_bytes (full_name c) 16 0x8001 ttl (text_bytes (txt_entries c))"
  let ?body = "ptr_bytes c ttl @ srv_bytes c ttl @ ?opt (ipv4 c \<noteq> []) ?a @ ?opt (txt_entries c \<noteq> []) ?t"
  let ?puts = "\<lambda>bp. on_ok (put_ptr c (full_name c) capacity ttl bp) (\<lambda>(b, p).
          on_ok (put_srv c (full_name c) capacity ttl (b, p)) (\<lambda>(b, p).
          on_ok (if ipv4 c \<noteq> [] then put_address c capacity ttl (b, p) else ok (b, p)) (\<lambda>(b, p).
          if txt_entries c \<noteq> [] then put_txt c (full_name c) capacity ttl (b, p) else ok (b, p))))"
  let ?P = "(name_ok (service_type c) \<and> name_ok (full_name c)) \<and> (name_ok (full_name c) \<and> name_ok (hostname c)) \<and>
      (ipv4 c \<noteq> [] \<longrightarrow> name_ok (hostname c) \<and> (\<exists>a. net_str_to_ipv4 (ipv4 c) = Inr a)) \<and>
      (txt_entries c \<noteq> [] \<longrightarrow> name_ok (full_name c) \<and> (\<forall>t\<in>set (txt_entries c). length t \<le> 255))"
  have P: "?P = servable c" using False by (auto simp: servable_def)
  have w: "writes (?puts (over b 0 ?h, 12)) (over b 0 ?h) capacity 12 ?P ?body"
    using False cap
    by (intro writes_then put_ptr_writes put_srv_writes writes_if put_address_writes put_txt_writes) simp_all
  have all: "build_packet c b capacity ttl = on_ok (?puts (over b 0 ?h, 12)) (\<lambda>(b, p). do {
            b \<leftarrow> write_u16 b 6 (answer_count c); ok (b, p) })"
    using False cap h
    by (simp add: build_packet_def wr_range_over write_u16_over on_ok_assoc split_def answer_count_def)
  show ?thesis
  proof (cases "?P \<and> 12 + length ?body \<le> capacity")
    case True
    have "over (over (over b 0 ?h) 12 body) 6 (bytes16 n) = over b 0 ([0, 0, 0x84, 0, 0, 0] @ bytes16 n @ [0, 0, 0, 0] @ body)"
      if "12 + length body \<le> length b" for body n
    proof -
      have "over (over b 0 ?h) 12 body = over b 0 (?h @ body)"
        using over_over [of 0 ?h body b] that by (simp add: numeral_eq_Suc)
      moreover have "over (over b 0 (?h @ body)) 6 (bytes16 n) = over b 0 ([0, 0, 0x84, 0, 0, 0] @ bytes16 n @ [0, 0, 0, 0] @ body)"
        using over_patch [of 0 "[0, 0, 0x84, 0, 0, 0]" "[0, 0]" "[0, 0, 0, 0] @ body" b "bytes16 n"] that
        by (simp add: numeral_eq_Suc)
      ultimately show ?thesis by simp
    qed
    from this [of ?body "answer_count c"] show ?thesis
      using w all P True cap by (simp add: writes_def write_u16_over message_def)
  next
    case False
    then show ?thesis using w all P by (auto simp: writes_def message_def)
  qed
qed

subsection \<open>Any packet is handled\<close>

lemma decode_loop_total:
  "length name = capacity \<Longrightarrow> used < capacity \<Longrightarrow>
   \<exists>r name'. decode_loop steps data p nxt used name capacity = Some (r, name') \<and> length name' = capacity"
proof (induction steps arbitrary: p nxt used name)
  case (Suc steps)
  show ?case
  proof (cases "p \<ge> length data")
    case False
    define n where "n = data ! p"
    have n: "rd data p = Some n" using False by (simp add: rd_def n_def)
    consider "n = 0" | "n \<noteq> 0" "n AND 0xc0 = 0xc0" | "n \<noteq> 0" "n AND 0xc0 \<noteq> 0xc0" by blast
    then show ?thesis
    proof cases
      case 1
      then show ?thesis using False n Suc.prems by (auto simp: wr_def)
    next
      case 2
      then show ?thesis
        using False n Suc.prems Suc.IH [OF Suc.prems] by (cases "p + 1 \<ge> length data") (simp_all add: rd_def)
    next
      case 3
      show ?thesis
      proof (cases "n AND 0xc0 \<noteq> 0 \<or> p + 1 + unat n > length data \<or> used + unat n + 1 \<ge> capacity")
        case True
        then show ?thesis using False n 3 Suc.prems by auto
      next
        case fits: False
        define label where "label = take (unat n) (drop (p + 1) data)"
        have "p + 1 + unat n \<le> length data" using fits by simp
        then have l: "rd_range data (p + 1) (unat n) = Some label" "length label = unat n"
          by (simp_all add: rd_range_def label_def)
        obtain name1 where n1: "wr_range name used label = Some name1" "length name1 = capacity"
          using fits l(2) Suc.prems by (simp add: wr_range_def)
        obtain name2 where n2: "wr name1 (used + unat n) 46 = Some name2" "length name2 = capacity"
          using fits n1(2) by (simp add: wr_def)
        have "used + unat n + 1 < capacity" using fits by simp
        then show ?thesis
          using False n 3 fits l n1 n2 Suc.IH [of name2 "used + unat n + 1" "p + 1 + unat n" nxt] by simp
      qed
    qed
  qed (use Suc.prems in simp)
qed simp

lemma send_response_message:
  "send_response udp c destination ttl w =
    Some (if servable c \<and> length (message c ttl) \<le> 1500
      then (if fst (udp (message c ttl) destination w) = int (length (message c ttl)) then MDNS_OK else MDNS_ERR_SOCKET_ERROR,
        snd (udp (message c ttl) destination w))
      else (MDNS_ERR_BUFFER_OVERFLOW, w))"
proof -
  have b: "build_packet c (replicate 1500 0) 1500 ttl = (if servable c \<and> length (message c ttl) \<le> 1500
      then ok (over (replicate 1500 0) 0 (message c ttl), length (message c ttl)) else fail)"
    by (rule build_packet_message) simp
  have "rd_range (over (replicate 1500 0) 0 m) 0 (length m) = Some m" if "length m \<le> 1500" for m
    using that by (simp add: rd_range_def over_def)
  then show ?thesis unfolding send_response_def b by (auto simp: split_def Let_def)
qed

text \<open>A packet is answered by at most one message, to the group or to its sender.\<close>

definition answered :: "'w udp_fn \<Rightarrow> mdns_config \<Rightarrow> net_addr option \<Rightarrow> 'w \<Rightarrow> 'w \<Rightarrow> bool" where
  "answered udp c from_addr w w' \<longleftrightarrow>
     w' = w \<or> w' = snd (udp (message c 60) multicast w) \<or>
     (\<exists>a. from_addr = Some a \<and> w' = snd (udp (message c 4500) a w))"

lemma answered_same [simp]: "answered udp c from_addr w w"
  by (simp add: answered_def)

lemma announce_answered: "\<exists>r w'. mdns_announce udp c w = Some (r, w') \<and> answered udp c from_addr w w'"
  by (auto simp: mdns_announce_def send_response_message answered_def)

lemma unicast_answered: "\<exists>r w'. send_response udp c a 4500 w = Some (r, w') \<and> answered udp c (Some a) w w'"
  by (auto simp: send_response_message answered_def)

lemma handle_questions_total:
  "\<exists>r w'. handle_questions udp c data from_addr n p w = Some (r, w') \<and> answered udp c from_addr w w'"
proof (induction n arbitrary: p)
  case (Suc n)
  obtain nx name where d: "decode_name data p (replicate 256 0) 256 = Some (nx, name)"
    using decode_loop_total [of "replicate 256 0" 256 0 "length data" data p 0] by (auto simp: decode_name_def)
  show ?case
  proof (cases "nx = 0 \<or> nx + 4 > length data")
    case False
    then have "nx + 4 \<le> length data" by simp
    then obtain t k where "read_u16 data nx = Some t" "read_u16 data (nx + 2) = Some k"
      by (simp add: read_u16_def rd_def)
    then show ?thesis
      using d False Suc.IH [of "nx + 4"] announce_answered [of udp c w from_addr] unicast_answered [of udp c _ w]
      by (cases from_addr) auto
  qed (use d in auto)
qed simp

subsection \<open>Names read back\<close>

definition joined :: "buf list \<Rightarrow> buf" where
  "joined ls = concat (map (\<lambda>l. l @ [46]) ls)"

lemma joined_simps [simp]: "joined [] = []" "joined (l # ls) = l @ 46 # joined ls"
  by (simp_all add: joined_def)

lemma length_joined: "length (joined ls) = length (label_bytes ls)"
  by (induction ls) simp_all

lemma joined_labels: "joined (labels name) = (if name = [] \<or> last name = 46 then name else name @ [46])"
proof (induction name rule: labels.induct)
  case (1 name)
  show ?case
  proof (cases "name = []")
    case False
    define l where "l = takeWhile (\<lambda>c. c \<noteq> 46) name"
    define rest where "rest = dropWhile (\<lambda>c. c \<noteq> 46) name"
    have nm: "name = l @ rest" by (simp add: l_def rest_def)
    have ls: "labels name = l # labels (tl rest)"
      using False by (subst labels.simps) (simp add: l_def rest_def Let_def takeWhile_rest)
    have ih: "joined (labels (tl rest)) = (if tl rest = [] \<or> last (tl rest) = 46 then tl rest else tl rest @ [46])"
      using "1.IH" [OF False refl refl] by (simp add: rest_def takeWhile_rest)
    show ?thesis
    proof (cases rest)
      case Nil
      then have "last name \<in> set l" using False nm by simp
      then have "last name \<noteq> 46" unfolding l_def by (auto dest: set_takeWhileD)
      then show ?thesis using False ls nm Nil by (simp add: labels.simps)
    next
      case (Cons c cs)
      have "c = 46" using rest_starts [of name, folded rest_def] Cons by simp
      then show ?thesis using False ls nm Cons ih by auto
    qed
  qed (simp add: labels.simps)
qed

lemma small_length_byte:
  assumes "label_ok l"
  shows "unat (of_nat (length l) :: u8) = length l" "(of_nat (length l) :: u8) \<noteq> 0"
    "(of_nat (length l) :: u8) AND 0xc0 = 0"
proof -
  have l: "0 < length l" "length l < 64" using assms by (auto simp: label_ok_def)
  show u: "unat (of_nat (length l) :: u8) = length l" using l by (simp add: unat_of_nat)
  show "(of_nat (length l) :: u8) \<noteq> 0" using u l by (metis less_numeral_extra(3) unat_0)
  have "unat (take_bit 6 (of_nat (length l) :: u8)) = unat (of_nat (length l) :: u8)"
    using l by (simp add: unsigned_take_bit_eq u take_bit_nat_eq_self)
  then have "of_nat (length l) = (of_nat (length l) :: u8) AND mask 6"
    by (simp add: word_unat_eq_iff take_bit_eq_mask)
  then have "(of_nat (length l) :: u8) AND 0xc0 = of_nat (length l) AND (mask 6 AND 0xc0)"
    by (metis and.assoc)
  then show "(of_nat (length l) :: u8) AND 0xc0 = 0" by (simp add: mask_eq_exp_minus_1)
qed

lemma decode_labels:
  assumes "label_bytes ls @ 0 # rest = drop p data" and "\<forall>l\<in>set ls. label_ok l" and "length ls < steps"
    and "length name = capacity" and "used + length (label_bytes ls) < capacity" and "p \<le> length data"
  shows "\<exists>name'. decode_loop steps data p 0 used name capacity = Some (p + length (label_bytes ls) + 1, name') \<and>
    length name' = capacity \<and>
    take (used + length (label_bytes ls) - 1) name' = take (used + length (label_bytes ls) - 1) (take used name @ joined ls) \<and>
    name' ! (used + length (label_bytes ls) - 1) = 0"
  using assms
proof (induction ls arbitrary: p used name steps)
  case Nil
  obtain k where k: "steps = Suc k" using Nil.prems(3) by (cases steps) simp_all
  have "p < length data" using arg_cong [OF Nil.prems(1), of length] Nil.prems(6) by simp
  moreover have "data ! p = 0"
    using Nil.prems(1) calculation by (metis append_Nil hd_drop_conv_nth label_bytes_simps(1) list.sel(1))
  moreover have "used - 1 < capacity" using Nil.prems(5) by simp
  ultimately show ?case using k Nil.prems by (simp add: rd_def wr_def)
next
  case (Cons l ls)
  obtain k where k: "steps = Suc k" using Cons.prems(3) by (cases steps) simp_all
  have l: "label_ok l" and ls: "\<forall>l\<in>set ls. label_ok l" using Cons.prems(2) by simp_all
  have len: "length data = p + (1 + length l + length (label_bytes ls) + 1 + length rest)"
    using arg_cong [OF Cons.prems(1), of length] Cons.prems(6) by simp
  have nth: "data ! p = of_nat (length l)"
    using Cons.prems(1) len by (metis append_Cons hd_drop_conv_nth label_bytes_simps(2) less_add_same_cancel1 list.sel(1)
        add_gr_0 less_numeral_extra(1))
  have tail: "l @ label_bytes ls @ 0 # rest = drop (p + 1) data"
    using arg_cong [OF Cons.prems(1), of tl] by (simp add: tl_drop [symmetric] drop_Suc)
  have next_tail: "label_bytes ls @ 0 # rest = drop (p + 1 + length l) data"
    using arg_cong [OF tail, of "drop (length l)"] by (simp add: ac_simps)
  have label: "rd_range data (p + 1) (length l) = Some l"
    using arg_cong [OF tail, of "take (length l)"] len by (simp add: rd_range_def)
  have fits: "used + length l + 1 < capacity" "used + length l + 1 + length (label_bytes ls) < capacity"
    using Cons.prems(5) by simp_all
  define name2 where "name2 = over name used (l @ [46])"
  have w: "wr_range name used l = Some (over name used l)" "wr (over name used l) (used + length l) 46 = Some name2"
    using fits Cons.prems(4) over_over [of used l "[46]" name] by (simp_all add: wr_range_over wr_over name2_def)
  have n2: "length name2 = capacity" using fits Cons.prems(4) by (simp add: name2_def)
  have step: "decode_loop steps data p 0 used name capacity =
      decode_loop k data (p + 1 + length l) 0 (used + length l + 1) name2 capacity"
    using k nth small_length_byte [OF l] label w fits len by (simp add: rd_def)
  from Cons.IH [of "p + 1 + length l" k name2 "used + length l + 1", OF next_tail ls _ n2 _] obtain name' where
    ih: "decode_loop k data (p + 1 + length l) 0 (used + length l + 1) name2 capacity =
        Some (p + 1 + length l + length (label_bytes ls) + 1, name')" "length name' = capacity"
      "take (used + length l + 1 + length (label_bytes ls) - 1) name' =
        take (used + length l + 1 + length (label_bytes ls) - 1) (take (used + length l + 1) name2 @ joined ls)"
      "name' ! (used + length l + 1 + length (label_bytes ls) - 1) = 0"
    using Cons.prems(3) k fits len by auto
  have "take (used + length l + 1) name2 = take used name @ l @ [46]"
    using fits Cons.prems(4) by (simp add: name2_def over_def)
  then show ?case
    using ih by (simp add: step ac_simps)
qed

lemma decode_written_name:
  assumes n: "name_ok name" and z: "0 \<notin> set name" and e: "last name \<noteq> 46"
    and d: "dns_name name @ rest = drop p data" "p \<le> length data"
  shows "\<exists>name'. decode_name data p (replicate 256 0) 256 = Some (p + length (dns_name name), name') \<and> cut name' = name"
proof -
  let ?ls = "labels name"
  have ok: "\<forall>l\<in>set ?ls. label_ok l" and len: "length (label_bytes ?ls) \<le> 254" and ne: "name \<noteq> []"
    using n by (auto simp: name_ok_def dns_name_def)
  have j: "joined ?ls = name @ [46]" using joined_labels [of name] ne e by simp
  have lb: "length (label_bytes ?ls) = length name + 1" using length_joined [of ?ls] j by simp
  have "length ls \<le> length (label_bytes ls)" for ls by (induction ls) simp_all
  from this [of ?ls] have "length ?ls \<le> length (label_bytes ?ls)" .
  moreover have "length (dns_name name) \<le> length data"
    using arg_cong [OF d(1), of length] by simp
  ultimately have "length ?ls < length data" by (simp add: dns_name_def)
  then obtain name' where "decode_loop (length data) data p 0 0 (replicate 256 0) 256 = Some (p + length (label_bytes ?ls) + 1, name')"
      "length name' = 256" "take (length name) name' = name" "name' ! length name = 0"
    using decode_labels [of ?ls rest p data "length data" "replicate 256 0" 256 0] d ok len lb j
    by (auto simp: dns_name_def)
  moreover have "cut name' = name"
  proof -
    have "length name < length name'" using calculation(2) len lb by simp
    then have "drop (length name) name' = 0 # drop (length name + 1) name'"
      using Cons_nth_drop_Suc [of "length name" name'] calculation(4) by simp
    then have "name' = name @ 0 # drop (length name + 1) name'"
      using append_take_drop_id [of "length name" name'] calculation(3) by simp
    then have "cut name' = takeWhile (\<lambda>c. c \<noteq> 0) (name @ 0 # drop (length name + 1) name')"
      unfolding cut_def by (rule arg_cong)
    also have "\<dots> = name"
      using z by (subst takeWhile_append2) auto
    finally show ?thesis .
  qed
  ultimately show ?thesis by (simp add: decode_name_def dns_name_def)
qed

subsection \<open>Properties\<close>

text \<open>A query with one question first, and where its answer goes.\<close>

definition query_bytes :: "buf \<Rightarrow> buf \<Rightarrow> u16 \<Rightarrow> u16 \<Rightarrow> buf \<Rightarrow> buf" where
  "query_bytes head name type record_class trailing = head @ dns_name name @ bytes16 type @ bytes16 record_class @ trailing"

definition query_head :: "buf \<Rightarrow> bool" where
  "query_head head \<longleftrightarrow> length head = 12 \<and> be16 (head ! 2) (head ! 3) AND 0x8000 = 0 \<and> be16 (head ! 4) (head ! 5) \<noteq> 0"

definition answer_to :: "u16 \<Rightarrow> net_addr option \<Rightarrow> net_addr \<times> u32" where
  "answer_to raw_class from_addr =
     (case from_addr of
        Some a \<Rightarrow> if raw_class AND 0x8000 \<noteq> 0 \<and> ip a \<noteq> [] \<and> port a \<noteq> 0 then (a, 4500) else (multicast, 60)
      | None \<Rightarrow> (multicast, 60))"

lemma query_answered:
  assumes h: "query_head head" and n: "name_ok name" "0 \<notin> set name" "last name \<noteq> 46"
    and q: "asks_for c name type raw_class" and a: "answer_to raw_class from_addr = (destination, ttl)"
  shows "mdns_handle_packet_from udp c (query_bytes head name type raw_class trailing) from_addr w = send_response udp c destination ttl w"
proof -
  let ?q = "query_bytes head name type raw_class trailing" and ?next = "12 + length (dns_name name)"
  have hl: "length head = 12" using h by (simp add: query_head_def)
  have rd: "rd ?q k = Some (head ! k)" if "k < 12" for k
    using that hl by (simp add: query_bytes_def rd_def nth_append)
  have drop: "drop 12 ?q = dns_name name @ bytes16 type @ bytes16 raw_class @ trailing"
    using hl by (simp add: query_bytes_def)
  have "12 \<le> length ?q" using hl by (simp add: query_bytes_def)
  then obtain name' where d: "decode_name ?q 12 (replicate 256 0) 256 = Some (?next, name')" "cut name' = name"
    using decode_written_name [OF n drop [symmetric]] by blast
  have flags: "read_u16 ?q 2 = Some (be16 (head ! 2) (head ! 3))" "read_u16 ?q 4 = Some (be16 (head ! 4) (head ! 5))"
    using rd [of 2] rd [of 3] rd [of 4] rd [of 5] by (simp_all add: read_u16_def)
  have "read_u16 ?q ?next = Some type" "read_u16 ?q (?next + 2) = Some raw_class"
    using hl by (simp_all add: read_u16_def query_bytes_def rd_def nth_append bytes16_def be16_bytes)
  moreover have "?next + 4 \<le> length ?q" using hl by (simp add: query_bytes_def)
  moreover obtain k where k: "unat (be16 (head ! 4) (head ! 5)) = Suc k"
    using h by (auto simp: query_head_def unat_eq_0 intro: not0_implies_Suc dest: gr0_implies_Suc)
      (metis not0_implies_Suc unat_eq_0)
  moreover have "handle_questions udp c ?q from_addr (Suc k) 12 w = send_response udp c destination ttl w"
    using d q a calculation(1-3)
    by (cases from_addr) (auto simp: mdns_announce_def answer_to_def split: if_splits)
  ultimately show ?thesis
    using h hl \<open>12 \<le> length ?q\<close> flags
    by (simp add: mdns_handle_packet_from_def query_head_def del: handle_questions.simps)
qed

lemma written_name_decoded:
  assumes w: "write_name name b capacity p = ok (b', q)" and z: "0 \<notin> set name" "last name \<noteq> 46"
    and cap: "capacity \<le> length b" "p \<le> capacity"
  shows "\<exists>name'. decode_name b' p (replicate 256 0) 256 = Some (q, name') \<and> cut name' = name"
proof -
  have ws: "writes (write_name name b capacity p) b capacity p (name_ok name) (dns_name name)"
    using cap by (intro write_name_writes) simp_all
  then have n: "name_ok name" and b': "b' = over b p (dns_name name)" and q: "q = p + length (dns_name name)"
    and fits: "p + length (dns_name name) \<le> capacity"
    using w by (auto simp: writes_def split: if_splits)
  have "dns_name name @ drop q b = drop p b'"
    using fits cap by (simp add: b' q over_def)
  moreover have "p \<le> length b'" using fits cap by (simp add: b' over_def)
  ultimately show ?thesis using decode_written_name [OF n z] q by blast
qed

lemma handle_packet_total:
  "\<exists>r w'. mdns_handle_packet_from udp c data from_addr w = Some (r, w') \<and> answered udp c from_addr w w'"
proof (cases "length data < 12")
  case False
  then obtain f k where "read_u16 data 2 = Some f" "read_u16 data 4 = Some k"
    by (simp add: read_u16_def rd_def)
  then show ?thesis
    using False handle_questions_total [of udp c data from_addr "unat k" 12 w]
    by (simp add: mdns_handle_packet_from_def)
qed (simp add: mdns_handle_packet_from_def)

text \<open>
  C20: A packet is built exactly when the names, addresses and texts of the service can be put into DNS records and the
  message fits into the capacity.  It is then the message of the wire format, header, pointer, service,
  address and text records with their lengths, at the start of the buffer, and nothing behind it changes.
\<close>

theorem mdns_packet_wire:
  assumes "capacity \<le> length b"
  shows "build_packet c b capacity ttl =
    (if servable c \<and> length (message c ttl) \<le> capacity
     then ok (message c ttl @ drop (length (message c ttl)) b, length (message c ttl)) else fail)"
  by (simp add: build_packet_message [OF assms] over_def)

definition sample_service :: mdns_config where
  "sample_service = \<lparr>service_type = [108], instance_name = [97], hostname = [104], service_port = 5000,
     ipv4 = [49, 46, 50, 46, 51, 46, 52], txt_entries = [[118, 61, 49]]\<rparr>"

lemma mdns_packet_wire_witness:
  "build_packet sample_service (replicate 100 0) 100 60 =
    (if servable sample_service \<and> length (message sample_service 60) \<le> 100
     then ok (message sample_service 60 @ drop (length (message sample_service 60)) (replicate 100 0),
       length (message sample_service 60)) else fail) \<and>
   build_packet sample_service (replicate 100 0) 100 60 \<noteq> fail"
proof -
  have "build_packet sample_service (replicate 100 0) 100 60 \<noteq> fail" by code_simp
  then show ?thesis using mdns_packet_wire [of 100 "replicate 100 0" sample_service 60] by simp
qed

text \<open>
  A name that was written into a packet reads back from there: the decoder moves to the same
  position the writer stopped at and its text is the name, whatever follows in the packet.
\<close>

theorem mdns_name_roundtrip:
  assumes "write_name name b capacity p = ok (b', q)" and "0 \<notin> set name" and "last name \<noteq> 46"
    and "capacity \<le> length b" and "p \<le> capacity"
  shows "\<exists>name'. decode_name b' p (replicate 256 0) 256 = Some (q, name') \<and> cut name' = name"
  using assms
  by (rule written_name_decoded)

lemma mdns_name_roundtrip_witness:
  "\<exists>b' q name'. write_name [97, 98, 46, 99] (replicate 12 7) 10 2 = ok (b', q) \<and>
     decode_name b' 2 (replicate 256 0) 256 = Some (q, name') \<and> cut name' = [97, 98, 46, 99]"
proof -
  have "write_name [97, 98, 46, 99] (replicate 12 7) 10 2 = ok ([7, 7, 2, 97, 98, 1, 99, 0, 7, 7, 7, 7], 8)"
    by code_simp
  from mdns_name_roundtrip [OF this] this show ?thesis by auto
qed


definition echo_udp :: "(buf \<times> net_addr) list udp_fn" where
  "echo_udp data to_addr w = (int (length data), w @ [(data, to_addr)])"

definition sample_head :: buf where
  "sample_head = [1, 2, 0, 0, 0, 1, 0, 0, 0, 0, 0, 0]"

lemma sample_servable: "servable sample_service"
proof -
  have "net_str_to_ipv4 (ipv4 sample_service) = Inr [1, 2, 3, 4]" by code_simp
  moreover have "length (full_name sample_service) < 256" "name_ok (service_type sample_service)"
    "name_ok (full_name sample_service)" "name_ok (hostname sample_service)"
    "\<forall>t\<in>set (txt_entries sample_service). length t \<le> 255"
    by code_simp+
  ultimately show ?thesis by (simp add: servable_def)
qed


text \<open>
  C27: Every packet is handled, compression pointers that run in circles included: the responder returns,
  never accesses memory outside its buffers, and sends at most one message, the service's records, to the group or
  to the sender of the packet.
\<close>

theorem mdns_any_packet:
  "\<exists>r w'. mdns_handle_packet_from udp c data from_addr w = Some (r, w') \<and> answered udp c from_addr w w'"
  by (rule handle_packet_total)

end
