(* ===== verification/Discovery.thy ===== *)
theory Discovery
  imports Mdns C_Text
begin

section \<open>Discovery: \<open>src/shared/airplay/airplay_discovery.c\<close>\<close>

text \<open>
  The two services of the receiver, AirPlay 1 audio and AirPlay 2, on one multicast socket.  The
  operations of the socket are fields of a record over a world of any type: \<open>group_bind\<close> and
  \<open>group_join\<close> open it, \<open>group_send\<close> and \<open>group_receive\<close> are \<open>net_udp_send\<close> and \<open>net_udp_recv\<close>
  with its capacity and timeout, and \<open>group_close\<close> is \<open>net_close\<close>.
\<close>

record 'w group_socket =
  group_bind :: "u16 \<Rightarrow> 'w \<Rightarrow> bool \<times> 'w"
  group_join :: "buf \<Rightarrow> buf \<Rightarrow> 'w \<Rightarrow> bool \<times> 'w"
  group_send :: "'w udp_fn"
  group_receive :: "nat \<Rightarrow> int \<Rightarrow> 'w \<Rightarrow> udp_recv \<times> 'w"
  group_close :: "'w \<Rightarrow> 'w"

record discovery =
  raop_service :: mdns_config
  airplay_service :: mdns_config
  discovery_ready :: bool

definition config_zero :: mdns_config where
  "config_zero = \<lparr>service_type = [], instance_name = [], hostname = [], service_port = 0, ipv4 = [], txt_entries = []\<rparr>"

definition discovery_zero :: discovery where
  "discovery_zero = \<lparr>raop_service = config_zero, airplay_service = config_zero, discovery_ready = False\<rparr>"

text \<open>The six octets of a hardware address of twelve hexadecimal digits, with colons.\<close>

definition colons :: "buf \<Rightarrow> buf" where
  "colons mac =
     take 2 mac @ [58] @ take 2 (drop 2 mac) @ [58] @ take 2 (drop 4 mac) @ [58] @
     take 2 (drop 6 mac) @ [58] @ take 2 (drop 8 mac) @ [58] @ take 2 (drop 10 mac)"

text \<open>The name of the AirPlay 1 service; an absent hardware address is the empty text.\<close>

definition raop_name :: "buf \<Rightarrow> buf \<Rightarrow> buf" where
  "raop_name mac name = (if mac \<noteq> [] then mac @ [64] @ name else name)"

definition host_name :: "buf \<Rightarrow> buf" where
  "host_name name = name @ lit ''.local''"

definition airplay_txt :: "buf \<Rightarrow> buf list" where
  "airplay_txt mac =
     [lit ''deviceid='' @ colons (if length mac = 12 then mac else lit ''000000000000''),
      lit ''features=0x405C4A00,0x18340'', lit ''flags=0x4'', lit ''model=PortableSpeaker'',
      lit ''srcvers=377.40.00'', lit ''vv=2'', lit ''acl=0'']"

definition raop_type :: buf where
  "raop_type = lit ''_raop._tcp.local''"

definition airplay_type :: buf where
  "airplay_type = lit ''_airplay._tcp.local''"

definition raop_config :: "buf \<Rightarrow> buf \<Rightarrow> buf \<Rightarrow> buf list \<Rightarrow> mdns_config" where
  "raop_config name mac addr txt =
     \<lparr>service_type = raop_type, instance_name = raop_name mac name, hostname = host_name name,
      service_port = 5000, ipv4 = addr, txt_entries = txt\<rparr>"

definition airplay_config :: "buf \<Rightarrow> buf \<Rightarrow> buf \<Rightarrow> mdns_config" where
  "airplay_config name mac addr =
     (raop_config name mac addr (airplay_txt mac))\<lparr>service_type := airplay_type, instance_name := name\<rparr>"

text \<open>
  The result is whether the discovery was set up.  A service is created from a complete configuration, so
  that \<open>mdns_create\<close> does not fail; where something later does, the socket is closed.
\<close>

definition discovery_accepts :: "buf \<Rightarrow> buf \<Rightarrow> buf \<Rightarrow> buf list \<Rightarrow> bool" where
  "discovery_accepts name mac addr txt \<longleftrightarrow>
     name \<noteq> [] \<and> length name < 64 \<and> length txt \<le> 65535 \<and> (case net_str_to_ipv4 addr of Inl _ \<Rightarrow> False | Inr _ \<Rightarrow> True) \<and>
     length addr < 16 \<and> length (raop_name mac name) < 96 \<and> length (host_name name) < 96"

definition airplay_discovery_init ::
  "'w group_socket \<Rightarrow> buf \<Rightarrow> buf \<Rightarrow> buf \<Rightarrow> buf list \<Rightarrow> 'w \<Rightarrow> (bool \<times> discovery \<times> 'w) option" where
  "airplay_discovery_init net name mac addr txt w =
     (if \<not> discovery_accepts name mac addr txt then Some (False, discovery_zero, w)
      else
        let (bound, w) = group_bind net 5353 w;
            (joined, w) = (if bound then group_join net (lit ''224.0.0.251'') addr w else (False, w)) in
        if \<not> joined then Some (False, discovery_zero, group_close net w)
        else do {
          let d = discovery_zero\<lparr>raop_service := raop_config name mac addr txt\<rparr>;
          (r, w) \<leftarrow> mdns_announce (group_send net) (raop_service d) w;
          if r \<noteq> MDNS_OK then Some (False, d, group_close net w)
          else do {
            let d = d\<lparr>airplay_service := airplay_config name mac addr\<rparr>;
            (r, w) \<leftarrow> mdns_announce (group_send net) (airplay_service d) w;
            if r \<noteq> MDNS_OK then Some (False, d, group_close net w)
            else Some (True, d\<lparr>discovery_ready := True\<rparr>, w) } })"

text \<open>A packet is handled by both services, one after the other.\<close>

definition airplay_discovery_poll ::
  "'w group_socket \<Rightarrow> discovery \<Rightarrow> int \<Rightarrow> 'w \<Rightarrow> (bool \<times> 'w) option" where
  "airplay_discovery_poll net d timeout_ms w =
     (if \<not> discovery_ready d then Some (False, w)
      else
        (case group_receive net 1500 timeout_ms w of
           (RecvTimeout, w) \<Rightarrow> Some (True, w)
         | (RecvError, w) \<Rightarrow> Some (False, w)
         | (Datagram data source, w) \<Rightarrow> do {
             (r, w) \<leftarrow> mdns_handle_packet_from (group_send net) (raop_service d) data (Some source) w;
             if r = MDNS_ERR_SOCKET_ERROR then Some (False, w)
             else do {
               (r, w) \<leftarrow> mdns_handle_packet_from (group_send net) (airplay_service d) data (Some source) w;
               Some (r \<noteq> MDNS_ERR_SOCKET_ERROR, w) } }))"

definition airplay_discovery_deinit :: "'w group_socket \<Rightarrow> discovery \<Rightarrow> 'w \<Rightarrow> (discovery \<times> 'w) option" where
  "airplay_discovery_deinit net d w =
     (if \<not> discovery_ready d then Some (d, w)
      else do {
        (_, w) \<leftarrow> mdns_goodbye (group_send net) (raop_service d) w;
        (_, w) \<leftarrow> mdns_goodbye (group_send net) (airplay_service d) w;
        Some (d\<lparr>discovery_ready := False\<rparr>, group_close net w) })"

subsection \<open>What is announced\<close>

text \<open>The name of the receiver is one label when it has no dot.\<close>

lemma labels_plain: "46 \<notin> set name \<Longrightarrow> name \<noteq> [] \<Longrightarrow> labels name = [name]"
proof -
  assume "46 \<notin> set name" and "name \<noteq> []"
  moreover have "takeWhile (\<lambda>c. c \<noteq> 46) name = name"
    using calculation by (intro takeWhile_eq_all_conv [THEN iffD2]) auto
  ultimately show ?thesis
    by (subst labels.simps) (simp only: Let_def refl if_False drop_all order_refl list.sel labels.simps [of "[]"] if_True)
qed

lemma labels_dot: "46 \<notin> set a \<Longrightarrow> labels (a @ 46 # b) = a # labels b"
proof -
  assume "46 \<notin> set a"
  then have "takeWhile (\<lambda>c. c \<noteq> 46) (a @ (46 :: u8) # b) = a"
    by (subst takeWhile_append2) auto
  then show ?thesis by (subst labels.simps) (simp add: Let_def)
qed

lemma type_labels:
  "labels raop_type = [lit ''_raop'', lit ''_tcp'', lit ''local'']"
  "labels airplay_type = [lit ''_airplay'', lit ''_tcp'', lit ''local'']"
  "labels (lit ''local'') = [lit ''local'']"
  by code_simp+

lemma config_fields [simp]:
  "full_name (raop_config name mac addr txt) = raop_name mac name @ 46 # raop_type"
  "service_type (raop_config name mac addr txt) = raop_type"
  "hostname (raop_config name mac addr txt) = host_name name"
  "ipv4 (raop_config name mac addr txt) = addr" "txt_entries (raop_config name mac addr txt) = txt"
  "full_name (airplay_config name mac addr) = name @ 46 # airplay_type"
  "service_type (airplay_config name mac addr) = airplay_type"
  "hostname (airplay_config name mac addr) = host_name name"
  "ipv4 (airplay_config name mac addr) = addr" "txt_entries (airplay_config name mac addr) = airplay_txt mac"
  by (simp_all add: full_name_def raop_config_def airplay_config_def)

text \<open>A type, a name of that type, and the host, as they are stored.\<close>

lemma type_names:
  "name_ok raop_type" "name_ok airplay_type" "length (dns_name raop_type) = 18" "length (dns_name airplay_type) = 21"
  by (simp_all add: name_ok_def dns_name_def type_labels label_ok_def) (simp_all add: raop_type_def airplay_type_def)

lemma instance_names:
  assumes "46 \<notin> set n"
  shows "name_ok (n @ 46 # raop_type) \<longleftrightarrow> label_ok n" "length (dns_name (n @ 46 # raop_type)) = length n + 19"
    "name_ok (n @ 46 # airplay_type) \<longleftrightarrow> label_ok n" "length (dns_name (n @ 46 # airplay_type)) = length n + 22"
    "name_ok (host_name n) \<longleftrightarrow> label_ok n" "length (dns_name (host_name n)) = length n + 8"
proof -
  have h: "host_name n = n @ 46 # lit ''local''" by (simp add: host_name_def)
  show "name_ok (n @ 46 # raop_type) \<longleftrightarrow> label_ok n" "length (dns_name (n @ 46 # raop_type)) = length n + 19"
    "name_ok (n @ 46 # airplay_type) \<longleftrightarrow> label_ok n" "length (dns_name (n @ 46 # airplay_type)) = length n + 22"
    "name_ok (host_name n) \<longleftrightarrow> label_ok n" "length (dns_name (host_name n)) = length n + 8"
    unfolding h name_ok_def dns_name_def labels_dot [OF assms] type_labels
    by (auto simp: label_ok_def)
qed

lemma raop_name_mac: "mac \<noteq> [] \<Longrightarrow> raop_name mac name = mac @ 64 # name"
  by (simp add: raop_name_def)

lemma type_lengths: "length raop_type = 16" "length airplay_type = 19"
  by (simp_all add: raop_type_def airplay_type_def)

lemma airplay_txt_lengths: "\<forall>t\<in>set (airplay_txt mac). length t \<le> 255" "length (text_bytes (airplay_txt mac)) \<le> 200"
  by (simp_all add: airplay_txt_def colons_def text_bytes_def)

lemma servable_configs:
  assumes n: "46 \<notin> set name" "name \<noteq> []" "length name \<le> 63" and m: "46 \<notin> set mac" "length mac = 12"
    and a: "net_str_to_ipv4 addr = Inr a" and t: "\<forall>t\<in>set txt. length t \<le> 255"
  shows "servable (raop_config name mac addr txt) \<longleftrightarrow> length name \<le> 50"
    and "servable (airplay_config name mac addr)"
proof -
  have mac: "mac \<noteq> []" using m by auto
  have r: "46 \<notin> set (mac @ 64 # name)" using m n by simp
  show "servable (raop_config name mac addr txt) \<longleftrightarrow> length name \<le> 50"
    using n m a t instance_names(1) [OF r]
    by (auto simp: servable_def raop_name_mac [OF mac] type_names instance_names type_lengths label_ok_def)
  show "servable (airplay_config name mac addr)"
    using n a airplay_txt_lengths(1) [of mac]
    by (auto simp: servable_def type_names instance_names type_lengths label_ok_def)
qed

lemma message_lengths:
  assumes n: "46 \<notin> set name" "length name \<le> 63" and m: "46 \<notin> set mac" "length mac = 12"
    and a: "net_str_to_ipv4 addr = Inr a" "length a = 4" and t: "length (text_bytes txt) \<le> 600"
  shows "length (message (raop_config name mac addr txt) ttl) \<le> 1500"
    and "length (message (airplay_config name mac addr) ttl) \<le> 1500"
proof -
  have mac: "mac \<noteq> []" using m by auto
  have r: "46 \<notin> set (mac @ 64 # name)" using m n by simp
  show "length (message (raop_config name mac addr txt) ttl) \<le> 1500"
    using n m a t instance_names(2) [OF r]
    by (simp add: message_def ptr_bytes_def srv_bytes_def record_bytes_def raop_name_mac [OF mac] instance_names
        type_names address_bytes_def)
  show "length (message (airplay_config name mac addr) ttl) \<le> 1500"
    using n m a airplay_txt_lengths(2) [of mac]
    by (simp add: message_def ptr_bytes_def srv_bytes_def record_bytes_def instance_names
        type_names address_bytes_def)
qed

text \<open>Everything that is announced fits, unless the name is too long for the first label.\<close>

lemma discovery_start:
  assumes n: "46 \<notin> set name" "name \<noteq> []" "length name \<le> 63" and m: "46 \<notin> set mac" "length mac = 12"
    and a: "net_str_to_ipv4 addr = Inr a" "length a = 4" "length addr < 16"
    and t: "\<forall>t\<in>set txt. length t \<le> 255" "length (text_bytes txt) \<le> 600" "length txt \<le> 65535"
    and net: "group_bind net 5353 w = (True, w1)" "group_join net (lit ''224.0.0.251'') addr w1 = (True, w2)"
    and send: "\<And>data to_addr w. fst (group_send net data to_addr w) = int (length data)"
  shows "airplay_discovery_init net name mac addr txt w =
    (let raop = raop_config name mac addr txt; air = airplay_config name mac addr;
         sent = (\<lambda>c w. snd (group_send net (message c 60) multicast w)) in
     if length name \<le> 50
     then Some (True, \<lparr>raop_service = raop, airplay_service = air, discovery_ready = True\<rparr>, sent air (sent raop w2))
     else Some (False, discovery_zero\<lparr>raop_service := raop\<rparr>, group_close net w2))"
proof -
  have "mac \<noteq> []" using m by auto
  then have "discovery_accepts name mac addr txt"
    using n m a t by (simp add: discovery_accepts_def raop_name_mac host_name_def)
  moreover note servable_configs [OF n m a(1) t(1)] message_lengths [OF n(1,3) m a(1,2) t(2)]
  ultimately show ?thesis
    using net send
    by (simp add: airplay_discovery_init_def mdns_announce_def send_response_message Let_def discovery_zero_def)
qed

text \<open>
  C28: With a hardware address of twelve characters, a valid address and a name of one label, the discovery comes up exactly
  when the name has at most 50 bytes: it announces the AirPlay 1 service, then the AirPlay 2 service,
  to the group.  A longer name, which the configuration admits up to 63 bytes, makes the label of
  the AirPlay 1 service too long: the socket is closed and the discovery fails.
\<close>

theorem discovery_starts:
  assumes n: "46 \<notin> set name" "name \<noteq> []" "length name \<le> 63" and m: "46 \<notin> set mac" "length mac = 12"
    and a: "net_str_to_ipv4 addr = Inr a" "length a = 4" "length addr < 16"
    and t: "\<forall>t\<in>set txt. length t \<le> 255" "length (text_bytes txt) \<le> 600" "length txt \<le> 65535"
    and net: "group_bind net 5353 w = (True, w1)" "group_join net (lit ''224.0.0.251'') addr w1 = (True, w2)"
    and send: "\<And>data to_addr w. fst (group_send net data to_addr w) = int (length data)"
  shows "airplay_discovery_init net name mac addr txt w =
    (let raop = raop_config name mac addr txt; air = airplay_config name mac addr;
         sent = (\<lambda>c w. snd (group_send net (message c 60) multicast w)) in
     if length name \<le> 50
     then Some (True, \<lparr>raop_service = raop, airplay_service = air, discovery_ready = True\<rparr>, sent air (sent raop w2))
     else Some (False, discovery_zero\<lparr>raop_service := raop\<rparr>, group_close net w2))"
  by (rule discovery_start [OF assms])

definition group_echo :: "(buf \<times> net_addr) list group_socket" where
  "group_echo =
     \<lparr>group_bind = (\<lambda>p w. (True, w)), group_join = (\<lambda>g i w. (True, w)), group_send = echo_udp,
      group_receive = (\<lambda>n t w. (RecvTimeout, w)), group_close = (\<lambda>w. [])\<rparr>"

lemma discovery_starts_witness:
  "\<exists>raop air. airplay_discovery_init group_echo [97] (replicate 12 48) [49, 46, 50, 46, 51, 46, 52] [[118, 61, 49]] [] =
    Some (True, \<lparr>raop_service = raop, airplay_service = air, discovery_ready = True\<rparr>,
      [(message raop 60, multicast), (message air 60, multicast)])"
proof -
  have a: "net_str_to_ipv4 [49, 46, 50, 46, 51, 46, 52] = Inr [1, 2, 3, 4]" by code_simp
  show ?thesis
    using discovery_starts [OF _ _ _ _ _ a, of "[97]" "replicate 12 48" "[[118, 61, 49]]" group_echo "[]" "[]" "[]"]
    by (simp add: group_echo_def echo_udp_def text_bytes_def Let_def)
qed

text \<open>Every poll returns.\<close>

lemma discovery_poll_total: "\<exists>b w'. airplay_discovery_poll net d timeout_ms w = Some (b, w')"
proof (cases "group_receive net 1500 timeout_ms w")
  case (Pair r w1)
  show ?thesis
  proof (cases r)
    case (Datagram data source)
    obtain r1 w2 where 1: "mdns_handle_packet_from (group_send net) (raop_service d) data (Some source) w1 = Some (r1, w2)"
      using handle_packet_total [of "group_send net" "raop_service d" data "Some source" w1] by blast
    obtain r2 w3 where "mdns_handle_packet_from (group_send net) (airplay_service d) data (Some source) w2 = Some (r2, w3)"
      using handle_packet_total [of "group_send net" "airplay_service d" data "Some source" w2] by blast
    with 1 Pair Datagram show ?thesis
      by (simp add: airplay_discovery_poll_def exI [of Not False])
  qed (auto simp: airplay_discovery_poll_def Pair exI [of Not False] exI [of "\<lambda>b. b" True])
qed

end
