(* ===== verification/Server.thy ===== *)
theory Server
  imports Rtsp_Server Raop_Safety Discovery
begin

section \<open>The receiver service: \<open>src/shared/service/server.c\<close>\<close>

text \<open>
  The receiver owns an RTSP server, a discovery service and an audio pipeline, each run by a thread of
  its own.  The threads share the stream state of the RTSP server, which the audio thread reads as one copy
  per iteration, and a control block, which is part of the world here: a call to the platform may change
  it, as another thread does meanwhile.  \<open>crypto_ready\<close> is the flag of \<open>crypto_memory.c\<close>, whose pool
  belongs to mbedTLS.
\<close>

record 'w service =
  stopping :: bool
  result :: int
  crypto_ready :: bool
  outer :: 'w

text \<open>
  \<open>lock_init\<close> is \<open>os_mutex_init\<close>; the others are the operations of \<open>audio.h\<close> on a device, whose handle
  is a number.
\<close>

record 'w platform =
  lock_init :: "'w \<Rightarrow> bool \<times> 'w"
  open_audio :: "u32 \<Rightarrow> u8 \<Rightarrow> u8 \<Rightarrow> 'w \<Rightarrow> nat option \<times> 'w"
  write_audio :: "nat \<Rightarrow> i16 list \<Rightarrow> 'w \<Rightarrow> int \<times> 'w"
  audio_delay :: "nat \<Rightarrow> 'w \<Rightarrow> int \<times> 'w"
  close_device :: "nat \<Rightarrow> 'w \<Rightarrow> 'w"

text \<open>The arrays of 16, 13 and 64 characters.\<close>

record receiver_config =
  config_ip :: buf
  config_mac :: buf
  config_name :: buf

record audio_loop =
  loop_generation :: u32
  loop_flush_generation :: u32
  loop_transport_generation :: u32
  loop_volume_db :: rat

record audio_thread =
  the_pipeline :: pipeline
  device :: "nat option"
  loop_state :: audio_loop

record server =
  server_config :: receiver_config
  initialized :: bool
  rtsp_initialized :: bool
  discovery_initialized :: bool
  audio_initialized :: bool
  rtsp :: rtsp_instance
  the_discovery :: discovery
  audio_part :: audio_thread

definition loop_zero :: audio_loop where
  "loop_zero = \<lparr>loop_generation = 0, loop_flush_generation = 0, loop_transport_generation = 0, loop_volume_db = 0\<rparr>"

definition server_zero :: server where
  "server_zero =
     \<lparr>server_config = \<lparr>config_ip = [], config_mac = [], config_name = []\<rparr>, initialized = False,
      rtsp_initialized = False, discovery_initialized = False, audio_initialized = False, rtsp = instance_zero,
      the_discovery = discovery_zero,
      audio_part = \<lparr>the_pipeline = pipeline_zero, device = None, loop_state = loop_zero\<rparr>\<rparr>"

subsection \<open>Control\<close>

definition server_fail :: "'w service \<Rightarrow> 'w service" where
  "server_fail w = w\<lparr>result := - 1, stopping := True\<rparr>"

definition airplay_server_stop :: "'w service \<Rightarrow> 'w service" where
  "airplay_server_stop w = w\<lparr>stopping := True\<rparr>"

definition airplay_server_is_stopping :: "'w service \<Rightarrow> bool" where
  "airplay_server_is_stopping w = stopping w"

definition airplay_server_result :: "'w service \<Rightarrow> int" where
  "airplay_server_result w = result w"

definition crypto_memory_init :: "'w service \<Rightarrow> bool \<times> 'w service" where
  "crypto_memory_init w = (True, if crypto_ready w then w else w\<lparr>crypto_ready := True\<rparr>)"

definition crypto_memory_deinit :: "'w service \<Rightarrow> 'w service" where
  "crypto_memory_deinit w = (if \<not> crypto_ready w then w else w\<lparr>crypto_ready := False\<rparr>)"

subsection \<open>The audio output\<close>

definition output_pcm :: "'w service platform \<Rightarrow> nat option \<Rightarrow> i16 list \<Rightarrow> 'w service \<Rightarrow> 'w service" where
  "output_pcm pf dev pcm w =
     (case dev of
        None \<Rightarrow> w
      | Some d \<Rightarrow>
          if airplay_server_is_stopping w then w
          else
            let (n, w) = write_audio pf d pcm w in
            if n \<noteq> int (length pcm) then server_fail w else w)"

definition output_delay_frames :: "'w service platform \<Rightarrow> nat option \<Rightarrow> 'w service \<Rightarrow> int \<times> 'w service" where
  "output_delay_frames pf dev w = (case dev of Some d \<Rightarrow> audio_delay pf d w | None \<Rightarrow> (0, w))"

text \<open>The pipeline's callbacks, while the server has the device \<open>dev\<close>.\<close>

definition service_env :: "'w service audio_env \<Rightarrow> 'w service platform \<Rightarrow> nat option \<Rightarrow> 'w service audio_env" where
  "service_env env pf dev = env\<lparr>play := Some (output_pcm pf dev), output_delay := Some (output_delay_frames pf dev)\<rparr>"

subsection \<open>The audio thread\<close>

definition close_audio :: "'w service platform \<Rightarrow> audio_thread \<Rightarrow> 'w service \<Rightarrow> audio_thread \<times> 'w service" where
  "close_audio pf a w =
     (let a = a\<lparr>the_pipeline := audio_pipeline_stop (the_pipeline a)\<rparr> in
      (case device a of
         Some d \<Rightarrow> (a\<lparr>device := None\<rparr>, close_device pf d w)
       | None \<Rightarrow> (a, w)))"

definition update_audio_transport ::
  "'w service audio_env \<Rightarrow> rtsp_stream \<Rightarrow> audio_thread \<Rightarrow> 'w service \<Rightarrow> audio_thread \<times> 'w service" where
  "update_audio_transport env st a w =
     (if loop_transport_generation (loop_state a) = generation st then (a, w)
      else
        let pr = (if has_session st then timing_peer st else addr_zero);
            (p, w) = audio_pipeline_set_transport env (the_pipeline a) pr w in
        (a\<lparr>the_pipeline := p, loop_state := (loop_state a)\<lparr>loop_transport_generation := generation st\<rparr>\<rparr>, w))"

text \<open>What follows a start: the position of the stream, its volume, and where to resume.\<close>

definition adopt_stream :: "'w service audio_env \<Rightarrow> rtsp_stream \<Rightarrow> audio_thread \<Rightarrow> audio_thread" where
  "adopt_stream env st a =
     (let l = (loop_state a)\<lparr>loop_generation := generation st, loop_flush_generation := flush_generation st,
            loop_volume_db := volume_db st\<rparr>;
          (_, p) = audio_pipeline_set_volume env (the_pipeline a) (Some (volume_db st));
          p = (if rtsp_stream.has_timestamp_floor st then audio_pipeline_set_start p (rtsp_stream.timestamp_floor st) (rtsp_stream.floor_exclusive st)
               else p);
          p = (if has_buffered_flush_sequence st \<and> stream_type (session st) = 103
               then p\<lparr>buffered := buffered_audio_flush (buffered p) (buffered_flush_sequence st)\<rparr> else p) in
      a\<lparr>the_pipeline := p, loop_state := l\<rparr>)"

definition start_audio_session ::
  "'w service audio_env \<Rightarrow> 'w service platform \<Rightarrow> rtsp_stream \<Rightarrow> audio_thread \<Rightarrow> 'w service \<Rightarrow>
   bool \<times> audio_thread \<times> 'w service" where
  "start_audio_session env pf st a w =
     (if device a \<noteq> None \<and> loop_generation (loop_state a) = generation st \<and>
         loop_flush_generation (loop_state a) = flush_generation st
      then (True, a, w)
      else
        let (a, w) = close_audio pf a w;
            (good, p, w) = audio_pipeline_configure env (the_pipeline a) (session st) w;
            a = a\<lparr>the_pipeline := p\<rparr> in
        if \<not> good then (False, a, w)
        else
          (case open_audio pf (session_rate (session st)) (ucast (session_channels (session st))) 16 w of
             (None, w) \<Rightarrow> (False, a, w)
           | (Some d, w) \<Rightarrow>
               let (good, p) = audio_pipeline_start (the_pipeline a);
                   a = a\<lparr>device := Some d, the_pipeline := p\<rparr> in
               if \<not> good then (let (a, w) = close_audio pf a w in (False, a, w))
               else (True, adopt_stream env st a, w)))"

definition update_audio_volume ::
  "'w service audio_env \<Rightarrow> rtsp_stream \<Rightarrow> audio_thread \<Rightarrow> audio_thread" where
  "update_audio_volume env st a =
     (if loop_volume_db (loop_state a) = volume_db st then a
      else
        a\<lparr>loop_state := (loop_state a)\<lparr>loop_volume_db := volume_db st\<rparr>,
          the_pipeline := snd (audio_pipeline_set_volume env (the_pipeline a) (Some (volume_db st)))\<rparr>)"

text \<open>The session of the stream: closed, kept or started; false when it cannot be started.\<close>

definition follow_session ::
  "'w service audio_env \<Rightarrow> 'w service platform \<Rightarrow> rtsp_stream \<Rightarrow> audio_thread \<Rightarrow> 'w service \<Rightarrow>
   bool \<times> audio_thread \<times> 'w service" where
  "follow_session env pf st a w =
     (if \<not> recording st \<or> \<not> has_session st then
        if device a \<noteq> None then (let (a, w) = close_audio pf a w in (True, a, w)) else (True, a, w)
      else
        let (good, a, w) = start_audio_session env pf st a w in
        if \<not> good then (False, a, server_fail w) else (True, update_audio_volume env st a, w))"

definition follow_anchor :: "rtsp_stream \<Rightarrow> pipeline \<Rightarrow> pipeline" where
  "follow_anchor st p =
     (if stream_type (session st) \<noteq> 96
      then p\<lparr>ptp_anchor := anchor st, ptp := ptp_sync_set_clock (ptp p) (anchor_clock_id (anchor st))\<rparr>
      else p)"

text \<open>One iteration, on the copy \<open>st\<close> of the stream state; the result is whether the loop goes on.\<close>

definition audio_iteration ::
  "'w service audio_env \<Rightarrow> 'w service platform \<Rightarrow> rtsp_stream \<Rightarrow> audio_thread \<Rightarrow> 'w service \<Rightarrow>
   (bool \<times> audio_thread \<times> 'w service) option" where
  "audio_iteration env pf st a w =
     (let (a, w) = update_audio_transport env st a w;
          (good, a, w) = follow_session env pf st a w in
      if \<not> good then Some (False, a, w)
      else do {
        (good, p, w) \<leftarrow> audio_pipeline_poll (service_env env pf (device a)) (follow_anchor st (the_pipeline a)) 20 w;
        Some (True, a\<lparr>the_pipeline := p\<rparr>, if good then w else server_fail w) })"

text \<open>
  The thread, on the copies of the stream state that it reads; the result is whether it has ended when
  they are used up.
\<close>

fun airplay_audio_main ::
  "'w service audio_env \<Rightarrow> 'w service platform \<Rightarrow> rtsp_stream list \<Rightarrow> audio_thread \<Rightarrow> 'w service \<Rightarrow>
   (bool \<times> audio_thread \<times> 'w service) option" where
  "airplay_audio_main env pf [] a w = Some (False, a, w)"
| "airplay_audio_main env pf (st # sts) a w =
     (if airplay_server_is_stopping w then (let (a, w) = close_audio pf a w in Some (True, a, w))
      else do {
        (on, a, w) \<leftarrow> audio_iteration env pf st a w;
        if on then airplay_audio_main env pf sts a w
        else (let (a, w) = close_audio pf a w in Some (True, a, w)) })"

subsection \<open>Setting up and tearing down\<close>

text \<open>The part of the platform that the RTSP server uses.\<close>

abbreviation rtsp_env :: "'w audio_env \<Rightarrow> 'w env" where
  "rtsp_env env \<equiv> env.truncate env"

text \<open>An array is a string when it has a zero; \<open>isxdigit\<close> of the C locale.\<close>

definition valid_config :: "receiver_config \<Rightarrow> bool" where
  "valid_config c \<longleftrightarrow>
     0 \<in> set (config_ip c) \<and> 0 \<in> set (config_name c) \<and> hd (config_name c) \<noteq> 0 \<and> config_mac c ! 12 = 0 \<and>
     (case net_str_to_ipv4 (cut (config_ip c)) of Inl _ \<Rightarrow> False | Inr _ \<Rightarrow> True) \<and>
     list_all hex_char (take 12 (config_mac c))"

definition raop_txt_entries :: "buf \<Rightarrow> buf list" where
  "raop_txt_entries mac =
     [lit ''deviceid='' @ colons mac, lit ''txtvers=1'', lit ''ch=2'', lit ''cn=0,1,2'', lit ''da=true'',
      lit ''et=0,1'', lit ''md=0,1,2'', lit ''pw=false'', lit ''sv=false'', lit ''ft=0x405C4A00,0x18340'',
      lit ''vv=2'', lit ''sr=44100'', lit ''ss=16'', lit ''tp=UDP'', lit ''vn=65537'', lit ''vs=130.14'',
      lit ''am=PortableSpeaker'', lit ''sf=0x4'', lit ''ek=1'']"

text \<open>The mutexes themselves are not represented; \<open>lock_init\<close> only says whether one can be had.\<close>

definition airplay_server_deinit ::
  "'w service audio_env \<Rightarrow> 'w service platform \<Rightarrow> 'w service group_socket \<Rightarrow> server \<Rightarrow> 'w service \<Rightarrow>
   (server \<times> 'w service) option" where
  "airplay_server_deinit env pf net v w =
     (if \<not> initialized v then Some (v, w)
      else
        let a = audio_part v;
            w = (case device a of Some d \<Rightarrow> close_device pf d w | None \<Rightarrow> w);
            a = a\<lparr>device := None\<rparr> in do {
          (d, w) \<leftarrow>
            (if discovery_initialized v then airplay_discovery_deinit net (the_discovery v) w
             else Some (the_discovery v, w));
          let (p, w) = (if audio_initialized v then audio_pipeline_close env (the_pipeline a) w else (the_pipeline a, w));
          let (s, w) = (if rtsp_initialized v then rtsp_server_close (rtsp_env env) (rtsp v) w else (rtsp v, w));
          let w = crypto_memory_deinit w;
          let v = v\<lparr>the_discovery := d, audio_part := a\<lparr>the_pipeline := p\<rparr>, rtsp := s, initialized := False,
                discovery_initialized := False, audio_initialized := False, rtsp_initialized := False\<rparr>;
          Some (v, w) })"

text \<open>The parts in the order of \<open>airplay_server_init\<close>; the result is whether all could be set up.\<close>

definition open_parts ::
  "'w service audio_env \<Rightarrow> 'w service platform \<Rightarrow> 'w service group_socket \<Rightarrow> server \<Rightarrow> 'w service \<Rightarrow>
   (bool \<times> server \<times> 'w service) option" where
  "open_parts env pf net v w =
     (let c = server_config v; (lk, w) = lock_init pf w;
          (good, s, w) = rtsp_server_create (rtsp_env env) lk 5000 w; v = v\<lparr>rtsp := s\<rparr> in
      if \<not> good then Some (False, v, w)
      else
        let v = v\<lparr>rtsp_initialized := True\<rparr>;
            (good, s) = rtsp_set_identity s (cut (config_ip c)) (cut (config_mac c)) in
        if \<not> good then Some (False, v, w)
        else
          let v = v\<lparr>rtsp := s\<lparr>device_name := cut (config_name c)\<rparr>\<rparr>;
              (good, p, w) = audio_pipeline_create (service_env env pf None)
                \<lparr>audio_port = 6000, control_port = 6001, timing_port = 6002\<rparr> (map (\<lambda>x. char_of (unat x)) (cut (config_ip c))) w;
              v = v\<lparr>audio_part := (audio_part v)\<lparr>the_pipeline := p\<rparr>\<rparr> in
          if \<not> good then Some (False, v, w)
          else do {
            let v = v\<lparr>audio_initialized := True\<rparr>;
            (good, d, w) \<leftarrow> airplay_discovery_init net (cut (config_name c)) (cut (config_mac c)) (cut (config_ip c))
              (raop_txt_entries (cut (config_mac c))) w;
            let v = v\<lparr>the_discovery := d\<rparr>;
            if \<not> good then Some (False, v, w) else Some (True, v\<lparr>discovery_initialized := True\<rparr>, w) })"

text \<open>The storage is cleared first, with the control block that is part of it.\<close>

definition airplay_server_init ::
  "'w service audio_env \<Rightarrow> 'w service platform \<Rightarrow> 'w service group_socket \<Rightarrow> receiver_config \<Rightarrow> server \<Rightarrow>
   'w service \<Rightarrow> (bool \<times> server \<times> 'w service) option" where
  "airplay_server_init env pf net c v w =
     (if \<not> valid_config c then Some (False, v, w)
      else
        let v = server_zero; w = w\<lparr>stopping := False, result := 0\<rparr>;
            (good, w) = crypto_memory_init w in
        if \<not> good then Some (False, v, w)
        else
          let (lk, w) = lock_init pf w in
          if \<not> lk then Some (False, v, crypto_memory_deinit w)
          else do {
            let v = v\<lparr>initialized := True, server_config := c\<rparr>;
            (good, v, w) \<leftarrow> open_parts env pf net v w;
            if good then Some (True, v, w)
            else do { (v, w) \<leftarrow> airplay_server_deinit env pf net v w; Some (False, v, w) } })"

subsection \<open>The other threads\<close>

text \<open>One iteration of each of their loops.\<close>

definition mdns_iteration :: "'w service group_socket \<Rightarrow> discovery \<Rightarrow> 'w service \<Rightarrow> 'w service option" where
  "mdns_iteration net d w = do {
     (good, w) \<leftarrow> airplay_discovery_poll net d 100 w;
     Some (if good then w else server_fail w) }"

definition rtsp_iteration ::
  "'w service env \<Rightarrow> rtsp_instance \<Rightarrow> 'w service \<Rightarrow> (rtsp_instance \<times> 'w service) option" where
  "rtsp_iteration env s w = do {
     (good, s, w) \<leftarrow> rtsp_server_poll env s 100 w;
     Some (s, if good then w else server_fail w) }"

text \<open>At most \<open>n\<close> iterations; the result is whether the thread has ended.\<close>

fun airplay_mdns_main ::
  "nat \<Rightarrow> 'w service group_socket \<Rightarrow> discovery \<Rightarrow> 'w service \<Rightarrow> (bool \<times> 'w service) option" where
  "airplay_mdns_main 0 net d w = Some (airplay_server_is_stopping w, w)"
| "airplay_mdns_main (Suc n) net d w =
     (if airplay_server_is_stopping w then Some (True, w)
      else do { w \<leftarrow> mdns_iteration net d w; airplay_mdns_main n net d w })"

fun airplay_rtsp_main ::
  "nat \<Rightarrow> 'w service env \<Rightarrow> rtsp_instance \<Rightarrow> 'w service \<Rightarrow> (bool \<times> rtsp_instance \<times> 'w service) option" where
  "airplay_rtsp_main 0 env s w = Some (airplay_server_is_stopping w, s, w)"
| "airplay_rtsp_main (Suc n) env s w =
     (if airplay_server_is_stopping w then Some (True, s, w)
      else do { (s, w) \<leftarrow> rtsp_iteration env s w; airplay_rtsp_main n env s w })"

end
