(* ===== verification/Receiver.thy ===== *)
theory Receiver
  imports Server Rtsp_Properties Audio_Properties
begin

section \<open>The receiver as a whole\<close>

text \<open>
  What the audio thread makes of the stream state, and that the three threads together stay inside their
  invariants, in whatever order their iterations come.
\<close>

subsection \<open>Following the stream\<close>

lemma close_audio_device [simp]: "device (fst (close_audio pf a w)) = None"
  by (simp add: close_audio_def Let_def split: option.split)

lemma close_audio_loop [simp]: "loop_state (fst (close_audio pf a w)) = loop_state a"
  by (simp add: close_audio_def Let_def split: option.split)

lemma close_audio_closes: "close_audio pf a w = (a', w') \<Longrightarrow> device a' = None \<and> loop_state a' = loop_state a"
  using close_audio_device [of pf a w] close_audio_loop [of pf a w] by simp

lemma adopt_stream_fields [simp]:
  "device (adopt_stream env st a) = device a" "loop_generation (loop_state (adopt_stream env st a)) = generation st"
  "loop_flush_generation (loop_state (adopt_stream env st a)) = flush_generation st"
  "loop_volume_db (loop_state (adopt_stream env st a)) = volume_db st"
  "loop_transport_generation (loop_state (adopt_stream env st a)) = loop_transport_generation (loop_state a)"
  by (simp_all add: adopt_stream_def Let_def split_beta)

lemma update_audio_volume_fields [simp]:
  "device (update_audio_volume env st a) = device a"
  "loop_generation (loop_state (update_audio_volume env st a)) = loop_generation (loop_state a)"
  "loop_flush_generation (loop_state (update_audio_volume env st a)) = loop_flush_generation (loop_state a)"
  "loop_volume_db (loop_state (update_audio_volume env st a)) = volume_db st"
  "loop_transport_generation (loop_state (update_audio_volume env st a)) = loop_transport_generation (loop_state a)"
  by (simp_all add: update_audio_volume_def)

text \<open>The loop has caught up with the stream.\<close>

definition caught_up :: "rtsp_stream \<Rightarrow> audio_loop \<Rightarrow> bool" where
  "caught_up st l \<longleftrightarrow> loop_generation l = generation st \<and> loop_flush_generation l = flush_generation st"

lemma start_audio_session_outcome:
  assumes "start_audio_session env pf st a w = (good, a', w')"
  shows "(good \<longrightarrow> device a' \<noteq> None \<and> caught_up st (loop_state a')) \<and> (\<not> good \<longrightarrow> device a' = None) \<and>
    loop_transport_generation (loop_state a') = loop_transport_generation (loop_state a)"
proof -
  obtain a1 w1 where c: "close_audio pf a w = (a1, w1)" by fastforce
  have a1: "device a1 = None" "loop_state a1 = loop_state a"
    using close_audio_device [of pf a w] close_audio_loop [of pf a w] c by simp_all
  show ?thesis
    using assms a1
    by (auto simp: start_audio_session_def c Let_def caught_up_def split_beta dest: close_audio_closes
        split: if_splits option.splits prod.splits)
qed

lemma follow_session_outcome:
  assumes "follow_session env pf st a w = (good, a', w')"
  shows "(device a' \<noteq> None \<longleftrightarrow> good \<and> recording st \<and> has_session st) \<and>
    (device a' \<noteq> None \<longrightarrow> caught_up st (loop_state a') \<and> loop_volume_db (loop_state a') = volume_db st) \<and>
    (\<not> good \<longrightarrow> stopping w' \<and> result w' = - 1) \<and>
    loop_transport_generation (loop_state a') = loop_transport_generation (loop_state a)"
proof (cases "recording st \<and> has_session st")
  case True
  obtain g a1 w1 where s: "start_audio_session env pf st a w = (g, a1, w1)" by (metis surj_pair)
  show ?thesis
    using assms True start_audio_session_outcome [OF s]
    by (auto simp: follow_session_def s server_fail_def caught_up_def split: if_splits)
next
  case False
  obtain a1 w1 where c: "close_audio pf a w = (a1, w1)" by fastforce
  show ?thesis
    using assms False close_audio_device [of pf a w] close_audio_loop [of pf a w] c
    by (auto simp: follow_session_def split: if_splits)
qed

lemma update_audio_transport_fields:
  assumes "update_audio_transport env st a w = (a', w')"
  shows "device a' = device a \<and> loop_transport_generation (loop_state a') = generation st \<and>
    loop_generation (loop_state a') = loop_generation (loop_state a) \<and>
    loop_flush_generation (loop_state a') = loop_flush_generation (loop_state a)"
  using assms by (auto simp: update_audio_transport_def Let_def split_beta split: if_splits)

lemma iteration_outcome:
  assumes "audio_iteration env pf st a w = Some (on, a', w')"
  shows "(device a' \<noteq> None \<longleftrightarrow> on \<and> recording st \<and> has_session st) \<and>
    (device a' \<noteq> None \<longrightarrow> caught_up st (loop_state a') \<and> loop_volume_db (loop_state a') = volume_db st) \<and>
    (\<not> on \<longrightarrow> stopping w' \<and> result w' = - 1) \<and> loop_transport_generation (loop_state a') = generation st"
proof -
  obtain a1 w1 where u: "update_audio_transport env st a w = (a1, w1)" by fastforce
  obtain g a2 w2 where f: "follow_session env pf st a1 w1 = (g, a2, w2)" by (metis surj_pair)
  note fo = follow_session_outcome [OF f]
  have t: "loop_transport_generation (loop_state a1) = generation st"
    using update_audio_transport_fields [OF u] by simp
  show ?thesis
  proof (cases g)
    case True
    then obtain p good w3 where "a' = a2\<lparr>the_pipeline := p\<rparr>" "on" "w' = (if good then w3 else server_fail w3)"
      using assms u f by (auto simp: audio_iteration_def bind_eq_Some_conv)
    then show ?thesis using fo t True by auto
  next
    case False
    then show ?thesis using assms u f fo t by (auto simp: audio_iteration_def)
  qed
qed

subsection \<open>The audio thread is safe\<close>

definition delay_ok :: "'w platform \<Rightarrow> bool" where
  "delay_ok pf \<longleftrightarrow> (\<forall>d w. \<bar>fst (audio_delay pf d w)\<bar> < 2 ^ 31)"

lemma service_env_media: "media_ok env \<Longrightarrow> delay_ok pf \<Longrightarrow> media_ok (service_env env pf dev)"
  by (auto simp: media_ok_def service_env_def delay_ok_def output_delay_frames_def split: option.split)

text \<open>An AirPlay 1 stream: the session of one that plays is safe, and there is no PTP clock.\<close>

definition raop_stream :: "rtsp_stream \<Rightarrow> bool" where
  "raop_stream st \<longleftrightarrow>
     (recording st \<and> has_session st \<longrightarrow> session_safe (session st)) \<and> anchor_clock_id (anchor st) = 0"

lemma raop_inv_stop: "raop_inv p \<Longrightarrow> raop_inv (audio_pipeline_stop p)"
  unfolding audio_pipeline_stop_def by (rule pipeline_flush_ok) (simp add: raop_inv_def)

lemma raop_inv_fields:
  "raop_inv p \<Longrightarrow> raop_inv (snd (audio_pipeline_set_volume env p v))"
  "raop_inv p \<Longrightarrow> raop_inv (audio_pipeline_set_start p ts ex)"
  "raop_inv p \<Longrightarrow> raop_inv (snd (audio_pipeline_start p))"
  "raop_inv p \<Longrightarrow> raop_inv (p\<lparr>buffered := b\<rparr>)"
  by (auto simp: audio_pipeline_set_volume_def audio_pipeline_set_start_def audio_pipeline_start_def Let_def raop_inv_def
      playout_inv_set_floor split: option.splits)

lemma raop_inv_transport: "raop_inv p \<Longrightarrow> raop_inv (fst (audio_pipeline_set_transport env p pr w))"
  by (auto simp: audio_pipeline_set_transport_def raop_inv_def ntp_init_ok split: prod.splits)

lemma close_audio_safe: "raop_inv (the_pipeline a) \<Longrightarrow> raop_inv (the_pipeline (fst (close_audio pf a w)))"
  by (simp add: close_audio_def Let_def raop_inv_stop split: option.split)

lemma closed_safe: "close_audio pf a w = (a', w') \<Longrightarrow> raop_inv (the_pipeline a) \<Longrightarrow> raop_inv (the_pipeline a')"
  using close_audio_safe [of a pf w] by simp

lemma adopt_stream_safe: "raop_inv (the_pipeline a) \<Longrightarrow> raop_inv (the_pipeline (adopt_stream env st a))"
  by (simp add: adopt_stream_def Let_def split_beta raop_inv_fields)

lemma start_audio_session_safe:
  assumes p: "raop_inv (the_pipeline a)" and s: "session_safe (session st)"
    and r: "start_audio_session env pf st a w = (good, a', w')"
  shows "raop_inv (the_pipeline a')"
proof -
  obtain a1 w1 where c: "close_audio pf a w = (a1, w1)" by fastforce
  have a1: "raop_inv (the_pipeline a1)" using close_audio_safe [OF p, of pf w] c by simp
  obtain g p2 w2 where f: "audio_pipeline_configure env (the_pipeline a1) (session st) w1 = (g, p2, w2)" by (metis surj_pair)
  have p2: "raop_inv p2" by (rule configure_ok [OF a1 s f])
  obtain dv w3 where o: "open_audio pf (session_rate (session st)) (ucast (session_channels (session st))) 16 w2 = (dv, w3)"
    by fastforce
  obtain g3 p3 where t: "audio_pipeline_start p2 = (g3, p3)" by fastforce
  have p3: "raop_inv p3" using raop_inv_fields(3) [OF p2] t by simp
  show ?thesis
    using r p p2 p3 adopt_stream_safe [of "a1\<lparr>device := dv, the_pipeline := p3\<rparr>" env st]
    by (auto simp: start_audio_session_def c f o t Let_def split_beta dest!: closed_safe split: if_splits option.splits)
qed

lemma follow_session_safe:
  assumes p: "raop_inv (the_pipeline a)" and st: "raop_stream st" and r: "follow_session env pf st a w = (good, a', w')"
  shows "raop_inv (the_pipeline a')"
proof (cases "recording st \<and> has_session st")
  case True
  obtain g a1 w1 where s: "start_audio_session env pf st a w = (g, a1, w1)" by (metis surj_pair)
  have "raop_inv (the_pipeline a1)"
    using start_audio_session_safe [OF p _ s] st True by (simp add: raop_stream_def)
  then show ?thesis
    using r True raop_inv_fields(1) [of "the_pipeline a1" env "Some (volume_db st)"]
    by (auto simp: follow_session_def s update_audio_volume_def split: if_splits)
next
  case False
  then show ?thesis
    using r p close_audio_safe [OF p, of pf w]
    by (auto simp: follow_session_def split_beta split: if_splits)
qed

lemma follow_anchor_safe: "raop_inv p \<Longrightarrow> raop_stream st \<Longrightarrow> raop_inv (follow_anchor st p)"
  by (simp add: follow_anchor_def raop_stream_def raop_inv_def ptp_sync_set_clock_def)

lemma iteration_safe:
  assumes m: "media_ok env" "delay_ok pf" and p: "raop_inv (the_pipeline a)" and st: "raop_stream st"
  shows "\<exists>on a' w'. audio_iteration env pf st a w = Some (on, a', w') \<and> raop_inv (the_pipeline a')"
proof -
  obtain a1 w1 where u: "update_audio_transport env st a w = (a1, w1)" by fastforce
  have a1: "raop_inv (the_pipeline a1)"
    using u p raop_inv_transport [OF p] by (auto simp: update_audio_transport_def Let_def split_beta split: if_splits)
  obtain g a2 w2 where f: "follow_session env pf st a1 w1 = (g, a2, w2)" by (metis surj_pair)
  note a2 = follow_session_safe [OF a1 st f]
  obtain b p3 w3 where "audio_pipeline_poll (service_env env pf (device a2)) (follow_anchor st (the_pipeline a2)) 20 w2 = Some (b, p3, w3)"
      "raop_inv p3"
    using pipeline_poll_ok [OF service_env_media [OF m] follow_anchor_safe [OF a2 st], of "device a2" 20 w2] by auto
  then show ?thesis using u f a2 by (auto simp: audio_iteration_def)
qed

lemma audio_main_safe:
  assumes m: "media_ok env" "delay_ok pf"
  shows "raop_inv (the_pipeline a) \<Longrightarrow> \<forall>st\<in>set sts. raop_stream st \<Longrightarrow>
    \<exists>done a' w'. airplay_audio_main env pf sts a w = Some (done, a', w') \<and> raop_inv (the_pipeline a') \<and>
      (done \<longrightarrow> device a' = None)"
proof (induction sts arbitrary: a w)
  case (Cons st sts)
  obtain on a1 w1 where i: "audio_iteration env pf st a w = Some (on, a1, w1)" "raop_inv (the_pipeline a1)"
    using iteration_safe [OF m Cons.prems(1), of st w] Cons.prems(2) by auto
  have c: "\<exists>a' w'. close_audio pf b u = (a', w') \<and> raop_inv (the_pipeline a') \<and> device a' = None"
    if "raop_inv (the_pipeline b)" for b u
    using close_audio_safe [OF that, of pf u] close_audio_device [of pf b u] by (cases "close_audio pf b u") auto
  show ?case
    using Cons.IH [OF i(2), of w1] Cons.prems c [OF Cons.prems(1), of w] c [OF i(2), of w1] i
    by (auto simp: split_beta)
qed auto

subsection \<open>Setting up and tearing down\<close>

text \<open>A part that is not marked as initialized holds nothing.\<close>

definition parts_ok :: "server \<Rightarrow> bool" where
  "parts_ok v \<longleftrightarrow>
     (\<not> rtsp_initialized v \<longrightarrow> listener (rtsp v) = closed_socket) \<and>
     (\<not> audio_initialized v \<longrightarrow> open_sockets (receiver (the_pipeline (audio_part v))) = []) \<and>
     (\<not> discovery_initialized v \<longrightarrow> \<not> discovery_ready (the_discovery v))"

definition released :: "server \<Rightarrow> bool" where
  "released v \<longleftrightarrow> \<not> initialized v \<and> listener (rtsp v) = closed_socket \<and> device (audio_part v) = None \<and>
     open_sockets (receiver (the_pipeline (audio_part v))) = [] \<and> \<not> discovery_ready (the_discovery v)"

definition running :: "server \<Rightarrow> bool" where
  "running v \<longleftrightarrow> initialized v \<and> rtsp_initialized v \<and> audio_initialized v \<and> discovery_initialized v \<and>
     server_ok (rtsp v) \<and> raop_inv (the_pipeline (audio_part v)) \<and> discovery_ready (the_discovery v)"

lemma released_zero: "released server_zero" "parts_ok server_zero"
  by (simp_all add: released_def parts_ok_def server_zero_def instance_zero_def pipeline_zero_def discovery_zero_def)

lemma discovery_init_total:
  "\<exists>b d w'. airplay_discovery_init net nm mac addr txt w = Some (b, d, w') \<and> discovery_ready d = b"
  by (auto simp: airplay_discovery_init_def mdns_announce_def send_response_message Let_def split_beta discovery_zero_def)

lemma discovery_deinit_total:
  "\<exists>d' w'. airplay_discovery_deinit net d w = Some (d', w') \<and> \<not> discovery_ready d'"
  by (auto simp: airplay_discovery_deinit_def mdns_goodbye_def send_response_message)

lemma create_failed: "audio_pipeline_create env conf lip w = (False, p, w') \<Longrightarrow> open_sockets (receiver p) = []"
  by (auto simp: audio_pipeline_create_def Let_def pipeline_zero_def rtp_receiver_create_def rtp_receiver_close_def
      split: if_splits prod.splits option.splits bool.splits)

lemma pipeline_close_sockets: "open_sockets (receiver (fst (audio_pipeline_close env p w))) = []"
  by (simp add: audio_pipeline_close_def Let_def rtp_receiver_close_def split: prod.split)

lemma server_close_listener: "listener (fst (rtsp_server_close env s w)) = closed_socket"
  by (simp add: rtsp_server_close_def Let_def split: prod.split)

lemma create_failed_listener: "rtsp_server_create env lk p w = (False, s, w') \<Longrightarrow> listener s = closed_socket"
  by (auto simp: rtsp_server_create_def instance_zero_def Let_def split: if_splits option.splits prod.splits)

lemma crypto_released [simp]: "\<not> crypto_ready (crypto_memory_deinit w)"
  by (simp add: crypto_memory_deinit_def)

lemma deinit_outcome:
  assumes "initialized v" and "parts_ok v"
  shows "\<exists>v' w'. airplay_server_deinit env pf net v w = Some (v', w') \<and> released v' \<and> \<not> crypto_ready w'"
proof -
  let ?w = "case device (audio_part v) of Some d \<Rightarrow> close_device pf d w | None \<Rightarrow> w"
  have "\<exists>d w1. (if discovery_initialized v then airplay_discovery_deinit net (the_discovery v) ?w
      else Some (the_discovery v, ?w)) = Some (d, w1) \<and> \<not> discovery_ready d"
    using discovery_deinit_total [of net "the_discovery v" ?w] assms(2) by (simp add: parts_ok_def)
  then obtain d w1 where d: "(if discovery_initialized v then airplay_discovery_deinit net (the_discovery v) ?w
      else Some (the_discovery v, ?w)) = Some (d, w1)" "\<not> discovery_ready d"
    by blast
  let ?p = "if audio_initialized v then audio_pipeline_close env (the_pipeline (audio_part v)) w1
    else (the_pipeline (audio_part v), w1)"
  obtain p w2 where p: "?p = (p, w2)" "open_sockets (receiver p) = []"
    using pipeline_close_sockets [of env "the_pipeline (audio_part v)" w1] assms(2)
    by (cases ?p) (auto simp: parts_ok_def split: if_splits)
  let ?s = "if rtsp_initialized v then rtsp_server_close (rtsp_env env) (rtsp v) w2 else (rtsp v, w2)"
  obtain s w3 where s: "?s = (s, w3)" "listener s = closed_socket"
    using server_close_listener [of "rtsp_env env" "rtsp v" w2] assms(2)
    by (cases ?s) (auto simp: parts_ok_def split: if_splits)
  show ?thesis
    using assms(1) d p s
    by (cases "audio_initialized v"; cases "rtsp_initialized v") (simp_all add: airplay_server_deinit_def released_def Let_def)
qed

lemma open_parts_outcome:
  assumes i: "initialized v" and z: "rtsp_initialized v = False" "audio_initialized v = False" "discovery_initialized v = False"
    "open_sockets (receiver (the_pipeline (audio_part v))) = []" "\<not> discovery_ready (the_discovery v)"
  shows "case open_parts env pf net v w of
      None \<Rightarrow> False | Some (b, v', w') \<Rightarrow> initialized v' \<and> parts_ok v' \<and> (b \<longrightarrow> running v')"
proof -
  let ?c = "server_config v"
  obtain lk w0 where lk: "lock_init pf w = (lk, w0)" by fastforce
  obtain g1 s1 w1 where 1: "rtsp_server_create (rtsp_env env) lk 5000 w0 = (g1, s1, w1)" by (metis surj_pair)
  obtain g2 s2 where 2: "rtsp_set_identity s1 (cut (config_ip ?c)) (cut (config_mac ?c)) = (g2, s2)" by fastforce
  obtain g3 p3 w3 where 3: "audio_pipeline_create (service_env env pf None)
      \<lparr>audio_port = 6000, control_port = 6001, timing_port = 6002\<rparr> (map (\<lambda>x. char_of (unat x)) (cut (config_ip ?c))) w1
      = (g3, p3, w3)" by (metis surj_pair)
  obtain g4 d4 w4 where 4: "airplay_discovery_init net (cut (config_name ?c)) (cut (config_mac ?c)) (cut (config_ip ?c))
      (raop_txt_entries (cut (config_mac ?c))) w3 = Some (g4, d4, w4)" "discovery_ready d4 = g4"
    using discovery_init_total by metis
  have s1: "server_ok s1" by (rule created_ok [OF 1])
  have s2: "server_ok (s2\<lparr>device_name := n\<rparr>)" for n
    using s1 2 by (auto simp: rtsp_set_identity_def server_ok_def server_base_def split: if_splits)
  note p3 = create_ok [OF 3]
  show ?thesis
  proof (cases g1)
    case False
    have "listener s1 = closed_socket" using 1 False by (intro create_failed_listener) simp
    then show ?thesis using i z lk 1 False by (simp add: open_parts_def parts_ok_def)
  next
    case g1: True
    show ?thesis
    proof (cases g2)
      case False
      then show ?thesis using i z lk 1 2 g1 by (simp add: open_parts_def parts_ok_def)
    next
      case g2: True
      show ?thesis
      proof (cases g3)
        case False
        have "open_sockets (receiver p3) = []" using 3 False by (intro create_failed) simp
        then show ?thesis using i z lk 1 2 3 g1 g2 False by (simp add: open_parts_def parts_ok_def)
      next
        case True
        then show ?thesis
          using i z lk 1 2 3 4 g1 g2 s2 p3
          by (cases g4) (simp_all add: open_parts_def parts_ok_def running_def)
      qed
    qed
  qed
qed

lemma init_outcome:
  "\<exists>b v' w'. airplay_server_init env pf net c v w = Some (b, v', w') \<and> (b \<longrightarrow> running v') \<and>
    (\<not> b \<longrightarrow> valid_config c \<longrightarrow> released v' \<and> \<not> crypto_ready w') \<and> (\<not> valid_config c \<longrightarrow> v' = v \<and> w' = w)"
proof (cases "valid_config c")
  case True
  let ?w = "w\<lparr>stopping := False, result := 0\<rparr>"
  obtain lk w1 where lk: "lock_init pf (snd (crypto_memory_init ?w)) = (lk, w1)" by fastforce
  let ?v = "server_zero\<lparr>initialized := True, server_config := c\<rparr>"
  obtain b v2 w2 where o: "open_parts env pf net ?v w1 = Some (b, v2, w2)" "initialized v2" "parts_ok v2" "b \<longrightarrow> running v2"
    using open_parts_outcome [of ?v env pf net w1]
    by (auto simp: server_zero_def pipeline_zero_def discovery_zero_def split: option.splits)
  obtain v3 w3 where "airplay_server_deinit env pf net v2 w2 = Some (v3, w3)" "released v3" "\<not> crypto_ready w3"
    using deinit_outcome [OF o(2,3), of env pf net w2] by blast
  then show ?thesis
    using True lk o released_zero(1)
    by (intro exI [of _ "lk \<and> b"] exI [of _ "if lk then if b then v2 else v3 else server_zero"]
        exI [of _ "if lk then if b then w2 else w3 else crypto_memory_deinit w1"])
      (simp add: airplay_server_init_def crypto_memory_init_def Let_def)
qed (rule exI [of _ False], simp add: airplay_server_init_def)

subsection \<open>The threads together\<close>

text \<open>
  The states of a receiver that has come up: each thread may do its next iteration, on any state of the
  world.  The audio thread reads the stream state that the RTSP server has published last; only AirPlay 1
  streams are considered.  The discovery thread changes no state of the receiver.
\<close>

inductive receiver_run ::
  "'w service audio_env \<Rightarrow> 'w service platform \<Rightarrow> 'w service group_socket \<Rightarrow> server \<Rightarrow> bool" for env pf net where
  up: "airplay_server_init env pf net c v0 w = Some (True, v, w') \<Longrightarrow> receiver_run env pf net v"
| control: "receiver_run env pf net v \<Longrightarrow> rtsp_iteration (rtsp_env env) (rtsp v) w = Some (s, w') \<Longrightarrow>
    receiver_run env pf net (v\<lparr>rtsp := s\<rparr>)"
| audio: "receiver_run env pf net v \<Longrightarrow> raop_stream (rtsp_get_stream_state (rtsp v)) \<Longrightarrow>
    audio_iteration env pf (rtsp_get_stream_state (rtsp v)) (audio_part v) w = Some (on, a, w') \<Longrightarrow>
    receiver_run env pf net (v\<lparr>audio_part := a\<rparr>)"
| discovery: "receiver_run env pf net v \<Longrightarrow> mdns_iteration net (the_discovery v) w = Some w' \<Longrightarrow>
    receiver_run env pf net v"

lemma rtsp_iteration_safe:
  assumes "env_ok env" and "server_ok s"
  shows "\<exists>s' w'. rtsp_iteration env s w = Some (s', w') \<and> server_ok s'"
  using poll_ok [OF assms, of 100 w] by (auto simp: rtsp_iteration_def)

lemma mdns_iteration_total: "\<exists>w'. mdns_iteration net d w = Some w'"
  using discovery_poll_total [of net d 100 w] by (auto simp: mdns_iteration_def)

lemma receiver_run_running:
  assumes e: "env_ok (rtsp_env env)" "media_ok env" "delay_ok pf" and r: "receiver_run env pf net v"
  shows "running v"
  using r
proof induction
  case (up c v0 w v w')
  then show ?case using init_outcome [of env pf net c v0 w] by auto
next
  case (control v w s w')
  then have "server_ok s" using rtsp_iteration_safe [OF e(1), of "rtsp v" w] by (auto simp: running_def)
  then show ?case using control by (simp add: running_def)
next
  case (audio v w on a w')
  then have "raop_inv (the_pipeline a)"
    using iteration_safe [OF e(2,3) _ audio.hyps(2), of "audio_part v" w] by (auto simp: running_def)
  then show ?case using audio by (simp add: running_def)
qed

lemma receiver_run_progress:
  assumes e: "env_ok (rtsp_env env)" "media_ok env" "delay_ok pf" and v: "running v"
  shows "(\<exists>s w'. rtsp_iteration (rtsp_env env) (rtsp v) w = Some (s, w')) \<and> (\<exists>w'. mdns_iteration net (the_discovery v) w = Some w') \<and>
    (raop_stream (rtsp_get_stream_state (rtsp v)) \<longrightarrow>
      (\<exists>on a w'. audio_iteration env pf (rtsp_get_stream_state (rtsp v)) (audio_part v) w = Some (on, a, w')))"
  using rtsp_iteration_safe [OF e(1), of "rtsp v" w] mdns_iteration_total [of net "the_discovery v" w]
    iteration_safe [OF e(2,3), of "audio_part v" "rtsp_get_stream_state (rtsp v)" w] v
  by (auto simp: running_def)

end
