(* ===== verification/Receiver_Properties.thy ===== *)
theory Receiver_Properties
  imports Receiver
begin

section \<open>Properties of the receiver\<close>

text \<open>
  What the lemmas of \<open>Receiver\<close> show of the service, and a session that the RTSP server accepts and the
  audio thread cannot start, which ends the receiver.
\<close>

subsection \<open>A session that stops the receiver\<close>

definition wide_announce :: buf where
  "wide_announce = lit ''a=rtpmap:96 AppleLossless'' @ crlf_text @ lit ''a=fmtp:96 352 0 24 40 10 14 2 255 0 0 44100''"

lemma wide_announce_parsed:
  obtains x where "sdp_parse lib wide_announce 4096 = Some (Inr x)" "codec x = CODEC_ALAC" "bits_per_sample x = 24"
proof -
  have "case sdp_parse lib wide_announce 4096 of
      Some (Inr x) \<Rightarrow> codec x = CODEC_ALAC \<and> bits_per_sample x = 24 | _ \<Rightarrow> False"
    by code_simp
  then show ?thesis using that by (cases "sdp_parse lib wide_announce 4096" rule: ret_cases) auto
qed

lemma unsupported_session_fails:
  assumes st: "recording st" "has_session st" "\<not> session_supported (session st)"
    and a: "device a \<noteq> None \<longrightarrow> \<not> caught_up st (loop_state a)"
  shows "\<exists>a' w'. audio_iteration env pf st a w = Some (False, a', w') \<and> device a' = None \<and> stopping w' \<and> result w' = - 1"
proof -
  obtain a1 w1 where u: "update_audio_transport env st a w = (a1, w1)" by fastforce
  have a1: "device a1 \<noteq> None \<longrightarrow> \<not> caught_up st (loop_state a1)"
    using a update_audio_transport_fields [OF u] by (simp add: caught_up_def)
  obtain a2 w2 where c: "close_audio pf a1 w1 = (a2, w2)" by fastforce
  have "start_audio_session env pf st a1 w1 = (False, a2, w2)"
    using a1 st c by (auto simp: start_audio_session_def caught_up_def audio_pipeline_configure_def)
  then show ?thesis
    using u st close_audio_closes [OF c] by (simp add: audio_iteration_def follow_session_def server_fail_def)
qed

lemma reply_stream: "reply env s i r status t h b w = (g, s', w') \<Longrightarrow> rtsp_instance.stream s' = rtsp_instance.stream s \<and> stream_owner s' = stream_owner s"
  by (auto simp: reply_def Let_def split: prod.splits)

lemma wide_session_recorded:
  assumes "airplay_rtsp_announce env s i r w = Some (b, s1, w1)" and "req_body r = wide_announce"
    and "airplay_rtsp_record env s1 i r' w2 = (b', s2, w3)" and "get_header_value r' ''RTP-Info'' = None"
  shows "recording (rtsp_instance.stream s2) \<and> has_session (rtsp_instance.stream s2) \<and> \<not> session_supported (session (rtsp_instance.stream s2)) \<and>
    generation (rtsp_instance.stream s2) = generation (rtsp_instance.stream s) + 1"
proof -
  obtain x where x: "sdp_parse (libc env) wide_announce 4096 = Some (Inr x)" "codec x = CODEC_ALAC" "bits_per_sample x = 24"
    by (rule wide_announce_parsed)
  have "wide_announce \<noteq> []" by (simp add: wide_announce_def)
  then have "rtsp_instance.stream s1 = rtsp_instance.stream (announce_stream s i x) \<and> stream_owner s1 = Some i"
    using assms(1,2) x by (auto simp: airplay_rtsp_announce_def announce_stream_def dest: reply_stream)
  then have s1: "rtsp_instance.stream s1 = rtsp_instance.stream (announce_stream s i x)" "owns s1 i" by simp_all
  have "rtsp_instance.stream s2 = rtsp_instance.stream (record_stream s1 No_Parameter)"
    using assms(3,4) s1
    by (auto simp: airplay_rtsp_record_def parameter_u32_def announce_stream_def dest: reply_stream)
  then show ?thesis
    using s1 x by (simp add: record_stream_def announce_stream_def session_supported_def)
qed

subsection \<open>A small environment\<close>

type_synonym world = "unit service"

definition calm :: world where
  "calm = \<lparr>stopping = False, result = 0, crypto_ready = False, outer = ()\<rparr>"

definition service_media :: "'w service audio_env" where
  "service_media =
     \<lparr>send_all = \<lambda>so b w. (True, w), receive_from = \<lambda>so n w. (Receive_Timeout, w),
      accept_on = \<lambda>so w. (Accept_Timeout, w), listen_on = \<lambda>a p w. (Some \<lparr>handle = Some 3, socket_port = p\<rparr>, w),
      wait_ready = \<lambda>ss t w. (None, w), close_socket = \<lambda>so w. w, entropy = \<lambda>w. ((False, None), w),
      pair_primitives = toy, challenge = \<lambda>ch a m w. (None, w), scan_float = \<lambda>s. (0, None), show_volume = \<lambda>v. [],
      libc = \<lparr>wide_unsigned = of_int, wide_signed = of_int, char_signed = False\<rparr>,
      clock = \<lambda>w. (5000000, w), udp_bind = \<lambda>w. (\<lambda>s p. True, w), udp_send = \<lambda>b a w. w,
      udp_wait = \<lambda>t w. ((0, \<lambda>s. False, \<lambda>s. []), w), ptp_bind = \<lambda>w. ((\<lambda>i. True, \<lambda>i a. True), w),
      ptp_receives = \<lambda>w. (([], []), w), play = None, output_delay = None,
      aes_cbc = \<lambda>k iv x. Some x, rsa_plain = \<lambda>b w. (None, w), aac_open = \<lambda>w. (Some 1, w),
      aac_configure = \<lambda>h b w. (True, w), aac_fill = \<lambda>h b w. (True, w), aac_frame = \<lambda>h n w. ((True, take n [1, 2]), w),
      aac_info = \<lambda>h w. Some (2, 1), aac_close = \<lambda>h w. w, linear_volume = \<lambda>v. 1, scaled = \<lambda>v x. x\<rparr>"

definition service_platform :: "'w service platform" where
  "service_platform =
     \<lparr>lock_init = \<lambda>w. (True, w), open_audio = \<lambda>rate ch bits w. (Some 4, w),
      write_audio = \<lambda>d xs w. (int (length xs), w), audio_delay = \<lambda>d w. (0, w), close_device = \<lambda>d w. w\<rparr>"

definition service_group :: "'w service group_socket" where
  "service_group =
     \<lparr>group_bind = \<lambda>p w. (True, w), group_join = \<lambda>g i w. (True, w), group_send = \<lambda>b a w. (int (length b), w),
      group_receive = \<lambda>n t w. (RecvTimeout, w), group_close = \<lambda>w. w\<rparr>"

lemma service_media_ok: "media_ok service_media" "env_ok (rtsp_env service_media)" "delay_ok service_platform"
  by (auto simp: media_ok_def env_ok_def service_media_def env.defs toy_def delay_ok_def service_platform_def)

definition idle_thread :: audio_thread where
  "idle_thread = \<lparr>the_pipeline = created, device = None, loop_state = loop_zero\<rparr>"

lemma idle_thread_ok: "raop_inv (the_pipeline idle_thread)"
  using create_ok [OF created_pipeline] by (simp add: idle_thread_def)

definition pcm_stream :: rtsp_stream where
  "pcm_stream = stream_zero\<lparr>session := pcm_session, has_session := True, recording := True, generation := 1, volume_db := - 20\<rparr>"

lemma pcm_stream_ok: "raop_stream pcm_stream"
  by (simp add: raop_stream_def pcm_stream_def stream_zero_def anchor_zero_def session_safe_def pcm_session_def session_zero_def)

subsection \<open>Properties\<close>



text \<open>
  The audio thread is safe on AirPlay 1 streams.  Whatever copies of the stream state it reads and whatever the
  network and the output do, no iteration reaches undefined behaviour and the pipeline keeps its invariant;
  when the thread ends it has closed the output.
\<close>

theorem audio_thread_safe:
  assumes "media_ok env" and "delay_ok pf" and "raop_inv (the_pipeline a)" and "\<forall>st\<in>set sts. raop_stream st"
  shows "\<exists>ended a' w'. airplay_audio_main env pf sts a w = Some (ended, a', w') \<and> raop_inv (the_pipeline a') \<and>
    (ended \<longrightarrow> device a' = None)"
  using audio_main_safe [OF assms(1,2,3,4)] .

theorem audio_thread_safe_witness:
  "\<exists>ended a' w'. airplay_audio_main service_media service_platform [stream_zero, pcm_stream, stream_zero] idle_thread calm =
     Some (ended, a', w') \<and> raop_inv (the_pipeline a')"
proof -
  have "\<forall>st\<in>set [stream_zero, pcm_stream, stream_zero]. raop_stream st"
    using pcm_stream_ok by (simp add: raop_stream_def stream_zero_def anchor_zero_def)
  from audio_thread_safe [OF service_media_ok(1,3) idle_thread_ok this, of calm] show ?thesis by auto
qed


definition sample_config :: receiver_config where
  "sample_config =
     \<lparr>config_ip = [49, 46, 50, 46, 51, 46, 52] @ replicate 9 0, config_mac = replicate 12 97 @ [0],
      config_name = 120 # replicate 63 0\<rparr>"



lemma sample_strings:
  "cut (config_ip sample_config) = [49, 46, 50, 46, 51, 46, 52]" "cut (config_mac sample_config) = replicate 12 97"
  "cut (config_name sample_config) = [120]"
  by code_simp+

lemma colons_length: "length (colons mac) \<le> 17"
  by (simp add: colons_def) arith

lemma raop_txt_fits:
  "\<forall>t\<in>set (raop_txt_entries mac). length t \<le> 255" "length (text_bytes (raop_txt_entries mac)) \<le> 600"
  "length (raop_txt_entries mac) \<le> 65535"
  using colons_length [of mac] by (simp_all add: raop_txt_entries_def text_bytes_def)

lemma sample_up:
  "\<exists>v w'. airplay_server_init service_media service_platform service_group sample_config v0 (w0 :: 'w service) = Some (True, v, w') \<and>
    outer w' = outer w0"
proof -
  let ?ip = "[49, 46, 50, 46, 51, 46, 52] :: buf" and ?mac = "replicate 12 97 :: buf"
  have a: "net_str_to_ipv4 ?ip = Inr [1, 2, 3, 4]" by code_simp
  have d: "\<exists>d. airplay_discovery_init service_group [120] ?mac ?ip (raop_txt_entries ?mac) w = Some (True, d, w)"
    for w :: "'w service"
    using discovery_start [OF _ _ _ _ _ a _ _ raop_txt_fits, of "[120]" ?mac service_group w w w ?mac]
    by (simp add: service_group_def Let_def)
  then obtain f where d: "airplay_discovery_init service_group [120] ?mac ?ip (raop_txt_entries ?mac) w = Some (True, f w, w)"
    for w :: "'w service"
    by metis
  have v: "valid_config sample_config" by code_simp
  have hex: "list_all hex_char ?mac" by code_simp
  show ?thesis
    using d v hex
    by (simp add: airplay_server_init_def crypto_memory_init_def service_platform_def open_parts_def rtsp_server_create_def
        service_media_def env.defs rtsp_set_identity_def a sample_strings server_zero_def service_env_def
        audio_pipeline_create_def rtp_receiver_create_def buffered_audio_open_def Let_def)
qed


text \<open>
  C13: an announced session can end the receiver.  A session of 24-bit ALAC is accepted by ANNOUNCE and starts to
  record with RECORD, but the pipeline is not able to play it: the next iteration of the audio thread, unless
  it already plays that generation, fails, records the error, asks every thread to stop, and the audio
  thread ends.
\<close>

theorem announced_session_stops:
  assumes "airplay_rtsp_announce env' s i r w1 = Some (b1, s1, w2)" and "req_body r = wide_announce"
    and "airplay_rtsp_record env' s1 i r' w3 = (b2, s2, w4)" and "get_header_value r' ''RTP-Info'' = None"
    and "device a \<noteq> None \<longrightarrow> loop_generation (loop_state a) \<noteq> generation (rtsp_instance.stream s) + 1"
    and "\<not> airplay_server_is_stopping w"
  shows "\<exists>a' w'. airplay_audio_main env pf (rtsp_get_stream_state s2 # sts) a w = Some (True, a', w') \<and>
    device a' = None \<and> airplay_server_is_stopping w' \<and> airplay_server_result w' = - 1"
proof -
  let ?st = "rtsp_get_stream_state s2"
  have st: "recording ?st" "has_session ?st" "\<not> session_supported (session ?st)"
    and g: "generation ?st = generation (rtsp_instance.stream s) + 1"
    using wide_session_recorded [OF assms(1-4)] by (simp_all add: rtsp_get_stream_state_def)
  have "device a \<noteq> None \<longrightarrow> \<not> caught_up ?st (loop_state a)" using assms(5) g by (simp add: caught_up_def)
  from unsupported_session_fails [OF st this, of env pf w] obtain a' w' where
    "audio_iteration env pf ?st a w = Some (False, a', w')" "device a' = None" "stopping w'" "result w' = - 1"
    by blast
  then show ?thesis
    using assms(6)
    by (simp add: airplay_server_is_stopping_def airplay_server_result_def close_audio_def)
qed

definition wide_request :: rtsp_request where
  "wide_request = announce_request\<lparr>req_body := wide_announce\<rparr>"

theorem announced_session_stops_witness:
  "\<exists>s a' w'. airplay_audio_main service_media service_platform [rtsp_get_stream_state s] idle_thread calm = Some (True, a', w') \<and>
     airplay_server_result w' = - 1"
proof -
  let ?e = "still_env []"
  obtain x where x: "sdp_parse (libc ?e) wide_announce 4096 = Some (Inr x)" "codec x = CODEC_ALAC"
    by (rule wide_announce_parsed)
  have "wide_announce \<noteq> []" by (simp add: wide_announce_def)
  then obtain b1 s1 w2 where 1: "airplay_rtsp_announce ?e connected_server 0 wide_request () = Some (b1, s1, w2)"
    using x that by (cases "reply ?e (announce_stream connected_server 0 x) 0 wide_request 200 ''OK'' [] [] ()")
      (simp add: airplay_rtsp_announce_def wide_request_def)
  obtain b2 s2 w4 where 2: "airplay_rtsp_record ?e s1 0 announce_request () = (b2, s2, w4)" by (metis surj_pair)
  have "get_header_value announce_request ''RTP-Info'' = None"
    by (simp add: announce_request_def get_header_value_def)
  then show ?thesis
    using announced_session_stops [OF 1 _ 2, of idle_thread calm service_media service_platform "[]"]
    by (auto simp: wide_request_def idle_thread_def calm_def airplay_server_is_stopping_def)
qed

end
