(* ===== verification/Airplay_Auth.thy ===== *)
theory Airplay_Auth
  imports Rtsp_Properties
begin

section \<open>The Apple challenge: \<open>src/shared/airplay/airplay_auth.c\<close>\<close>

text \<open>
  A sender of AirPlay 1 asks the receiver to sign sixteen bytes together with its addresses.  The mbedTLS
  calls are fields of a record.  \<open>b64_decode\<close> and \<open>b64_encode\<close> get the room of the output and
  the source, and give what is written, or the room that is needed, or refuse the source; a terminating
  zero counts for the room that \<open>b64_encode\<close> needs.  \<open>rsa_encrypt\<close> is the private operation with PKCS#1
  v1.5 padding; without a signature it has failed.  The key is a constant of the file that
  \<open>pk_parse_key\<close> is called with.
\<close>

datatype b64_result = B64_Done buf | B64_Too_Small nat | B64_Invalid

record 'w auth_lib =
  b64_decode :: "nat \<Rightarrow> buf \<Rightarrow> b64_result"
  b64_encode :: "nat \<Rightarrow> buf \<Rightarrow> b64_result"
  ctr_drbg_seed :: "buf \<Rightarrow> 'w \<Rightarrow> bool \<times> 'w"
  pk_parse_key :: "'w \<Rightarrow> bool \<times> 'w"
  rsa_encrypt :: "buf \<Rightarrow> 'w \<Rightarrow> buf option \<times> 'w"

record airplay_auth_scratch =
  scratch_padded :: buf
  scratch_decoded :: buf

text \<open>
  The challenge is completed to a multiple of four characters.  Gives the number of decoded bytes, and
  the scratch buffers with the bytes at the front of one.
\<close>

definition base64_decode_padded ::
  "('w, 'm) auth_lib_scheme \<Rightarrow> buf \<Rightarrow> airplay_auth_scratch \<Rightarrow> (nat \<times> airplay_auth_scratch) ret option" where
  "base64_decode_padded lib str sc =
     (let input_len = length str;
          padded_len = input_len + (if input_len mod 4 \<noteq> 0 then 4 - input_len mod 4 else 0);
          out_size = length (scratch_decoded sc) in
      if length (scratch_padded sc) < padded_len + 1 then fail
      else do {
        padded \<leftarrow> wr_range (scratch_padded sc) 0 str;
        padded \<leftarrow> wr_range padded input_len (replicate (padded_len - input_len) 61);
        padded \<leftarrow> wr padded padded_len 0;
        source \<leftarrow> rd_range padded 0 padded_len;
        (case b64_decode lib 0 source of
           B64_Too_Small decoded_len \<Rightarrow>
             if decoded_len > out_size then fail
             else
               (case b64_decode lib out_size source of
                  B64_Done bytes \<Rightarrow> do {
                    decoded \<leftarrow> wr_range (scratch_decoded sc) 0 bytes;
                    ok (length bytes, sc\<lparr>scratch_padded := padded, scratch_decoded := decoded\<rparr>) }
                | _ \<Rightarrow> fail)
         | _ \<Rightarrow> fail) })"

text \<open>The message that is signed, in a buffer of 48 bytes, and its length.\<close>

definition challenge_buffer :: "buf \<Rightarrow> nat \<Rightarrow> buf \<Rightarrow> buf \<Rightarrow> (buf \<times> nat) option" where
  "challenge_buffer decoded challenge_len ip_addr mac_addr =
     (let copy_len = (if challenge_len > 16 then 16 else challenge_len) in do {
        c \<leftarrow> rd_range decoded 0 copy_len;
        message \<leftarrow> wr_range (replicate 48 0) 0 c;
        a \<leftarrow> rd_range ip_addr 0 4;
        message \<leftarrow> wr_range message copy_len a;
        m \<leftarrow> rd_range mac_addr 0 6;
        message \<leftarrow> wr_range message (copy_len + 4) m;
        let message_len = copy_len + 10;
        Some (message, if message_len < 32 then 32 else message_len) })"

text \<open>From the signature to the response, whose padding is cut off.\<close>

definition write_response ::
  "('w, 'm) auth_lib_scheme \<Rightarrow> buf \<Rightarrow> buf \<Rightarrow> buf ret option" where
  "write_response lib signature response_out =
     (case b64_encode lib 0 signature of
        B64_Too_Small encoded_len \<Rightarrow>
          if encoded_len + 1 > length response_out then fail
          else
            (case b64_encode lib (length response_out) signature of
               B64_Done text \<Rightarrow> do {
                 response_out \<leftarrow> wr_range response_out 0 (text @ [0]);
                 response_out \<leftarrow> wr response_out (length text) 0;
                 (let n = length (takeWhile (\<lambda>c. c \<noteq> 61) (cut response_out)) in
                  if n < length (cut response_out) then
                    do { response_out \<leftarrow> wr response_out n 0; ok response_out }
                  else ok response_out) }
             | _ \<Rightarrow> fail)
      | _ \<Rightarrow> fail)"

definition apple_challenge_response ::
  "('w, 'm) auth_lib_scheme \<Rightarrow> buf \<Rightarrow> buf \<Rightarrow> buf \<Rightarrow> buf \<Rightarrow> airplay_auth_scratch \<Rightarrow> 'w \<Rightarrow>
   (buf ret \<times> 'w) option" where
  "apple_challenge_response lib challenge_text ip_addr mac_addr response_out sc w =
     (if length response_out = 0 then Some (Inl EFail, w)
      else do {
        r \<leftarrow> base64_decode_padded lib challenge_text sc;
        (case r of
           Inl e \<Rightarrow> Some (Inl e, w)
         | Inr (challenge_len, sc) \<Rightarrow> do {
             (message, message_len) \<leftarrow> challenge_buffer (scratch_decoded sc) challenge_len ip_addr mac_addr;
             signed \<leftarrow> rd_range message 0 message_len;
             let (good, w) = ctr_drbg_seed lib (lit ''apple_challenge'') w;
             if \<not> good then Some (Inl EFail, w)
             else
               let (good, w) = pk_parse_key lib w in
               if \<not> good then Some (Inl EFail, w)
               else
                 (case rsa_encrypt lib signed w of
                    (None, w) \<Rightarrow> Some (Inl EFail, w)
                  | (Some signature, w) \<Rightarrow> do {
                      r \<leftarrow> write_response lib signature response_out;
                      Some (r, w) }) }) })"

text \<open>
  What OPTIONS calls: the buffers of its frame, with anything in them, and the text that is in the
  response afterwards.  An access outside a buffer is taken for a failure here; \<open>challenge_safe\<close> shows
  that there is none.
\<close>

definition options_challenge ::
  "('w, 'm) auth_lib_scheme \<Rightarrow> buf \<Rightarrow> airplay_auth_scratch \<Rightarrow> buf \<Rightarrow> buf \<Rightarrow> buf \<Rightarrow> 'w \<Rightarrow> buf option \<times> 'w" where
  "options_challenge lib frame sc challenge_text ip_addr mac_addr w =
     (case apple_challenge_response lib challenge_text ip_addr mac_addr frame sc w of
        Some (Inr r, w) \<Rightarrow> (Some (cut r), w)
      | Some (Inl e, w) \<Rightarrow> (None, w)
      | None \<Rightarrow> (None, w))"

subsection \<open>The message and the response\<close>

definition padded_text :: "buf \<Rightarrow> buf" where
  "padded_text s = s @ replicate (if length s mod 4 \<noteq> 0 then 4 - length s mod 4 else 0) 61"

definition challenge_message :: "buf \<Rightarrow> buf \<Rightarrow> buf \<Rightarrow> buf" where
  "challenge_message c a m = take 16 c @ a @ m @ replicate (22 - length (take 16 c)) 0"

text \<open>The bytes of the challenge in buffers of \<open>p\<close> and \<open>n\<close> bytes, and the text of a response in \<open>n\<close> bytes.\<close>

definition challenge_bytes :: "('w, 'm) auth_lib_scheme \<Rightarrow> nat \<Rightarrow> nat \<Rightarrow> buf \<Rightarrow> buf option" where
  "challenge_bytes lib p n s =
     (if p \<le> length (padded_text s) then None
      else
        (case b64_decode lib 0 (padded_text s) of
           B64_Too_Small k \<Rightarrow>
             if k > n then None
             else (case b64_decode lib n (padded_text s) of B64_Done d \<Rightarrow> Some d | _ \<Rightarrow> None)
         | _ \<Rightarrow> None))"

definition response_text :: "('w, 'm) auth_lib_scheme \<Rightarrow> nat \<Rightarrow> buf \<Rightarrow> buf option" where
  "response_text lib n sg =
     (case b64_encode lib 0 sg of
        B64_Too_Small k \<Rightarrow>
          if k + 1 > n then None
          else (case b64_encode lib n sg of B64_Done t \<Rightarrow> Some (takeWhile (\<lambda>c. c \<noteq> 61) (cut t)) | _ \<Rightarrow> None)
      | _ \<Rightarrow> None)"

definition signed_challenge ::
  "('w, 'm) auth_lib_scheme \<Rightarrow> nat \<Rightarrow> nat \<Rightarrow> nat \<Rightarrow> buf \<Rightarrow> buf \<Rightarrow> buf \<Rightarrow> 'w \<Rightarrow> buf option \<times> 'w" where
  "signed_challenge lib room p n s a m w =
     (case challenge_bytes lib p n s of
        None \<Rightarrow> (None, w)
      | Some d \<Rightarrow>
          let (good, w) = ctr_drbg_seed lib (lit ''apple_challenge'') w in
          if \<not> good then (None, w)
          else
            let (good, w) = pk_parse_key lib w in
            if \<not> good then (None, w)
            else
              let (sg, w) = rsa_encrypt lib (challenge_message d a m) w in
              (Option.bind sg (response_text lib room), w))"

text \<open>What mbedTLS documents of the two conversions: they never write more than there is room for.\<close>

definition b64_bounded :: "('w, 'm) auth_lib_scheme \<Rightarrow> bool" where
  "b64_bounded lib \<longleftrightarrow>
     (\<forall>n s d. b64_decode lib n s = B64_Done d \<longrightarrow> length d \<le> n) \<and>
     (\<forall>n s t. b64_encode lib n s = B64_Done t \<longrightarrow> length t < n)"

lemma padded_length [simp]:
  "length (padded_text s) = length s + (if length s mod 4 \<noteq> 0 then 4 - length s mod 4 else 0)"
  by (simp add: padded_text_def)

lemma padded_written:
  fixes s b
  defines "k \<equiv> if length s mod 4 \<noteq> 0 then 4 - length s mod 4 else 0"
  assumes "length s + k < length b"
  obtains b1 b2 b3 where "wr_range b 0 s = Some b1" "wr_range b1 (length s) (replicate k 61) = Some b2"
    "wr b2 (length s + k) 0 = Some b3" "rd_range b3 0 (length s + k) = Some (padded_text s)"
  using assms by (auto simp: wr_range_def wr_def rd_range_def padded_text_def)

lemma decode_padded:
  assumes "b64_bounded lib"
  shows "case challenge_bytes lib (length (scratch_padded sc)) (length (scratch_decoded sc)) s of
    None \<Rightarrow> base64_decode_padded lib s sc = fail
  | Some d \<Rightarrow>
      \<exists>sc'. base64_decode_padded lib s sc = ok (length d, sc') \<and> take (length d) (scratch_decoded sc') = d \<and>
        length d \<le> length (scratch_decoded sc')"
proof -
  define k where "k = (if length s mod 4 \<noteq> 0 then 4 - length s mod 4 else 0)"
  have unfolded: "base64_decode_padded lib s sc =
     (if length (scratch_padded sc) < length s + k + 1 then fail
      else do {
        padded \<leftarrow> wr_range (scratch_padded sc) 0 s;
        padded \<leftarrow> wr_range padded (length s) (replicate k 61);
        padded \<leftarrow> wr padded (length s + k) 0;
        source \<leftarrow> rd_range padded 0 (length s + k);
        (case b64_decode lib 0 source of
           B64_Too_Small n \<Rightarrow>
             if n > length (scratch_decoded sc) then fail
             else
               (case b64_decode lib (length (scratch_decoded sc)) source of
                  B64_Done d \<Rightarrow> do {
                    decoded \<leftarrow> wr_range (scratch_decoded sc) 0 d;
                    ok (length d, sc\<lparr>scratch_padded := padded, scratch_decoded := decoded\<rparr>) }
                | _ \<Rightarrow> fail)
         | _ \<Rightarrow> fail) })"
    unfolding base64_decode_padded_def Let_def k_def
    by (simp only: diff_add_inverse)
  show ?thesis
  proof (cases "length (scratch_padded sc) < length s + k + 1")
    case False
    then obtain b1 b2 b3 where "wr_range (scratch_padded sc) 0 s = Some b1"
      "wr_range b1 (length s) (replicate k 61) = Some b2" "wr b2 (length s + k) 0 = Some b3"
      "rd_range b3 0 (length s + k) = Some (padded_text s)"
      using padded_written [of s "scratch_padded sc"] unfolding k_def by auto
    moreover have "length d \<le> length (scratch_decoded sc)"
      if "b64_decode lib (length (scratch_decoded sc)) (padded_text s) = B64_Done d" for d
      using assms that by (auto simp: b64_bounded_def)
    ultimately show ?thesis
      using False unfolding unfolded challenge_bytes_def padded_length k_def [symmetric]
      by (auto simp: wr_range_def split: b64_result.split)
  qed (simp add: unfolded challenge_bytes_def k_def)
qed

lemma challenge_buffer_ok:
  assumes "take (length c) decoded = c" "length a = 4" "length m = 6" "length c \<le> length decoded"
  shows "challenge_buffer decoded (length c) a m = Some (challenge_message c a m @ replicate 16 0, 32)"
proof -
  have "take 16 decoded = take 16 c" if "length c > 16"
    using assms(1) that by (metis less_imp_le_nat min.absorb1 take_take)
  then have "rd_range decoded 0 (if length c > 16 then 16 else length c) = Some (take 16 c)"
    using assms(1,4) by (auto simp: rd_range_def)
  then show ?thesis
    using assms(2,3)
    by (auto simp: challenge_buffer_def challenge_message_def rd_range_def wr_range_def Let_def
        replicate_add [symmetric])
qed

lemma challenge_message_length [simp]:
  "length a = 4 \<Longrightarrow> length m = 6 \<Longrightarrow> length (challenge_message c a m) = 32"
  by (simp add: challenge_message_def)

lemma cut_past_zero: "cut (t @ 0 # z) = cut t"
  by (induction t) (simp_all add: cut_def)

lemma cut_terminated:
  "length (takeWhile (\<lambda>c. c \<noteq> 61) (cut b)) < length (cut b) \<Longrightarrow>
   cut (b[length (takeWhile (\<lambda>c. c \<noteq> 61) (cut b)) := 0]) = takeWhile (\<lambda>c. c \<noteq> 61) (cut b)"
  by (induction b) (auto simp: cut_def split: if_splits)

lemma written_text:
  assumes "length t < length out"
  shows "wr_range out 0 (t @ [0]) = Some (t @ 0 # drop (Suc (length t)) out)"
    "length (t @ 0 # drop (Suc (length t)) out) = length out"
    "wr (t @ 0 # drop (Suc (length t)) out) (length t) 0 = Some (t @ 0 # drop (Suc (length t)) out)"
    "cut (t @ 0 # drop (Suc (length t)) out) = cut t"
  using assms by (auto simp: wr_range_def wr_def cut_past_zero)

lemma write_response:
  assumes "b64_bounded lib"
  shows "case response_text lib (length out) sg of
    None \<Rightarrow> write_response lib sg out = fail
  | Some t \<Rightarrow> \<exists>out'. write_response lib sg out = ok out' \<and> cut out' = t"
proof (cases "b64_encode lib 0 sg")
  case (B64_Too_Small n)
  show ?thesis
  proof (cases "b64_encode lib (length out) sg")
    case (B64_Done t)
    then have "length t < length out" using assms by (auto simp: b64_bounded_def)
    define o1 where "o1 = t @ 0 # drop (Suc (length t)) out"
    have o1: "wr_range out 0 (t @ [0]) = Some o1" "length o1 = length out"
      "wr o1 (length t) 0 = Some o1" "cut o1 = cut t"
      unfolding o1_def by (rule written_text [OF \<open>length t < length out\<close>])+
    define n where "n = length (takeWhile (\<lambda>c. c \<noteq> 61) (cut t))"
    have "length (cut t) < length out"
      using \<open>length t < length out\<close> length_takeWhile_le [of "\<lambda>c. c \<noteq> 0" t] by (simp add: cut_def)
    then have "wr o1 n 0 = Some (o1[n := 0])"
      using length_takeWhile_le [of "\<lambda>c. c \<noteq> 61" "cut t"] o1(2) by (simp add: n_def wr_def)
    moreover have "cut (o1[n := 0]) = takeWhile (\<lambda>c. c \<noteq> 61) (cut t)" if "n < length (cut t)"
      using that cut_terminated [of o1] o1(4) by (simp add: n_def)
    moreover have "takeWhile (\<lambda>c. c \<noteq> 61) (cut t) = cut t" if "\<not> n < length (cut t)"
      using that takeWhile_eq_take [of "\<lambda>c. c \<noteq> 61" "cut t"] by (simp add: n_def)
    ultimately show ?thesis
      using B64_Too_Small B64_Done o1
      by (cases "n < length (cut t)") (simp_all add: write_response_def response_text_def Let_def n_def [symmetric] del: takeWhile_eq_all_conv)
  qed (auto simp: write_response_def response_text_def B64_Too_Small)
qed (auto simp: write_response_def response_text_def)

text \<open>The routine on buffers gives what the specification says, whatever was in its buffers.\<close>

lemma challenge_response:
  assumes "b64_bounded lib" "length a = 4" "length m = 6" "length frame > 0"
  shows "\<exists>r w'. apple_challenge_response lib s a m frame sc w = Some (r, w') \<and>
    signed_challenge lib (length frame) (length (scratch_padded sc)) (length (scratch_decoded sc)) s a m w =
      (case r of Inl e \<Rightarrow> None | Inr out \<Rightarrow> Some (cut out), w')"
proof (cases "challenge_bytes lib (length (scratch_padded sc)) (length (scratch_decoded sc)) s")
  case None
  then show ?thesis
    using decode_padded [OF assms(1), where sc = sc and s = s] assms(4) by (simp add: apple_challenge_response_def signed_challenge_def)
next
  case d: (Some d)
  then obtain sc' where sc': "base64_decode_padded lib s sc = ok (length d, sc')"
    "take (length d) (scratch_decoded sc') = d" "length d \<le> length (scratch_decoded sc')"
    using decode_padded [OF assms(1), where sc = sc and s = s] by auto
  have message: "challenge_buffer (scratch_decoded sc') (length d) a m = Some (challenge_message d a m @ replicate 16 0, 32)"
    "rd_range (challenge_message d a m @ replicate 16 0) 0 32 = Some (challenge_message d a m)"
    using challenge_buffer_ok [OF sc'(2) assms(2,3) sc'(3)] assms(2,3) by (simp_all add: rd_range_def)
  obtain seeded w1 where seed: "ctr_drbg_seed lib (lit ''apple_challenge'') w = (seeded, w1)" by fastforce
  obtain parsed w2 where key: "pk_parse_key lib w1 = (parsed, w2)" by fastforce
  obtain sg w3 where sign: "rsa_encrypt lib (challenge_message d a m) w2 = (sg, w3)" by fastforce
  note unfold = apple_challenge_response_def signed_challenge_def d sc'(1) message seed key sign
  show ?thesis
  proof (cases "seeded \<and> parsed")
    case True
    show ?thesis
    proof (cases sg)
      case (Some g)
      then show ?thesis
        using True write_response [OF assms(1), of g frame] assms(4)
        by (auto simp: unfold simp del: lit_simps split: option.splits)
    qed (use True assms(4) in \<open>simp add: unfold del: lit_simps\<close>)
  next
    case False
    then show ?thesis
      using assms(4) by (cases seeded) (auto simp: unfold simp del: lit_simps)
  qed
qed

lemma challenge_safe:
  assumes "b64_bounded lib" "length a = 4" "length m = 6"
  shows "apple_challenge_response lib s a m frame sc w \<noteq> None"
  using challenge_response [OF assms, where s = s and sc = sc and w = w and frame = frame]
  by (cases "length frame = 0") (auto simp: apple_challenge_response_def)

lemma options_challenge_eq:
  assumes "b64_bounded lib" "length a = 4" "length m = 6" "length frame > 0"
  shows "options_challenge lib frame sc s a m w =
    signed_challenge lib (length frame) (length (scratch_padded sc)) (length (scratch_decoded sc)) s a m w"
proof -
  obtain r w' where "apple_challenge_response lib s a m frame sc w = Some (r, w')"
    "signed_challenge lib (length frame) (length (scratch_padded sc)) (length (scratch_decoded sc)) s a m w =
      (case r of Inl e \<Rightarrow> None | Inr out \<Rightarrow> Some (cut out), w')"
    using challenge_response [OF assms, where s = s and sc = sc and w = w] by auto
  then show ?thesis by (cases r) (simp_all add: options_challenge_def)
qed

subsection \<open>OPTIONS\<close>

lemma hex_pairs_length: "hex_pairs s = Some m \<Longrightarrow> length m = length s div 2"
  by (induction s arbitrary: m rule: hex_pairs.induct) (auto simp: bind_eq_Some_conv)

lemma parse_mac_hex_length: "parse_mac_hex s = Some m \<Longrightarrow> length m = 6"
  by (auto simp: parse_mac_hex_def dest: hex_pairs_length split: if_splits)

lemma response_text_length:
  "b64_bounded lib \<Longrightarrow> response_text lib n sg = Some t \<Longrightarrow> length t < n"
  by (auto simp: response_text_def b64_bounded_def cut_def split: b64_result.splits if_splits
      intro: le_less_trans [OF length_takeWhile_le] le_less_trans [OF le_trans [OF length_takeWhile_le length_takeWhile_le]])

text \<open>
  C16: the answer to an Apple challenge.  An OPTIONS request with a challenge is answered with an
  Apple-Response header that is never cut off by the buffer of 768 bytes, and that is the base64 text
  without padding of the signature of 32 bytes: at most sixteen of the challenge, the receiver's IPv4
  and hardware addresses, and zeros.  Without a signature the header is left out.  The buffers of the
  frame hold anything.
\<close>

theorem options_answers_challenge:
  assumes "b64_bounded lib" and "challenge env = options_challenge lib frame sc"
    and "length frame = 384" "length (scratch_padded sc) = 256" "length (scratch_decoded sc) = 64"
    and "get_header_value r ''Apple-Challenge'' = Some ch" "ch \<noteq> []"
    and "net_str_to_ipv4 (local_ip s) = Inr a" "parse_mac_hex (local_mac_hex s) = Some m"
  shows "airplay_rtsp_options env s i r w =
    (case signed_challenge lib 384 256 64 ch a m w of
       (None, w) \<Rightarrow> reply env s i r 200 ''OK'' public_methods [] w
     | (Some t, w) \<Rightarrow>
         reply env s i r 200 ''OK'' (public_methods @ lit ''Apple-Response: '' @ t @ crlf_text) [] w)"
proof -
  have "challenge env ch a m w = signed_challenge lib 384 256 64 ch a m w"
    using options_challenge_eq [OF assms(1) net_str_to_ipv4_length [OF assms(8)] parse_mac_hex_length [OF assms(9)],
      of frame sc ch w] assms(2-5) by (simp flip: length_greater_0_conv)
  moreover have "length t < 384" if "signed_challenge lib 384 256 64 ch a m w = (Some t, w')" for t w'
    using that response_text_length [OF assms(1)]
    by (auto simp: signed_challenge_def Let_def bind_eq_Some_conv split: option.splits prod.splits if_splits)
  moreover have "length public_methods < 300" by (simp add: public_methods_def crlf_text_def)
  ultimately show ?thesis
    using assms(6-9)
    by (auto simp: airplay_rtsp_options_def crlf_text_def split: option.splits prod.splits)
qed

text \<open>
  A library on which this can be evaluated: it knows one challenge and the base64 text of its signature, and
  signs by turning a message round.
\<close>

definition sample_auth :: "unit auth_lib" where
  "sample_auth =
     \<lparr>b64_decode = \<lambda>n s. if s \<noteq> lit ''AAECAwQFBgcICQoLDA0ODw=='' then B64_Invalid
        else if n < 16 then B64_Too_Small 16 else B64_Done [0, 1, 2, 3, 4, 5, 6, 7, 8, 9, 10, 11, 12, 13, 14, 15],
      b64_encode = \<lambda>n s.
        if s \<noteq> [0, 0, 0, 0, 0, 0, 0xab, 0x89, 0x67, 0x45, 0x23, 1, 7, 0, 0, 10, 15, 14, 13, 12, 11, 10, 9, 8, 7, 6, 5,
             4, 3, 2, 1, 0] then B64_Invalid
        else if n < 45 then B64_Too_Small 45
        else B64_Done (lit ''AAAAAAAAq4lnRSMBBwAACg8ODQwLCgkIBwYFBAMCAQA=''),
      ctr_drbg_seed = \<lambda>p w. (True, w), pk_parse_key = \<lambda>w. (True, w),
      rsa_encrypt = \<lambda>m w. (Some (rev m), w)\<rparr>"

definition sample_scratch :: airplay_auth_scratch where
  "sample_scratch = \<lparr>scratch_padded = replicate 256 0, scratch_decoded = replicate 64 0\<rparr>"

definition challenge_env :: "unit env" where
  "challenge_env = (still_env [])\<lparr>challenge := options_challenge sample_auth (replicate 384 0) sample_scratch\<rparr>"

definition challenge_server :: rtsp_instance where
  "challenge_server = listening_server\<lparr>local_ip := lit ''10.0.0.7'', local_mac_hex := lit ''0123456789ab''\<rparr>"

definition challenge_request :: rtsp_request where
  "challenge_request =
     \<lparr>rmethod = METHOD_OPTIONS, uri = lit ''*'', version = lit ''RTSP/1.0'', cseq = 3,
      headers = [\<lparr>name = lit ''Apple-Challenge'', header_value = lit ''AAECAwQFBgcICQoLDA0ODw''\<rparr>], req_body = []\<rparr>"

theorem options_answers_challenge_witness:
  "airplay_rtsp_options challenge_env challenge_server 0 challenge_request () =
   reply challenge_env challenge_server 0 challenge_request 200 ''OK''
     (public_methods @ lit ''Apple-Response: '' @
      lit ''AAAAAAAAq4lnRSMBBwAACg8ODQwLCgkIBwYFBAMCAQA'' @ crlf_text) [] ()"
proof -
  have signed: "signed_challenge sample_auth 384 256 64 (lit ''AAECAwQFBgcICQoLDA0ODw'') [10, 0, 0, 7]
      [1, 0x23, 0x45, 0x67, 0x89, 0xab] () = (Some (lit ''AAAAAAAAq4lnRSMBBwAACg8ODQwLCgkIBwYFBAMCAQA''), ())"
    by code_simp
  have texts: "net_str_to_ipv4 (local_ip challenge_server) = Inr [10, 0, 0, 7]"
    "parse_mac_hex (local_mac_hex challenge_server) = Some [1, 0x23, 0x45, 0x67, 0x89, 0xab]"
    by (simp_all add: challenge_server_def del: lit_simps) code_simp+
  have header: "get_header_value challenge_request ''Apple-Challenge'' = Some (lit ''AAECAwQFBgcICQoLDA0ODw'')"
    by code_simp
  have "b64_bounded sample_auth" by (auto simp: b64_bounded_def sample_auth_def)
  then show ?thesis
    using options_answers_challenge [OF _ _ _ _ _ header _ texts,
      of sample_auth challenge_env "replicate 384 0" sample_scratch 0 "()"] signed
    by (simp add: challenge_env_def sample_scratch_def)
qed

end
