(* ===== verification/Crypto_Mutex.thy ===== *)
theory Crypto_Mutex
  imports Prelude
begin

section \<open>The lock of the crypto memory: \<open>src/shared/crypto/crypto_memory.c\<close>\<close>

text \<open>
  The threads of the receiver share mbedTLS's memory pool under a lock made of an atomic flag.  An operation
  on the flag is one step; \<open>exchange\<close> is \<open>atomic_exchange_explicit\<close> with 1, which gives the old
  value.  The memory orders make the steps of different threads take effect in one order.
\<close>

record threading_mutex =
  locked :: bool
  valid :: bool

definition mutex_init :: "threading_mutex \<Rightarrow> threading_mutex" where
  "mutex_init m = m\<lparr>locked := False, valid := True\<rparr>"

definition mutex_free :: "threading_mutex \<Rightarrow> threading_mutex" where
  "mutex_free m = m\<lparr>valid := False\<rparr>"

definition exchange :: "threading_mutex \<Rightarrow> bool \<times> threading_mutex" where
  "exchange m = (locked m, m\<lparr>locked := True\<rparr>)"

definition mutex_unlock :: "threading_mutex \<Rightarrow> bool \<times> threading_mutex" where
  "mutex_unlock m = (if \<not> valid m then (False, m) else (True, m\<lparr>locked := False\<rparr>))"

text \<open>
  A thread that has called \<open>mutex_lock\<close> repeats the exchange until the flag was clear.  The check of
  \<open>valid\<close> comes once, before.
\<close>

datatype lock_phase = Outside | Spinning | Inside

definition lock_call :: "threading_mutex \<Rightarrow> lock_phase" where
  "lock_call m = (if \<not> valid m then Outside else Spinning)"

definition lock_spin :: "threading_mutex \<Rightarrow> lock_phase \<times> threading_mutex" where
  "lock_spin m = (let (old, m) = exchange m in (if old then Spinning else Inside, m))"

inductive lock_step :: "threading_mutex \<times> (nat \<Rightarrow> lock_phase) \<Rightarrow> threading_mutex \<times> (nat \<Rightarrow> lock_phase) \<Rightarrow> bool" where
  call: "pc i = Outside \<Longrightarrow> lock_step (m, pc) (m, pc(i := lock_call m))"
| spin: "pc i = Spinning \<Longrightarrow> lock_spin m = (p, m') \<Longrightarrow> lock_step (m, pc) (m', pc(i := p))"
| unlock: "pc i = Inside \<Longrightarrow> mutex_unlock m = (True, m') \<Longrightarrow> lock_step (m, pc) (m', pc(i := Outside))"

inductive_cases lock_stepE: "lock_step s s'"

subsection \<open>Mutual exclusion\<close>

text \<open>The flag is set exactly when a thread is inside, and never two are.\<close>

definition lock_ok :: "threading_mutex \<times> (nat \<Rightarrow> lock_phase) \<Rightarrow> bool" where
  "lock_ok s \<longleftrightarrow> valid (fst s) \<and> (locked (fst s) \<longleftrightarrow> (\<exists>i. snd s i = Inside)) \<and>
     (\<forall>i j. snd s i = Inside \<longrightarrow> snd s j = Inside \<longrightarrow> i = j)"

lemma lock_step_ok:
  assumes "lock_step s s'" and "lock_ok s"
  shows "lock_ok s'"
  using assms
proof cases
  case (call pc i m)
  then have "(pc(i := lock_call m)) j = Inside \<longleftrightarrow> pc j = Inside" for j by (auto simp: lock_call_def)
  then show ?thesis using call assms(2) unfolding lock_ok_def by simp
next
  case (spin pc i m p m')
  show ?thesis
  proof (cases "locked m")
    case True
    then have m: "p = Spinning" "valid m' = valid m" "locked m' = locked m"
      using spin(4) by (auto simp: lock_spin_def exchange_def)
    then have "(pc(i := p)) j = Inside \<longleftrightarrow> pc j = Inside" for j using spin(3) m(1) by auto
    then show ?thesis using spin assms(2) m(2,3) unfolding lock_ok_def by simp
  next
    case False
    then show ?thesis using spin assms(2) by (auto simp: lock_ok_def lock_spin_def exchange_def)
  qed
next
  case (unlock pc i m m')
  then show ?thesis using assms(2) by (auto simp: lock_ok_def mutex_unlock_def split: if_splits)
qed

lemma lock_exclusive:
  assumes "lock_step\<^sup>*\<^sup>* (mutex_init m, \<lambda>i. Outside) s"
  shows "lock_ok s"
  using assms
proof (induction rule: rtranclp_induct)
  case base
  then show ?case by (simp add: lock_ok_def mutex_init_def)
qed (rule lock_step_ok)

text \<open>When none is inside, the next thread that tries gets in.\<close>

lemma lock_free_taken:
  assumes "lock_ok (m, pc)" and "pc i = Spinning" and "\<forall>j. pc j \<noteq> Inside"
  shows "\<exists>m'. lock_step (m, pc) (m', pc(i := Inside))"
proof -
  have "lock_spin m = (Inside, m\<lparr>locked := True\<rparr>)"
    using assms by (simp add: lock_ok_def lock_spin_def exchange_def)
  then show ?thesis using lock_step.spin [of pc i] assms(2) by blast
qed

end
