(* ===== verification/Sink.thy ===== *)
theory Sink
  imports Prelude
begin

section \<open>Writing all or an error\<close>

text \<open>
  What the shared code relies on when it hands data to the platform, bytes to a connection and samples to the
  output: a call takes a beginning of what it is given, and reports success only when that was all.  \<open>got\<close>
  is what has been taken up to now.
\<close>

definition handed_over :: "('w \<Rightarrow> 'a list) \<Rightarrow> 'w \<Rightarrow> 'w \<Rightarrow> bool \<Rightarrow> 'a list \<Rightarrow> bool" where
  "handed_over got w w' good data \<longleftrightarrow> (\<exists>n. got w' = got w @ take n data \<and> (good \<longrightarrow> length data \<le> n))"

lemma handed_none [intro]: "got w' = got w \<Longrightarrow> handed_over got w w' False data"
  unfolding handed_over_def by (rule exI [of _ 0]) simp

lemma handed_nothing [intro]: "got w' = got w \<Longrightarrow> handed_over got w w' good []"
  by (auto simp: handed_over_def)

lemma handed_success: "handed_over got w w' True data \<longleftrightarrow> got w' = got w @ data"
  by (auto simp: handed_over_def intro: exI [of _ "length data"])

lemma handed_beginning:
  assumes "handed_over got w w' good xs"
  shows "handed_over got w w' False (xs @ ys)"
proof -
  obtain n where "got w' = got w @ take n xs" using assms unfolding handed_over_def by blast
  then show ?thesis
    unfolding handed_over_def by (intro exI [of _ "min n (length xs)"]) (simp add: min_def)
qed

lemma handed_append:
  assumes "handed_over got w w1 True xs" and "handed_over got w1 w' good ys"
  shows "handed_over got w w' good (xs @ ys)"
proof -
  obtain n where "got w' = got w1 @ take n ys" "good \<longrightarrow> length ys \<le> n"
    using assms(2) unfolding handed_over_def by blast
  then show ?thesis
    using assms(1) unfolding handed_success handed_over_def by (intro exI [of _ "length xs + n"]) auto
qed

locale sink =
  fixes put :: "'a list \<Rightarrow> 'w \<Rightarrow> bool \<times> 'w" and got :: "'w \<Rightarrow> 'a list"
  assumes put_part: "put xs w = (good, w') \<Longrightarrow> handed_over got w w' good xs"
begin

lemma put_all: "put xs w = (True, w') \<Longrightarrow> got w' = got w @ xs"
  using put_part [of xs w True w'] by (simp add: handed_success)

lemma put_then:
  assumes "put xs w = (True, w1)" and "put ys w1 = (good, w')"
  shows "handed_over got w w' good (xs @ ys)"
  using handed_append [OF put_part [OF assms(1)] put_part [OF assms(2)]] .

lemma put_failed: "put xs w = (False, w') \<Longrightarrow> handed_over got w w' False (xs @ ys)"
  by (rule handed_beginning [OF put_part])

end

end
