(* ===== verification/Linux_Net.thy ===== *)
theory Linux_Net
  imports Rtsp_State
begin

section \<open>Sockets on Linux: \<open>src/platform/linux/net.c\<close>\<close>

text \<open>
  The platform layer over POSIX sockets.  The system calls are fields of a record over a world of any type;
  a descriptor is a number, and a call gives its result or what went wrong, as far as the code asks.
  The outer option of a function that waits is a wait that never ends: a call with no time limit that is
  interrupted again and again.  Addresses of IPv4 are their four bytes, the empty text the wildcard.
\<close>

datatype sys_error = Would_Block | Interrupted | Other_Error

text \<open>
  \<open>sys_select\<close> gets whether to wait for writing, the descriptors and the time in seconds and
  microseconds, and gives the descriptors that are ready, none on a timeout.  \<open>sys_recvmsg\<close> says
  whether the datagram was cut off.
\<close>

record 'w posix =
  clock_monotonic :: "'w \<Rightarrow> (u64 \<times> u64) \<times> 'w"
  sys_socket :: "bool \<Rightarrow> 'w \<Rightarrow> nat option \<times> 'w"
  sys_reuse :: "nat \<Rightarrow> 'w \<Rightarrow> bool \<times> 'w"
  get_flags :: "nat \<Rightarrow> 'w \<Rightarrow> u32 option \<times> 'w"
  set_flags :: "nat \<Rightarrow> u32 \<Rightarrow> 'w \<Rightarrow> bool \<times> 'w"
  sys_bind :: "nat \<Rightarrow> buf \<Rightarrow> u16 \<Rightarrow> 'w \<Rightarrow> bool \<times> 'w"
  sys_listen :: "nat \<Rightarrow> nat \<Rightarrow> 'w \<Rightarrow> bool \<times> 'w"
  sys_getsockname :: "nat \<Rightarrow> 'w \<Rightarrow> u16 option \<times> 'w"
  sys_close :: "nat \<Rightarrow> 'w \<Rightarrow> 'w"
  sys_select :: "bool \<Rightarrow> nat list \<Rightarrow> (int \<times> int) option \<Rightarrow> 'w \<Rightarrow> (sys_error + nat list) \<times> 'w"
  sys_accept :: "nat \<Rightarrow> 'w \<Rightarrow> (sys_error + nat \<times> buf \<times> u16) \<times> 'w"
  sys_recv :: "nat \<Rightarrow> nat \<Rightarrow> 'w \<Rightarrow> (sys_error + buf) \<times> 'w"
  sys_recvmsg :: "nat \<Rightarrow> nat \<Rightarrow> 'w \<Rightarrow> (sys_error + buf \<times> bool \<times> buf \<times> u16) \<times> 'w"
  sys_send :: "nat \<Rightarrow> buf \<Rightarrow> 'w \<Rightarrow> (sys_error + nat) \<times> 'w"
  sys_sendto :: "nat \<Rightarrow> buf \<Rightarrow> buf \<Rightarrow> u16 \<Rightarrow> 'w \<Rightarrow> (sys_error + nat) \<times> 'w"
  multicast_if :: "nat \<Rightarrow> buf \<Rightarrow> 'w \<Rightarrow> bool \<times> 'w"
  multicast_ttl :: "nat \<Rightarrow> u8 \<Rightarrow> 'w \<Rightarrow> bool \<times> 'w"
  add_membership :: "nat \<Rightarrow> buf \<Rightarrow> buf \<Rightarrow> 'w \<Rightarrow> bool \<times> 'w"
  inet_pton :: "string \<Rightarrow> buf option"
  inet_ntop :: "buf \<Rightarrow> string option"

definition NET_ERROR :: int where "NET_ERROR = - 1"
definition NET_TIMEOUT :: int where "NET_TIMEOUT = - 2"
definition FD_SETSIZE :: nat where "FD_SETSIZE = 1024"
definition INT_MAX :: nat where "INT_MAX = 0x7fffffff"

subsection \<open>Time and addresses\<close>

definition now_ms :: "'w posix \<Rightarrow> 'w \<Rightarrow> u32 \<times> 'w" where
  "now_ms px w = (let ((s, ns), w) = clock_monotonic px w in (ucast (s * 1000 + ns div 1000000), w))"

definition remaining_ms :: "'w posix \<Rightarrow> u32 \<Rightarrow> int \<Rightarrow> 'w \<Rightarrow> int \<times> 'w" where
  "remaining_ms px start timeout_ms w =
     (if timeout_ms < 0 then (- 1, w)
      else
        let (now, w) = now_ms px w; elapsed = now - start in
        (if elapsed \<ge> of_int timeout_ms then 0 else timeout_ms - uint elapsed, w))"

definition would_block :: "sys_error \<Rightarrow> bool" where
  "would_block e \<longleftrightarrow> e = Would_Block"

definition make_address :: "'w posix \<Rightarrow> string \<Rightarrow> buf option" where
  "make_address px addr = (if addr = [] then Some [0, 0, 0, 0] else inet_pton px addr)"

definition copy_peer :: "'w posix \<Rightarrow> buf \<Rightarrow> u16 \<Rightarrow> net_addr option" where
  "copy_peer px addr p = map_option (\<lambda>t. \<lparr>ip = t, port = p\<rparr>) (inet_ntop px addr)"

definition set_nonblocking :: "'w posix \<Rightarrow> nat \<Rightarrow> 'w \<Rightarrow> bool \<times> 'w" where
  "set_nonblocking px fd w =
     (case get_flags px fd w of
        (None, w) \<Rightarrow> (False, w)
      | (Some f, w) \<Rightarrow> set_flags px fd (f OR 0x800) w)"

definition socket_valid :: "net_socket \<Rightarrow> bool" where
  "socket_valid so \<longleftrightarrow> handle so \<noteq> None"

definition net_close :: "'w posix \<Rightarrow> net_socket \<Rightarrow> 'w \<Rightarrow> net_socket \<times> 'w" where
  "net_close px so w =
     (closed_socket, case handle so of Some fd \<Rightarrow> sys_close px fd w | None \<Rightarrow> w)"

subsection \<open>Opening\<close>

text \<open>The steps that follow \<open>socket\<close>; none when one of them fails.\<close>

definition configure_bound ::
  "'w posix \<Rightarrow> nat \<Rightarrow> buf \<Rightarrow> u16 \<Rightarrow> bool \<Rightarrow> 'w \<Rightarrow> u16 option \<times> 'w" where
  "configure_bound px fd addr p tcp w =
     (let (good, w) = sys_reuse px fd w in
      if \<not> good then (None, w)
      else
        let (good, w) = set_nonblocking px fd w in
        if \<not> good then (None, w)
        else
          let (good, w) = sys_bind px fd addr p w in
          if \<not> good then (None, w)
          else
            let (good, w) = (if tcp then sys_listen px fd 4 w else (True, w)) in
            if \<not> good then (None, w) else sys_getsockname px fd w)"

definition open_bound :: "'w posix \<Rightarrow> string \<Rightarrow> u16 \<Rightarrow> bool \<Rightarrow> 'w \<Rightarrow> net_socket option \<times> 'w" where
  "open_bound px addr p tcp w =
     (case make_address px addr of
        None \<Rightarrow> (None, w)
      | Some a \<Rightarrow>
          (case sys_socket px tcp w of
             (None, w) \<Rightarrow> (None, w)
           | (Some fd, w) \<Rightarrow>
               (case configure_bound px fd a p tcp w of
                  (Some bound, w) \<Rightarrow> (Some \<lparr>handle = Some fd, socket_port = bound\<rparr>, w)
                | (None, w) \<Rightarrow> (None, sys_close px fd w))))"

definition net_tcp_listen :: "'w posix \<Rightarrow> string \<Rightarrow> u16 \<Rightarrow> 'w \<Rightarrow> net_socket option \<times> 'w" where
  "net_tcp_listen px addr p w = open_bound px addr p True w"

definition net_udp_bind :: "'w posix \<Rightarrow> u16 \<Rightarrow> 'w \<Rightarrow> net_socket option \<times> 'w" where
  "net_udp_bind px p w = open_bound px [] p False w"

subsection \<open>Waiting\<close>

definition descriptors :: "net_socket list \<Rightarrow> nat list" where
  "descriptors sockets = List.map_filter handle sockets"

definition ready_flags :: "net_socket list \<Rightarrow> nat list \<Rightarrow> bool list" where
  "ready_flags sockets fds = map (\<lambda>so. case handle so of Some fd \<Rightarrow> fd \<in> set fds | None \<Rightarrow> False) sockets"

text \<open>
  One pass of the loop: what the C function returns, with the flags it stores, or none when the wait was
  interrupted and time is left.
\<close>

definition wait_step ::
  "'w posix \<Rightarrow> net_socket list \<Rightarrow> u32 \<Rightarrow> int \<Rightarrow> bool \<Rightarrow> 'w \<Rightarrow> (int \<times> bool list) option \<times> 'w" where
  "wait_step px sockets start timeout_ms writing w =
     (let none = map (\<lambda>so. False) sockets; fds = descriptors sockets in
      if \<not> list_all (\<lambda>fd. fd < FD_SETSIZE) fds \<or> fds = [] then (Some (NET_ERROR, none), w)
      else
        let (left, w) = remaining_ms px start timeout_ms w;
            limit = (if timeout_ms \<ge> 0 then Some (cdiv left 1000, cmod left 1000 * 1000) else None);
            (selected, w) = sys_select px writing fds limit w in
        (case selected of
           Inr found \<Rightarrow>
             if found = [] then (Some (0, none), w)
             else
               let flags = ready_flags sockets found in
               (Some (int (length (filter (\<lambda>b. b) flags)), flags), w)
         | Inl e \<Rightarrow>
             if e \<noteq> Interrupted then (Some (NET_ERROR, none), w)
             else
               let (left, w) = remaining_ms px start timeout_ms w in
               (if left = 0 then Some (0, none) else None, w)))"

partial_function (option) wait_loop ::
  "'w posix \<Rightarrow> net_socket list \<Rightarrow> u32 \<Rightarrow> int \<Rightarrow> bool \<Rightarrow> 'w \<Rightarrow> ((int \<times> bool list) \<times> 'w) option" where
  "wait_loop px sockets start timeout_ms writing w =
     (case wait_step px sockets start timeout_ms writing w of
        (Some r, w) \<Rightarrow> Some (r, w)
      | (None, w) \<Rightarrow> wait_loop px sockets start timeout_ms writing w)"

definition wait_sockets ::
  "'w posix \<Rightarrow> net_socket list \<Rightarrow> int \<Rightarrow> bool \<Rightarrow> 'w \<Rightarrow> ((int \<times> bool list) \<times> 'w) option" where
  "wait_sockets px sockets timeout_ms writing w =
     (let (start, w) = now_ms px w in
      if sockets = [] \<or> length sockets > FD_SETSIZE \<or> timeout_ms < - 1
      then Some ((NET_ERROR, map (\<lambda>so. False) sockets), w)
      else wait_loop px sockets start timeout_ms writing w)"

definition net_wait :: "'w posix \<Rightarrow> net_socket list \<Rightarrow> int \<Rightarrow> 'w \<Rightarrow> ((int \<times> bool list) \<times> 'w) option" where
  "net_wait px sockets timeout_ms w = wait_sockets px sockets timeout_ms False w"

definition wait_one :: "'w posix \<Rightarrow> net_socket \<Rightarrow> int \<Rightarrow> bool \<Rightarrow> 'w \<Rightarrow> (int \<times> 'w) option" where
  "wait_one px so timeout_ms writing w = do {
     ((r, _), w) \<leftarrow> wait_sockets px [so] timeout_ms writing w;
     Some (if r > 0 then 0 else if r = 0 then NET_TIMEOUT else NET_ERROR, w) }"

subsection \<open>TCP\<close>

definition net_tcp_accept :: "'w posix \<Rightarrow> net_socket \<Rightarrow> int \<Rightarrow> 'w \<Rightarrow> (accepted \<times> 'w) option" where
  "net_tcp_accept px ls timeout_ms w =
     (case handle ls of
        None \<Rightarrow> Some (Accept_Error, w)
      | Some l \<Rightarrow> do {
          (r, w) \<leftarrow> wait_one px ls timeout_ms False w;
          if r \<noteq> 0 then Some (if r = NET_TIMEOUT then Accept_Timeout else Accept_Error, w)
          else
            (case sys_accept px l w of
               (Inl e, w) \<Rightarrow> Some (if would_block e then Accept_Timeout else Accept_Error, w)
             | (Inr (fd, addr, p), w) \<Rightarrow>
                 let (good, w) = set_nonblocking px fd w in
                 (case (if good then copy_peer px addr p else None) of
                    None \<Rightarrow> Some (Accept_Error, sys_close px fd w)
                  | Some pr \<Rightarrow> Some (Accepted \<lparr>handle = Some fd, socket_port = socket_port ls\<rparr> pr, w))) })"

definition net_tcp_recv :: "'w posix \<Rightarrow> net_socket \<Rightarrow> nat \<Rightarrow> int \<Rightarrow> 'w \<Rightarrow> (received \<times> 'w) option" where
  "net_tcp_recv px so capacity timeout_ms w =
     (case handle so of
        None \<Rightarrow> Some (Receive_Error, w)
      | Some fd \<Rightarrow>
          if capacity = 0 \<or> capacity > INT_MAX then Some (Receive_Error, w)
          else do {
            (r, w) \<leftarrow> wait_one px so timeout_ms False w;
            if r \<noteq> 0 then Some (if r = NET_TIMEOUT then Receive_Timeout else Receive_Error, w)
            else
              (case sys_recv px fd capacity w of
                 (Inr data, w) \<Rightarrow> Some (Received data, w)
               | (Inl e, w) \<Rightarrow> Some (if would_block e then Receive_Timeout else Receive_Error, w)) })"

text \<open>One pass of the loop with bytes left: what the function returns, or the bytes that are left after it.\<close>

definition send_step ::
  "'w posix \<Rightarrow> net_socket \<Rightarrow> nat \<Rightarrow> u32 \<Rightarrow> int \<Rightarrow> buf \<Rightarrow> 'w \<Rightarrow> ((int + buf) \<times> 'w) option" where
  "send_step px so fd start timeout_ms rest w =
     (let (left, w) = remaining_ms px start timeout_ms w in do {
        (r, w) \<leftarrow> wait_one px so left True w;
        if r \<noteq> 0 then Some (Inl r, w)
        else
          let (sent, w) = sys_send px fd (take INT_MAX rest) w;
              failed = (case sent of Inr n \<Rightarrow> n = 0 | Inl e \<Rightarrow> e = Other_Error);
              rest = (case sent of Inr n \<Rightarrow> drop n rest | Inl e \<Rightarrow> rest) in
          if failed then Some (Inl NET_ERROR, w)
          else if rest \<noteq> [] then
            (let (left, w) = remaining_ms px start timeout_ms w in
             Some (if left = 0 then Inl NET_TIMEOUT else Inr rest, w))
          else Some (Inr rest, w) })"

partial_function (option) send_loop ::
  "'w posix \<Rightarrow> net_socket \<Rightarrow> nat \<Rightarrow> u32 \<Rightarrow> int \<Rightarrow> buf \<Rightarrow> 'w \<Rightarrow> (int \<times> 'w) option" where
  "send_loop px so fd start timeout_ms rest w =
     (if rest = [] then Some (0, w)
      else do {
        (r, w) \<leftarrow> send_step px so fd start timeout_ms rest w;
        (case r of
           Inl result \<Rightarrow> Some (result, w)
         | Inr rest \<Rightarrow> send_loop px so fd start timeout_ms rest w) })"

definition net_tcp_send_all :: "'w posix \<Rightarrow> net_socket \<Rightarrow> buf \<Rightarrow> int \<Rightarrow> 'w \<Rightarrow> (int \<times> 'w) option" where
  "net_tcp_send_all px so data timeout_ms w =
     (let (start, w) = now_ms px w in
      case handle so of
        None \<Rightarrow> Some (NET_ERROR, w)
      | Some fd \<Rightarrow>
          if timeout_ms < - 1 then Some (NET_ERROR, w) else send_loop px so fd start timeout_ms data w)"

subsection \<open>UDP\<close>

definition net_udp_recv :: "'w posix \<Rightarrow> net_socket \<Rightarrow> nat \<Rightarrow> int \<Rightarrow> 'w \<Rightarrow> (udp_recv \<times> 'w) option" where
  "net_udp_recv px so capacity timeout_ms w =
     (case handle so of
        None \<Rightarrow> Some (RecvError, w)
      | Some fd \<Rightarrow>
          if capacity = 0 \<or> capacity > INT_MAX then Some (RecvError, w)
          else do {
            (r, w) \<leftarrow> wait_one px so timeout_ms False w;
            if r \<noteq> 0 then Some (if r = NET_TIMEOUT then RecvTimeout else RecvError, w)
            else
              (case sys_recvmsg px fd capacity w of
                 (Inl e, w) \<Rightarrow> Some (if would_block e then RecvTimeout else RecvError, w)
               | (Inr (data, truncated, addr, p), w) \<Rightarrow>
                   if truncated then Some (RecvTimeout, w)
                   else
                     (case copy_peer px addr p of
                        None \<Rightarrow> Some (RecvError, w)
                      | Some pr \<Rightarrow> Some (Datagram data pr, w))) })"

definition net_udp_send :: "'w posix \<Rightarrow> net_socket \<Rightarrow> buf \<Rightarrow> net_addr \<Rightarrow> 'w \<Rightarrow> int \<times> 'w" where
  "net_udp_send px so data pr w =
     (case handle so of
        None \<Rightarrow> (NET_ERROR, w)
      | Some fd \<Rightarrow>
          if length data > INT_MAX \<or> port pr = 0 then (NET_ERROR, w)
          else
            (case make_address px (ip pr) of
               None \<Rightarrow> (NET_ERROR, w)
             | Some a \<Rightarrow>
                 (case sys_sendto px fd data a (port pr) w of
                    (Inr n, w) \<Rightarrow> (int n, w)
                  | (Inl e, w) \<Rightarrow> (if would_block e then NET_TIMEOUT else NET_ERROR, w))))"

definition net_udp_join :: "'w posix \<Rightarrow> net_socket \<Rightarrow> string \<Rightarrow> string \<Rightarrow> 'w \<Rightarrow> bool \<times> 'w" where
  "net_udp_join px so grp interface_ip w =
     (case (handle so, make_address px grp, make_address px interface_ip) of
        (Some fd, Some g, Some i) \<Rightarrow>
          if hd g AND 0xf0 \<noteq> 0xe0 then (False, w)
          else
            let (good, w) = multicast_if px fd i w in
            if \<not> good then (False, w)
            else
              let (good, w) = multicast_ttl px fd 255 w in
              if \<not> good then (False, w) else add_membership px fd g i w
      | _ \<Rightarrow> (False, w))"



subsection \<open>The kernel\<close>

text \<open>
  What the code relies on, of a kernel in which \<open>fds\<close> are the open descriptors and \<open>out\<close> the bytes that
  each has taken over for sending: descriptors that are new are not open, sending takes over a
  beginning of the bytes, a receive stores no more than there is room for, only the descriptors that were asked for are
  ready, and no other call changes descriptors or what was sent.
\<close>

definition same :: "('w \<Rightarrow> nat set) \<Rightarrow> ('w \<Rightarrow> nat \<Rightarrow> buf) \<Rightarrow> 'w \<Rightarrow> 'w \<Rightarrow> bool" where
  "same fds out w w' \<longleftrightarrow> fds w' = fds w \<and> out w' = out w"

definition opens :: "('w \<Rightarrow> nat set) \<Rightarrow> ('w \<Rightarrow> nat \<Rightarrow> buf) \<Rightarrow> nat \<Rightarrow> 'w \<Rightarrow> 'w \<Rightarrow> bool" where
  "opens fds out fd w w' \<longleftrightarrow> fd \<notin> fds w \<and> fds w' = insert fd (fds w) \<and> out w' = out w"

definition quiet_calls :: "'w posix \<Rightarrow> ('w \<Rightarrow> nat set) \<Rightarrow> ('w \<Rightarrow> nat \<Rightarrow> buf) \<Rightarrow> bool" where
  "quiet_calls px fds out \<longleftrightarrow>
     (\<forall>w. same fds out w (snd (clock_monotonic px w))) \<and>
     (\<forall>fd w. same fds out w (snd (sys_reuse px fd w))) \<and>
     (\<forall>fd w. same fds out w (snd (get_flags px fd w))) \<and>
     (\<forall>fd f w. same fds out w (snd (set_flags px fd f w))) \<and>
     (\<forall>fd a p w. same fds out w (snd (sys_bind px fd a p w))) \<and>
     (\<forall>fd n w. same fds out w (snd (sys_listen px fd n w))) \<and>
     (\<forall>fd w. same fds out w (snd (sys_getsockname px fd w))) \<and>
     (\<forall>b l t w. same fds out w (snd (sys_select px b l t w))) \<and>
     (\<forall>fd n w. same fds out w (snd (sys_recv px fd n w)))"

definition descriptor_calls :: "'w posix \<Rightarrow> ('w \<Rightarrow> nat set) \<Rightarrow> ('w \<Rightarrow> nat \<Rightarrow> buf) \<Rightarrow> bool" where
  "descriptor_calls px fds out \<longleftrightarrow>
     (\<forall>tcp w w'. sys_socket px tcp w = (None, w') \<longrightarrow> same fds out w w') \<and>
     (\<forall>tcp w fd w'. sys_socket px tcp w = (Some fd, w') \<longrightarrow> opens fds out fd w w') \<and>
     (\<forall>l w e w'. sys_accept px l w = (Inl e, w') \<longrightarrow> same fds out w w') \<and>
     (\<forall>l w fd a p w'. sys_accept px l w = (Inr (fd, a, p), w') \<longrightarrow> opens fds out fd w w') \<and>
     (\<forall>fd w. fds (sys_close px fd w) = fds w - {fd}) \<and> (\<forall>fd w. out (sys_close px fd w) = out w)"

definition send_calls :: "'w posix \<Rightarrow> ('w \<Rightarrow> nat set) \<Rightarrow> ('w \<Rightarrow> nat \<Rightarrow> buf) \<Rightarrow> bool" where
  "send_calls px fds out \<longleftrightarrow>
     (\<forall>fd b w e w'. sys_send px fd b w = (Inl e, w') \<longrightarrow> same fds out w w') \<and>
     (\<forall>fd b w n w'. sys_send px fd b w = (Inr n, w') \<longrightarrow>
        n \<le> length b \<and> fds w' = fds w \<and> out w' = (out w)(fd := out w fd @ take n b))"

definition kernel_ok :: "'w posix \<Rightarrow> ('w \<Rightarrow> nat set) \<Rightarrow> ('w \<Rightarrow> nat \<Rightarrow> buf) \<Rightarrow> bool" where
  "kernel_ok px fds out \<longleftrightarrow> quiet_calls px fds out \<and> descriptor_calls px fds out \<and> send_calls px fds out"

lemma same_refl [simp]: "same fds out w w"
  by (simp add: same_def)

lemma same_trans: "same fds out a b \<Longrightarrow> same fds out b c \<Longrightarrow> same fds out a c"
  by (simp add: same_def)

text \<open>Waiting changes nothing.\<close>

lemma quiet_step:
  assumes "quiet_calls px fds out"
  shows "now_ms px w = (x, w') \<Longrightarrow> same fds out w w'" "remaining_ms px start t w = (y, w') \<Longrightarrow> same fds out w w'"
    "sys_select px b l tv w = (z, w') \<Longrightarrow> same fds out w w'" "set_nonblocking px fd w = (v, w') \<Longrightarrow> same fds out w w'"
proof -
  note q = assms [unfolded quiet_calls_def]
  have c: "clock_monotonic px w = (x, w') \<Longrightarrow> same fds out w w'" for x w w' using q by (metis snd_conv)
  have f: "get_flags px fd w = (x, w') \<Longrightarrow> same fds out w w'" for fd x w w' using q by (metis snd_conv)
  have g: "set_flags px fd y w = (x, w') \<Longrightarrow> same fds out w w'" for fd y x w w' using q by (metis snd_conv)
  show n: "now_ms px w = (x, w') \<Longrightarrow> same fds out w w'" for x w w'
    by (auto simp: now_ms_def split: prod.splits dest: c)
  show "remaining_ms px start t w = (y, w') \<Longrightarrow> same fds out w w'"
    by (auto simp: remaining_ms_def Let_def split: prod.splits if_splits dest: n)
  show "sys_select px b l tv w = (z, w') \<Longrightarrow> same fds out w w'" using q by (metis snd_conv)
  show "set_nonblocking px fd w = (v, w') \<Longrightarrow> same fds out w w'"
    by (auto simp: set_nonblocking_def split: prod.splits option.splits dest!: f g intro: same_trans)
qed

lemma wait_step_same:
  assumes q: "quiet_calls px fds out" and s: "wait_step px ss start t writing w = (r, w')"
  shows "same fds out w w'"
  using s unfolding wait_step_def Let_def
  by (auto simp: same_def split: prod.splits if_splits sum.splits dest!: quiet_step [OF q])

lemma wait_loop_same:
  assumes q: "quiet_calls px fds out" and r: "wait_loop px ss start t writing w = Some (r, w')"
  shows "same fds out w w'"
proof -
  have "\<forall>fds out. quiet_calls px fds out \<longrightarrow> same fds out w (snd (r, w'))"
  proof (rule wait_loop.raw_induct [where P = "\<lambda>px ss start t writing w y.
      \<forall>fds out. quiet_calls px fds out \<longrightarrow> same fds out w (snd y)", OF _ r], intro allI impI)
    fix f px ss start t writing w y fds out
    assume ih: "\<And>px ss start t writing w y. f px ss start t writing w = Some y \<Longrightarrow>
        \<forall>fds out. quiet_calls px fds out \<longrightarrow> same fds out w (snd y)"
      and eq: "(case wait_step px ss start t writing w of (Some r, w) \<Rightarrow> Some (r, w)
        | (None, w) \<Rightarrow> f px ss start t writing w) = Some y"
      and q: "quiet_calls px fds out"
    obtain v w1 where s: "wait_step px ss start t writing w = (v, w1)" by fastforce
    have "same fds out w w1" by (rule wait_step_same [OF q s])
    then show "same fds out w (snd y)"
      using eq s ih [of px ss start t writing w1 y] q by (cases v) (auto intro: same_trans)
  qed
  then show ?thesis using q by simp
qed

lemma wait_same:
  assumes q: "quiet_calls px fds out"
  shows "wait_sockets px ss t writing w = Some (r, w') \<Longrightarrow> same fds out w w'"
    and "wait_one px so t writing w = Some (x, w') \<Longrightarrow> same fds out w w'"
proof -
  show s: "wait_sockets px ss t writing w = Some (r, w') \<Longrightarrow> same fds out w w'" for ss t writing w r w'
    by (auto simp: wait_sockets_def split: prod.splits if_splits
        dest!: quiet_step(1) [OF q] wait_loop_same [OF q] intro: same_trans)
  show "wait_one px so t writing w = Some (x, w') \<Longrightarrow> same fds out w w'"
    by (auto simp: wait_one_def bind_eq_Some_conv dest: s)
qed

text \<open>The kernel's promises, call by call.\<close>

lemma kernel_send:
  "kernel_ok px fds out \<Longrightarrow> sys_send px fd b w = (Inl e, w') \<Longrightarrow> same fds out w w'"
  "kernel_ok px fds out \<Longrightarrow> sys_send px fd b w = (Inr n, w') \<Longrightarrow>
    n \<le> length b \<and> fds w' = fds w \<and> out w' = (out w)(fd := out w fd @ take n b)"
  by (simp_all add: kernel_ok_def send_calls_def)

lemma kernel_new:
  "kernel_ok px fds out \<Longrightarrow> sys_socket px tcp w = (None, w') \<Longrightarrow> same fds out w w'"
  "kernel_ok px fds out \<Longrightarrow> sys_socket px tcp w = (Some fd, w') \<Longrightarrow> opens fds out fd w w'"
  "kernel_ok px fds out \<Longrightarrow> sys_accept px l w = (Inl e, w') \<Longrightarrow> same fds out w w'"
  "kernel_ok px fds out \<Longrightarrow> sys_accept px l w = (Inr (fd, a, p), w') \<Longrightarrow> opens fds out fd w w'"
  "kernel_ok px fds out \<Longrightarrow> fds (sys_close px fd w) = fds w - {fd}"
  "kernel_ok px fds out \<Longrightarrow> out (sys_close px fd w) = out w"
  by (simp_all add: kernel_ok_def descriptor_calls_def)

subsection \<open>Sending\<close>

text \<open>What was sent is a beginning of the bytes; \<open>rest\<close> is left.\<close>

definition sent_part :: "('w \<Rightarrow> nat set) \<Rightarrow> ('w \<Rightarrow> nat \<Rightarrow> buf) \<Rightarrow> nat \<Rightarrow> buf \<Rightarrow> buf \<Rightarrow> 'w \<Rightarrow> 'w \<Rightarrow> bool" where
  "sent_part fds out fd data rest w w' \<longleftrightarrow>
     (\<exists>n. rest = drop n data \<and> fds w' = fds w \<and> out w' = (out w)(fd := out w fd @ take n data))"

lemma sent_none: "same fds out w w' \<Longrightarrow> sent_part fds out fd data data w w'"
  by (auto simp: sent_part_def same_def intro!: exI [of _ 0])

lemma sent_same: "same fds out w w1 \<Longrightarrow> sent_part fds out fd data rest w1 w2 \<Longrightarrow> sent_part fds out fd data rest w w2"
  "sent_part fds out fd data rest w w1 \<Longrightarrow> same fds out w1 w2 \<Longrightarrow> sent_part fds out fd data rest w w2"
  by (simp_all add: sent_part_def same_def)

lemma sent_trans:
  assumes "sent_part fds out fd data rest w w1" and "sent_part fds out fd rest rest' w1 w2"
  shows "sent_part fds out fd data rest' w w2"
proof -
  obtain n where n: "rest = drop n data" "fds w1 = fds w" "out w1 = (out w)(fd := out w fd @ take n data)"
    using assms(1) by (auto simp: sent_part_def)
  obtain m where m: "rest' = drop m rest" "fds w2 = fds w1" "out w2 = (out w1)(fd := out w1 fd @ take m rest)"
    using assms(2) by (auto simp: sent_part_def)
  have "take n data @ take m (drop n data) = take (n + m) data" by (simp add: take_add)
  then show ?thesis
    using n m by (auto simp: sent_part_def ac_simps intro!: exI [of _ "n + m"])
qed

lemma send_step_part:
  assumes k: "kernel_ok px fds out" and s: "send_step px so fd start t data w = Some (r, w')"
  shows "\<exists>rest. sent_part fds out fd data rest w w' \<and>
    (case r of Inl result \<Rightarrow> (result = NET_ERROR \<or> result = NET_TIMEOUT) \<and> (data \<noteq> [] \<longrightarrow> rest \<noteq> []) | Inr left \<Rightarrow> left = rest)"
proof -
  have q: "quiet_calls px fds out" using k by (simp add: kernel_ok_def)
  obtain left w1 where rem: "remaining_ms px start t w = (left, w1)" by fastforce
  obtain x w2 where wait: "wait_one px so left True w1 = Some (x, w2)"
    using s rem by (auto simp: send_step_def bind_eq_Some_conv)
  have same2: "same fds out w w2"
    using quiet_step(2) [OF q rem] wait_same(2) [OF q wait] by (rule same_trans)
  show ?thesis
  proof (cases "x = 0")
    case False
    then have "x = NET_ERROR \<or> x = NET_TIMEOUT"
      using wait by (auto simp: wait_one_def bind_eq_Some_conv split: if_splits)
    then show ?thesis
      using False s rem wait sent_none [OF same2, of fd data] by (auto simp: send_step_def intro!: exI [of _ data])
  next
    case x: True
    obtain res w3 where snd: "sys_send px fd (take INT_MAX data) w2 = (res, w3)" by fastforce
    define rest where "rest = (case res of Inr n \<Rightarrow> drop n data | Inl e \<Rightarrow> data)"
    define failed where "failed \<longleftrightarrow> (case res of Inr n \<Rightarrow> n = 0 | Inl e \<Rightarrow> e = Other_Error)"
    have part: "sent_part fds out fd data rest w w3"
    proof (cases res)
      case (Inl e)
      then have "same fds out w2 w3" using kernel_send(1) [OF k] snd by simp
      then show ?thesis using Inl same2 by (auto simp: rest_def intro!: sent_none intro: same_trans)
    next
      case (Inr n)
      then have "sent_part fds out fd data rest w2 w3"
        using kernel_send(2) [OF k, of fd "take INT_MAX data" w2 n w3] snd
        by (auto simp: sent_part_def rest_def min_absorb2 min.coboundedI1 intro!: exI [of _ n])
      then show ?thesis by (rule sent_same(1) [OF same2])
    qed
    have s3: "(if failed then Some (Inl NET_ERROR, w3)
          else if rest \<noteq> [] then
            (let (left, w) = remaining_ms px start t w3 in Some (if left = 0 then Inl NET_TIMEOUT else Inr rest, w))
          else Some (Inr rest, w3)) = Some (r, w')"
      using s rem wait x snd by (simp add: send_step_def flip: rest_def failed_def)
    have "failed \<Longrightarrow> rest = data" by (auto simp: failed_def rest_def split: sum.splits)
    then show ?thesis
      using s3 part sent_same(2) [OF part quiet_step(2) [OF q]]
      by (cases "failed"; cases "rest = []") (auto split: prod.splits if_splits intro!: exI [of _ rest])
  qed
qed

definition sent_result :: "('w \<Rightarrow> nat set) \<Rightarrow> ('w \<Rightarrow> nat \<Rightarrow> buf) \<Rightarrow> nat \<Rightarrow> buf \<Rightarrow> 'w \<Rightarrow> int \<times> 'w \<Rightarrow> bool" where
  "sent_result fds out fd data w y \<longleftrightarrow>
     (case y of (r, w') \<Rightarrow> (\<exists>rest. sent_part fds out fd data rest w w' \<and> (r = 0 \<longleftrightarrow> rest = [])) \<and>
        (r = 0 \<or> r = NET_ERROR \<or> r = NET_TIMEOUT))"

lemma sent_result_later:
  assumes "sent_part fds out fd data rest w w1" and "sent_result fds out fd rest w1 y"
  shows "sent_result fds out fd data w y"
  using assms sent_trans [OF assms(1)] by (cases y) (auto simp: sent_result_def)

lemma send_loop_part:
  assumes k: "kernel_ok px fds out" and r: "send_loop px so fd start t data w = Some y"
  shows "sent_result fds out fd data w y"
proof -
  let ?P = "\<lambda>px so fd start t data w y. \<forall>fds out. kernel_ok px fds out \<longrightarrow> sent_result fds out fd data w y"
  have "?P px so fd start t data w y"
  proof (rule send_loop.raw_induct [where P = ?P, OF _ r], intro allI impI)
    fix f px so fd start t data w y fds out
    assume ih: "\<And>px so fd start t data w y. f px so fd start t data w = Some y \<Longrightarrow> ?P px so fd start t data w y"
      and eq: "(if data = [] then Some (0, w)
        else do { (r, w) \<leftarrow> send_step px so fd start t data w;
          (case r of Inl result \<Rightarrow> Some (result, w) | Inr rest \<Rightarrow> f px so fd start t rest w) }) = Some y"
      and k: "kernel_ok px fds out"
    show "sent_result fds out fd data w y"
    proof (cases "data = []")
      case True
      then show ?thesis using eq sent_none [of fds out w w fd "[]"] by (auto simp: sent_result_def)
    next
      case False
      then obtain x w1 where s: "send_step px so fd start t data w = Some (x, w1)"
        using eq by (auto simp: bind_eq_Some_conv)
      obtain rest where part: "sent_part fds out fd data rest w w1"
        "case x of Inl result \<Rightarrow> (result = NET_ERROR \<or> result = NET_TIMEOUT) \<and> (data \<noteq> [] \<longrightarrow> rest \<noteq> []) | Inr left \<Rightarrow> left = rest"
        using send_step_part [OF k s] by blast
      show ?thesis
      proof (cases x)
        case (Inl result)
        then have "y = (result, w1)" using eq False s by simp
        moreover have "result = NET_ERROR \<or> result = NET_TIMEOUT" "rest \<noteq> []" using part(2) Inl False by simp_all
        ultimately show ?thesis using part(1) by (auto simp: sent_result_def NET_ERROR_def NET_TIMEOUT_def)
      next
        case (Inr rest1)
        then have "f px so fd start t rest w1 = Some y" using eq False s part(2) by simp
        from ih [OF this] k have "sent_result fds out fd rest w1 y" by simp
        then show ?thesis by (rule sent_result_later [OF part(1)])
      qed
    qed
  qed
  then show ?thesis using k by simp
qed

lemma send_all_part:
  assumes k: "kernel_ok px fds out" and h: "handle so = Some fd" and r: "net_tcp_send_all px so data t w = Some y"
  shows "fst y = NET_ERROR \<and> same fds out w (snd y) \<or> sent_result fds out fd data w y"
proof -
  have q: "quiet_calls px fds out" using k by (simp add: kernel_ok_def)
  obtain start w1 where n: "now_ms px w = (start, w1)" by fastforce
  note same = quiet_step(1) [OF q n]
  show ?thesis
  proof (cases "t < - 1")
    case True
    then show ?thesis using r h n same by (auto simp: net_tcp_send_all_def)
  next
    case False
    then have "send_loop px so fd start t data w1 = Some y" using r h n by (simp add: net_tcp_send_all_def)
    then have "sent_result fds out fd data w1 y" by (rule send_loop_part [OF k])
    then show ?thesis using same by (cases y) (auto simp: sent_result_def dest: sent_same(1))
  qed
qed

text \<open>A descriptor that is ready whenever it is waited for, and takes over some of the bytes each time.\<close>

definition willing :: "'w posix \<Rightarrow> nat \<Rightarrow> bool" where
  "willing px fd \<longleftrightarrow> fd < FD_SETSIZE \<and> (\<forall>t w. \<exists>w'. sys_select px True [fd] t w = (Inr [fd], w')) \<and>
     (\<forall>b w. b \<noteq> [] \<longrightarrow> (\<exists>n w'. sys_send px fd b w = (Inr n, w') \<and> 0 < n))"

lemma willing_wait:
  assumes "willing px fd" and "handle so = Some fd"
  shows "\<exists>w'. wait_one px so (- 1) True w = Some (0, w')"
proof -
  obtain start w1 where n: "now_ms px w = (start, w1)" by fastforce
  obtain w2 where s: "sys_select px True [fd] None w1 = (Inr [fd], w2)" using assms(1) unfolding willing_def by blast
  have d: "descriptors [so] = [fd]" "ready_flags [so] [fd] = [True]"
    using assms(2) by (simp_all add: descriptors_def ready_flags_def List.map_filter_def)
  have "wait_step px [so] start (- 1) True w1 = (Some (1, [True]), w2)"
    using assms(1) s d by (simp add: wait_step_def remaining_ms_def willing_def)
  then have "wait_loop px [so] start (- 1) True w1 = Some ((1, [True]), w2)"
    by (subst wait_loop.simps) simp
  then show ?thesis using n by (simp add: wait_one_def wait_sockets_def FD_SETSIZE_def)
qed

lemma willing_send:
  assumes k: "willing px fd" and h: "handle so = Some fd"
  shows "\<exists>w'. send_loop px so fd start (- 1) data w = Some (0, w')"
proof (induction "length data" arbitrary: data w rule: less_induct)
  case less
  show ?case
  proof (cases "data = []")
    case True
    then show ?thesis by (subst send_loop.simps) simp
  next
    case False
    obtain w1 where wait: "wait_one px so (- 1) True w = Some (0, w1)" using willing_wait [OF k h] by blast
    have "take INT_MAX data \<noteq> []" using False by (simp add: INT_MAX_def)
    then obtain n w2 where snd: "sys_send px fd (take INT_MAX data) w1 = (Inr n, w2)" "0 < n"
      using k unfolding willing_def by blast
    have "send_step px so fd start (- 1) data w = Some (Inr (drop n data), w2)"
      using wait snd by (simp add: send_step_def remaining_ms_def Let_def)
    moreover have "length (drop n data) < length data" using False snd(2) by simp
    then obtain w' where "send_loop px so fd start (- 1) (drop n data) w2 = Some (0, w')" using less by blast
    ultimately have "send_loop px so fd start (- 1) data w = Some (0, w')"
      using False by (subst send_loop.simps) simp
    then show ?thesis by blast
  qed
qed

subsection \<open>Descriptors\<close>

text \<open>A descriptor is open exactly when its socket was given out.\<close>

lemma configure_bound_same:
  assumes q: "quiet_calls px fds out" and r: "configure_bound px fd a p tcp w = (b, w')"
  shows "same fds out w w'"
proof -
  note c = q [unfolded quiet_calls_def]
  have 1: "sys_reuse px fd w = (x, w') \<Longrightarrow> same fds out w w'" for x w w' using c by (metis snd_conv)
  have 2: "sys_bind px fd a p w = (x, w') \<Longrightarrow> same fds out w w'" for x w w' using c by (metis snd_conv)
  have 3: "sys_listen px fd n w = (x, w') \<Longrightarrow> same fds out w w'" for n x w w' using c by (metis snd_conv)
  have 4: "sys_getsockname px fd w = (x, w') \<Longrightarrow> same fds out w w'" for x w w' using c by (metis snd_conv)
  show ?thesis
    using r by (auto simp: configure_bound_def same_def split: prod.splits if_splits dest!: 1 2 3 4 quiet_step(4) [OF q])
qed

lemma open_bound_descriptors:
  assumes k: "kernel_ok px fds out" and r: "open_bound px addr p tcp w = (so, w')"
  shows "out w' = out w \<and> (case so of
      None \<Rightarrow> fds w' = fds w
    | Some s \<Rightarrow> \<exists>fd. handle s = Some fd \<and> fd \<notin> fds w \<and> fds w' = insert fd (fds w))"
proof -
  have q: "quiet_calls px fds out" using k by (simp add: kernel_ok_def)
  show ?thesis
  proof (cases "make_address px addr")
    case (Some a)
    obtain x w1 where s: "sys_socket px tcp w = (x, w1)" by fastforce
    show ?thesis
    proof (cases x)
      case None
      then show ?thesis using r Some s kernel_new(1) [OF k] by (auto simp: open_bound_def same_def)
    next
      case (Some fd)
      obtain y w2 where c: "configure_bound px fd a p tcp w1 = (y, w2)" by fastforce
      show ?thesis
        using r \<open>make_address px addr = Some a\<close> s Some c kernel_new(2) [OF k, of tcp w fd w1] configure_bound_same [OF q c]
          kernel_new(5,6) [OF k, of fd w2]
        by (cases y) (auto simp: open_bound_def opens_def same_def)
    qed
  qed (use r in \<open>auto simp: open_bound_def\<close>)
qed

lemma accept_descriptors:
  assumes k: "kernel_ok px fds out" and r: "net_tcp_accept px ls t w = Some (res, w')"
  shows "out w' = out w \<and> (case res of
      Accepted s pr \<Rightarrow> \<exists>fd. handle s = Some fd \<and> fd \<notin> fds w \<and> fds w' = insert fd (fds w)
    | _ \<Rightarrow> fds w' = fds w)"
proof (cases "handle ls")
  case (Some l)
  have q: "quiet_calls px fds out" using k by (simp add: kernel_ok_def)
  obtain x w1 where wait: "wait_one px ls t False w = Some (x, w1)"
    using r Some by (auto simp: net_tcp_accept_def bind_eq_Some_conv)
  note same1 = wait_same(2) [OF q wait]
  show ?thesis
  proof (cases "x = 0")
    case False
    then show ?thesis using r Some wait same1 by (auto simp: net_tcp_accept_def same_def)
  next
    case True
    obtain y w2 where a: "sys_accept px l w1 = (y, w2)" by fastforce
    show ?thesis
    proof (cases y)
      case (Inl e)
      then show ?thesis using r Some wait True a same1 kernel_new(3) [OF k] by (auto simp: net_tcp_accept_def same_def)
    next
      case (Inr new)
      obtain fd addr p where new: "new = (fd, addr, p)" by (cases new)
      have o: "opens fds out fd w1 w2" using a Inr new by (auto intro: kernel_new(4) [OF k])
      obtain g w3 where n: "set_nonblocking px fd w2 = (g, w3)" by fastforce
      show ?thesis
        using r Some wait True a Inr new o n same1 quiet_step(4) [OF q n] kernel_new(5,6) [OF k, of fd w3]
        by (cases "if g then copy_peer px addr p else None") (auto simp: net_tcp_accept_def opens_def same_def)
    qed
  qed
qed (use r in \<open>auto simp: net_tcp_accept_def\<close>)

subsection \<open>What a wait returns, and when\<close>

definition flags_sound :: "net_socket list \<Rightarrow> int \<times> bool list \<Rightarrow> bool" where
  "flags_sound ss y \<longleftrightarrow>
     (case y of (r, flags) \<Rightarrow> length flags = length ss \<and>
        (\<forall>j < length ss. flags ! j \<longrightarrow> handle (ss ! j) \<noteq> None) \<and>
        (r = int (length (filter (\<lambda>b. b) flags)) \<or> r = NET_ERROR \<and> True \<notin> set flags))"

lemma no_flags: "flags_sound ss (NET_ERROR, map (\<lambda>so. False) ss)" "flags_sound ss (0, map (\<lambda>so. False) ss)"
  by (auto simp: flags_sound_def filter_map o_def)

lemma found_flags: "flags_sound ss (int (length (filter (\<lambda>b. b) (ready_flags ss found))), ready_flags ss found)"
  by (auto simp: flags_sound_def ready_flags_def split: option.splits)

lemma wait_step_sound: "wait_step px ss start t writing w = (Some y, w') \<Longrightarrow> flags_sound ss y"
  using no_flags [of ss] found_flags [of ss]
  by (auto simp: wait_step_def Let_def split: if_splits prod.splits sum.splits)

text \<open>The world after \<open>k\<close> passes that were all interrupted with time left.\<close>

primrec interrupted ::
  "nat \<Rightarrow> 'w posix \<Rightarrow> net_socket list \<Rightarrow> u32 \<Rightarrow> int \<Rightarrow> bool \<Rightarrow> 'w \<Rightarrow> 'w option" where
  "interrupted 0 px ss start t writing w = Some w"
| "interrupted (Suc k) px ss start t writing w =
     (case wait_step px ss start t writing w of
        (None, w) \<Rightarrow> interrupted k px ss start t writing w
      | (Some _, _) \<Rightarrow> None)"

lemma wait_loop_returns:
  "interrupted k px ss start t writing w = Some w1 \<Longrightarrow> wait_step px ss start t writing w1 = (Some y, w2) \<Longrightarrow>
   wait_loop px ss start t writing w = Some (y, w2)"
proof (induction k arbitrary: w)
  case 0
  then show ?case by (subst wait_loop.simps) simp
next
  case (Suc k)
  then show ?case by (subst wait_loop.simps) (auto split: prod.splits option.splits)
qed

lemma wait_loop_only_returns:
  assumes "wait_loop px ss start t writing w = Some z"
  shows "\<exists>k w1. interrupted k px ss start t writing w = Some w1 \<and> wait_step px ss start t writing w1 = (Some (fst z), snd z)"
proof (rule wait_loop.raw_induct [where P = "\<lambda>px ss start t writing w z.
    \<exists>k w1. interrupted k px ss start t writing w = Some w1 \<and> wait_step px ss start t writing w1 = (Some (fst z), snd z)",
    OF _ assms])
  fix f px ss start t writing w z
  assume ih: "\<And>px ss start t writing w z. f px ss start t writing w = Some z \<Longrightarrow>
      \<exists>k w1. interrupted k px ss start t writing w = Some w1 \<and> wait_step px ss start t writing w1 = (Some (fst z), snd z)"
    and eq: "(case wait_step px ss start t writing w of (Some r, w) \<Rightarrow> Some (r, w)
      | (None, w) \<Rightarrow> f px ss start t writing w) = Some z"
  obtain v w2 where s: "wait_step px ss start t writing w = (v, w2)" by fastforce
  show "\<exists>k w1. interrupted k px ss start t writing w = Some w1 \<and> wait_step px ss start t writing w1 = (Some (fst z), snd z)"
  proof (cases v)
    case None
    then obtain k w1 where "interrupted k px ss start t writing w2 = Some w1"
        "wait_step px ss start t writing w1 = (Some (fst z), snd z)"
      using ih eq s by fastforce
    then show ?thesis using s None by (intro exI [of _ "Suc k"]) simp
  next
    case (Some r)
    then show ?thesis using eq s by (intro exI [of _ 0]) auto
  qed
qed

lemma wait_loop_sound: "wait_loop px ss start t writing w = Some (y, w') \<Longrightarrow> flags_sound ss y"
  using wait_loop_only_returns [of px ss start t writing w "(y, w')"] wait_step_sound by fastforce

subsection \<open>A small kernel\<close>

text \<open>Its world is the open descriptors and what they have sent; it sends two bytes at a time.\<close>

type_synonym small_world = "nat list \<times> (nat \<Rightarrow> buf)"

definition small_kernel :: "small_world posix" where
  "small_kernel =
     \<lparr>clock_monotonic = \<lambda>w. ((1, 5000000), w), sys_socket = \<lambda>tcp w. (Some (Suc (sum_list (fst w))), (Suc (sum_list (fst w)) # fst w, snd w)),
      sys_reuse = \<lambda>fd w. (True, w), get_flags = \<lambda>fd w. (Some 2, w), set_flags = \<lambda>fd f w. (True, w),
      sys_bind = \<lambda>fd a p w. (True, w), sys_listen = \<lambda>fd n w. (True, w), sys_getsockname = \<lambda>fd w. (Some 5000, w),
      sys_close = \<lambda>fd w. (removeAll fd (fst w), snd w), sys_select = \<lambda>wr l t w. (Inr l, w),
      sys_accept = \<lambda>l w. (Inr (Suc (sum_list (fst w)), [10, 0, 0, 2], 6000), (Suc (sum_list (fst w)) # fst w, snd w)),
      sys_recv = \<lambda>fd n w. (Inl Would_Block, w), sys_recvmsg = \<lambda>fd n w. (Inl Would_Block, w),
      sys_send = \<lambda>fd b w. (Inr (min 2 (length b)), (fst w, (snd w)(fd := snd w fd @ take 2 b))),
      sys_sendto = \<lambda>fd b a p w. (Inr (length b), w), multicast_if = \<lambda>fd i w. (True, w),
      multicast_ttl = \<lambda>fd n w. (True, w), add_membership = \<lambda>fd g i w. (True, w),
      inet_pton = \<lambda>s. Some [10, 0, 0, 1], inet_ntop = \<lambda>a. Some ''10.0.0.2''\<rparr>"

lemma fresh_descriptor: "Suc (sum_list l) \<notin> set l"
  using member_le_sum_list [of _ l] by fastforce

lemma small_kernel_ok: "kernel_ok small_kernel (\<lambda>w. set (fst w)) snd"
  by (auto simp: kernel_ok_def quiet_calls_def descriptor_calls_def send_calls_def small_kernel_def same_def opens_def
      fresh_descriptor min_def)

lemma small_kernel_willing: "fd < FD_SETSIZE \<Longrightarrow> willing small_kernel fd"
  by (auto simp: willing_def small_kernel_def)

lemma send_all_spec:
  assumes k: "kernel_ok px fds out" and h: "handle so = Some fd"
  shows "(\<forall>r w'. net_tcp_send_all px so data t w = Some (r, w') \<longrightarrow>
      fds w' = fds w \<and> (r = 0 \<or> r = NET_ERROR \<or> r = NET_TIMEOUT) \<and>
      (\<exists>n. out w' = (out w)(fd := out w fd @ take n data) \<and> (r = 0 \<longrightarrow> length data \<le> n))) \<and>
    (willing px fd \<longrightarrow> (\<exists>w'. net_tcp_send_all px so data (- 1) w = Some (0, w')))"
proof (intro conjI allI impI)
  fix r w'
  assume r: "net_tcp_send_all px so data t w = Some (r, w')"
  have s: "r = NET_ERROR \<and> same fds out w w' \<or> sent_result fds out fd data w (r, w')"
    using send_all_part [OF k h r] by simp
  then show "fds w' = fds w" and "r = 0 \<or> r = NET_ERROR \<or> r = NET_TIMEOUT"
    by (auto simp: same_def sent_result_def sent_part_def)
  show "\<exists>n. out w' = (out w)(fd := out w fd @ take n data) \<and> (r = 0 \<longrightarrow> length data \<le> n)"
    using s
  proof
    assume "r = NET_ERROR \<and> same fds out w w'"
    then show ?thesis by (intro exI [of _ 0]) (simp add: same_def NET_ERROR_def)
  next
    assume "sent_result fds out fd data w (r, w')"
    then show ?thesis by (auto simp: sent_result_def sent_part_def)
  qed
next
  assume "willing px fd"
  obtain start w1 where n: "now_ms px w = (start, w1)" by fastforce
  show "\<exists>w'. net_tcp_send_all px so data (- 1) w = Some (0, w')"
    using willing_send [OF \<open>willing px fd\<close> h, of start data w1] h n by (simp add: net_tcp_send_all_def)
qed

subsection \<open>Properties\<close>

text \<open>
  C7: sending is all or an error.  However the kernel cuts, delays and interrupts, \<open>net_tcp_send_all\<close> hands it a
  beginning of the data, each byte once and in order, changes nothing else, and reports success only
  when that is all of them; and without a time limit it does succeed on a descriptor that keeps taking
  bytes.
\<close>

theorem linux_send_all:
  assumes "kernel_ok px fds out" and "handle so = Some fd"
  shows "(\<forall>r w'. net_tcp_send_all px so data t w = Some (r, w') \<longrightarrow>
      fds w' = fds w \<and> (r = 0 \<or> r = NET_ERROR \<or> r = NET_TIMEOUT) \<and>
      (\<exists>n. out w' = (out w)(fd := out w fd @ take n data) \<and> (r = 0 \<longrightarrow> length data \<le> n))) \<and>
    (willing px fd \<longrightarrow> (\<exists>w'. net_tcp_send_all px so data (- 1) w = Some (0, w')))"
  by (rule send_all_spec [OF assms])

theorem linux_send_all_witness:
  "\<exists>w'. net_tcp_send_all small_kernel \<lparr>handle = Some 7, socket_port = 80\<rparr> [1, 2, 3, 4, 5] (- 1) ([7], \<lambda>fd. []) = Some (0, w') \<and>
     snd w' 7 = [1, 2, 3, 4, 5]"
proof -
  have "willing small_kernel 7" by (rule small_kernel_willing) (simp add: FD_SETSIZE_def)
  then show ?thesis
    using linux_send_all [OF small_kernel_ok, of "\<lparr>handle = Some 7, socket_port = 80\<rparr>" 7 "[1, 2, 3, 4, 5]" "- 1" "([7], \<lambda>fd. [])"]
    by fastforce
qed

text \<open>
  C26: descriptors do not leak.  Opening a socket and accepting a connection each leave open exactly the
  descriptor of the socket they give out, which is a new one, and none when they fail, at whatever step; what
  was sent is not touched.
\<close>

theorem linux_descriptors:
  assumes "kernel_ok px fds out"
  shows "(open_bound px addr p tcp w = (so, w') \<longrightarrow> out w' = out w \<and>
      (case so of None \<Rightarrow> fds w' = fds w
       | Some s \<Rightarrow> \<exists>fd. handle s = Some fd \<and> fd \<notin> fds w \<and> fds w' = insert fd (fds w))) \<and>
    (net_tcp_accept px ls t w = Some (res, w') \<longrightarrow> out w' = out w \<and>
      (case res of Accepted s pr \<Rightarrow> \<exists>fd. handle s = Some fd \<and> fd \<notin> fds w \<and> fds w' = insert fd (fds w)
       | _ \<Rightarrow> fds w' = fds w))"
  using open_bound_descriptors [OF assms] accept_descriptors [OF assms] by blast

theorem linux_descriptors_witness:
  "open_bound (small_kernel\<lparr>sys_bind := \<lambda>fd a p w. (False, w)\<rparr>) [] 80 True ([3], \<lambda>fd. []) = (None, ([3], \<lambda>fd. [])) \<and>
   (\<exists>so w'. open_bound small_kernel [] 80 True ([3], \<lambda>fd. []) = (Some so, w') \<and> set (fst w') = {3, 4})"
proof -
  let ?bad = "small_kernel\<lparr>sys_bind := \<lambda>fd a p w. (False, w)\<rparr>"
  have "open_bound ?bad [] 80 True ([3], \<lambda>fd. []) = (None, ([3], \<lambda>fd. []))"
    by (simp add: open_bound_def configure_bound_def set_nonblocking_def make_address_def small_kernel_def)
  moreover obtain w' where o: "open_bound small_kernel [] 80 True ([3], \<lambda>fd. []) = (Some \<lparr>handle = Some 4, socket_port = 5000\<rparr>, w')"
    by (simp add: open_bound_def configure_bound_def set_nonblocking_def make_address_def small_kernel_def)
  ultimately show ?thesis
    using linux_descriptors [OF small_kernel_ok, of "[]" 80 True "([3], \<lambda>fd. [])" "Some \<lparr>handle = Some 4, socket_port = 5000\<rparr>" w']
    by auto
qed

text \<open>
  What a wait promises.  On a proper list of sockets a wait returns exactly when, after passes that were
  interrupted with time left, one is not or no time is left, and gives that pass's result; a result flags only
  open sockets, as many as it counts, and none with an error.
\<close>

theorem linux_wait:
  assumes "ss \<noteq> []" and "length ss \<le> FD_SETSIZE" and "- 1 \<le> t" and "now_ms px w = (start, w0)"
  shows "(net_wait px ss t w = Some (y, w') \<longleftrightarrow>
      (\<exists>k w1. interrupted k px ss start t False w0 = Some w1 \<and> wait_step px ss start t False w1 = (Some y, w'))) \<and>
    (net_wait px ss t w = Some (y, w') \<longrightarrow> flags_sound ss y)"
proof -
  have "net_wait px ss t w = wait_loop px ss start t False w0"
    using assms by (simp add: net_wait_def wait_sockets_def)
  then show ?thesis
    using wait_loop_returns [of _ px ss start t False w0 _ y w'] wait_loop_only_returns [of px ss start t False w0 "(y, w')"]
      wait_loop_sound [of px ss start t False w0 y w'] by auto
qed

theorem linux_wait_witness:
  "\<exists>w'. net_wait small_kernel [closed_socket, \<lparr>handle = Some 5, socket_port = 80\<rparr>] 20 ([5], \<lambda>fd. []) = Some ((1, [False, True]), w')"
proof -
  let ?ss = "[closed_socket, \<lparr>handle = Some 5, socket_port = 80\<rparr>]"
  obtain start w0 where n: "now_ms small_kernel ([5], \<lambda>fd. []) = (start, w0)" by (rule prod.exhaust)
  have "\<exists>w'. wait_step small_kernel ?ss start 20 False w0 = (Some (1, [False, True]), w')"
    by (simp add: wait_step_def small_kernel_def descriptors_def List.map_filter_def closed_socket_def FD_SETSIZE_def
        ready_flags_def Let_def split: prod.split)
  then obtain w' where "wait_step small_kernel ?ss start 20 False w0 = (Some (1, [False, True]), w')" by blast
  moreover have "interrupted 0 small_kernel ?ss start 20 False w0 = Some w0" by simp
  ultimately have "\<exists>k w1. interrupted k small_kernel ?ss start 20 False w0 = Some w1 \<and>
      wait_step small_kernel ?ss start 20 False w1 = (Some (1, [False, True]), w')"
    by blast
  moreover have "?ss \<noteq> []" "length ?ss \<le> FD_SETSIZE" "- 1 \<le> (20 :: int)" by (simp_all add: FD_SETSIZE_def)
  ultimately have "net_wait small_kernel ?ss 20 ([5], \<lambda>fd. []) = Some ((1, [False, True]), w')"
    using linux_wait [OF _ _ _ n, of ?ss 20 "(1, [False, True])" w'] by blast
  then show ?thesis by blast
qed

end
