(* ===== verification/Linux_Audio.thy ===== *)
theory Linux_Audio
  imports Prelude
begin

section \<open>Sound and time on Linux: \<open>src/platform/linux/audio.c\<close> and \<open>os.c\<close>\<close>

text \<open>
  The output device over ALSA and the operating system's services.  The library calls are fields of a
  record over a world of any type.  A handle is a number; an error is one of those that the code asks for.
  Samples that \<open>writei\<close> takes are whole frames, one sample for each channel.
\<close>

datatype alsa_error = Broken_Pipe | Suspended | Try_Again | Was_Interrupted | Other_Error

text \<open>
  \<open>pcm_writei\<close> gets the samples from the position on and the number of frames that are offered;
  \<open>pcm_wait\<close> gives none on success.  \<open>sw_params\<close> stands for the three calls that set the start
  threshold, in their order, by number.
\<close>

record 'w alsa =
  memory :: "'w \<Rightarrow> bool \<times> 'w"
  pcm_open :: "'w \<Rightarrow> nat option \<times> 'w"
  pcm_set_params :: "nat \<Rightarrow> u8 \<Rightarrow> u32 \<Rightarrow> nat \<Rightarrow> 'w \<Rightarrow> bool \<times> 'w"
  sw_params :: "nat \<Rightarrow> nat \<Rightarrow> 'w \<Rightarrow> bool \<times> 'w"
  pcm_xrun :: "nat \<Rightarrow> 'w \<Rightarrow> bool \<times> 'w"
  pcm_delay :: "nat \<Rightarrow> 'w \<Rightarrow> int option \<times> 'w"
  pcm_writei :: "nat \<Rightarrow> 16 word list \<Rightarrow> nat \<Rightarrow> 'w \<Rightarrow> (alsa_error + nat) \<times> 'w"
  pcm_prepare :: "nat \<Rightarrow> 'w \<Rightarrow> bool \<times> 'w"
  pcm_wait :: "nat \<Rightarrow> nat \<Rightarrow> 'w \<Rightarrow> alsa_error option \<times> 'w"
  pcm_drop :: "nat \<Rightarrow> 'w \<Rightarrow> 'w"
  pcm_close :: "nat \<Rightarrow> 'w \<Rightarrow> 'w"
  monotonic_time :: "'w \<Rightarrow> (u64 \<times> u64) option \<times> 'w"

record audio_device =
  pcm :: nat
  channels :: u8

definition alsa_buffer_us :: nat where "alsa_buffer_us = 100000"
definition INT_MAX :: nat where "INT_MAX = 0x7fffffff"

subsection \<open>Opening and closing\<close>

definition audio_close :: "'w alsa \<Rightarrow> audio_device option \<Rightarrow> 'w \<Rightarrow> 'w" where
  "audio_close al dev w = (case dev of None \<Rightarrow> w | Some d \<Rightarrow> pcm_close al (pcm d) (pcm_drop al (pcm d) w))"

text \<open>A call follows only when those before it have succeeded.\<close>

fun all_calls :: "('w \<Rightarrow> bool \<times> 'w) list \<Rightarrow> 'w \<Rightarrow> bool \<times> 'w" where
  "all_calls [] w = (True, w)"
| "all_calls (f # fs) w = (let (good, w) = f w in if good then all_calls fs w else (False, w))"

definition audio_open :: "'w alsa \<Rightarrow> u32 \<Rightarrow> u8 \<Rightarrow> u8 \<Rightarrow> 'w \<Rightarrow> audio_device option \<times> 'w" where
  "audio_open al rate chans bits w =
     (if rate = 0 \<or> chans = 0 \<or> chans > 2 \<or> bits \<noteq> 16 then (None, w)
      else
        let (good, w) = memory al w in
        if \<not> good then (None, w)
        else
          (case pcm_open al w of
             (None, w) \<Rightarrow> (None, w)
           | (Some h, w) \<Rightarrow>
               let d = \<lparr>pcm = h, channels = chans\<rparr>;
                   (good, w) = pcm_set_params al h chans rate alsa_buffer_us w in
               if \<not> good then (None, audio_close al (Some d) w)
               else
                 let (good, w) = all_calls [sw_params al h 0, sw_params al h 1, sw_params al h 2] w in
                 if \<not> good then (None, audio_close al (Some d) w) else (Some d, w)))"

subsection \<open>Playing\<close>

definition monotonic_ms :: "'w alsa \<Rightarrow> 'w \<Rightarrow> u64 \<times> 'w" where
  "monotonic_ms al w =
     (case monotonic_time al w of
        (None, w) \<Rightarrow> (0, w)
      | (Some (s, ns), w) \<Rightarrow> (s * 1000 + ns div 1000000, w))"

definition audio_delay_frames :: "'w alsa \<Rightarrow> audio_device option \<Rightarrow> 'w \<Rightarrow> int \<times> 'w" where
  "audio_delay_frames al dev w =
     (case dev of
        None \<Rightarrow> (- 1, w)
      | Some d \<Rightarrow>
          let (xrun, w) = pcm_xrun al (pcm d) w in
          if xrun then (0, w)
          else
            (case pcm_delay al (pcm d) w of
               (None, w) \<Rightarrow> (- 1, w)
             | (Some n, w) \<Rightarrow> (if n < 0 then 0 else if n > int INT_MAX then int INT_MAX else n, w)))"

text \<open>
  One turn of the loop of \<open>audio_write\<close> with the samples that are left: those that are left afterwards, or
  nothing when it returns -1.
\<close>

definition write_turn ::
  "'w alsa \<Rightarrow> audio_device \<Rightarrow> 16 word list \<Rightarrow> 'w \<Rightarrow> 16 word list option \<times> 'w" where
  "write_turn al d rest w =
     (let (r, w) = pcm_writei al (pcm d) rest (length rest div unat (channels d)) w;
          frames = (case r of Inr n \<Rightarrow> n | Inl e \<Rightarrow> 0) in
      if frames > 0 then (Some (drop (frames * unat (channels d)) rest), w)
      else if r = Inl Broken_Pipe \<or> r = Inl Suspended then
        (let (good, w) = pcm_prepare al (pcm d) w in (if good then Some rest else None, w))
      else if r = Inl Try_Again \<or> r = Inl Was_Interrupted \<or> r = Inr 0 then
        (let (e, w) = pcm_wait al (pcm d) 10 w in
         (if e = None \<or> e = Some Was_Interrupted \<or> e = Some Broken_Pipe \<or> e = Some Suspended
          then Some rest else None, w))
      else (None, w))"

function write_loop ::
  "'w alsa \<Rightarrow> audio_device \<Rightarrow> u64 \<Rightarrow> nat \<Rightarrow> 16 word list \<Rightarrow> 'w \<Rightarrow> bool \<times> 'w" where
  "write_loop al d deadline attempts rest w =
     (if rest = [] then (True, w)
      else
        (case write_turn al d rest w of
           (None, w) \<Rightarrow> (False, w)
         | (Some rest, w) \<Rightarrow>
             if rest = [] then (True, w)
             else
               let (now, w) = monotonic_ms al w in
               if now \<ge> deadline \<or> attempts + 1 \<ge> 64 then (False, w)
               else write_loop al d deadline (attempts + 1) rest w))"
  by pat_completeness auto
termination by (relation "measure (\<lambda>(al, d, deadline, attempts, rest, w). 64 - attempts)") auto

declare write_loop.simps [simp del]

definition audio_write ::
  "'w alsa \<Rightarrow> audio_device option \<Rightarrow> 16 word list \<Rightarrow> 'w \<Rightarrow> int \<times> 'w" where
  "audio_write al dev samples w =
     (case dev of
        None \<Rightarrow> (- 1, w)
      | Some d \<Rightarrow>
          if length samples mod unat (channels d) \<noteq> 0 \<or> length samples > INT_MAX then (- 1, w)
          else
            let (now, w) = monotonic_ms al w;
                (good, w) = write_loop al d (now + 120) 0 samples w in
            (if good then int (length samples) else - 1, w))"

subsection \<open>What the library does\<close>

text \<open>
  As ALSA documents it, seen through three observations of the world: the samples that the device of
  \<open>c\<close> channels has taken, how often it was offered some, and the handles that are open.
\<close>

definition unseen ::
  "('w \<Rightarrow> 16 word list) \<Rightarrow> ('w \<Rightarrow> nat) \<Rightarrow> ('w \<Rightarrow> nat set) \<Rightarrow> 'w \<Rightarrow> 'w \<Rightarrow> bool" where
  "unseen taken turns handles w w' \<longleftrightarrow> taken w' = taken w \<and> turns w' = turns w \<and> handles w' = handles w"

definition alsa_ok ::
  "'w alsa \<Rightarrow> nat \<Rightarrow> ('w \<Rightarrow> 16 word list) \<Rightarrow> ('w \<Rightarrow> nat) \<Rightarrow> ('w \<Rightarrow> nat set) \<Rightarrow> bool" where
  "alsa_ok al c taken turns handles \<longleftrightarrow>
     (\<forall>w. unseen taken turns handles w (snd (memory al w))) \<and>
     (\<forall>h n w. unseen taken turns handles w (snd (sw_params al h n w))) \<and>
     (\<forall>h ch r us w. unseen taken turns handles w (snd (pcm_set_params al h ch r us w))) \<and>
     (\<forall>h w. unseen taken turns handles w (snd (pcm_prepare al h w))) \<and>
     (\<forall>h t w. unseen taken turns handles w (snd (pcm_wait al h t w))) \<and>
     (\<forall>h w. unseen taken turns handles w (pcm_drop al h w)) \<and>
     (\<forall>w. unseen taken turns handles w (snd (monotonic_time al w))) \<and>
     (\<forall>h w. handles (pcm_close al h w) = handles w - {h}) \<and>
     (\<forall>w. case pcm_open al w of
        (None, w') \<Rightarrow> handles w' = handles w
      | (Some h, w') \<Rightarrow> h \<notin> handles w \<and> handles w' = insert h (handles w)) \<and>
     (\<forall>h xs n w. let (r, w') = pcm_writei al h xs n w; k = (case r of Inr k \<Rightarrow> k | Inl e \<Rightarrow> 0) in
        k \<le> n \<and> taken w' = taken w @ take (k * c) xs \<and> turns w' = turns w + 1 \<and> handles w' = handles w)"

lemma alsa_quiet:
  assumes "alsa_ok al c taken turns handles"
  shows "memory al w = (b, w') \<Longrightarrow> unseen taken turns handles w w'"
    "sw_params al h n w = (b, w') \<Longrightarrow> unseen taken turns handles w w'"
    "pcm_set_params al h ch r us w = (b, w') \<Longrightarrow> unseen taken turns handles w w'"
    "pcm_prepare al h w = (b, w') \<Longrightarrow> unseen taken turns handles w w'"
    "pcm_wait al h t w = (e, w') \<Longrightarrow> unseen taken turns handles w w'"
    "monotonic_time al w = (time, w') \<Longrightarrow> unseen taken turns handles w w'"
  using assms unfolding alsa_ok_def by (metis snd_conv)+

lemma monotonic_quiet:
  "alsa_ok al c taken turns handles \<Longrightarrow> monotonic_ms al w = (t, w') \<Longrightarrow> unseen taken turns handles w w'"
  by (auto simp: monotonic_ms_def split: prod.splits option.splits dest: alsa_quiet(6))

text \<open>One turn hands over whole frames from the front of what is left.\<close>

lemma write_turn_part:
  assumes k: "alsa_ok al c taken turns handles" and c: "unat (channels d) = c"
    and turn: "write_turn al d rest w = (r, w')"
  shows "\<exists>n. taken w' = taken w @ take (n * c) rest \<and> turns w' = turns w + 1 \<and> handles w' = handles w \<and>
    n * c \<le> length rest \<and> (case r of Some left \<Rightarrow> left = drop (n * c) rest | None \<Rightarrow> True)"
proof -
  obtain q w1 where w1: "pcm_writei al (pcm d) rest (length rest div c) w = (q, w1)" by fastforce
  define n where "n = (case q of Inr k \<Rightarrow> k | Inl e \<Rightarrow> 0)"
  have n: "n \<le> length rest div c" "taken w1 = taken w @ take (n * c) rest" "turns w1 = turns w + 1" "handles w1 = handles w"
    using k w1 unfolding alsa_ok_def n_def Let_def by (metis (mono_tags, lifting) case_prod_conv)+
  have "n * c \<le> length rest"
    using mult_le_mono1 [OF n(1), of c] by (metis div_times_less_eq_dividend le_trans)
  moreover have "unseen taken turns handles w1 w' \<and> (case r of Some left \<Rightarrow> left = drop (n * c) rest | None \<Rightarrow> True)"
  proof -
    obtain g w2 where p: "pcm_prepare al (pcm d) w1 = (g, w2)" by fastforce
    obtain e w3 where q: "pcm_wait al (pcm d) 10 w1 = (e, w3)" by fastforce
    have u: "unseen taken turns handles w1 w1" "unseen taken turns handles w1 w2" "unseen taken turns handles w1 w3"
      using alsa_quiet(4) [OF k p] alsa_quiet(5) [OF k q] by (simp_all add: unseen_def)
    show ?thesis
    proof (cases "n > 0")
      case True
      then show ?thesis using turn w1 u(1) by (auto simp: write_turn_def c n_def)
    next
      case False
      then have "r = Some rest \<or> r = None" "w' \<in> {w1, w2, w3}" "n = 0"
        using turn w1 p q by (simp_all add: write_turn_def c n_def [symmetric] split: if_splits)
      then show ?thesis using u by auto
    qed
  qed
  ultimately show ?thesis
    using n by (intro exI [of _ n]) (auto simp: unseen_def)
qed

lemma write_loop_part:
  "alsa_ok al c taken turns handles \<Longrightarrow> unat (channels d) = c \<Longrightarrow>
    write_loop al d deadline attempts rest w = (good, w') \<Longrightarrow> attempts < 64 \<Longrightarrow>
    \<exists>n. taken w' = taken w @ take (n * c) rest \<and> turns w' \<le> turns w + (64 - attempts) \<and> handles w' = handles w \<and>
      n * c \<le> length rest \<and> (good \<longrightarrow> n * c = length rest)"
proof (induction al d deadline attempts rest w rule: write_loop.induct)
  case (1 al d deadline attempts rest w)
  show ?case
  proof (cases "rest = []")
    case True
    then show ?thesis using "1.prems" by (intro exI [of _ 0]) (simp add: write_loop.simps)
  next
    case False
    obtain r w1 where t: "write_turn al d rest w = (r, w1)" by fastforce
    obtain now w2 where m: "monotonic_ms al w1 = (now, w2)" by fastforce
    obtain n where n: "taken w1 = taken w @ take (n * c) rest" "turns w1 = turns w + 1" "handles w1 = handles w"
      "n * c \<le> length rest" "case r of Some left \<Rightarrow> left = drop (n * c) rest | None \<Rightarrow> True"
      using write_turn_part [OF "1.prems"(1) "1.prems"(2) t] by blast
    have u: "unseen taken turns handles w1 w2" by (rule monotonic_quiet [OF "1.prems"(1) m])
    show ?thesis
    proof (cases r)
      case None
      then show ?thesis using "1.prems"(3,4) False t n by (intro exI [of _ n]) (simp add: write_loop.simps)
    next
      case left: (Some left)
      show ?thesis
      proof (cases "left = [] \<or> now \<ge> deadline \<or> attempts + 1 \<ge> 64")
        case True
        then show ?thesis
          using "1.prems"(3,4) False t m n left u
          by (intro exI [of _ n]) (auto simp: write_loop.simps [of al d deadline attempts rest] unseen_def split: if_splits)
      next
        case more: False
        then have "write_loop al d deadline (attempts + 1) left w2 = (good, w')"
          using "1.prems"(3) False t m left by (simp add: write_loop.simps [of al d deadline attempts rest])
        then obtain n' where "taken w' = taken w2 @ take (n' * c) left" "turns w' \<le> turns w2 + (64 - (attempts + 1))"
          "handles w' = handles w2" "n' * c \<le> length left" "good \<longrightarrow> n' * c = length left"
          using "1.IH" [OF False t [symmetric] left _ m [symmetric] refl] more "1.prems" by auto
        then show ?thesis
          using n u more left
          by (intro exI [of _ "n + n'"]) (auto simp: unseen_def take_add add_mult_distrib)
      qed
    qed
  qed
qed

lemma audio_write_cases:
  assumes k: "alsa_ok al c taken turns handles" and c: "unat (channels d) = c"
    and run: "audio_write al (Some d) samples w = (r, w')"
  shows "\<exists>n. taken w' = taken w @ take n samples \<and> n mod c = 0 \<and> turns w' \<le> turns w + 64 \<and> handles w' = handles w \<and>
    (r = int (length samples) \<and> n = length samples \<or> r = - 1)"
proof (cases "length samples mod c \<noteq> 0 \<or> length samples > INT_MAX")
  case True
  then show ?thesis using run c by (intro exI [of _ 0]) (auto simp: audio_write_def)
next
  case False
  obtain now w1 where m: "monotonic_ms al w = (now, w1)" by fastforce
  obtain good w2 where l: "write_loop al d (now + 120) 0 samples w1 = (good, w2)" by fastforce
  have u: "unseen taken turns handles w w1" by (rule monotonic_quiet [OF k m])
  from write_loop_part [OF k c l] obtain n where n: "taken w2 = taken w1 @ take (n * c) samples"
    "turns w2 \<le> turns w1 + 64" "handles w2 = handles w1" "n * c \<le> length samples" "good \<longrightarrow> n * c = length samples"
    by auto
  then show ?thesis
    using run m l False c u by (intro exI [of _ "n * c"]) (auto simp: audio_write_def unseen_def split: if_splits)
qed

text \<open>A device that takes whatever it is offered gets everything in one turn.\<close>

lemma audio_write_willing:
  assumes c: "unat (channels d) = c" "0 < c" and n: "length samples mod c = 0" "length samples \<le> INT_MAX"
    and willing: "\<And>xs n w. fst (pcm_writei al (pcm d) xs n w) = Inr n"
  shows "fst (audio_write al (Some d) samples w) = int (length samples)"
proof -
  obtain now w1 where m: "monotonic_ms al w = (now, w1)" by fastforce
  obtain w2 where p: "pcm_writei al (pcm d) samples (length samples div c) w1 = (Inr (length samples div c), w2)"
    using willing by (metis surjective_pairing)
  have all: "length samples div c * c = length samples" using n(1) by (simp add: mod_eq_0_iff_dvd)
  have "fst (write_loop al d (now + 120) 0 samples w1)"
  proof (cases "samples = []")
    case False
    then have "0 < length samples div c" using all by (metis gr0I length_0_conv mult_0)
    then have "write_turn al d samples w1 = (Some [], w2)"
      using p all by (simp add: write_turn_def c)
    then show ?thesis using False by (simp add: write_loop.simps [of al d "now + 120" 0 samples])
  qed (simp add: write_loop.simps)
  then show ?thesis using m n by (auto simp: audio_write_def c split: prod.splits)
qed

text \<open>Opening all or nothing, and closing.\<close>

lemma audio_open_handles:
  assumes k: "alsa_ok al c taken turns handles"
  shows "case audio_open al rate chans bits w of
    (None, w') \<Rightarrow> handles w' = handles w
  | (Some d, w') \<Rightarrow> pcm d \<notin> handles w \<and> handles w' = insert (pcm d) (handles w) \<and> channels d = chans \<and>
      chans \<noteq> 0 \<and> chans \<le> 2 \<and> handles (audio_close al (Some d) w') = handles w"
proof -
  obtain good w1 where 1: "memory al w = (good, w1)" by fastforce
  obtain ho w2 where 2: "pcm_open al w1 = (ho, w2)" by fastforce
  have opened: "case ho of None \<Rightarrow> handles w2 = handles w1 | Some h \<Rightarrow> h \<notin> handles w1 \<and> handles w2 = insert h (handles w1)"
    using k 2 unfolding alsa_ok_def by (auto split: option.splits prod.splits dest!: spec [of _ w1])
  have same: "handles w1 = handles w" using alsa_quiet(1) [OF k 1] by (simp add: unseen_def)
  have close: "handles (audio_close al (Some d) v) = handles v - {pcm d}" for d v
    using k unfolding alsa_ok_def unseen_def by (simp add: audio_close_def)
  show ?thesis
  proof (cases ho)
    case None
    then show ?thesis using 1 2 same opened by (simp add: audio_open_def)
  next
    case (Some h)
    obtain set w3 where 3: "pcm_set_params al h chans rate alsa_buffer_us w2 = (set, w3)" by fastforce
    obtain sw w4 where 4: "all_calls [sw_params al h 0, sw_params al h 1, sw_params al h 2] w3 = (sw, w4)" by fastforce
    have "handles w3 = handles w2" using alsa_quiet(3) [OF k 3] by (simp add: unseen_def)
    moreover have "handles w4 = handles w3"
      using 4 by (auto simp: unseen_def dest!: alsa_quiet(2) [OF k] split: prod.splits if_splits)
    ultimately show ?thesis
      using 1 2 3 4 Some same opened close
      by (auto simp: audio_open_def Let_def simp del: all_calls.simps)
  qed
qed

subsection \<open>Properties\<close>

text \<open>
  Playing is all or an error.  However ALSA takes, delays and refuses samples, \<open>audio_write\<close> on an open
  device hands over a beginning of them in whole frames, each once and in order, after at most 64 offers,
  and reports success only when that is all of them; it does succeed on a device that takes what it is
  offered.
\<close>

theorem linux_audio_write:
  assumes "alsa_ok al (unat (channels d)) taken turns handles" and "0 < unat (channels d)"
  shows "(case audio_write al (Some d) samples w of (r, w') \<Rightarrow>
      \<exists>n. taken w' = taken w @ take n samples \<and> n mod unat (channels d) = 0 \<and> turns w' \<le> turns w + 64 \<and>
        handles w' = handles w \<and> (r = int (length samples) \<and> n = length samples \<or> r = - 1)) \<and>
    ((\<forall>xs n w. fst (pcm_writei al (pcm d) xs n w) = Inr n) \<and> length samples mod unat (channels d) = 0 \<and>
       length samples \<le> INT_MAX \<longrightarrow>
     fst (audio_write al (Some d) samples w) = int (length samples))"
proof (intro conjI impI)
  obtain r w' where "audio_write al (Some d) samples w = (r, w')" by fastforce
  then show "case audio_write al (Some d) samples w of (r, w') \<Rightarrow>
      \<exists>n. taken w' = taken w @ take n samples \<and> n mod unat (channels d) = 0 \<and> turns w' \<le> turns w + 64 \<and>
        handles w' = handles w \<and> (r = int (length samples) \<and> n = length samples \<or> r = - 1)"
    using audio_write_cases [OF assms(1) refl] by simp
qed (rule audio_write_willing [OF refl assms(2)], auto)

text \<open>A device of two channels that takes one frame at a time.\<close>

type_synonym sound_card = "16 word list \<times> nat \<times> nat set"

definition sound_card :: "sound_card alsa" where
  "sound_card =
     \<lparr>memory = \<lambda>w. (True, w), pcm_open = \<lambda>w. (None, w), pcm_set_params = \<lambda>h c r t w. (True, w),
      sw_params = \<lambda>h n w. (True, w), pcm_xrun = \<lambda>h w. (False, w), pcm_delay = \<lambda>h w. (Some 0, w),
      pcm_writei = \<lambda>h xs n (taken, turns, handles). (Inr (min n 1), taken @ take (min n 1 * 2) xs, turns + 1, handles),
      pcm_prepare = \<lambda>h w. (True, w), pcm_wait = \<lambda>h t w. (None, w), pcm_drop = \<lambda>h w. w,
      pcm_close = \<lambda>h (taken, turns, handles). (taken, turns, handles - {h}),
      monotonic_time = \<lambda>w. (Some (7, 0), w)\<rparr>"

lemma sound_card_ok: "alsa_ok sound_card 2 fst (fst \<circ> snd) (snd \<circ> snd)"
  by (simp add: alsa_ok_def unseen_def sound_card_def split_beta)

theorem linux_audio_write_witness:
  "\<exists>w'. audio_write sound_card (Some \<lparr>pcm = 3, channels = 2\<rparr>) [1, 2, 3, 4, 5, 6] ([], 0, {3}) = (6, w') \<and>
     fst w' = [1, 2, 3, 4, 5, 6] \<and> (fst \<circ> snd) w' \<le> 64"
proof -
  have "fst (audio_write sound_card (Some \<lparr>pcm = 3, channels = 2\<rparr>) [1, 2, 3, 4, 5, 6] ([], 0, {3})) = 6"
    by (simp add: audio_write_def write_turn_def write_loop.simps sound_card_def monotonic_ms_def INT_MAX_def)
  then show ?thesis
    using linux_audio_write [of sound_card "\<lparr>pcm = 3, channels = 2\<rparr>" fst "fst \<circ> snd" "snd \<circ> snd",
        where samples = "[1, 2, 3, 4, 5, 6]" and w = "([], 0, {3})"] sound_card_ok
    by (auto split: prod.splits)
qed

end
