(* ===== verification/Linux_Os.thy ===== *)
theory Linux_Os
  imports Prelude
begin

section \<open>Time and locks on Linux: \<open>src/platform/linux/os.c\<close>\<close>

text \<open>
  The system calls are fields of a record over a world of any type.  \<open>nanosleep\<close> has slept, was
  interrupted with a time that remains, or failed.  A mutex is the address of a native one, if any.
\<close>

datatype slept = Slept | Sleep_Interrupted nat nat | Sleep_Failed

record 'w posix_os =
  os_memory :: "'w \<Rightarrow> nat option \<times> 'w"
  os_release :: "nat \<Rightarrow> 'w \<Rightarrow> 'w"
  pthread_mutex_init :: "nat \<Rightarrow> 'w \<Rightarrow> bool \<times> 'w"
  pthread_mutex_destroy :: "nat \<Rightarrow> 'w \<Rightarrow> 'w"
  nanosleep :: "nat \<Rightarrow> nat \<Rightarrow> 'w \<Rightarrow> slept \<times> 'w"
  realtime :: "'w \<Rightarrow> (u64 \<times> u64) option \<times> 'w"

definition os_mutex_init :: "'w posix_os \<Rightarrow> 'w \<Rightarrow> nat option \<times> 'w" where
  "os_mutex_init px w =
     (case os_memory px w of
        (None, w) \<Rightarrow> (None, w)
      | (Some native, w) \<Rightarrow>
          (case pthread_mutex_init px native w of
             (True, w) \<Rightarrow> (Some native, w)
           | (False, w) \<Rightarrow> (None, os_release px native w)))"

definition os_mutex_deinit :: "'w posix_os \<Rightarrow> nat option \<Rightarrow> 'w \<Rightarrow> nat option \<times> 'w" where
  "os_mutex_deinit px mutex w =
     (case mutex of None \<Rightarrow> (None, w)
      | Some native \<Rightarrow> (None, os_release px native (pthread_mutex_destroy px native w)))"

definition os_time_us :: "'w posix_os \<Rightarrow> 'w \<Rightarrow> u64 \<times> 'w" where
  "os_time_us px w =
     (case realtime px w of
        (None, w) \<Rightarrow> (0, w)
      | (Some (s, ns), w) \<Rightarrow> (s * 1000000 + ns div 1000, w))"

text \<open>The loop of \<open>os_sleep_ms\<close>: an interruption goes on with what remains, a failure ends it.\<close>

partial_function (option) sleep_loop :: "'w posix_os \<Rightarrow> nat \<Rightarrow> nat \<Rightarrow> 'w \<Rightarrow> 'w option" where
  [code]: "sleep_loop px s ns w =
     (case nanosleep px s ns w of
        (Sleep_Interrupted s ns, w) \<Rightarrow> sleep_loop px s ns w
      | (r, w) \<Rightarrow> Some w)"

definition os_sleep_ms :: "'w posix_os \<Rightarrow> nat \<Rightarrow> 'w \<Rightarrow> 'w option" where
  "os_sleep_ms px ms w = sleep_loop px (ms div 1000) (ms mod 1000 * 1000000) w"

subsection \<open>Sleeping\<close>

text \<open>
  With \<open>elapsed\<close> nanoseconds in the world, a sleep passes the time asked for, or as much of it as does not
  remain, and something when it is interrupted.
\<close>

definition sleeps :: "'w posix_os \<Rightarrow> ('w \<Rightarrow> nat) \<Rightarrow> bool" where
  "sleeps px elapsed \<longleftrightarrow>
     (\<forall>s ns w. case nanosleep px s ns w of
        (Slept, w') \<Rightarrow> elapsed w' = elapsed w + (s * 1000000000 + ns)
      | (Sleep_Interrupted s' ns', w') \<Rightarrow>
          elapsed w' + (s' * 1000000000 + ns') = elapsed w + (s * 1000000000 + ns) \<and> elapsed w < elapsed w'
      | (Sleep_Failed, w') \<Rightarrow> False)"

lemma sleep_loop_elapsed:
  assumes "sleeps px elapsed"
  shows "\<exists>w'. sleep_loop px s ns w = Some w' \<and> elapsed w' = elapsed w + (s * 1000000000 + ns)"
proof (induction "s * 1000000000 + ns" arbitrary: s ns w rule: less_induct)
  case less
  obtain r w1 where n: "nanosleep px s ns w = (r, w1)" by fastforce
  have c: "case r of Slept \<Rightarrow> elapsed w1 = elapsed w + (s * 1000000000 + ns)
      | Sleep_Interrupted s' ns' \<Rightarrow>
          elapsed w1 + (s' * 1000000000 + ns') = elapsed w + (s * 1000000000 + ns) \<and> elapsed w < elapsed w1
      | Sleep_Failed \<Rightarrow> False"
    using assms n unfolding sleeps_def by (metis (mono_tags, lifting) case_prod_conv)
  show ?case
  proof (cases r)
    case (Sleep_Interrupted s' ns')
    then have "s' * 1000000000 + ns' < s * 1000000000 + ns" using c by auto
    from less [OF this, of w1] show ?thesis
      using c n Sleep_Interrupted by (auto simp: sleep_loop.simps [of px s ns w])
  qed (use c n in \<open>auto simp: sleep_loop.simps [of px s ns w]\<close>)
qed

text \<open>However often it is interrupted, \<open>os_sleep_ms\<close> returns after exactly the time.\<close>

lemma os_sleep_ms_elapsed:
  assumes "sleeps px elapsed"
  shows "\<exists>w'. os_sleep_ms px ms w = Some w' \<and> elapsed w' = elapsed w + ms * 1000000"
proof -
  have "q * 1000000000 + r * 1000000 = (q * 1000 + r) * 1000000" for q r :: nat by simp
  from this [of "ms div 1000" "ms mod 1000"]
  have "ms div 1000 * 1000000000 + ms mod 1000 * 1000000 = ms * 1000000" by (simp only: div_mult_mod_eq)
  then show ?thesis
    using sleep_loop_elapsed [OF assms, of "ms div 1000" "ms mod 1000 * 1000000" w] by (simp add: os_sleep_ms_def)
qed

end
