(* ===== verification/Linux_Main.thy ===== *)
theory Linux_Main
  imports Receiver_Properties
begin

section \<open>The process on Linux: \<open>src/platform/linux/main.c\<close>\<close>

text \<open>
  The program checks its arguments, sets up the receiver, runs its three threads until a signal or a thread
  asks for the end, waits for the threads, and releases the receiver.  The operating system is a record of
  operations on the world, of which the receiver is a part for those that let other threads go on: starting
  a thread, sleeping, and waiting for a thread to end.  Output is left out, and \<open>net_init\<close> and
  \<open>net_deinit\<close>, which do nothing here.
\<close>

record 'w process =
  catch_signals :: "'w service \<Rightarrow> bool \<times> 'w service"
  interrupted :: "'w service \<Rightarrow> bool"
  create_thread :: "nat \<Rightarrow> server \<Rightarrow> 'w service \<Rightarrow> bool \<times> server \<times> 'w service"
  sleep_while :: "server \<Rightarrow> 'w service \<Rightarrow> server \<times> 'w service"
  join_thread :: "nat \<Rightarrow> server \<Rightarrow> 'w service \<Rightarrow> server \<times> 'w service"

definition airplay_device_name :: buf where
  "airplay_device_name = lit ''TestSpeaker''"

text \<open>The arguments behind the name of the program, and the configuration copied from them.\<close>

definition usage_ok :: "buf list \<Rightarrow> bool" where
  "usage_ok args \<longleftrightarrow>
     (length args = 2 \<or> length args = 3) \<and> length (args ! 0) < 16 \<and> length (args ! 1) = 12 \<and>
     (length args = 3 \<longrightarrow> length (args ! 2) < 64)"

definition padded_array :: "nat \<Rightarrow> buf \<Rightarrow> buf" where
  "padded_array n s = s @ replicate (n - length s) 0"

definition main_config :: "buf list \<Rightarrow> receiver_config" where
  "main_config args =
     \<lparr>config_ip = padded_array 16 (args ! 0), config_mac = padded_array 13 (args ! 1),
      config_name = padded_array 64 (if length args = 3 then args ! 2 else airplay_device_name)\<rparr>"

text \<open>Start up to \<open>n\<close> threads after the first \<open>k\<close>; gives how many have been started.\<close>

fun start_threads :: "'w process \<Rightarrow> nat \<Rightarrow> nat \<Rightarrow> server \<Rightarrow> 'w service \<Rightarrow> nat \<times> server \<times> 'w service" where
  "start_threads pr 0 k v w = (k, v, w)"
| "start_threads pr (Suc n) k v w =
     (let (good, v, w) = create_thread pr k v w in
      if good then start_threads pr n (k + 1) v w else (k, v, w))"

partial_function (option) wait_end :: "'w process \<Rightarrow> server \<Rightarrow> 'w service \<Rightarrow> (server \<times> 'w service) option" where
  [code]: "wait_end pr v w =
     (if interrupted pr w \<or> airplay_server_is_stopping w then Some (v, w)
      else let (v, w) = sleep_while pr v w in wait_end pr v w)"

fun join_threads :: "'w process \<Rightarrow> nat \<Rightarrow> server \<Rightarrow> 'w service \<Rightarrow> server \<times> 'w service" where
  "join_threads pr 0 v w = (v, w)"
| "join_threads pr (Suc k) v w = (let (v, w) = join_thread pr k v w in join_threads pr k v w)"

text \<open>From the start of the threads to their end, with the result that \<open>main\<close> has then.\<close>

definition run_threads :: "'w process \<Rightarrow> server \<Rightarrow> 'w service \<Rightarrow> (int \<times> server \<times> 'w service) option" where
  "run_threads pr v w =
     (let (started, v, w) = start_threads pr 3 0 v w in do {
        (v, w) \<leftarrow> (if started = 3 then wait_end pr v w else Some (v, w));
        let (v, w) = join_threads pr started v (airplay_server_stop w);
        Some (if started \<noteq> 3 \<or> airplay_server_result w \<noteq> 0 then 1 else 0, v, w) })"

definition linux_main ::
  "'w service audio_env \<Rightarrow> 'w service platform \<Rightarrow> 'w service group_socket \<Rightarrow> 'w process \<Rightarrow> buf list \<Rightarrow> server \<Rightarrow>
   'w service \<Rightarrow> (int \<times> server \<times> 'w service) option" where
  "linux_main env pf net pr args v w =
     (if \<not> usage_ok args then Some (1, v, w)
      else
        let (good, w) = catch_signals pr w in
        if \<not> good then Some (1, v, w)
        else do {
          (good, v, w) \<leftarrow> airplay_server_init env pf net (main_config args) v w;
          if \<not> good then Some (1, v, w)
          else do {
            (r, v, w) \<leftarrow> run_threads pr v w;
            (v, w) \<leftarrow> airplay_server_deinit env pf net v w;
            Some (r, v, w) } })"

subsection \<open>The life of the receiver\<close>

text \<open>
  What is relied on: while the main thread starts, sleeps or waits, the receiver's threads do iterations
  of their loops; \<open>unjoined\<close> are the threads that have been started and not waited for.
\<close>

definition process_ok ::
  "'w service audio_env \<Rightarrow> 'w service platform \<Rightarrow> 'w service group_socket \<Rightarrow> 'w process \<Rightarrow> ('w \<Rightarrow> nat set) \<Rightarrow> bool" where
  "process_ok env pf net pr unjoined \<longleftrightarrow>
     (\<forall>k v w. let (good, v', w') = create_thread pr k v w in
        (receiver_run env pf net v \<longrightarrow> receiver_run env pf net v') \<and>
        unjoined (outer w') = (if good then insert k (unjoined (outer w)) else unjoined (outer w))) \<and>
     (\<forall>v w. let (v', w') = sleep_while pr v w in
        (receiver_run env pf net v \<longrightarrow> receiver_run env pf net v') \<and> unjoined (outer w') = unjoined (outer w)) \<and>
     (\<forall>k v w. let (v', w') = join_thread pr k v w in
        (receiver_run env pf net v \<longrightarrow> receiver_run env pf net v') \<and> unjoined (outer w') = unjoined (outer w) - {k})"

text \<open>Sooner or later a signal arrives or a thread asks for the end.\<close>

definition comes_to_end :: "'w process \<Rightarrow> bool" where
  "comes_to_end pr \<longleftrightarrow>
     (\<forall>v w. \<exists>n. let w' = snd (((\<lambda>(v, w). sleep_while pr v w) ^^ n) (v, w)) in interrupted pr w' \<or> stopping w')"

lemma start_threads_run:
  assumes "process_ok env pf net pr unjoined"
  shows "receiver_run env pf net v \<Longrightarrow> unjoined (outer w) = {..<k} \<Longrightarrow> start_threads pr n k v w = (k', v', w') \<Longrightarrow>
    receiver_run env pf net v' \<and> unjoined (outer w') = {..<k'} \<and> k' \<le> k + n"
proof (induction n arbitrary: k v w)
  case (Suc n)
  obtain good v1 w1 where c: "create_thread pr k v w = (good, v1, w1)" by (metis surj_pair)
  have "receiver_run env pf net v1" "unjoined (outer w1) = (if good then {..<Suc k} else {..<k})"
    using assms c Suc.prems(1,2) unfolding process_ok_def Let_def
    by (metis (mono_tags, lifting) case_prod_conv lessThan_Suc)+
  then show ?case
    using Suc.IH [of v1 w1 "Suc k"] Suc.prems(3) c by (cases good) auto
qed simp

lemma join_threads_run:
  assumes "process_ok env pf net pr unjoined"
  shows "receiver_run env pf net v \<Longrightarrow> unjoined (outer w) = {..<k} \<Longrightarrow> join_threads pr k v w = (v', w') \<Longrightarrow>
    receiver_run env pf net v' \<and> unjoined (outer w') = {}"
proof (induction k arbitrary: v w)
  case (Suc k)
  obtain v1 w1 where j: "join_thread pr k v w = (v1, w1)" by fastforce
  have "receiver_run env pf net v1" "unjoined (outer w1) = {..<Suc k} - {k}"
    using assms j Suc.prems(1,2) unfolding process_ok_def Let_def
    by (metis (mono_tags, lifting) case_prod_conv)+
  moreover have "{..<Suc k} - {k} = {..<k}" by auto
  ultimately show ?case using Suc.IH [of v1 w1] Suc.prems(3) j by simp
qed simp

lemma wait_end_run:
  assumes "process_ok env pf net pr unjoined"
  shows "(let w' = snd (((\<lambda>(v, w). sleep_while pr v w) ^^ n) (v, w)) in interrupted pr w' \<or> stopping w') \<Longrightarrow>
    receiver_run env pf net v \<Longrightarrow>
    \<exists>v' w'. wait_end pr v w = Some (v', w') \<and> receiver_run env pf net v' \<and> unjoined (outer w') = unjoined (outer w)"
proof (induction n arbitrary: v w)
  case 0
  then show ?case by (simp add: wait_end.simps airplay_server_is_stopping_def)
next
  case (Suc n)
  obtain v1 w1 where s: "sleep_while pr v w = (v1, w1)" by fastforce
  have r: "receiver_run env pf net v1" "unjoined (outer w1) = unjoined (outer w)"
    using assms s Suc.prems(2) unfolding process_ok_def Let_def by (metis (mono_tags, lifting) case_prod_conv)+
  show ?case
    using Suc.IH [of v1 w1] Suc.prems r s
    by (cases "interrupted pr w \<or> airplay_server_is_stopping w") (auto simp: wait_end.simps [of pr v w] funpow_Suc_right simp del: funpow.simps)
qed

lemma run_threads_end:
  assumes p: "process_ok env pf net pr unjoined" and e: "comes_to_end pr"
    and v: "receiver_run env pf net v" and u: "unjoined (outer w) = {}"
  shows "\<exists>r v' w'. run_threads pr v w = Some (r, v', w') \<and> receiver_run env pf net v' \<and> unjoined (outer w') = {} \<and>
    (r = 0 \<longleftrightarrow> fst (start_threads pr 3 0 v w) = 3 \<and> result w' = 0) \<and> (r = 0 \<or> r = 1)"
proof -
  obtain k v1 w1 where s: "start_threads pr 3 0 v w = (k, v1, w1)" by (metis surj_pair)
  have 1: "receiver_run env pf net v1" "unjoined (outer w1) = {..<k}"
    using start_threads_run [OF p v _ s] u by auto
  have "\<exists>v2 w2. (if k = 3 then wait_end pr v1 w1 else Some (v1, w1)) = Some (v2, w2) \<and>
      receiver_run env pf net v2 \<and> unjoined (outer w2) = {..<k}"
  proof (cases "k = 3")
    case True
    obtain n where "let w' = snd (((\<lambda>(v, w). sleep_while pr v w) ^^ n) (v1, w1)) in interrupted pr w' \<or> stopping w'"
      using e unfolding comes_to_end_def by blast
    from wait_end_run [OF p this 1(1)] 1(2) True show ?thesis by simp
  qed (use 1 in simp)
  then obtain v2 w2 where 2: "(if k = 3 then wait_end pr v1 w1 else Some (v1, w1)) = Some (v2, w2)"
    "receiver_run env pf net v2" "unjoined (outer w2) = {..<k}" by blast
  obtain v3 w3 where j: "join_threads pr k v2 (airplay_server_stop w2) = (v3, w3)" by fastforce
  have "receiver_run env pf net v3 \<and> unjoined (outer w3) = {}"
    using join_threads_run [OF p 2(2) _ j] 2(3) by (simp add: airplay_server_stop_def)
  then show ?thesis
    using s 2(1) j by (simp add: run_threads_def airplay_server_result_def)
qed

subsection \<open>Properties\<close>


text \<open>Threads that do nothing, and a signal that is already there.\<close>

definition quiet_process :: "nat set process" where
  "quiet_process =
     \<lparr>catch_signals = \<lambda>w. (True, w), interrupted = \<lambda>w. True,
      create_thread = \<lambda>k v w. (True, v, w\<lparr>outer := insert k (outer w)\<rparr>), sleep_while = \<lambda>v w. (v, w),
      join_thread = \<lambda>k v w. (v, w\<lparr>outer := outer w - {k}\<rparr>)\<rparr>"


end
