(* ===== verification/Linux_Service.thy ===== *)
theory Linux_Service
  imports Sink Linux_Net Linux_Audio Receiver_Properties
begin

section \<open>The receiver on Linux\<close>

text \<open>
  The two places where the shared code hands data to the platform, the responses of the RTSP server and the
  samples of the audio thread, each against the contract of \<open>Sink\<close>; and the platform's sockets and output,
  which keep it.
\<close>

subsection \<open>What the shared code does with a sink\<close>

text \<open>Responses over a connection that is not encrypted.\<close>

locale rtsp_wire = sink "send_all env so" got for env :: "'w env" and so :: net_socket and got :: "'w \<Rightarrow> buf"
begin

lemma client_wire:
  assumes "socket c = so" "\<not> encrypted c" and "send_client env c data w = (good, c', w')"
  shows "c' = c \<and> handed_over got w w' good data"
proof -
  have "send_all env so data w = (good, w')" "c' = c"
    using assms by (auto simp: send_client_def split: prod.splits)
  then show ?thesis using put_part by blast
qed

lemma response_wire:
  assumes "socket c = so" "\<not> encrypted c"
    and "rtsp_send_response env c status text_line seq extra body_bytes w = (good, c', w')"
  shows "case response_head c status text_line seq extra (length body_bytes) of
      None \<Rightarrow> \<not> good \<and> w' = w
    | Some h \<Rightarrow> handed_over got w w' good (h @ body_bytes)"
proof (cases "response_head c status text_line seq extra (length body_bytes)")
  case (Some h)
  obtain g c1 w1 where 1: "send_client env c h w = (g, c1, w1)" by (metis surj_pair)
  note h = client_wire [OF assms(1,2) 1]
  show ?thesis
  proof (cases "g \<and> body_bytes \<noteq> []")
    case True
    then have "handed_over got w1 w' good body_bytes"
      using client_wire [OF assms(1,2), of body_bytes w1] assms(3) Some 1 h by (simp add: rtsp_send_response_def)
    then show ?thesis using Some h True handed_append by auto
  next
    case False
    then show ?thesis
      using assms(3) Some 1 h handed_beginning [of got w w1 False h body_bytes]
      by (cases g) (auto simp: rtsp_send_response_def)
  qed
qed (use assms(3) in \<open>simp add: rtsp_send_response_def\<close>)

text \<open>Buffers that have all been sent are in the sink one after the other.\<close>

lemma sends_wire: "sends env so rs w w' \<Longrightarrow> got w' = got w @ concat rs"
  by (induction rs arbitrary: w) (auto dest: put_all split: prod.splits)

end

text \<open>
  Samples.  The world of the service is the platform's and the control block, which other threads may write
  during a call.
\<close>

definition put_audio :: "'w service platform \<Rightarrow> nat \<Rightarrow> i16 list \<Rightarrow> 'w service \<Rightarrow> bool \<times> 'w service" where
  "put_audio pf d xs w = (let (n, w) = write_audio pf d xs w in (n = int (length xs), w))"

locale playback = sink "put_audio pf d" "got \<circ> outer"
  for pf :: "'w service platform" and d :: nat and got :: "'w \<Rightarrow> i16 list"
begin

lemma stopped_output: "stopping w \<Longrightarrow> fold (output_pcm pf (Some d)) pcms w = w"
  by (induction pcms) (simp_all add: output_pcm_def airplay_server_is_stopping_def)

text \<open>Output that has been stopped stays so, and nothing comes after a gap.\<close>

lemma playback_part:
  "handed_over (got \<circ> outer) w (fold (output_pcm pf (Some d)) pcms w)
     (\<not> stopping (fold (output_pcm pf (Some d)) pcms w)) (concat pcms)"
proof (induction pcms arbitrary: w)
  case (Cons pcm pcms)
  show ?case
  proof (cases "stopping w")
    case False
    obtain good w1 where p: "put_audio pf d pcm w = (good, w1)" by fastforce
    show ?thesis
    proof (cases good)
      case True
      have "output_pcm pf (Some d) pcm w = w1"
        using p False True by (auto simp: output_pcm_def put_audio_def airplay_server_is_stopping_def split: prod.splits)
      moreover have "handed_over (got \<circ> outer) w w1 True pcm" using put_part [OF p] True by simp
      ultimately show ?thesis using handed_append [OF _ Cons.IH [of w1]] by (simp add: o_def)
    next
      case failed: False
      have "output_pcm pf (Some d) pcm w = server_fail w1"
        using p False failed by (auto simp: output_pcm_def put_audio_def airplay_server_is_stopping_def split: prod.splits)
      moreover have "stopping (server_fail w1)" "outer (server_fail w1) = outer w1" by (simp_all add: server_fail_def)
      ultimately show ?thesis
        using put_failed [of pcm w w1 "concat pcms"] p failed stopped_output by (simp add: handed_over_def)
    qed
  next
    case True
    then show ?thesis
      using stopped_output [OF True, of "pcm # pcms"] handed_none [of "got \<circ> outer" w w] by (simp add: o_def del: fold_simps)
  qed
qed (auto simp: handed_over_def)

end

subsection \<open>The sinks of Linux\<close>

text \<open>
  \<open>net_tcp_send_all\<close> as the RTSP server calls it, with its time limit of a second.  A call that never
  returns, which takes a clock that stands still, counts as one that fails.
\<close>

definition linux_send :: "'w posix \<Rightarrow> net_socket \<Rightarrow> buf \<Rightarrow> 'w \<Rightarrow> bool \<times> 'w" where
  "linux_send px so data w =
     (case net_tcp_send_all px so data 1000 w of None \<Rightarrow> (False, w) | Some (r, w) \<Rightarrow> (r = 0, w))"

lemma linux_wire:
  assumes "kernel_ok px fds sent" and "handle so = Some fd" and "send_all env = linux_send px"
  shows "rtsp_wire env so (\<lambda>w. sent w fd)"
proof unfold_locales
  fix data w good w'
  assume s: "send_all env so data w = (good, w')"
  show "handed_over (\<lambda>w. sent w fd) w w' good data"
  proof (cases "net_tcp_send_all px so data 1000 w")
    case (Some z)
    obtain r v where z: "z = (r, v)" by fastforce
    obtain n where "sent v = (sent w)(fd := sent w fd @ take n data)" "r = 0 \<longrightarrow> length data \<le> n"
      using send_all_spec [OF assms(1,2), of data 1000 w] Some z by blast
    then show ?thesis
      using s Some z assms(3) by (auto simp: linux_send_def handed_over_def)
  qed (use s assms(3) in \<open>auto simp: linux_send_def\<close>)
qed

text \<open>
  An output on which the service plays with \<open>audio_write\<close>; during a call other threads may write the control
  block.
\<close>

definition plays_on :: "'w service platform \<Rightarrow> nat \<Rightarrow> 'w alsa \<Rightarrow> audio_device \<Rightarrow> bool" where
  "plays_on pf d al dev \<longleftrightarrow>
     (\<forall>xs w. (fst (write_audio pf d xs w), outer (snd (write_audio pf d xs w))) = audio_write al (Some dev) xs (outer w))"

lemma linux_playback:
  assumes "alsa_ok al (unat (audio_device.channels dev)) taken turns handles" and "plays_on pf d al dev"
  shows "playback pf d taken"
proof unfold_locales
  fix xs w good w'
  assume p: "put_audio pf d xs w = (good, w')"
  obtain r v where a: "audio_write al (Some dev) xs (outer w) = (r, v)" by fastforce
  then have "good \<longleftrightarrow> r = int (length xs)" "v = outer w'"
    using p assms(2) by (auto simp: put_audio_def plays_on_def split: prod.splits) (metis fst_conv snd_conv)+
  then show "handed_over (taken \<circ> outer) w w' good xs"
    using audio_write_cases [OF assms(1) refl a] by (auto simp: handed_over_def)
qed

subsection \<open>Small instances\<close>

definition wire_env :: "small_world env" where
  "wire_env =
     \<lparr>send_all = linux_send small_kernel, receive_from = \<lambda>so n w. (Receive_Timeout, w),
      accept_on = \<lambda>so w. (Accept_Timeout, w), listen_on = \<lambda>a p w. (None, w), wait_ready = \<lambda>ss t w. (None, w),
      close_socket = \<lambda>so w. w, entropy = \<lambda>w. ((False, None), w), pair_primitives = toy,
      challenge = \<lambda>ch a m w. (None, w), scan_float = \<lambda>s. (0, None), show_volume = \<lambda>v. [],
      libc = \<lparr>wide_unsigned = of_int, wide_signed = of_int, char_signed = False\<rparr>\<rparr>"

definition card_platform :: "sound_card service platform" where
  "card_platform = service_platform\<lparr>write_audio := \<lambda>d xs w.
     let (r, v) = audio_write sound_card (Some \<lparr>pcm = 3, channels = 2\<rparr>) xs (outer w) in (r, w\<lparr>outer := v\<rparr>)\<rparr>"

interpretation wire: rtsp_wire wire_env "\<lparr>handle = Some 7, socket_port = 80\<rparr>" "\<lambda>w. snd w 7"
  by (rule linux_wire [OF small_kernel_ok]) (simp_all add: wire_env_def)

lemma card_plays: "plays_on card_platform d sound_card \<lparr>pcm = 3, channels = 2\<rparr>"
  by (simp add: plays_on_def card_platform_def split_beta)

interpretation card: playback card_platform 4 fst
  by (rule linux_playback [OF _ card_plays, where turns = "fst \<circ> snd" and handles = "snd \<circ> snd"])
    (simp add: sound_card_ok)

subsection \<open>Properties\<close>

text \<open>
  C17: responses on Linux.  However the kernel cuts, delays and interrupts, a response over a connection in the
  clear puts a beginning of its head and body on the descriptor, in order and once, and all of it when it is
  reported as sent.  Over an encrypted connection what was reported as sent is on the descriptor as records
  that the linked peer opens to exactly that.
\<close>

theorem linux_responses:
  assumes "kernel_ok px fds sent" and "handle (socket c) = Some fd" and "send_all env = linux_send px"
  shows "(\<not> encrypted c \<longrightarrow>
      (case (response_head c status line seq extra (length body_bytes),
             rtsp_send_response env c status line seq extra body_bytes w) of
         (None, (good, c', w')) \<Rightarrow> \<not> good \<and> w' = w
       | (Some h, (good, c', w')) \<Rightarrow> handed_over (\<lambda>w. sent w fd) w w' good (h @ body_bytes))) \<and>
    (encrypted c \<and> aead_ok (pair_primitives env) \<and> linked (pairing_state c) q \<longrightarrow>
      (case send_client env c data w of
         (good, c', w') \<Rightarrow> good \<longrightarrow>
           (\<exists>rs ms q'. sent w' fd = sent w fd @ concat rs \<and> open_all (pair_primitives env) q rs = Some (ms, q') \<and>
              concat ms = data \<and> linked (pairing_state c') q')))"
proof (intro conjI impI)
  have wire: "rtsp_wire env (socket c) (\<lambda>w. sent w fd)" by (rule linux_wire [OF assms])
  show "case (response_head c status line seq extra (length body_bytes),
             rtsp_send_response env c status line seq extra body_bytes w) of
         (None, (good, c', w')) \<Rightarrow> \<not> good \<and> w' = w
       | (Some h, (good, c', w')) \<Rightarrow> handed_over (\<lambda>w. sent w fd) w w' good (h @ body_bytes)"
    if "\<not> encrypted c"
  proof -
    obtain good c' w' where r: "rtsp_send_response env c status line seq extra body_bytes w = (good, c', w')"
      by (metis surj_pair)
    show ?thesis using rtsp_wire.response_wire [OF wire refl that r] r by (auto split: option.splits)
  qed
  show "case send_client env c data w of
         (good, c', w') \<Rightarrow> good \<longrightarrow>
           (\<exists>rs ms q'. sent w' fd = sent w fd @ concat rs \<and> open_all (pair_primitives env) q rs = Some (ms, q') \<and>
              concat ms = data \<and> linked (pairing_state c') q')"
    if e: "encrypted c \<and> aead_ok (pair_primitives env) \<and> linked (pairing_state c) q"
  proof (clarsimp split: prod.split)
    fix c' w'
    assume s: "send_client env c data w = (True, c', w')"
    then show "\<exists>rs. sent w' fd = sent w fd @ concat rs \<and>
        (\<exists>ms q'. open_all (pair_primitives env) q rs = Some (ms, q') \<and> concat ms = data \<and> linked (pairing_state c') q')"
      using send_records_opened [of env c q data w c' w'] e rtsp_wire.sends_wire [OF wire]
      by (auto simp: send_client_def)
  qed
qed

theorem linux_responses_witness:
  "let c = client_zero\<lparr>socket := \<lparr>handle = Some 7, socket_port = 80\<rparr>\<rparr> in
   case rtsp_send_response wire_env c 200 (lit ''OK'') 3 [] [1, 2] ([7], \<lambda>fd. []) of
     (good, c', w') \<Rightarrow>
       handed_over (\<lambda>w. snd w 7) ([7], \<lambda>fd. []) w' good
         (lit ''RTSP/1.0 200 OK'' @ crlf_text @ lit ''CSeq: 3'' @ crlf_text @ lit ''Server: AirTunes/130.14'' @
          crlf_text @ lit ''Content-Length: 2'' @ crlf_text @ crlf_text @ [1, 2])"
proof -
  let ?c = "client_zero\<lparr>socket := \<lparr>handle = Some 7, socket_port = 80\<rparr>\<rparr>"
  have head: "response_head ?c 200 (lit ''OK'') 3 [] 2 =
      Some (lit ''RTSP/1.0 200 OK'' @ crlf_text @ lit ''CSeq: 3'' @ crlf_text @ lit ''Server: AirTunes/130.14'' @
        crlf_text @ lit ''Content-Length: 2'' @ crlf_text @ crlf_text)"
  proof -
    have "dec 200 = lit ''200''" "dec 3 = lit ''3''" "dec 2 = lit ''2''" by code_simp+
    then show ?thesis by (simp add: response_head_def client_zero_def crlf_text_def)
  qed
  have clear: "\<not> encrypted ?c" "handle (socket ?c) = Some 7" "send_all wire_env = linux_send small_kernel"
    by (simp_all add: client_zero_def wire_env_def)
  obtain good c' w' where "rtsp_send_response wire_env ?c 200 (lit ''OK'') 3 [] [1, 2] ([7], \<lambda>fd. []) = (good, c', w')"
    by (metis surj_pair)
  then show ?thesis
    using linux_responses [OF small_kernel_ok clear(2,3), where status = 200 and line = "lit ''OK''" and
        seq = 3 and extra = "[]" and body_bytes = "[1, 2]" and w = "([7], \<lambda>fd. [])"] head [unfolded numeral_2_eq_2] clear(1)
    by (simp add: Let_def del: lit_simps)
qed

text \<open>
  C18: playing on Linux.  Whatever the audio thread decodes and however ALSA takes and refuses samples, the device
  gets a beginning of all that was played since, in order, without a gap or a repetition; and all of it,
  unless the threads have been asked to stop.
\<close>

theorem linux_playback_stream:
  assumes "alsa_ok al (unat (audio_device.channels dev)) taken turns handles" and "plays_on pf d al dev"
    and "w' = fold (output_pcm pf (Some d)) pcms w"
  shows "\<exists>n. taken (outer w') = taken (outer w) @ take n (concat pcms) \<and> (\<not> stopping w' \<longrightarrow> length (concat pcms) \<le> n)"
  using playback.playback_part [OF linux_playback [OF assms(1,2)], of w pcms] assms(3)
  by (simp add: handed_over_def)

theorem linux_playback_stream_witness:
  "let w' = fold (output_pcm card_platform (Some 4)) [[1, 2], [], [3, 4, 5, 6]]
     \<lparr>stopping = False, result = 0, crypto_ready = True, outer = ([], 0, {3})\<rparr> in
   \<not> stopping w' \<and> fst (outer w') = [1, 2, 3, 4, 5, 6]"
proof -
  let ?w = "\<lparr>stopping = False, result = 0, crypto_ready = True, outer = ([], 0, {3})\<rparr> :: sound_card service"
  let ?v = "fold (output_pcm card_platform (Some 4)) [[1, 2], [], [3, 4, 5, 6]] ?w"
  have "\<not> stopping ?v"
    by (simp add: output_pcm_def card_platform_def airplay_server_is_stopping_def audio_write_def write_turn_def
        write_loop.simps sound_card_def monotonic_ms_def INT_MAX_def)
  have ok: "alsa_ok sound_card (unat (audio_device.channels \<lparr>pcm = 3, channels = 2\<rparr>)) fst (fst \<circ> snd) (snd \<circ> snd)"
    by (simp add: sound_card_ok)
  from linux_playback_stream [OF ok card_plays refl, of 4 "[[1, 2], [], [3, 4, 5, 6]]" ?w] obtain n where
    "fst (outer ?v) = fst (outer ?w) @ take n (concat [[1, 2], [], [3, 4, 5, 6]])"
    "\<not> stopping ?v \<longrightarrow> length (concat [[1, 2], [], [3, 4, 5, 6 :: i16]]) \<le> n"
    by blast
  with \<open>\<not> stopping ?v\<close> show ?thesis by (simp add: Let_def del: fold_simps)
qed

end
