(* ===== verification/Spec2Isabelle.thy ===== *)
theory Spec2Isabelle
  imports Rtp Playout Bplist Bplist_Writer Ntp_Sync Ptp_Sync Pairing Alac Alac_Bounds Alac_Decoder Alac_Safety
    Alac_Coding C_Text Net_Util Rtsp_Request Sdp Fairplay Rtsp_State
    Airplay_Rtsp Airplay2 Rtsp_Server Rtsp_Ownership Rtsp_Safety Rtsp_Properties
    Buffered_Audio Audio_Decode Audio_Pipeline Audio_Order Audio_Safety Raop_Safety Audio_Authentic Audio_Properties
    Mdns Discovery Server Receiver Receiver_Properties Airplay_Auth
    Crypto_Mutex Sink Linux_Net Linux_Audio Linux_Os Linux_Main Linux_Service
begin

text \<open>
  A verification library for protable-airplay, an AirPlay receiver in C: the shared core, which is the
  same on every target, and the platform layer of Linux.  All paths are under \<open>src/\<close>.

  \<^bold>\<open>The program.\<close>  A receiver (\<open>shared/service/server.c\<close>) owns three parts, each driven by a thread
  of its own.  The discovery service announces the receiver over multicast DNS.  The RTSP server accepts two
  connections at most, pairs and encrypts them, and turns the requests of AirPlay 1 and AirPlay 2 into one
  \<^emph>\<open>stream state\<close>: who owns the stream, its session, whether it records, its volume and boundaries, and a
  generation that counts its changes.  The audio thread reads a copy of that state in every iteration and makes the
  audio pipeline follow it: packets come in over RTP or over TCP, are authenticated, put in order in the
  playout queue, given a local deadline from the sender's clock (NTP or PTP), decoded (ALAC, AAC or PCM) and
  written to the output device.  The threads share nothing but the stream state, under a mutex, and a
  control block with a request to stop and a result.

  \<^bold>\<open>Theories and sources.\<close>  A definition has the name of the C function it models, or of the
  function with the block it models where a function is cut into pieces.

  \<^item> \<open>Prelude\<close>: integer types, checked buffer access, byte orders, C's division; \<open>C_Text\<close>: strings,
    \<open>sscanf\<close>, \<open>strstr\<close>, \<open>atoi\<close>; \<open>Sink\<close>: the contract of a call that hands data over.
  \<^item> \<open>Net_Util\<close>: \<open>shared/util/network_util.c\<close>.
  \<^item> \<open>Rtp\<close>: \<open>shared/protocol/rtp.c\<close>; \<open>Playout\<close>: \<open>shared/audio/playout.c\<close>.
  \<^item> \<open>Bplist\<close>, \<open>Bplist_Writer\<close>: \<open>shared/protocol/bplist.c\<close>.
  \<^item> \<open>Ntp_Sync\<close>, \<open>Ptp_Sync\<close>: \<open>shared/sync/ntp_sync.c\<close> and \<open>ptp_sync.c\<close>.
  \<^item> \<open>Pairing\<close>: \<open>shared/airplay/pairing.c\<close>; \<open>Fairplay\<close>: \<open>fairplay.c\<close>; \<open>Airplay_Auth\<close>:
    \<open>airplay_auth.c\<close>; \<open>Crypto_Mutex\<close>: the lock of \<open>shared/crypto/crypto_memory.c\<close>.
  \<^item> \<open>Rtsp_Request\<close> (parser), \<open>Rtsp_State\<close> (state and connections), \<open>Rtsp_Server\<close> (dispatch and polling):
    \<open>shared/protocol/rtsp.c\<close>; \<open>Sdp\<close>: \<open>sdp.c\<close>; \<open>Airplay_Rtsp\<close> and \<open>Airplay2\<close>: the handlers of
    \<open>shared/airplay/airplay_rtsp.c\<close> and \<open>airplay2.c\<close>.
  \<^item> \<open>Alac\<close>, \<open>Alac_Decoder\<close>: \<open>shared/codec/alac.c\<close> and \<open>alac_decoder.c\<close>; \<open>Audio_Decode\<close>:
    \<open>shared/crypto/crypto.c\<close>, \<open>aac_decoder.c\<close> and the decoding half of \<open>shared/audio/audio_pipeline.c\<close>;
    \<open>Audio_Pipeline\<close>: its other half; \<open>Buffered_Audio\<close>: \<open>buffered_audio.c\<close>.
  \<^item> \<open>Mdns\<close>: \<open>shared/protocol/mdns.c\<close>; \<open>Discovery\<close>: \<open>shared/airplay/airplay_discovery.c\<close>; \<open>Server\<close>:
    \<open>shared/service/server.c\<close> and the flag of \<open>crypto_memory.c\<close>.
  \<^item> \<open>Linux_Net\<close>, \<open>Linux_Audio\<close>, \<open>Linux_Os\<close>, \<open>Linux_Main\<close>: the files of \<open>platform/linux/\<close>.

  The other theories hold lemmas only: \<open>Alac_Bounds\<close>, \<open>Alac_Safety\<close> and \<open>Alac_Coding\<close> on the decoder;
  \<open>Rtsp_Ownership\<close>, \<open>Rtsp_Safety\<close> and \<open>Rtsp_Properties\<close> on the server; \<open>Audio_Order\<close>, \<open>Audio_Safety\<close>,
  \<open>Raop_Safety\<close>, \<open>Audio_Authentic\<close> and \<open>Audio_Properties\<close> on the pipeline; \<open>Receiver\<close> and
  \<open>Receiver_Properties\<close> on the threads together; \<open>Linux_Service\<close> on the shared code over Linux.

  \<^bold>\<open>Conventions.\<close>  A struct is a record and a buffer a list of bytes of its length; \<open>size_t\<close> is a
  natural number, other integers are words of their width, and signed arithmetic that C leaves undefined
  on overflow is checked.  An outer option is what C does not define: \<open>None\<close> is an access outside a buffer, an illegal
  shift or a signed overflow, or, where a theory says so, a wait that never ends.  So \<open>f x \<noteq> None\<close> is
  memory safety, and a statement that gives \<open>Some\<close> also says that the function returns.  Below that, \<open>fail\<close> and
  \<open>ok\<close> are the return codes, or a bool where a function gives nothing else.  NULL arguments and uninitialised
  storage are not represented; what a function leaves in storage that no caller reads is left out, as
  are log messages and the counters that only throttle them.

  \<^bold>\<open>What is outside.\<close>  The platform and the libraries are fields of records that the definitions
  take, over a world of any type that a call may read and change: \<open>env\<close> (sockets, randomness, \<open>strtof\<close>),
  \<open>audio_env\<close> (the clock, UDP, output, AES, RSA, AAC), \<open>pair_crypto\<close> (SHA-512, HKDF, ChaCha20-Poly1305 and the
  prime), \<open>clib\<close> (what C leaves to the library), \<open>group_socket\<close>, \<open>platform\<close>, \<open>auth_lib\<close>, \<open>posix\<close>, \<open>alsa\<close>,
  \<open>posix_os\<close> and \<open>process\<close>.  Hypotheses on them are named predicates that state what their manuals say, such as
  \<open>env_ok\<close> (a receive gives no more than it was asked for), \<open>aead_ok\<close> (opening inverts sealing and nothing
  else opens), \<open>kernel_ok\<close> and \<open>alsa_ok\<close>; each has an instance on which a witness evaluates.

  \<^bold>\<open>What is shown.\<close>
  \<^item> Safety of the server: \<open>server_ok\<close> is kept by everything that peers can send, and no poll
    reaches undefined behaviour.  Every request is a step of an abstract machine of stream ownership, an
    inductive relation with guards, by the connection that sent it.  Bytes received in the clear are
    never taken for encrypted requests, and encrypted responses arrive as they were sent.
  \<^item> The parser: exactly the well-formed requests, whatever the segments in which TCP delivers them.
  \<^item> Formats, each against a description of its own: RTP, DNS records, property lists (reader and writer), TLV,
    session descriptions, the Rice code and uncompressed frames of ALAC.
  \<^item> The queue, against a finite map, through the locale \<open>packet_queue\<close> and its interpretation: pushing,
    draining in sequence order, boundaries; and the pipeline on top of it, which plays in that order.
  \<^item> Clocks: no overflow within the bounds below, and how far a measured offset and a deadline can be off.
  \<^item> Pairing: an honest client is accepted with the same keys on both sides, only a checked proof
    establishes a pairing, and records open only at their position.
  \<^item> The pipeline: no undefined behaviour on AirPlay 1 sessions, whatever arrives; only
    authenticated packets on AirPlay 2 sessions; every payload is decoded within bounds.
  \<^item> The receiver: set up entirely or not at all; safe under every order of the iterations of its threads; the
    audio output follows the stream; a session that the pipeline does not support ends the receiver, which
    is one of the flaws that the model shows.
  \<^item> Linux: descriptors do not leak, sending and playing are all or an error, which through the locales \<open>sink\<close>,
    \<open>rtsp_wire\<close> and \<open>playback\<close> carries over to responses and to all that is played; the program
    releases the receiver only after the last thread.

  \<^bold>\<open>Bounds.\<close>  The theorems on ALAC hold for the parameters below which the arithmetic cannot
  overflow: a Rice modifier of at most 24 and a history multiplier of at most 37; from 32 on the shift is
  undefined (lemma \<open>kmodifier_undefined\<close>), and the sender chooses the modifier.  Local clocks are below
  \<open>2 ^ 62\<close> microseconds for NTP and \<open>2 ^ 61\<close> for PTP, which is far beyond any date.  Configured sizes are those of
  the desktop targets: a receive buffer of 262144 bytes, packets of 1500, a queue of 512.  \<open>char\<close> is
  unsigned where ANNOUNCE is concerned (lemma \<open>sdp_high_char\<close>).  A descriptor is below 1024, as \<open>select\<close> needs.

  \<^bold>\<open>Loops.\<close>  Loops over data are recursions that terminate.  A batch plays at most 16 packets and a poll of the
  receiver takes at most 32 datagrams of a socket, as in the code.  The endless loops of the threads take a
  number of iterations, or the list of the stream states they read, and say whether they have ended; what is shown of
  one iteration from every state that satisfies an invariant holds for any number.  Loops that wait for
  something are partial functions, with a theorem that they return when it comes.

  \<^bold>\<open>Threads.\<close>  A section under a mutex, a poll, and an iteration of the audio thread are single steps; the audio thread
  works on the copy of the stream state that it has made at the start of its iteration.  During a call to
  the platform other threads may write the control block.  \<open>receiver_run\<close> is the closure under such steps in
  any order.  It covers AirPlay 1 streams; for AirPlay 2 there are the properties of single polls and of the
  transports.  \<open>Crypto_Mutex\<close> shows mutual exclusion at the grain of atomic operations.

  \<^bold>\<open>Not modelled.\<close>  The platform layers of macOS, Windows and embedded targets: their sockets and programs repeat
  the structure of Linux over interfaces that are not in the repository (Winsock, lwIP, FreeRTOS), and their
  audio outputs are asynchronous queues of those systems.  The bodies of pthreads, mbedTLS and the AAC library;
  the memory pool of mbedTLS, so that a failure for lack of memory appears only where a primitive reports
  one.  Logging, the tests, and the inline assembly of \<open>alac.c\<close> for counting zeros on some compilers.
\<close>

end
